(* ===== verification/Prelude.thy ===== *)
theory Prelude
  imports Main "HOL-Library.Multiset"
begin

text \<open>
  Shared vocabulary and automation. Names for the scalar types of the service, the collections of
  simplification and introduction rules the component theories fill, and generic facts on lists,
  association maps and keyed rows that more than one component needs.
\<close>

section \<open>Scalar types\<close>

text \<open>
  A \<^verbatim>\<open>uuid.UUID\<close> is read as the number its sixteen bytes spell (the nil uuid is \<open>0\<close>), a
  \<^verbatim>\<open>time.Time\<close> or \<^verbatim>\<open>timestamptz\<close> as microseconds since the epoch, and a principal is a string.
\<close>

type_synonym uuid = nat
type_synonym timestamp = int
type_synonym principal_id = string

section \<open>Collections\<close>

named_theorems sql_run
  \<comment> \<open>equations that run one statement or combinator of the storage layer without faults\<close>
named_theorems sql_safe
  \<comment> \<open>closure rules: a program built from statements behaves well under faults\<close>
named_theorems row_keep
  \<comment> \<open>facts about what an update of a row leaves alone\<close>
named_theorems effects
  \<comment> \<open>definitions of the committed effect of an operation\<close>

section \<open>Lists and options\<close>

lemma find_None_filter: "find P xs = None \<longleftrightarrow> filter P xs = []"
  by (induction xs) auto

lemma find_SomeD: "find P xs = Some x \<Longrightarrow> x \<in> set xs \<and> P x"
  by (induction xs) (auto split: if_splits)

lemma find_append: "find P (xs @ ys) = (case find P xs of None \<Rightarrow> find P ys | Some x \<Rightarrow> Some x)"
  by (induction xs) auto

lemma find_map_keep:
  assumes "\<And>x. P (f x) = P x"
  shows "find P (map f xs) = map_option f (find P xs)"
  using assms by (induction xs) auto

lemma find_unique:
  assumes "x \<in> set xs" and "P x" and "\<And>y. y \<in> set xs \<Longrightarrow> P y \<Longrightarrow> y = x"
  shows "find P xs = Some x"
proof (cases "find P xs")
  case None
  then show ?thesis using assms(1,2) by (auto simp: find_None_iff)
next
  case (Some y)
  then show ?thesis using find_SomeD[OF Some] assms(3) by simp
qed

lemma distinct_map_inj: "distinct (map k xs) \<Longrightarrow> x \<in> set xs \<Longrightarrow> y \<in> set xs \<Longrightarrow> k x = k y \<Longrightarrow> x = y"
  by (induction xs) (auto simp: rev_image_eqI)

lemma mset_eq_find_iff:
  assumes "mset xs = mset ys" and "distinct (map k xs)"
  shows "find (\<lambda>x. k x = i) xs = find (\<lambda>x. k x = i) ys"
proof (cases "find (\<lambda>x. k x = i) xs")
  case None
  then have "\<forall>x \<in> set ys. k x \<noteq> i"
    using mset_eq_setD[OF assms(1)] by (auto simp: find_None_iff)
  then have "find (\<lambda>x. k x = i) ys = None" by (simp add: find_None_iff)
  with None show ?thesis by simp
next
  case (Some x)
  then have x: "x \<in> set xs" "k x = i" by (auto dest: find_SomeD)
  have "find (\<lambda>x. k x = i) ys = Some x"
    using x mset_eq_setD[OF assms(1)] distinct_map_inj[OF assms(2)]
    by (intro find_unique) auto
  with Some show ?thesis by simp
qed

lemma count_filter_map_update:
  "distinct (map k xs) \<Longrightarrow> (\<And>x. x \<in> set xs \<Longrightarrow> k (f x) = k x) \<Longrightarrow> distinct (map k (map f xs))"
  by (simp add: comp_def cong: map_cong)

lemma image_mset_inj_on:
  assumes "inj_on f S" and "set_mset A \<subseteq> S" and "set_mset B \<subseteq> S" and "image_mset f A = image_mset f B"
  shows "A = B"
proof -
  have "inj_on f (set_mset A \<union> set_mset B)"
    using assms(1-3) by (meson inj_on_subset Un_least)
  then obtain C where "A = B + C" and "{#} = image_mset f C"
    using image_mset_eq_image_mset_plusD[of f A B "{#}"] assms(4) by auto
  then show ?thesis by simp
qed

section \<open>Keyed rows: the interface a table offers\<close>

text \<open>
  A table is a collection of rows with a key. The interface is what the repositories rely on:
  a row inserted under a fresh key is the row looked up, an update by key changes that row and no
  other, and every row of the table is the one its key finds. The storage theory provides it with
  lists of rows; the client lemmas below are proved once from the laws.
\<close>

locale keyed_table =
  fixes key :: "'r \<Rightarrow> 'k"
    and lookup :: "'k \<Rightarrow> 't \<Rightarrow> 'r option"
    and ins :: "'r \<Rightarrow> 't \<Rightarrow> 't"
    and upd :: "'k \<Rightarrow> ('r \<Rightarrow> 'r) \<Rightarrow> 't \<Rightarrow> 't"
    and rows :: "'t \<Rightarrow> 'r set"
    and wf :: "'t \<Rightarrow> bool"
  assumes wf_ins: "wf t \<Longrightarrow> lookup (key r) t = None \<Longrightarrow> wf (ins r t)"
    and wf_upd: "wf t \<Longrightarrow> (\<And>r. key (f r) = key r) \<Longrightarrow> wf (upd k f t)"
    and lookup_ins: "wf t \<Longrightarrow> lookup (key r) t = None \<Longrightarrow>
          lookup k (ins r t) = (if k = key r then Some r else lookup k t)"
    and lookup_upd: "(\<And>r. key (f r) = key r) \<Longrightarrow>
          lookup k' (upd k f t) = (if k' = k then map_option f (lookup k t) else lookup k' t)"
    and lookup_rows: "wf t \<Longrightarrow> lookup k t = Some r \<longleftrightarrow> r \<in> rows t \<and> key r = k"
begin

lemma rows_ins: "wf t \<Longrightarrow> lookup (key r) t = None \<Longrightarrow> rows (ins r t) = insert r (rows t)"
proof -
  assume w: "wf t" "lookup (key r) t = None"
  have "x \<in> rows (ins r t) \<longleftrightarrow> lookup (key x) (ins r t) = Some x" for x
    using lookup_rows[OF wf_ins[OF w], of "key x" x] by simp
  also have "\<dots> x \<longleftrightarrow> x = r \<or> x \<in> rows t" for x
    using w lookup_rows[OF w(1), of "key x" x] by (auto simp: lookup_ins)
  finally show ?thesis by blast
qed

lemma rows_upd:
  assumes "wf t" and "\<And>r. key (f r) = key r"
  shows "rows (upd k f t) = {if key r = k then f r else r |r. r \<in> rows t}"
proof -
  have "x \<in> rows (upd k f t) \<longleftrightarrow> lookup (key x) (upd k f t) = Some x" for x
    using lookup_rows[OF wf_upd[OF assms(1)], of f "key x" k x] assms(2) by auto
  also have "\<dots> x \<longleftrightarrow> (\<exists>r \<in> rows t. x = (if key r = k then f r else r))" for x
  proof (cases "key x = k")
    case True
    then have "lookup (key x) (upd k f t) = Some x \<longleftrightarrow> (\<exists>r. lookup k t = Some r \<and> f r = x)"
      by (simp add: lookup_upd[of f, OF assms(2)])
    then show ?thesis
      using True assms by (auto simp: lookup_rows split: if_splits)
  next
    case False
    then have "lookup (key x) (upd k f t) = Some x \<longleftrightarrow> lookup (key x) t = Some x"
      by (simp add: lookup_upd[of f, OF assms(2)])
    then show ?thesis
      using False assms by (auto simp: lookup_rows split: if_splits)
  qed
  finally have iff: "x \<in> rows (upd k f t) \<longleftrightarrow> (\<exists>r \<in> rows t. x = (if key r = k then f r else r))" for x .
  show ?thesis unfolding set_eq_iff mem_Collect_eq iff by blast
qed

lemma all_rows_ins:
  "wf t \<Longrightarrow> lookup (key r) t = None \<Longrightarrow> (\<forall>x \<in> rows (ins r t). P x) \<longleftrightarrow> P r \<and> (\<forall>x \<in> rows t. P x)"
  by (simp add: rows_ins)

lemma all_rows_upd:
  assumes "wf t" and "\<And>r. key (f r) = key r" and "\<forall>x \<in> rows t. P x"
    and "\<And>x. lookup k t = Some x \<Longrightarrow> P x \<Longrightarrow> P (f x)"
  shows "\<forall>x \<in> rows (upd k f t). P x"
  using assms by (auto simp: rows_upd lookup_rows)

lemma upd_missing:
  assumes "wf t" and "\<And>r. key (f r) = key r" and "lookup k t = None"
  shows "rows (upd k f t) = rows t"
proof -
  have "key r \<noteq> k" if "r \<in> rows t" for r
    using that assms(1,3) lookup_rows[of t k r] by auto
  then have "(\<exists>r. x = (if key r = k then f r else r) \<and> r \<in> rows t) \<longleftrightarrow> x \<in> rows t" for x by auto
  then show ?thesis unfolding rows_upd[OF assms(1,2)] by blast
qed

end

end
