(* ===== verification/Lifecycle.thy ===== *)
theory Lifecycle
  imports Prelude
begin

text \<open>
  The lifecycle of a fact (\<^verbatim>\<open>internal/facts/fact.go\<close> and \<^verbatim>\<open>statemachine.go\<close>): the seven statuses, the
  eight named transitions, \<^verbatim>\<open>CanTransition\<close> and \<^verbatim>\<open>IsTerminal\<close>, and the step relation they span.
  \<^verbatim>\<open>CanTransition\<close> is written for what it is in the source, a lookup in a table: no service calls it, and
  the promotion theories compare what the services do with this relation.
\<close>

section \<open>Statuses and transitions\<close>

datatype status =
    StatusProposed
  | StatusInReview
  | StatusActive
  | StatusSuperseded
  | StatusRevoked
  | StatusExpired
  | StatusRejected

fun status_str :: "status \<Rightarrow> string" where
  "status_str StatusProposed = ''proposed''"
| "status_str StatusInReview = ''in_review''"
| "status_str StatusActive = ''active''"
| "status_str StatusSuperseded = ''superseded''"
| "status_str StatusRevoked = ''revoked''"
| "status_str StatusExpired = ''expired''"
| "status_str StatusRejected = ''rejected''"

text \<open>A Go \<^verbatim>\<open>Transition\<close> is a string: any value besides the eight constants is \<open>OtherTransition\<close>.\<close>

datatype transition =
    TransitionSubmit
  | TransitionWithdraw
  | TransitionApprove
  | TransitionReject
  | TransitionRequestChanges
  | TransitionSupersede
  | TransitionRevoke
  | TransitionExpire
  | OtherTransition string

definition allowed :: "transition \<rightharpoonup> status \<times> status" where
  "allowed = map_of
     [(TransitionSubmit, (StatusProposed, StatusInReview)),
      (TransitionWithdraw, (StatusProposed, StatusRejected)),
      (TransitionApprove, (StatusInReview, StatusActive)),
      (TransitionReject, (StatusInReview, StatusRejected)),
      (TransitionRequestChanges, (StatusInReview, StatusProposed)),
      (TransitionSupersede, (StatusActive, StatusSuperseded)),
      (TransitionRevoke, (StatusActive, StatusRevoked)),
      (TransitionExpire, (StatusActive, StatusExpired))]"

definition terminal_statuses :: "status list" where
  "terminal_statuses = [StatusSuperseded, StatusRevoked, StatusExpired, StatusRejected]"

text \<open>\<^verbatim>\<open>("", false)\<close> of the source is \<open>None\<close>.\<close>

definition can_transition :: "status \<Rightarrow> transition \<Rightarrow> status option" where
  "can_transition current t =
     (case allowed t of
        None \<Rightarrow> None
      | Some (fr, to) \<Rightarrow> if fr \<noteq> current then None else Some to)"

definition is_terminal :: "status \<Rightarrow> bool" where
  "is_terminal s \<longleftrightarrow> s \<in> set terminal_statuses"

section \<open>The lifecycle as a relation\<close>

inductive life_step :: "status \<Rightarrow> status \<Rightarrow> bool" where
  "can_transition s t = Some s' \<Longrightarrow> life_step s s'"

definition life_reach :: "status \<Rightarrow> status \<Rightarrow> bool" where
  "life_reach = life_step\<^sup>*\<^sup>*"

lemma allowed_simps [simp]:
  "allowed TransitionSubmit = Some (StatusProposed, StatusInReview)"
  "allowed TransitionWithdraw = Some (StatusProposed, StatusRejected)"
  "allowed TransitionApprove = Some (StatusInReview, StatusActive)"
  "allowed TransitionReject = Some (StatusInReview, StatusRejected)"
  "allowed TransitionRequestChanges = Some (StatusInReview, StatusProposed)"
  "allowed TransitionSupersede = Some (StatusActive, StatusSuperseded)"
  "allowed TransitionRevoke = Some (StatusActive, StatusRevoked)"
  "allowed TransitionExpire = Some (StatusActive, StatusExpired)"
  "allowed (OtherTransition x) = None"
  by (simp_all add: allowed_def)

lemma is_terminal_simps [simp]:
  "\<not> is_terminal StatusProposed" "\<not> is_terminal StatusInReview" "\<not> is_terminal StatusActive"
  "is_terminal StatusSuperseded" "is_terminal StatusRevoked" "is_terminal StatusExpired"
  "is_terminal StatusRejected"
  by (simp_all add: is_terminal_def terminal_statuses_def)

lemma status_str_inj [simp]: "status_str a = status_str b \<longleftrightarrow> a = b"
  by (cases a; cases b) simp_all

lemma can_transition_Some:
  "can_transition s t = Some s' \<longleftrightarrow> allowed t = Some (s, s')"
  by (auto simp: can_transition_def split: option.splits)

lemma can_transition_cases:
  "can_transition s t = Some s' \<longleftrightarrow>
     (t, s, s') \<in> {(TransitionSubmit, StatusProposed, StatusInReview),
       (TransitionWithdraw, StatusProposed, StatusRejected),
       (TransitionApprove, StatusInReview, StatusActive),
       (TransitionReject, StatusInReview, StatusRejected),
       (TransitionRequestChanges, StatusInReview, StatusProposed),
       (TransitionSupersede, StatusActive, StatusSuperseded),
       (TransitionRevoke, StatusActive, StatusRevoked),
       (TransitionExpire, StatusActive, StatusExpired)}"
  by (cases t) (auto simp: can_transition_Some)

lemma life_step_iff:
  "life_step s s' \<longleftrightarrow>
     (s, s') \<in> {(StatusProposed, StatusInReview), (StatusProposed, StatusRejected),
       (StatusInReview, StatusActive), (StatusInReview, StatusRejected),
       (StatusInReview, StatusProposed), (StatusActive, StatusSuperseded),
       (StatusActive, StatusRevoked), (StatusActive, StatusExpired)}"
proof -
  have "life_step s s' \<longleftrightarrow> (\<exists>t. can_transition s t = Some s')"
    by (simp add: life_step.simps)
  then show ?thesis
    unfolding can_transition_cases by (simp only: insert_iff prod.inject empty_iff) blast
qed

inductive_simps life_step_from_terminal: "life_step StatusRevoked s"

text \<open>A fact that has been active never becomes a candidate again.\<close>

definition was_active :: "status \<Rightarrow> bool" where
  "was_active s \<longleftrightarrow> s \<in> {StatusActive, StatusSuperseded, StatusRevoked, StatusExpired}"

lemma life_step_was_active: "life_step s s' \<Longrightarrow> was_active s \<Longrightarrow> was_active s'"
  by (auto simp: life_step_iff was_active_def)

lemma life_reach_was_active: "life_reach s s' \<Longrightarrow> was_active s \<Longrightarrow> was_active s'"
  unfolding life_reach_def
  by (induction rule: rtranclp_induct) (auto dest: life_step_was_active)

lemma life_reach_terminal: "life_reach s s' \<Longrightarrow> is_terminal s \<Longrightarrow> s' = s"
  unfolding life_reach_def
  by (induction rule: converse_rtranclp_induct) (auto simp: life_step_iff)

section \<open>Properties\<close>

text \<open>
  The terminal statuses are exactly those \<^verbatim>\<open>CanTransition\<close> lets nothing leave, a status is
  terminal exactly when no number of legal transitions leads away from it, and every status is reachable from \<open>proposed\<close>.
\<close>

lemma lifecycle_terminal:
  "(is_terminal s \<longleftrightarrow> (\<forall>t. can_transition s t = None)) \<and>
   (is_terminal s \<longleftrightarrow> {s'. life_reach s s'} = {s}) \<and>
   life_reach StatusProposed s"
proof (intro conjI impI allI)
  show "is_terminal s \<longleftrightarrow> (\<forall>t. can_transition s t = None)"
  proof (cases s)
    case StatusProposed
    have "can_transition StatusProposed TransitionSubmit \<noteq> None" by (simp add: can_transition_def)
    with StatusProposed show ?thesis by auto
  next
    case StatusInReview
    have "can_transition StatusInReview TransitionApprove \<noteq> None" by (simp add: can_transition_def)
    with StatusInReview show ?thesis by auto
  next
    case StatusActive
    have "can_transition StatusActive TransitionRevoke \<noteq> None" by (simp add: can_transition_def)
    with StatusActive show ?thesis by auto
  qed (auto simp: can_transition_cases simp flip: not_Some_eq)
next
  have "s' \<noteq> s \<Longrightarrow> life_step s s' \<Longrightarrow> {s'. life_reach s s'} \<noteq> {s}" for s'
    by (auto simp: life_reach_def intro: r_into_rtranclp)
  moreover have "life_step StatusProposed StatusInReview" "life_step StatusInReview StatusActive"
    "life_step StatusActive StatusRevoked"
    by (simp_all add: life_step_iff)
  ultimately have "\<not> is_terminal s \<Longrightarrow> {s'. life_reach s s'} \<noteq> {s}"
    by (cases s) (auto simp: is_terminal_def terminal_statuses_def)
  then show "is_terminal s \<longleftrightarrow> {s'. life_reach s s'} = {s}"
    using life_reach_terminal[of s] by (auto simp: life_reach_def)
next
  have "life_step StatusProposed StatusInReview" "life_step StatusInReview StatusActive"
    by (simp_all add: life_step_iff)
  then have a: "life_reach StatusProposed StatusInReview" "life_reach StatusProposed StatusActive"
    unfolding life_reach_def by (auto intro: converse_rtranclp_into_rtranclp)
  have "life_step StatusActive x \<Longrightarrow> life_reach StatusProposed x" for x
    using a(2) unfolding life_reach_def by (rule rtranclp.rtrancl_into_rtrancl)
  moreover have "life_step StatusInReview x \<Longrightarrow> life_reach StatusProposed x" for x
    using a(1) unfolding life_reach_def by (rule rtranclp.rtrancl_into_rtrancl)
  ultimately show "life_reach StatusProposed s"
    using a by (cases s) (auto simp: life_step_iff life_reach_def)
qed

end
