(* ===== verification/Sql.thy ===== *)
theory Sql
  imports Lifecycle
begin

text \<open>
  What the service relies on in PostgreSQL and its driver: statements that run or fail, a transaction
  that is aborted by the first statement the server refuses, and commit or rollback of the whole. A
  program over the store is a function of a session: the store, the flag of an aborted transaction and
  the faults to come. The list \<open>faults\<close> decides, statement by statement, whether the server or the
  network fails (an empty list: nothing fails any more), so a result proved for every list holds for
  every pattern of outages. A commit that reports an error has not committed. Values of type
  \<open>error\<close> are the errors of every package of the service.
\<close>

section \<open>Errors\<close>

datatype error =
    ErrDriver
  | ErrConstraint
  | ErrTxAborted
  | ErrCommitRollback
  | ErrFactNotFound
  | ErrPromotionNotFound
  | ErrNamespaceNotFound
  | ErrNotProposer
  | ErrInvalidState
  | ErrSelfApproval
  | ErrInvalidSubject
  | ErrVersionConflict
  | ErrCannotRevoke status
  | ErrInvalidRole string
  | ErrUnknownEngine string
  | ErrRules
  | ErrMarshal
  | ErrUnmarshal
  | ErrMemoryNotFound
  | ErrMemoryStatus int
  | ErrMemoryIO
  | ErrMemoryDecode
  | ErrEmbed

section \<open>Sessions and programs\<close>

record 'db session =
  store :: 'db
  aborted :: bool
  faults :: "bool list"

type_synonym ('db, 'a) sql = "'db session \<Rightarrow> (error + 'a) \<times> 'db session"

fun pop_fault :: "bool list \<Rightarrow> bool \<times> bool list" where
  "pop_fault [] = (False, [])"
| "pop_fault (b # bs) = (b, bs)"

text \<open>
  One statement: refused in an aborted transaction; otherwise a fault or a refusal by the server
  aborts the transaction, and a success gives a value and the new store.
\<close>

definition stmt :: "('db \<Rightarrow> error + 'a \<times> 'db) \<Rightarrow> ('db, 'a) sql" where
  "stmt f s =
     (if aborted s then (Inl ErrTxAborted, s)
      else case pop_fault (faults s) of
        (True, fs) \<Rightarrow> (Inl ErrDriver, s\<lparr>aborted := True, faults := fs\<rparr>)
      | (False, fs) \<Rightarrow>
          (case f (store s) of
             Inl e \<Rightarrow> (Inl e, s\<lparr>aborted := True, faults := fs\<rparr>)
           | Inr (a, d) \<Rightarrow> (Inr a, s\<lparr>store := d, faults := fs\<rparr>)))"

definition query :: "('db \<Rightarrow> 'a) \<Rightarrow> ('db, 'a) sql" where
  "query f = stmt (\<lambda>d. Inr (f d, d))"

definition return_sql :: "'a \<Rightarrow> ('db, 'a) sql" where
  "return_sql a s = (Inr a, s)"

definition fail_sql :: "error \<Rightarrow> ('db, 'a) sql" where
  "fail_sql e s = (Inl e, s)"

definition bind_sql :: "('db, 'a) sql \<Rightarrow> ('a \<Rightarrow> ('db, 'b) sql) \<Rightarrow> ('db, 'b) sql" where
  "bind_sql m f s = (case m s of (Inl e, s') \<Rightarrow> (Inl e, s') | (Inr a, s') \<Rightarrow> f a s')"

text \<open>\<^verbatim>\<open>err := m\<close>, the error kept as a value for the code that follows.\<close>

definition attempt :: "('db, 'a) sql \<Rightarrow> ('db, error + 'a) sql" where
  "attempt m s = (case m s of (r, s') \<Rightarrow> (Inr r, s'))"

text \<open>\<^verbatim>\<open>if errors.Is(err, e) { absent } else if err != nil { return err }\<close>.\<close>

definition absent_on :: "error \<Rightarrow> ('db, 'a) sql \<Rightarrow> ('db, 'a option) sql" where
  "absent_on e m s =
     (case m s of
        (Inr a, s') \<Rightarrow> (Inr (Some a), s')
      | (Inl e', s') \<Rightarrow> (if e' = e then (Inr None, s') else (Inl e', s')))"

text \<open>
  \<^verbatim>\<open>inTx\<close>: begin, run, and commit when the body returned no error, else roll back. The commit of an
  aborted transaction is a rollback, which the driver reports as an error.
\<close>

definition in_tx :: "('db, 'a) sql \<Rightarrow> ('db, 'a) sql" where
  "in_tx m s =
     (case pop_fault (faults s) of
        (True, fs) \<Rightarrow> (Inl ErrDriver, s\<lparr>faults := fs\<rparr>)
      | (False, fs) \<Rightarrow>
          (case m (s\<lparr>aborted := False, faults := fs\<rparr>) of
             (Inl e, s1) \<Rightarrow> (Inl e, s\<lparr>faults := faults s1\<rparr>)
           | (Inr a, s1) \<Rightarrow>
               if aborted s1 then (Inl ErrCommitRollback, s\<lparr>faults := faults s1\<rparr>)
               else case pop_fault (faults s1) of
                 (True, fs') \<Rightarrow> (Inl ErrDriver, s\<lparr>faults := fs'\<rparr>)
               | (False, fs') \<Rightarrow> (Inr a, s\<lparr>store := store s1, faults := fs'\<rparr>)))"

text \<open>A single statement issued on the pool, outside any transaction: it commits by itself.\<close>

definition on_pool :: "('db, 'a) sql \<Rightarrow> ('db, 'a) sql" where
  "on_pool m s = (case m (s\<lparr>aborted := False\<rparr>) of (r, s1) \<Rightarrow> (r, s1\<lparr>aborted := False\<rparr>))"

definition run :: "('db, 'a) sql \<Rightarrow> bool list \<Rightarrow> 'db \<Rightarrow> (error + 'a) \<times> 'db" where
  "run m fs d = (case m \<lparr>store = d, aborted = False, faults = fs\<rparr> of (r, s) \<Rightarrow> (r, store s))"

section \<open>Running without faults\<close>

lemma stmt_run [sql_run]:
  "stmt f \<lparr>store = d, aborted = False, faults = []\<rparr> =
     (case f d of
        Inl e \<Rightarrow> (Inl e, \<lparr>store = d, aborted = True, faults = []\<rparr>)
      | Inr (a, d') \<Rightarrow> (Inr a, \<lparr>store = d', aborted = False, faults = []\<rparr>))"
  by (simp add: stmt_def split: sum.split prod.split)

lemma stmt_aborted [sql_run]:
  "stmt f \<lparr>store = d, aborted = True, faults = fs\<rparr> = (Inl ErrTxAborted, \<lparr>store = d, aborted = True, faults = fs\<rparr>)"
  by (simp add: stmt_def)

lemma query_run [sql_run]:
  "query f \<lparr>store = d, aborted = False, faults = []\<rparr> = (Inr (f d), \<lparr>store = d, aborted = False, faults = []\<rparr>)"
  "query f \<lparr>store = d, aborted = True, faults = fs\<rparr> = (Inl ErrTxAborted, \<lparr>store = d, aborted = True, faults = fs\<rparr>)"
  by (simp_all add: query_def stmt_def)

lemma in_tx_run [sql_run]:
  "in_tx m \<lparr>store = d, aborted = False, faults = []\<rparr> =
     (case m \<lparr>store = d, aborted = False, faults = []\<rparr> of
        (Inl e, s1) \<Rightarrow> (Inl e, \<lparr>store = d, aborted = False, faults = faults s1\<rparr>)
      | (Inr a, s1) \<Rightarrow>
          if aborted s1 then (Inl ErrCommitRollback, \<lparr>store = d, aborted = False, faults = faults s1\<rparr>)
          else case pop_fault (faults s1) of
            (True, fs') \<Rightarrow> (Inl ErrDriver, \<lparr>store = d, aborted = False, faults = fs'\<rparr>)
          | (False, fs') \<Rightarrow> (Inr a, \<lparr>store = store s1, aborted = False, faults = fs'\<rparr>))"
  by (simp add: in_tx_def split: sum.split prod.split bool.split)

declare return_sql_def [sql_run] fail_sql_def [sql_run] bind_sql_def [sql_run]
  attempt_def [sql_run] absent_on_def [sql_run] on_pool_def [sql_run] run_def [sql_run]

section \<open>Programs under faults\<close>

text \<open>
  A transaction body is well behaved when an aborted session stays aborted with its store
  untouched, and when a run that ends unaborted is the run without faults. Every combinator keeps
  this, so it holds of a body by the shape of its code.
\<close>

definition well_behaved :: "('db, 'a) sql \<Rightarrow> bool" where
  "well_behaved m \<longleftrightarrow>
     (\<forall>s. aborted s \<longrightarrow> aborted (snd (m s)) \<and> store (snd (m s)) = store s) \<and>
     (\<forall>s. \<not> aborted s \<longrightarrow> \<not> aborted (snd (m s)) \<longrightarrow>
        m \<lparr>store = store s, aborted = False, faults = []\<rparr> =
          (fst (m s), \<lparr>store = store (snd (m s)), aborted = False, faults = []\<rparr>))"

lemma session_eta: "\<not> aborted s \<Longrightarrow> s = \<lparr>store = store s, aborted = False, faults = faults s\<rparr>"
  by (cases s) simp

lemma well_behaved_stmt [sql_safe]: "well_behaved (stmt f)"
  unfolding well_behaved_def
proof (intro conjI allI impI)
  fix s :: "'a session" assume "\<not> aborted s" "\<not> aborted (snd (stmt f s))"
  then show "stmt f \<lparr>store = store s, aborted = False, faults = []\<rparr> =
    (fst (stmt f s), \<lparr>store = store (snd (stmt f s)), aborted = False, faults = []\<rparr>)"
    by (cases "f (store s)") (auto simp: stmt_def split: prod.splits bool.splits)
qed (auto simp: stmt_def)

lemma well_behaved_query [sql_safe]: "well_behaved (query f)"
  unfolding query_def by (rule well_behaved_stmt)

lemma well_behaved_return [sql_safe]: "well_behaved (return_sql a)"
  by (simp add: well_behaved_def return_sql_def)

lemma well_behaved_fail [sql_safe]: "well_behaved (fail_sql e)"
  by (simp add: well_behaved_def fail_sql_def)

lemma well_behaved_bind [sql_safe]:
  assumes m: "well_behaved m" and f: "\<And>a. well_behaved (f a)"
  shows "well_behaved (bind_sql m f)"
  unfolding well_behaved_def
proof (intro conjI allI impI)
  fix s :: "'a session" assume s: "aborted s"
  obtain r s1 where r: "m s = (r, s1)" by (cases "m s")
  then have "aborted s1" "store s1 = store s" using m s by (auto simp: well_behaved_def dest: spec[of _ s])
  then show "aborted (snd (bind_sql m f s))" "store (snd (bind_sql m f s)) = store s"
    using r f by (cases r; auto simp: bind_sql_def well_behaved_def)+
next
  fix s :: "'a session" assume s: "\<not> aborted s" "\<not> aborted (snd (bind_sql m f s))"
  obtain r s1 where r: "m s = (r, s1)" by (cases "m s")
  have s1: "\<not> aborted s1"
    using s r f by (cases r) (auto simp: bind_sql_def well_behaved_def)
  then have m0: "m \<lparr>store = store s, aborted = False, faults = []\<rparr> = (r, \<lparr>store = store s1, aborted = False, faults = []\<rparr>)"
    using m s(1) r by (auto simp: well_behaved_def dest: spec[of _ s])
  show "bind_sql m f \<lparr>store = store s, aborted = False, faults = []\<rparr> =
    (fst (bind_sql m f s), \<lparr>store = store (snd (bind_sql m f s)), aborted = False, faults = []\<rparr>)"
  proof (cases r)
    case (Inl e)
    with r m0 show ?thesis by (simp add: bind_sql_def)
  next
    case (Inr a)
    then have b: "bind_sql m f s = f a s1" using r by (simp add: bind_sql_def)
    then have "f a \<lparr>store = store s1, aborted = False, faults = []\<rparr> =
        (fst (f a s1), \<lparr>store = store (snd (f a s1)), aborted = False, faults = []\<rparr>)"
      using f[of a] s(2) s1 by (simp add: well_behaved_def)
    with Inr m0 b show ?thesis by (simp add: bind_sql_def)
  qed
qed

lemma well_behaved_attempt [sql_safe]: "well_behaved m \<Longrightarrow> well_behaved (attempt m)"
  by (auto simp: well_behaved_def attempt_def split: prod.splits)

lemma well_behaved_absent_on [sql_safe]: "well_behaved m \<Longrightarrow> well_behaved (absent_on e m)"
  unfolding well_behaved_def absent_on_def
  by (auto split: prod.splits sum.splits)

text \<open>A read leaves the store alone.\<close>

definition read_only :: "('db, 'a) sql \<Rightarrow> bool" where
  "read_only m \<longleftrightarrow> (\<forall>s. store (snd (m s)) = store s)"

lemma read_only_query [sql_safe]: "read_only (query f)"
  by (auto simp: read_only_def query_def stmt_def split: prod.splits bool.splits)

lemma read_only_return [sql_safe]: "read_only (return_sql a)"
  by (simp add: read_only_def return_sql_def)

lemma read_only_fail [sql_safe]: "read_only (fail_sql e)"
  by (simp add: read_only_def fail_sql_def)

lemma read_only_bind [sql_safe]:
  assumes "read_only m" and "\<And>a. read_only (f a)"
  shows "read_only (bind_sql m f)"
  using assms by (auto simp: read_only_def bind_sql_def split: prod.split sum.split) (metis snd_conv)+

lemma read_only_absent_on [sql_safe]: "read_only m \<Longrightarrow> read_only (absent_on e m)"
  by (auto simp: read_only_def absent_on_def split: prod.split sum.split) (metis snd_conv)+

lemma read_only_attempt [sql_safe]: "read_only m \<Longrightarrow> read_only (attempt m)"
  by (auto simp: read_only_def attempt_def split: prod.split) (metis snd_conv)

lemma read_only_on_pool [sql_safe]: "read_only m \<Longrightarrow> read_only (on_pool m)"
  by (auto simp: read_only_def on_pool_def split: prod.split)
    (metis session.select_convs(1) session.surjective session.update_convs(2) snd_conv)

text \<open>
  A unit of work is a program run from a session outside a transaction. It is all or nothing
  when an error means the store is as before, and a success is the success of the run without
  faults.
\<close>

definition all_or_nothing :: "('db, 'a) sql \<Rightarrow> bool" where
  "all_or_nothing m \<longleftrightarrow>
     (\<forall>s. \<not> aborted s \<longrightarrow> \<not> aborted (snd (m s)) \<and>
        (case fst (m s) of
           Inl e \<Rightarrow> store (snd (m s)) = store s
         | Inr a \<Rightarrow> m \<lparr>store = store s, aborted = False, faults = []\<rparr> =
                    (Inr a, \<lparr>store = store (snd (m s)), aborted = False, faults = []\<rparr>)))"

lemma all_or_nothing_run:
  assumes "all_or_nothing m" and "run m fs d = (r, d')"
  shows "case r of Inl e \<Rightarrow> d' = d | Inr a \<Rightarrow> run m [] d = (Inr a, d')"
  using assms(2) assms(1)[unfolded all_or_nothing_def, rule_format, of "\<lparr>store = d, aborted = False, faults = fs\<rparr>"]
  by (cases r) (auto simp: run_def split: prod.splits)

lemma all_or_nothing_in_tx [sql_safe]:
  assumes "well_behaved m"
  shows "all_or_nothing (in_tx m)"
  unfolding all_or_nothing_def
proof (intro allI impI)
  fix s :: "'a session" assume s: "\<not> aborted s"
  obtain bad fs where p: "pop_fault (faults s) = (bad, fs)" by fastforce
  obtain r s1 where m: "m (s\<lparr>aborted := False, faults := fs\<rparr>) = (r, s1)" by fastforce
  obtain bad' fs' where p': "pop_fault (faults s1) = (bad', fs')" by fastforce
  show "\<not> aborted (snd (in_tx m s)) \<and>
     (case fst (in_tx m s) of
        Inl e \<Rightarrow> store (snd (in_tx m s)) = store s
      | Inr a \<Rightarrow> in_tx m \<lparr>store = store s, aborted = False, faults = []\<rparr> =
          (Inr a, \<lparr>store = store (snd (in_tx m s)), aborted = False, faults = []\<rparr>))"
  proof (cases "bad \<or> (\<exists>e. r = Inl e) \<or> aborted s1 \<or> bad'")
    case True
    then show ?thesis using s p m p'
      by (auto simp: in_tx_def split: bool.split sum.split)
  next
    case False
    then obtain a where a: "r = Inr a" by (cases r) auto
    have "m \<lparr>store = store s, aborted = False, faults = []\<rparr> =
        (Inr a, \<lparr>store = store s1, aborted = False, faults = []\<rparr>)"
      using assms m a False
      unfolding well_behaved_def by (force dest: spec[of _ "s\<lparr>aborted := False, faults := fs\<rparr>"])
    then show ?thesis using s p m p' False a by (simp add: in_tx_def)
  qed
qed

lemma all_or_nothing_on_pool_stmt [sql_safe]: "all_or_nothing (on_pool (stmt f))"
  unfolding all_or_nothing_def
proof (intro allI impI)
  fix s :: "'a session" assume s: "\<not> aborted s"
  obtain bad fs where p: "pop_fault (faults s) = (bad, fs)" by fastforce
  show "\<not> aborted (snd (on_pool (stmt f) s)) \<and>
     (case fst (on_pool (stmt f) s) of
        Inl e \<Rightarrow> store (snd (on_pool (stmt f) s)) = store s
      | Inr a \<Rightarrow> on_pool (stmt f) \<lparr>store = store s, aborted = False, faults = []\<rparr> =
          (Inr a, \<lparr>store = store (snd (on_pool (stmt f) s)), aborted = False, faults = []\<rparr>))"
    using s p by (cases "f (store s)") (auto simp: on_pool_def stmt_def split: bool.split)
qed

text \<open>\<^verbatim>\<open>scanOne\<close>: a query for one row, with no row reported as the package's not-found error.\<close>

definition fetch :: "error \<Rightarrow> ('db \<Rightarrow> 'a option) \<Rightarrow> ('db, 'a) sql" where
  "fetch e g = bind_sql (query g) (\<lambda>r. case r of None \<Rightarrow> fail_sql e | Some x \<Rightarrow> return_sql x)"

lemma fetch_run [sql_run]:
  "fetch e g \<lparr>store = d, aborted = False, faults = []\<rparr> =
     (case g d of None \<Rightarrow> Inl e | Some x \<Rightarrow> Inr x, \<lparr>store = d, aborted = False, faults = []\<rparr>)"
  "fetch e g \<lparr>store = d, aborted = True, faults = fs\<rparr> =
     (Inl ErrTxAborted, \<lparr>store = d, aborted = True, faults = fs\<rparr>)"
  by (simp_all add: fetch_def sql_run split: option.split)

lemma well_behaved_fetch [sql_safe]: "well_behaved (fetch e g)"
  unfolding fetch_def by (intro sql_safe) (auto intro: sql_safe split: option.split)

lemma read_only_fetch [sql_safe]: "read_only (fetch e g)"
  unfolding fetch_def by (intro sql_safe) (auto intro: sql_safe split: option.split)

lemma all_or_nothing_return [sql_safe]: "all_or_nothing (return_sql a)"
  by (simp add: all_or_nothing_def return_sql_def)

lemma all_or_nothing_fail [sql_safe]: "all_or_nothing (fail_sql e)"
  by (simp add: all_or_nothing_def fail_sql_def)

lemma all_or_nothing_query [sql_safe]: "all_or_nothing (on_pool (query f))"
  unfolding query_def by (rule all_or_nothing_on_pool_stmt)

lemma all_or_nothing_fetch [sql_safe]: "all_or_nothing (on_pool (fetch e g))"
  unfolding all_or_nothing_def
proof (intro allI impI)
  fix s :: "'a session" assume s: "\<not> aborted s"
  obtain bad fs where p: "pop_fault (faults s) = (bad, fs)" by fastforce
  show "\<not> aborted (snd (on_pool (fetch e g) s)) \<and>
     (case fst (on_pool (fetch e g) s) of
        Inl e' \<Rightarrow> store (snd (on_pool (fetch e g) s)) = store s
      | Inr a \<Rightarrow> on_pool (fetch e g) \<lparr>store = store s, aborted = False, faults = []\<rparr> =
          (Inr a, \<lparr>store = store (snd (on_pool (fetch e g) s)), aborted = False, faults = []\<rparr>))"
    using s p by (cases bad; cases "g (store s)")
      (auto simp: on_pool_def fetch_def query_def stmt_def bind_sql_def fail_sql_def return_sql_def)
qed

lemma all_or_nothing_absent_fetch [sql_safe]:
  assumes "e \<noteq> ErrDriver"
  shows "all_or_nothing (absent_on e (on_pool (fetch e g)))"
  unfolding all_or_nothing_def
proof (intro allI impI)
  fix s :: "'a session" assume s: "\<not> aborted s"
  let ?m = "absent_on e (on_pool (fetch e g))"
  obtain bad fs where p: "pop_fault (faults s) = (bad, fs)" by fastforce
  show "\<not> aborted (snd (?m s)) \<and>
     (case fst (?m s) of
        Inl e' \<Rightarrow> store (snd (?m s)) = store s
      | Inr a \<Rightarrow> ?m \<lparr>store = store s, aborted = False, faults = []\<rparr> =
          (Inr a, \<lparr>store = store (snd (?m s)), aborted = False, faults = []\<rparr>))"
    using s p assms by (cases bad; cases "g (store s)")
      (auto simp: absent_on_def on_pool_def fetch_def query_def stmt_def bind_sql_def fail_sql_def return_sql_def)
qed

lemma all_or_nothing_bind [sql_safe]:
  assumes m: "all_or_nothing m" "read_only m" and f: "\<And>a. all_or_nothing (f a)"
  shows "all_or_nothing (bind_sql m f)"
  unfolding all_or_nothing_def
proof (intro allI impI)
  fix s :: "'a session" assume s: "\<not> aborted s"
  obtain r s1 where r: "m s = (r, s1)" by fastforce
  have s1: "store s1 = store s" "\<not> aborted s1"
    using m s r by (auto simp: read_only_def all_or_nothing_def dest: spec[of _ s])
  show "\<not> aborted (snd (bind_sql m f s)) \<and>
     (case fst (bind_sql m f s) of
        Inl e \<Rightarrow> store (snd (bind_sql m f s)) = store s
      | Inr a \<Rightarrow> bind_sql m f \<lparr>store = store s, aborted = False, faults = []\<rparr> =
          (Inr a, \<lparr>store = store (snd (bind_sql m f s)), aborted = False, faults = []\<rparr>))"
  proof (cases r)
    case (Inl e)
    then show ?thesis using r s1 by (simp add: bind_sql_def)
  next
    case (Inr a)
    then have m0: "m \<lparr>store = store s, aborted = False, faults = []\<rparr> =
        (Inr a, \<lparr>store = store s, aborted = False, faults = []\<rparr>)"
      using m(1)[unfolded all_or_nothing_def, rule_format, OF s] r s1(1) by simp
    have b: "bind_sql m f s = f a s1" using r Inr by (simp add: bind_sql_def)
    have fa: "\<not> aborted (snd (f a s1)) \<and>
       (case fst (f a s1) of
          Inl e \<Rightarrow> store (snd (f a s1)) = store s1
        | Inr b \<Rightarrow> f a \<lparr>store = store s1, aborted = False, faults = []\<rparr> =
            (Inr b, \<lparr>store = store (snd (f a s1)), aborted = False, faults = []\<rparr>))"
      using f[of a] s1(2) unfolding all_or_nothing_def by blast
    have b0: "bind_sql m f \<lparr>store = store s, aborted = False, faults = []\<rparr> =
        f a \<lparr>store = store s1, aborted = False, faults = []\<rparr>"
      unfolding s1(1) by (simp only: bind_sql_def m0 prod.case sum.case)
    from fa show ?thesis unfolding s1(1) b b0 .
  qed
qed

text \<open>
  What a unit of work promises its caller: an error changed nothing, and a result is the result
  of the run without faults. The services use this to reason about the run without faults only.
\<close>

lemma all_or_nothing_error:
  "all_or_nothing m \<Longrightarrow> run m fs d = (Inl e, d') \<Longrightarrow> d' = d"
  by (drule (1) all_or_nothing_run) simp

lemma all_or_nothing_success:
  "all_or_nothing m \<Longrightarrow> run m fs d = (Inr a, d') \<Longrightarrow> run m [] d = (Inr a, d')"
  by (drule (1) all_or_nothing_run) simp


section \<open>Clean runs\<close>

text \<open>
  \<open>exec m d a d'\<close>: from the store \<open>d\<close>, with nothing failing, the program answers \<open>a\<close> and leaves \<open>d'\<close> in
  a live session. A committed transaction is a clean run of its body, so what a service does to the
  store is what the clean runs of its bodies do; the equations below take such a run apart.
\<close>

definition exec :: "('db, 'a) sql \<Rightarrow> 'db \<Rightarrow> 'a \<Rightarrow> 'db \<Rightarrow> bool" where
  "exec m d a d' \<longleftrightarrow>
     m \<lparr>store = d, aborted = False, faults = []\<rparr> = (Inr a, \<lparr>store = d', aborted = False, faults = []\<rparr>)"

named_theorems sql_exec
  \<comment> \<open>equations that take a clean run apart\<close>

lemma exec_stmt [sql_exec]: "exec (stmt f) d a d' \<longleftrightarrow> f d = Inr (a, d')"
  by (cases "f d") (auto simp: exec_def sql_run)

lemma exec_query [sql_exec]: "exec (query g) d a d' \<longleftrightarrow> a = g d \<and> d' = d"
  by (auto simp: exec_def sql_run)

lemma exec_return [sql_exec]: "exec (return_sql x) d a d' \<longleftrightarrow> a = x \<and> d' = d"
  by (auto simp: exec_def sql_run)

lemma exec_fail [sql_exec]: "exec (fail_sql e) d a d' \<longleftrightarrow> False"
  by (simp add: exec_def sql_run)

lemma exec_fetch [sql_exec]: "exec (fetch e g) d a d' \<longleftrightarrow> g d = Some a \<and> d' = d"
  by (auto simp: exec_def sql_run split: option.split)

lemma exec_absent_fetch [sql_exec]: "exec (absent_on e (fetch e g)) d a d' \<longleftrightarrow> a = g d \<and> d' = d"
  by (auto simp: exec_def sql_run split: option.split)

lemma exec_bind [sql_exec]:
  assumes "well_behaved m" and "\<And>a. well_behaved (f a)"
  shows "exec (bind_sql m f) d b d'' \<longleftrightarrow> (\<exists>a d'. exec m d a d' \<and> exec (f a) d' b d'')"
proof
  assume x: "exec (bind_sql m f) d b d''"
  let ?s = "\<lparr>store = d, aborted = False, faults = []\<rparr>"
  obtain a s1 where m: "m ?s = (Inr a, s1)" and
    fa: "f a s1 = (Inr b, \<lparr>store = d'', aborted = False, faults = []\<rparr>)"
    using x by (cases "m ?s"; cases "fst (m ?s)") (auto simp: exec_def bind_sql_def)
  have live: "\<not> aborted s1"
    using assms(2)[of a] fa by (auto simp: well_behaved_def dest: spec[of _ s1])
  then have "s1 = \<lparr>store = store s1, aborted = False, faults = []\<rparr>"
    using assms(1) m by (auto simp: well_behaved_def dest: spec[of _ ?s])
  with m fa show "\<exists>a d'. exec m d a d' \<and> exec (f a) d' b d''"
    unfolding exec_def by metis
qed (auto simp: exec_def bind_sql_def)

lemma exec_bindE:
  assumes "exec (bind_sql m f) d b d''" and "well_behaved m" and "\<And>a. well_behaved (f a)"
  obtains a d' where "exec m d a d'" and "exec (f a) d' b d''"
  using assms by (auto simp: exec_bind)

lemma run_in_tx_Inr:
  assumes "well_behaved m" and "run (in_tx m) fs d = (Inr a, d')"
  shows "exec m d a d'"
proof -
  have "run (in_tx m) [] d = (Inr a, d')"
    using all_or_nothing_success[OF all_or_nothing_in_tx[OF assms(1)] assms(2)] .
  moreover obtain r s1 where m: "m \<lparr>store = d, aborted = False, faults = []\<rparr> = (r, s1)" by fastforce
  ultimately have r: "r = Inr a" "\<not> aborted s1" "store s1 = d'"
    by (auto simp: run_def in_tx_run split: sum.splits if_splits prod.splits bool.splits)
  then have "s1 = \<lparr>store = store s1, aborted = False, faults = []\<rparr>"
    using assms(1) m by (auto simp: well_behaved_def dest: spec[of _ "\<lparr>store = d, aborted = False, faults = []\<rparr>"])
  with m r show ?thesis by (simp add: exec_def)
qed

lemma exec_in_tx [sql_exec]: "well_behaved m \<Longrightarrow> exec (in_tx m) d a d' \<longleftrightarrow> exec m d a d'"
proof
  assume "well_behaved m" "exec (in_tx m) d a d'"
  then show "exec m d a d'" by (intro run_in_tx_Inr[of m "[]"]) (simp_all add: exec_def run_def)
qed (simp add: exec_def in_tx_run)

lemma run_in_tx_clean: "exec m d a d' \<Longrightarrow> run (in_tx m) [] d = (Inr a, d')"
  by (simp add: exec_def run_def in_tx_run)

text \<open>A failure the program itself reports, with the session still live: \<open>attempt\<close> turns it into a value.\<close>

definition exec_fail :: "('db, 'a) sql \<Rightarrow> 'db \<Rightarrow> error \<Rightarrow> 'db \<Rightarrow> bool" where
  "exec_fail m d e d' \<longleftrightarrow>
     m \<lparr>store = d, aborted = False, faults = []\<rparr> = (Inl e, \<lparr>store = d', aborted = False, faults = []\<rparr>)"

lemma exec_attempt [sql_exec]:
  "exec (attempt m) d r d' \<longleftrightarrow> (case r of Inl e \<Rightarrow> exec_fail m d e d' | Inr a \<Rightarrow> exec m d a d')"
  by (cases r) (auto simp: exec_def exec_fail_def attempt_def split: prod.splits)

lemma exec_fail_stmt [sql_exec]: "exec_fail (stmt f) d e d' \<longleftrightarrow> False"
  by (cases "f d") (auto simp: exec_fail_def sql_run)

lemma exec_fail_query [sql_exec]: "exec_fail (query f) d e d' \<longleftrightarrow> False"
  by (auto simp: exec_fail_def sql_run)

lemma exec_fail_return [sql_exec]: "exec_fail (return_sql a) d e d' \<longleftrightarrow> False"
  by (simp add: exec_fail_def sql_run)

lemma exec_fail_fail [sql_exec]: "exec_fail (fail_sql x) d e d' \<longleftrightarrow> e = x \<and> d' = d"
  by (auto simp: exec_fail_def sql_run)

lemma exec_fail_fetch [sql_exec]: "exec_fail (fetch x g) d e d' \<longleftrightarrow> g d = None \<and> e = x \<and> d' = d"
  by (auto simp: exec_fail_def sql_run split: option.split)

lemma exec_fail_bind [sql_exec]:
  assumes "well_behaved m" and "\<And>a. well_behaved (f a)"
  shows "exec_fail (bind_sql m f) d e d'' \<longleftrightarrow>
    exec_fail m d e d'' \<or> (\<exists>a d'. exec m d a d' \<and> exec_fail (f a) d' e d'')"
proof
  assume x: "exec_fail (bind_sql m f) d e d''"
  let ?s = "\<lparr>store = d, aborted = False, faults = []\<rparr>"
  obtain r s1 where m: "m ?s = (r, s1)" by fastforce
  show "exec_fail m d e d'' \<or> (\<exists>a d'. exec m d a d' \<and> exec_fail (f a) d' e d'')"
  proof (cases r)
    case (Inl e')
    then show ?thesis using x m by (simp add: exec_fail_def bind_sql_def)
  next
    case (Inr a)
    then have fa: "f a s1 = (Inl e, \<lparr>store = d'', aborted = False, faults = []\<rparr>)"
      using x m by (simp add: exec_fail_def bind_sql_def)
    then have live: "\<not> aborted s1"
      using assms(2)[of a] by (auto simp: well_behaved_def dest: spec[of _ s1])
    then have "s1 = \<lparr>store = store s1, aborted = False, faults = []\<rparr>"
      using assms(1) m by (auto simp: well_behaved_def dest: spec[of _ ?s])
    with m fa Inr show ?thesis unfolding exec_def exec_fail_def by metis
  qed
qed (auto simp: exec_def exec_fail_def bind_sql_def)

text \<open>What a transaction can leave behind: the store it found, or the store of a clean run.\<close>

lemma run_in_tx_cases:
  assumes "well_behaved m" and "run (in_tx m) fs d = (r, d')"
  obtains (failed) e where "r = Inl e" and "d' = d" | (committed) a where "r = Inr a" and "exec m d a d'"
proof (cases r)
  case (Inl e)
  then show ?thesis
    using failed all_or_nothing_error[OF all_or_nothing_in_tx[OF assms(1)], of fs d e d'] assms(2) by simp
next
  case (Inr a)
  then show ?thesis using committed run_in_tx_Inr[OF assms(1)] assms(2) by simp
qed

text \<open>A relation every clean run of a program establishes; a preorder composes along the program.\<close>

definition upholds :: "('db \<Rightarrow> 'db \<Rightarrow> bool) \<Rightarrow> ('db, 'a) sql \<Rightarrow> bool" where
  "upholds R m \<longleftrightarrow> well_behaved m \<and> (\<forall>d a d'. exec m d a d' \<longrightarrow> R d d') \<and> (\<forall>d e d'. exec_fail m d e d' \<longrightarrow> R d d')"

lemma upholds_well_behaved: "upholds R m \<Longrightarrow> well_behaved m"
  by (simp add: upholds_def)

lemma upholds_exec: "upholds R m \<Longrightarrow> exec m d a d' \<Longrightarrow> R d d'"
  by (auto simp: upholds_def)

lemma upholds_bind:
  assumes "transp R" and "upholds R m" and "\<And>a. upholds R (f a)"
  shows "upholds R (bind_sql m f)"
proof -
  have w: "well_behaved m" "\<And>a. well_behaved (f a)" using assms(2,3) by (auto simp: upholds_def)
  show ?thesis
    unfolding upholds_def exec_bind[OF w] exec_fail_bind[OF w]
    using assms(2,3) by (auto simp: upholds_def w intro: sql_safe) (meson assms(1) transpD)+
qed

lemma upholds_read:
  assumes "reflp R" and "well_behaved m" and "read_only m"
  shows "upholds R m"
proof -
  have "d' = d" if "exec m d a d' \<or> exec_fail m d e d'" for d a e d'
  proof -
    have "store (snd (m \<lparr>store = d, aborted = False, faults = []\<rparr>)) = d"
      using assms(3) by (simp add: read_only_def)
    with that show ?thesis by (auto simp: exec_def exec_fail_def)
  qed
  then show ?thesis using assms unfolding upholds_def by (metis reflpD)
qed

lemma upholds_attempt: "upholds R m \<Longrightarrow> upholds R (attempt m)"
  by (auto simp: upholds_def exec_attempt exec_fail_def attempt_def intro: sql_safe split: sum.splits prod.splits)

lemma upholds_return: "reflp R \<Longrightarrow> upholds R (return_sql a)"
  by (rule upholds_read) (auto intro: sql_safe)

lemma upholds_fail: "reflp R \<Longrightarrow> upholds R (fail_sql e)"
  by (rule upholds_read) (auto intro: sql_safe)

lemma upholds_stmt: "(\<And>d a d'. f d = Inr (a, d') \<Longrightarrow> R d d') \<Longrightarrow> upholds R (stmt f)"
  by (auto simp: upholds_def sql_exec intro: sql_safe)

lemma upholds_in_tx_run:
  assumes "reflp R" and "upholds R m" and "run (in_tx m) fs d = (r, d')"
  shows "R d d'"
  using run_in_tx_cases[OF upholds_well_behaved[OF assms(2)] assms(3)]
  by (metis assms(1,2) reflpD upholds_exec)

text \<open>An invariant is the preorder of being kept.\<close>

abbreviation kept :: "('db \<Rightarrow> bool) \<Rightarrow> 'db \<Rightarrow> 'db \<Rightarrow> bool" where
  "kept P \<equiv> \<lambda>d d'. P d \<longrightarrow> P d'"

lemma kept_preorder [simp]: "reflp (kept P)" "transp (kept P)"
  by (auto simp: reflp_def transp_def)


text \<open>A request that reads first and then runs a unit of work: either it stops at the read, or it is that unit.\<close>

lemma run_bind_read:
  assumes "all_or_nothing m" and "read_only m"
  obtains (stopped) e where "run (bind_sql m k) fs d = (Inl e, d)"
    | (went_on) a fs' where "run m [] d = (Inr a, d)" and "run (bind_sql m k) fs d = run (k a) fs' d"
proof -
  let ?s = "\<lparr>store = d, aborted = False, faults = fs\<rparr>"
  obtain r s1 where m: "m ?s = (r, s1)" by fastforce
  have s1: "store s1 = d" "\<not> aborted s1"
    using assms m by (auto simp: read_only_def all_or_nothing_def dest: spec[of _ ?s])
  show ?thesis
  proof (cases r)
    case (Inl e)
    then have "run (bind_sql m k) fs d = (Inl e, d)" using m s1 by (simp add: run_def bind_sql_def)
    then show ?thesis by (rule stopped)
  next
    case (Inr a)
    have "s1 = \<lparr>store = d, aborted = False, faults = faults s1\<rparr>" using s1 by (cases s1) simp
    then have "run (bind_sql m k) fs d = run (k a) (faults s1) d" using m Inr by (simp add: run_def bind_sql_def)
    moreover have "run m fs d = (Inr a, d)" using m Inr s1(1) by (simp add: run_def)
    then have "run m [] d = (Inr a, d)" by (rule all_or_nothing_success[OF assms(1)])
    ultimately show ?thesis using went_on by blast
  qed
qed

end
