(* ===== verification/Go_Strings.thy ===== *)
theory Go_Strings
  imports Prelude "HOL-Library.List_Lexorder" "HOL-Library.Char_ord"
begin

text \<open>
  The part of Go's standard library on strings that the service uses. A Go string is its byte
  sequence (\<open>string\<close>, a list of bytes); \<^verbatim>\<open><\<close> on strings is the bytewise lexicographic order, which is
  the order the imported theories give lists of characters, so \<^verbatim>\<open>sort.Strings\<close> is \<open>sort\<close>.
  \<open>trim_space\<close> is \<^verbatim>\<open>strings.TrimSpace\<close> on every byte string (Unicode white space in its UTF-8 spelling
  included). \<open>to_lower\<close> is \<^verbatim>\<open>strings.ToLower\<close> on strings whose letters are ASCII; bytes of longer
  UTF-8 sequences are left as they are, so the model is exact where those letters have no upper case.
\<close>

section \<open>Trimming\<close>

text \<open>The UTF-8 spellings of the characters \<^verbatim>\<open>unicode.IsSpace\<close> accepts.\<close>

definition space_bytes :: "nat list list" where
  "space_bytes = [[9], [10], [11], [12], [13], [32], [194, 133], [194, 160], [225, 154, 128],
     [226, 128, 128], [226, 128, 129], [226, 128, 130], [226, 128, 131], [226, 128, 132],
     [226, 128, 133], [226, 128, 134], [226, 128, 135], [226, 128, 136], [226, 128, 137],
     [226, 128, 138], [226, 128, 168], [226, 128, 169], [226, 128, 175], [226, 129, 159],
     [227, 128, 128]]"

definition spaces :: "string list" where
  "spaces = map (map char_of) space_bytes"

definition has_prefix :: "string \<Rightarrow> string \<Rightarrow> bool" where
  "has_prefix s p \<longleftrightarrow> take (length p) s = p"

text \<open>Strips from the left, again and again, any of the words \<open>ws\<close>.\<close>

function strip :: "string list \<Rightarrow> string \<Rightarrow> string" where
  "strip ws s =
     (case find (\<lambda>w. w \<noteq> [] \<and> has_prefix s w) ws of
        None \<Rightarrow> s
      | Some w \<Rightarrow> strip ws (drop (length w) s))"
  by pat_completeness auto
termination
proof (relation "measure (\<lambda>(ws, s). length s)", goal_cases)
  case (2 ws s w)
  then have "w \<noteq> []" "take (length w) s = w" by (auto dest: find_SomeD simp: has_prefix_def)
  then have "s \<noteq> []" by auto
  with \<open>w \<noteq> []\<close> show ?case by (cases s; cases w) auto
qed simp

declare strip.simps [simp del]

definition trim_left :: "string \<Rightarrow> string" where
  "trim_left s = strip spaces s"

definition trim_right :: "string \<Rightarrow> string" where
  "trim_right s = rev (strip (map rev spaces) (rev s))"

definition trim_space :: "string \<Rightarrow> string" where
  "trim_space s = trim_right (trim_left s)"

text \<open>\<^verbatim>\<open>strings.TrimRight(s, cutset)\<close> for a cutset of one ASCII character.\<close>

definition trim_right_char :: "char \<Rightarrow> string \<Rightarrow> string" where
  "trim_right_char c s = rev (dropWhile (\<lambda>x. x = c) (rev s))"

section \<open>Case\<close>

definition lower_byte :: "char \<Rightarrow> char" where
  "lower_byte c = (let n = of_char c :: nat in if 65 \<le> n \<and> n \<le> 90 then char_of (n + 32) else c)"

definition to_lower :: "string \<Rightarrow> string" where
  "to_lower s = map lower_byte s"

definition equal_fold :: "string \<Rightarrow> string \<Rightarrow> bool" where
  "equal_fold s t \<longleftrightarrow> to_lower s = to_lower t"

section \<open>Joining and splitting\<close>

fun join :: "string \<Rightarrow> string list \<Rightarrow> string" where
  "join sep [] = []"
| "join sep [s] = s"
| "join sep (s # t # ss) = s @ sep @ join sep (t # ss)"

text \<open>\<^verbatim>\<open>strings.Split\<close> at a separator of one byte: the empty string gives one empty part.\<close>

fun split_on :: "char \<Rightarrow> string \<Rightarrow> string list" where
  "split_on c [] = [[]]"
| "split_on c (x # xs) =
     (if x = c then [] # split_on c xs
      else case split_on c xs of [] \<Rightarrow> [[x]] | p # ps \<Rightarrow> (x # p) # ps)"

text \<open>\<^verbatim>\<open>strings.Cut\<close> at one byte: the text before and after its first occurrence.\<close>

fun cut :: "char \<Rightarrow> string \<Rightarrow> (string \<times> string) option" where
  "cut c [] = None"
| "cut c (x # xs) =
     (if x = c then Some ([], xs) else map_option (\<lambda>(a, b). (x # a, b)) (cut c xs))"

section \<open>Facts\<close>

lemma strip_step:
  "find (\<lambda>w. w \<noteq> [] \<and> has_prefix s w) ws = None \<Longrightarrow> strip ws s = s"
  by (simp add: strip.simps[of ws s])

lemma strip_clean: "find (\<lambda>w. w \<noteq> [] \<and> has_prefix (strip ws s) w) ws = None"
proof (induction ws s rule: strip.induct)
  case (1 ws s)
  then show ?case
    by (cases "find (\<lambda>w. w \<noteq> [] \<and> has_prefix s w) ws") (simp_all add: strip.simps[of ws s])
qed

lemma strip_idem [simp]: "strip ws (strip ws s) = strip ws s"
  by (rule strip_step) (rule strip_clean)

lemma strip_suffix: "\<exists>p. s = p @ strip ws s"
proof (induction ws s rule: strip.induct)
  case (1 ws s)
  show ?case
  proof (cases "find (\<lambda>w. w \<noteq> [] \<and> has_prefix s w) ws")
    case None
    then show ?thesis by (simp add: strip_step)
  next
    case (Some w)
    then obtain p where "drop (length w) s = p @ strip ws (drop (length w) s)"
      using "1" by blast
    then have "s = (take (length w) s @ p) @ strip ws (drop (length w) s)"
      by (metis append_assoc append_take_drop_id)
    moreover have "strip ws s = strip ws (drop (length w) s)"
      using Some by (simp add: strip.simps[of ws s])
    ultimately show ?thesis by metis
  qed
qed

lemma trim_right_prefix: "\<exists>q. s = trim_right s @ q"
proof -
  obtain p where "rev s = p @ strip (map rev spaces) (rev s)" using strip_suffix by blast
  then have "s = rev (p @ strip (map rev spaces) (rev s))" by (metis rev_rev_ident)
  then show ?thesis by (auto simp: trim_right_def)
qed

lemma has_prefix_append: "has_prefix s w \<Longrightarrow> has_prefix (s @ q) w"
proof -
  assume h: "has_prefix s w"
  then have "length w \<le> length s" by (metis has_prefix_def length_take min.cobounded1)
  with h show ?thesis by (simp add: has_prefix_def)
qed

lemma trim_left_trim_right: "trim_left t = t \<Longrightarrow> trim_left (trim_right t) = trim_right t"
proof -
  assume t: "trim_left t = t"
  obtain q where q: "t = trim_right t @ q" using trim_right_prefix by blast
  have "find (\<lambda>w. w \<noteq> [] \<and> has_prefix (trim_right t) w) spaces = None"
  proof (rule ccontr)
    assume "find (\<lambda>w. w \<noteq> [] \<and> has_prefix (trim_right t) w) spaces \<noteq> None"
    then obtain w where w: "w \<in> set spaces" "w \<noteq> []" "has_prefix (trim_right t) w"
      by (auto dest: find_SomeD)
    from w(3) have "has_prefix (trim_right t @ q) w" by (rule has_prefix_append)
    then have "has_prefix t w" using q by simp
    with w strip_clean[where ws = spaces and s = t] t show False
      by (auto simp: trim_left_def find_None_iff)
  qed
  then show ?thesis by (simp add: trim_left_def strip_step)
qed

lemma trim_space_idem [simp]: "trim_space (trim_space s) = trim_space s"
proof -
  have "trim_left (trim_space s) = trim_space s"
    unfolding trim_space_def by (rule trim_left_trim_right) (simp add: trim_left_def)
  then show ?thesis by (simp add: trim_space_def) (simp add: trim_right_def)
qed

text \<open>Evaluation: a string that neither starts nor ends with a byte of white space is its own trim.\<close>

definition space_heads :: "string" where
  "space_heads = map hd spaces"

definition space_tails :: "string" where
  "space_tails = map last spaces"

lemma spaces_nonempty: "w \<in> set spaces \<Longrightarrow> w \<noteq> []"
  by (auto simp: spaces_def space_bytes_def)

lemma trim_left_plain: "c \<notin> set space_heads \<Longrightarrow> trim_left (c # s) = c # s"
proof -
  assume c: "c \<notin> set space_heads"
  have "\<not> has_prefix (c # s) w" if "w \<in> set spaces" for w
  proof -
    have "hd w \<noteq> c" using that c by (auto simp: space_heads_def)
    with spaces_nonempty[OF that] show ?thesis by (cases "w = []") (auto simp: has_prefix_def neq_Nil_conv)
  qed
  then show ?thesis
    unfolding trim_left_def by (intro strip_step) (auto simp: find_None_iff)
qed

lemma trim_left_Nil [simp]: "trim_left [] = []"
  unfolding trim_left_def by (intro strip_step) (auto simp: find_None_iff has_prefix_def)

lemma trim_right_Nil [simp]: "trim_right [] = []"
  using trim_right_prefix[of "[]"] by simp

lemma trim_right_plain: "last s \<notin> set space_tails \<Longrightarrow> trim_right s = s"
proof (cases s rule: rev_cases)
  case (snoc t c)
  assume "last s \<notin> set space_tails"
  with snoc have c: "c \<notin> set space_tails" by simp
  have "\<not> has_prefix (rev s) w" if "w \<in> set (map rev spaces)" for w
  proof -
    from that obtain v where v: "v \<in> set spaces" "w = rev v" unfolding set_map by (rule imageE) blast
    then have "v \<noteq> []" "last v \<noteq> c" using c spaces_nonempty by (auto simp: space_tails_def)
    then show ?thesis using v snoc by (cases v rule: rev_cases) (auto simp: has_prefix_def)
  qed
  then have "strip (map rev spaces) (rev s) = rev s"
    by (intro strip_step) (auto simp: find_None_iff)
  then show ?thesis by (simp add: trim_right_def)
qed simp

lemma trim_space_plain:
  "hd s \<notin> set space_heads \<Longrightarrow> last s \<notin> set space_tails \<Longrightarrow> trim_space s = s"
  by (cases s) (simp_all add: trim_space_def trim_left_plain trim_right_plain)

lemma space_ends:
  "space_heads = map char_of [9, 10, 11, 12, 13, 32, 194, 194, 225, 226, 226, 226, 226, 226, 226,
     226, 226, 226, 226, 226, 226, 226, 226, 226, 227 :: nat]"
  "space_tails = map char_of [9, 10, 11, 12, 13, 32, 133, 160, 128, 128, 129, 130, 131, 132, 133,
     134, 135, 136, 137, 138, 168, 169, 175, 159, 128 :: nat]"
  by (simp_all add: space_heads_def space_tails_def spaces_def space_bytes_def)

lemma space_end_iff:
  "c \<in> set space_heads \<longleftrightarrow> (of_char c :: nat) \<in> {9, 10, 11, 12, 13, 32, 194, 225, 226, 227}"
  "c \<in> set space_tails \<longleftrightarrow> (of_char c :: nat) \<in> {9, 10, 11, 12, 13, 32, 133, 160, 128, 129, 130,
     131, 132, 134, 135, 136, 137, 138, 168, 169, 175, 159}"
proof -
  have e: "c = char_of n \<longleftrightarrow> of_char c = n mod 256" for n :: nat
    by (auto simp: eq_commute[of c] char_of_eq_iff take_bit_eq_mod)
  show "c \<in> set space_heads \<longleftrightarrow> (of_char c :: nat) \<in> {9, 10, 11, 12, 13, 32, 194, 225, 226, 227}"
    unfolding space_ends by (auto simp: e)
  show "c \<in> set space_tails \<longleftrightarrow> (of_char c :: nat) \<in> {9, 10, 11, 12, 13, 32, 133, 160, 128, 129, 130,
     131, 132, 134, 135, 136, 137, 138, 168, 169, 175, 159}"
    unfolding space_ends by (auto simp: e)
qed

lemma trim_space_Nil [simp]: "trim_space [] = []"
  by (simp add: trim_space_def)

lemmas trim_eval = trim_space_plain space_end_iff

lemma lower_byte_idem [simp]: "lower_byte (lower_byte c) = lower_byte c"
  by (simp add: lower_byte_def Let_def)

lemma to_lower_idem [simp]: "to_lower (to_lower s) = to_lower s"
  by (simp add: to_lower_def)

lemma to_lower_Nil [simp]: "to_lower s = [] \<longleftrightarrow> s = []"
  by (simp add: to_lower_def)

text \<open>A byte of white space is no letter, so lowering a string moves no white space.\<close>

lemma space_lower_word: "\<forall>w \<in> set spaces. \<forall>c \<in> set w. \<not> (65 \<le> (of_char c :: nat) \<and> (of_char c :: nat) \<le> 90) \<and> \<not> (97 \<le> (of_char c :: nat) \<and> (of_char c :: nat) \<le> 122)"
  by (simp add: spaces_def space_bytes_def)

lemma lower_byte_eq_space:
  "w \<in> set spaces \<Longrightarrow> c \<in> set w \<Longrightarrow> lower_byte d = c \<longleftrightarrow> d = c"
  using space_lower_word[rule_format, of w c] by (auto simp: lower_byte_def Let_def split: if_splits)

lemma map_lower_eq_word:
  "(\<And>c. c \<in> set w \<Longrightarrow> \<exists>w' \<in> set spaces. c \<in> set w') \<Longrightarrow> map lower_byte s = w \<longleftrightarrow> s = w"
proof (induction s arbitrary: w)
  case Nil
  then show ?case by auto
next
  case (Cons x s)
  show ?case
  proof (cases w)
    case (Cons c v)
    have "map lower_byte s = v \<longleftrightarrow> s = v" using Cons.prems Cons by (intro Cons.IH) auto
    moreover have "lower_byte x = c \<longleftrightarrow> x = c" using Cons.prems[of c] Cons lower_byte_eq_space by auto
    ultimately show ?thesis using Cons by simp
  qed simp
qed

lemma has_prefix_lower:
  assumes "\<And>c. c \<in> set w \<Longrightarrow> \<exists>w' \<in> set spaces. c \<in> set w'"
  shows "has_prefix (to_lower s) w \<longleftrightarrow> has_prefix s w"
proof -
  have "map lower_byte (take (length w) s) = w \<longleftrightarrow> take (length w) s = w"
    using assms by (rule map_lower_eq_word)
  then show ?thesis by (simp add: has_prefix_def to_lower_def take_map)
qed

lemma strip_lower:
  assumes "\<And>w c. w \<in> set ws \<Longrightarrow> c \<in> set w \<Longrightarrow> \<exists>w' \<in> set spaces. c \<in> set w'"
  shows "strip ws (to_lower s) = to_lower (strip ws s)"
  using assms
proof (induction ws s rule: strip.induct)
  case (1 ws s)
  have eq: "find (\<lambda>w. w \<noteq> [] \<and> has_prefix (to_lower s) w) ws = find (\<lambda>w. w \<noteq> [] \<and> has_prefix s w) ws"
    using "1.prems" has_prefix_lower by (intro find_cong) blast+
  show ?case
  proof (cases "find (\<lambda>w. w \<noteq> [] \<and> has_prefix s w) ws")
    case None
    with eq show ?thesis by (simp add: strip_step)
  next
    case (Some w)
    then have "strip ws (to_lower (drop (length w) s)) = to_lower (strip ws (drop (length w) s))"
      using "1.IH" "1.prems" by blast
    with Some eq show ?thesis
      by (simp add: strip.simps[of ws s] strip.simps[of ws "to_lower s"])
        (simp add: to_lower_def drop_map)
  qed
qed

lemma trim_space_lower: "trim_space (to_lower s) = to_lower (trim_space s)"
proof -
  have l: "trim_left (to_lower s) = to_lower (trim_left s)" for s
    unfolding trim_left_def by (rule strip_lower) blast
  have r: "trim_right (to_lower s) = to_lower (trim_right s)" for s
  proof -
    have "strip (map rev spaces) (to_lower (rev s)) = to_lower (strip (map rev spaces) (rev s))"
      by (rule strip_lower) auto
    then show ?thesis by (simp add: trim_right_def to_lower_def rev_map)
  qed
  show ?thesis by (simp add: trim_space_def l r)
qed

lemma split_on_nonempty [simp]: "split_on c s \<noteq> []"
  by (induction s) (auto split: list.splits)

lemma split_on_append:
  "c \<notin> set s \<Longrightarrow> split_on c (s @ c # t) = s # split_on c t"
  by (induction s) auto

lemma split_on_none: "c \<notin> set s \<Longrightarrow> split_on c s = [s]"
  by (induction s) auto

lemma split_join:
  "ps \<noteq> [] \<Longrightarrow> (\<And>p. p \<in> set ps \<Longrightarrow> c \<notin> set p) \<Longrightarrow> split_on c (join [c] ps) = ps"
proof (induction "[c]" ps rule: join.induct)
  case (3 s t ss)
  then show ?case by (simp add: split_on_append)
qed (auto simp: split_on_none)

lemma cut_append: "c \<notin> set a \<Longrightarrow> cut c (a @ c # b) = Some (a, b)"
  by (induction a) auto

lemma cut_None: "cut c s = None \<longleftrightarrow> c \<notin> set s"
  by (induction s) auto

lemma cut_Some: "cut c s = Some (a, b) \<Longrightarrow> s = a @ c # b \<and> c \<notin> set a"
  by (induction s arbitrary: a) (auto split: if_splits)

end
