(* ===== verification/Subject.thy ===== *)
theory Subject
  imports Go_Strings
begin

text \<open>
  The structured identity of a fact and its canonical key (\<^verbatim>\<open>internal/facts/subject.go\<close>), with
  \<^verbatim>\<open>EmbedText\<close>'s rendering of a subject (\<^verbatim>\<open>internal/facts/repo.go\<close>). The qualifiers are a Go map: an
  association list stands for the map together with the order in which one \<^verbatim>\<open>range\<close> over it happens to
  visit its entries, so a property of the map holds for every permutation of the list.
\<close>

section \<open>Model\<close>

record subject =
  s_type :: string
  s_scope :: string
  s_qualifiers :: "(string \<times> string) list"

definition norm :: "string \<Rightarrow> string" where
  "norm s = to_lower (trim_space s)"

definition qualifier_part :: "string \<times> string \<Rightarrow> string" where
  "qualifier_part kv = norm (fst kv) @ ''='' @ trim_space (snd kv)"

definition norm_scope :: "string \<Rightarrow> string" where
  "norm_scope s = (if norm s = [] then ''global'' else norm s)"

definition canonical_key :: "subject \<Rightarrow> string" where
  "canonical_key s =
     (let typ = norm (s_type s);
          scope = norm_scope (s_scope s);
          parts = [typ, scope];
          quals = map qualifier_part (s_qualifiers s)
      in join '':'' (if s_qualifiers s \<noteq> [] then parts @ sort quals else parts))"

definition subject_valid :: "subject \<Rightarrow> bool" where
  "subject_valid s \<longleftrightarrow> trim_space (s_type s) \<noteq> []"

definition embed_text :: "subject \<Rightarrow> string \<Rightarrow> string" where
  "embed_text s statement =
     trim_space (s_type s)
     @ (if trim_space (s_scope s) \<noteq> [] then '' '' @ trim_space (s_scope s) else [])
     @ (if s_qualifiers s \<noteq> []
        then '' '' @ join '' '' (sort (map (\<lambda>(k, v). trim_space k @ ''='' @ trim_space v) (s_qualifiers s)))
        else [])
     @ [CHR 0x0A] @ statement"

section \<open>Determinism and normal forms\<close>

lemma norm_idem [simp]: "norm (norm s) = norm s"
  by (simp add: norm_def trim_space_lower)

lemma norm_trim [simp]: "norm (trim_space s) = norm s"
  by (simp add: norm_def)

lemma norm_lower [simp]: "norm (to_lower s) = norm s"
  by (simp add: norm_def trim_space_lower)

lemma norm_scope_idem [simp]: "norm_scope (norm_scope s) = norm_scope s"
proof -
  have "norm ''global'' = ''global''" by (simp add: norm_def trim_eval to_lower_def lower_byte_def)
  then show ?thesis by (simp add: norm_scope_def)
qed

lemma sort_map_mset: "mset xs = mset ys \<Longrightarrow> sort (map f xs) = sort (map f ys)"
  by (rule properties_for_sort) (simp_all add: mset_map)

lemma canonical_key_parts:
  "canonical_key s = join '':'' (norm (s_type s) # norm_scope (s_scope s) # sort (map qualifier_part (s_qualifiers s)))"
  by (simp add: canonical_key_def Let_def)

text \<open>What two spellings of one subject share: the key is computed from nothing else.\<close>

definition same_subject :: "subject \<Rightarrow> subject \<Rightarrow> bool" where
  "same_subject a b \<longleftrightarrow>
     norm (s_type a) = norm (s_type b) \<and> norm_scope (s_scope a) = norm_scope (s_scope b) \<and>
     mset (map (\<lambda>(k, v). (norm k, trim_space v)) (s_qualifiers a)) =
     mset (map (\<lambda>(k, v). (norm k, trim_space v)) (s_qualifiers b))"

definition join_pair :: "string \<times> string \<Rightarrow> string" where
  "join_pair kv = fst kv @ ''='' @ snd kv"

lemma qualifier_part_pair: "qualifier_part = join_pair \<circ> (\<lambda>(k, v). (norm k, trim_space v))"
  by (auto simp: qualifier_part_def join_pair_def)

lemma same_subject_key: "same_subject a b \<Longrightarrow> canonical_key a = canonical_key b"
proof -
  assume ab: "same_subject a b"
  let ?n = "\<lambda>(k, v). (norm k, trim_space v)"
  have "sort (map join_pair (map ?n (s_qualifiers a))) = sort (map join_pair (map ?n (s_qualifiers b)))"
    using ab by (intro sort_map_mset) (simp add: same_subject_def)
  then have "sort (map qualifier_part (s_qualifiers a)) = sort (map qualifier_part (s_qualifiers b))"
    by (simp add: qualifier_part_pair)
  with ab show ?thesis by (simp add: canonical_key_parts same_subject_def)
qed

text \<open>
  The key gives the subject back as long as no part contains the separator: no \<open>:\<close> in a
  normalised type, scope or qualifier and no \<open>=\<close> in a qualifier's name.
\<close>

definition separable :: "subject \<Rightarrow> bool" where
  "separable s \<longleftrightarrow>
     CHR '':'' \<notin> set (norm (s_type s)) \<and> CHR '':'' \<notin> set (norm_scope (s_scope s)) \<and>
     (\<forall>(k, v) \<in> set (s_qualifiers s).
        CHR '':'' \<notin> set (norm k) \<and> CHR '':'' \<notin> set (trim_space v) \<and> CHR ''='' \<notin> set (norm k))"

lemma separable_split:
  "separable s \<Longrightarrow> split_on CHR '':'' (canonical_key s)
     = norm (s_type s) # norm_scope (s_scope s) # sort (map qualifier_part (s_qualifiers s))"
  unfolding canonical_key_parts separable_def
  by (rule split_join) (auto simp: qualifier_part_def)

lemma join_pair_inj: "CHR ''='' \<notin> set (fst p) \<Longrightarrow> CHR ''='' \<notin> set (fst q) \<Longrightarrow> join_pair p = join_pair q \<Longrightarrow> p = q"
proof -
  assume a: "CHR ''='' \<notin> set (fst p)" "CHR ''='' \<notin> set (fst q)" "join_pair p = join_pair q"
  have "cut CHR ''='' (join_pair p) = Some (fst p, snd p)"
    and "cut CHR ''='' (join_pair q) = Some (fst q, snd q)"
    using a(1,2) by (simp_all add: join_pair_def cut_append)
  with a(3) have "Some (fst p, snd p) = Some (fst q, snd q)" by metis
  then show "p = q" by (simp add: prod_eq_iff)
qed

lemma separable_key_same:
  assumes "separable a" and "separable b" and "canonical_key a = canonical_key b"
  shows "same_subject a b"
proof -
  let ?n = "\<lambda>(k, v). (norm k, trim_space v)"
  let ?P = "\<lambda>p. CHR ''='' \<notin> set (fst p)"
  from assms have parts: "norm (s_type a) = norm (s_type b)" "norm_scope (s_scope a) = norm_scope (s_scope b)"
    "sort (map qualifier_part (s_qualifiers a)) = sort (map qualifier_part (s_qualifiers b))"
    using separable_split[of a] separable_split[of b] by simp_all
  have "mset (map qualifier_part (s_qualifiers a)) = mset (map qualifier_part (s_qualifiers b))"
    using parts(3) by (metis mset_sort)
  then have "image_mset join_pair (mset (map ?n (s_qualifiers a))) = image_mset join_pair (mset (map ?n (s_qualifiers b)))"
    by (simp add: qualifier_part_pair multiset.map_comp)
  moreover have "\<forall>p \<in># mset (map ?n (s_qualifiers a)). ?P p" "\<forall>p \<in># mset (map ?n (s_qualifiers b)). ?P p"
    using assms(1,2) by (fastforce simp: separable_def)+
  moreover have "inj_on join_pair {p. ?P p}"
    by (rule inj_onI) (use join_pair_inj in blast)
  ultimately have "mset (map ?n (s_qualifiers a)) = mset (map ?n (s_qualifiers b))"
    by (intro image_mset_inj_on[of join_pair "{p. ?P p}"]) auto
  with parts show ?thesis by (simp add: same_subject_def)
qed

section \<open>Properties\<close>

text \<open>
  The canonical key identifies a subject: among subjects whose normalised parts are free of the
  separators, two keys are equal exactly when the subjects agree up to surrounding white space, the case
  of type, scope and qualifier names, a blank scope standing for \<^verbatim>\<open>global\<close>, and the order of the qualifiers.
\<close>

lemma canonical_key_exact:
  assumes "separable a" and "separable b"
  shows "canonical_key a = canonical_key b \<longleftrightarrow> same_subject a b"
  using separable_key_same[OF assms] same_subject_key by blast

lemmas norm_eval = norm_def norm_scope_def trim_eval to_lower_def lower_byte_def char_of_def bit_0

lemma canonical_key_exact_applied:
  "canonical_key \<lparr>s_type = ''Service'', s_scope = '''', s_qualifiers = [(''a'', ''1''), (''B'', ''2'')]\<rparr> =
   canonical_key \<lparr>s_type = ''service'', s_scope = ''Global'', s_qualifiers = [(''b'', ''2''), (''A'', ''1'')]\<rparr>"
  (is "canonical_key ?a = canonical_key ?b")
proof -
  have "separable ?a" "separable ?b" by (simp_all add: separable_def norm_eval)
  moreover have "same_subject ?a ?b" by (simp add: same_subject_def norm_eval)
  ultimately show ?thesis using canonical_key_exact by blast
qed

text \<open>
  The separators matter: a subject whose scope contains a colon has the key of a different subject,
  so the store takes the two for one and lets at most one of them be active in a namespace.
\<close>

lemma canonical_key_ambiguous:
  "canonical_key \<lparr>s_type = ''db'', s_scope = ''eu:prod'', s_qualifiers = []\<rparr> =
   canonical_key \<lparr>s_type = ''db:eu'', s_scope = ''prod'', s_qualifiers = []\<rparr> \<and>
   \<not> same_subject \<lparr>s_type = ''db'', s_scope = ''eu:prod'', s_qualifiers = []\<rparr>
       \<lparr>s_type = ''db:eu'', s_scope = ''prod'', s_qualifiers = []\<rparr>"
  by (simp add: canonical_key_def same_subject_def norm_eval)

end
