(* ===== verification/Json.thy ===== *)
theory Json
  imports Go_Strings
begin

text \<open>
  Decoded JSON (\<^verbatim>\<open>encoding/json\<close>) as the auto-promotion engine, the policies and the metadata use it. An
  object decoded into a Go map (\<open>go_value\<close>, \<open>keep_last\<close>), or read from a \<^verbatim>\<open>jsonb\<close> column, has no two members with
  the same name; one decoded into a struct (\<open>member\<close>) may. A whole number is
  \<open>JNum\<close>, exact up to \<^verbatim>\<open>2^53\<close> as a Go \<^verbatim>\<open>float64\<close> is; any other number is \<open>JFloat\<close> with the text \<^verbatim>\<open>fmt\<close>'s
  \<^verbatim>\<open>%v\<close> prints for it. \<^verbatim>\<open>json.RawMessage\<close> values are \<open>raw_json\<close>: no bytes, bytes that are not JSON, or a value.
\<close>

section \<open>Values\<close>

datatype json =
    JNull
  | JBool bool
  | JNum int
  | JFloat string
  | JStr string
  | JArr "json list"
  | JObj "(string \<times> json) list"

datatype raw_json =
    RawEmpty
  | RawMalformed string
  | RawJson json

section \<open>Numbers and formatting\<close>

fun show_nat :: "nat \<Rightarrow> string" where
  "show_nat n =
     (if n < 10 then [char_of (48 + n)] else show_nat (n div 10) @ [char_of (48 + n mod 10)])"

declare show_nat.simps [simp del]

definition show_int :: "int \<Rightarrow> string" where
  "show_int i = (if i < 0 then ''-'' @ show_nat (nat (- i)) else show_nat (nat i))"

text \<open>\<^verbatim>\<open>strconv.Atoi\<close>: an optional sign and decimal digits within the range of a 64-bit \<^verbatim>\<open>int\<close>.\<close>

definition is_digit :: "char \<Rightarrow> bool" where
  "is_digit c \<longleftrightarrow> 48 \<le> (of_char c :: nat) \<and> (of_char c :: nat) \<le> 57"

fun read_digits :: "nat \<Rightarrow> string \<Rightarrow> nat option" where
  "read_digits acc [] = Some acc"
| "read_digits acc (c # cs) =
     (if is_digit c then read_digits (10 * acc + (of_char c - 48)) cs else None)"

definition int_max :: int where "int_max = 9223372036854775807"
definition int_min :: int where "int_min = - 9223372036854775808"

definition atoi :: "string \<Rightarrow> int option" where
  "atoi s =
     (let neg = has_prefix s ''-'';
          ds = (if neg \<or> has_prefix s ''+'' then tl s else s)
      in if ds = [] then None
         else case read_digits 0 ds of
                None \<Rightarrow> None
              | Some n \<Rightarrow>
                  (let i = (if neg then - int n else int n)
                   in if int_min \<le> i \<and> i \<le> int_max then Some i else None))"

text \<open>
  \<^verbatim>\<open>fmt.Sprintf("%v", v)\<close> of a decoded value. A number has been decoded into a \<^verbatim>\<open>float64\<close>, so from seven
  digits on an integer is printed with an exponent (integers beyond the 53 bits of a \<^verbatim>\<open>float64\<close>, which
  decoding rounds first, are kept as written); a map is printed with its keys sorted.
\<close>

definition show_float :: "int \<Rightarrow> string" where
  "show_float i =
     (let ds = show_nat (nat \<bar>i\<bar>); e = length ds - 1;
          frac = rev (dropWhile (\<lambda>c. c = CHR ''0'') (rev (tl ds)))
      in (if i < 0 then ''-'' else []) @
         (if e < 6 then ds
          else hd ds # (if frac = [] then [] else CHR ''.'' # frac) @ ''e+'' @ (if e < 10 then ''0'' else []) @ show_nat e))"

fun fmt_v :: "json \<Rightarrow> string" where
  "fmt_v JNull = ''<nil>''"
| "fmt_v (JBool b) = (if b then ''true'' else ''false'')"
| "fmt_v (JNum i) = show_float i"
| "fmt_v (JFloat s) = s"
| "fmt_v (JStr s) = s"
| "fmt_v (JArr vs) = ''['' @ join '' '' (map fmt_v vs) @ '']''"
| "fmt_v (JObj ms) =
     ''map['' @ join '' ''
        (map snd (sort_key fst (map (\<lambda>(k, v). (k, k @ '':'' @ fmt_v v)) ms))) @ '']''"

section \<open>Decoding into Go values\<close>

text \<open>\<^verbatim>\<open>json.Unmarshal\<close> into a \<^verbatim>\<open>string\<close> and into a \<^verbatim>\<open>[]string\<close>: \<^verbatim>\<open>null\<close> leaves the zero value, without error.\<close>

fun as_string :: "json \<Rightarrow> string option" where
  "as_string (JStr s) = Some s"
| "as_string JNull = Some []"
| "as_string _ = None"

fun as_strings :: "json list \<Rightarrow> string list option" where
  "as_strings [] = Some []"
| "as_strings (v # vs) =
     (case as_string v of
        None \<Rightarrow> None
      | Some s \<Rightarrow> map_option (\<lambda>ss. s # ss) (as_strings vs))"

fun as_string_list :: "json \<Rightarrow> string list option" where
  "as_string_list (JArr vs) = as_strings vs"
| "as_string_list JNull = Some []"
| "as_string_list _ = None"

text \<open>Decoding into a Go map: of several members with the same name the last is kept.\<close>

fun keep_last :: "('k \<times> 'v) list \<Rightarrow> ('k \<times> 'v) list" where
  "keep_last [] = []"
| "keep_last ((k, v) # ms) = (if k \<in> fst ` set ms then keep_last ms else (k, v) # keep_last ms)"

fun go_value :: "json \<Rightarrow> json" where
  "go_value (JArr vs) = JArr (map go_value vs)"
| "go_value (JObj ms) = JObj (keep_last (map (\<lambda>(k, v). (k, go_value v)) ms))"
| "go_value v = v"

definition go_map :: "(string \<times> json) list \<Rightarrow> (string \<times> json) list" where
  "go_map ms = keep_last (map (\<lambda>(k, v). (k, go_value v)) ms)"

text \<open>
  \<^verbatim>\<open>encoding/json\<close> matches the name of a member with the field of a struct up to case; of several the last
  is kept.
\<close>

definition member :: "string \<Rightarrow> (string \<times> json) list \<Rightarrow> json option" where
  "member name ms = map_option snd (find (\<lambda>(k, v). equal_fold k name) (rev ms))"

definition known_members :: "string list \<Rightarrow> (string \<times> json) list \<Rightarrow> bool" where
  "known_members names ms \<longleftrightarrow> (\<forall>(k, v) \<in> set ms. \<exists>n \<in> set names. equal_fold k n)"

section \<open>Facts\<close>

lemma keep_last_keys [simp]: "fst ` set (keep_last ms) = fst ` set ms"
  by (induction ms rule: keep_last.induct) auto

lemma keep_last_distinct: "distinct (map fst (keep_last ms))"
proof (induction ms rule: keep_last.induct)
  case (2 k v ms)
  have "set (map fst (keep_last ms)) = fst ` set ms" by simp
  with "2" show ?case by (simp del: set_map)
qed simp

lemma keep_last_id: "distinct (map fst ms) \<Longrightarrow> keep_last ms = ms"
  by (induction ms rule: keep_last.induct) auto

lemma keep_last_lookup: "map_of (keep_last ms) k = map_of (rev ms) k"
proof (induction ms rule: keep_last.induct)
  case (2 k' v ms)
  have "k' \<in> fst ` set ms \<longleftrightarrow> map_of (rev ms) k' \<noteq> None" by (simp add: map_of_eq_None_iff)
  with "2" show ?case by (auto simp: map_add_def split: option.split)
qed simp

lemma member_lower:
  assumes "to_lower n = n" and "\<forall>k \<in> fst ` set ms. to_lower k = k"
  shows "member n ms = map_of (rev ms) n"
proof -
  have "map_option snd (find (\<lambda>(k, v). equal_fold k n) xs) = map_of xs n" if "\<forall>k \<in> fst ` set xs. to_lower k = k" for xs
    using that by (induction xs) (auto simp: equal_fold_def assms(1))
  from this[of "rev ms"] show ?thesis using assms(2) by (simp add: member_def)
qed

lemma as_strings_length: "as_strings vs = Some ss \<Longrightarrow> length ss = length vs"
  by (induction vs arbitrary: ss) (auto split: option.splits)

lemma as_strings_map: "as_strings (map JStr ss) = Some ss"
  by (induction ss) auto

lemma is_digit_char_of [simp]: "(n::nat) < 10 \<Longrightarrow> is_digit (char_of (48 + n))"
  by (simp add: is_digit_def)

lemma read_digits_append:
  "read_digits acc (xs @ ys) = (case read_digits acc xs of None \<Rightarrow> None | Some a \<Rightarrow> read_digits a ys)"
  by (induction xs arbitrary: acc) auto

lemma read_show_nat: "read_digits 0 (show_nat n) = Some n"
proof (induction n rule: show_nat.induct)
  case (1 n)
  show ?case
  proof (cases "n < 10")
    case True
    then show ?thesis by (simp add: show_nat.simps[of n])
  next
    case False
    with "1" show ?thesis
      by (simp add: show_nat.simps[of n] read_digits_append)
  qed
qed

lemma show_nat_digits: "c \<in> set (show_nat n) \<Longrightarrow> is_digit c"
proof (induction n rule: show_nat.induct)
  case (1 n)
  then show ?case
    by (cases "n < 10") (auto simp: show_nat.simps[of n])
qed

lemma show_nat_nonempty [simp]: "show_nat n \<noteq> []"
  by (simp add: show_nat.simps[of n])

lemma show_nat_hd: "hd (show_nat n) \<noteq> CHR ''-'' \<and> hd (show_nat n) \<noteq> CHR ''+''"
proof -
  have "is_digit (hd (show_nat n))" by (rule show_nat_digits[of _ n]) simp
  then show ?thesis by (auto simp: is_digit_def)
qed

lemma has_prefix_single: "has_prefix s [c] \<longleftrightarrow> s \<noteq> [] \<and> hd s = c"
  by (cases s) (auto simp: has_prefix_def)

text \<open>What \<^verbatim>\<open>strconv.Itoa\<close> prints, \<^verbatim>\<open>strconv.Atoi\<close> reads back.\<close>

lemma atoi_show_int:
  assumes "int_min \<le> i" and "i \<le> int_max"
  shows "atoi (show_int i) = Some i"
  using assms show_nat_hd[of "nat i"] read_show_nat
  by (auto simp: atoi_def show_int_def has_prefix_single Let_def)

end
