(* ===== verification/Schema.thy ===== *)
theory Schema
  imports Sql Subject Json
begin

text \<open>
  The data of the service: the Go structs of \<^verbatim>\<open>facts\<close>, \<^verbatim>\<open>promotions\<close>, \<^verbatim>\<open>namespaces\<close>, \<^verbatim>\<open>rbac\<close> and
  \<^verbatim>\<open>audit\<close>, and the tables of \<^verbatim>\<open>internal/store/migrations/00001_init.sql\<close> with every constraint the
  migration declares. A table is the list of its rows in the order they were inserted; an \<open>UPDATE\<close> or
  \<open>INSERT\<close> is refused when the rows it would leave break a constraint. Random uuids are supplied by the
  caller of an operation, so a collision is a refused insert, not an assumption.
\<close>

section \<open>Facts\<close>

record provenance =
  origin_actor :: string
  origin_session :: string
  derived_from :: "string list"
  rationale :: string

record fact =
  f_id :: uuid
  f_namespace_id :: uuid
  f_statement :: string
  f_subject :: subject
  f_canonical_key :: string
  f_status :: status
  f_confidence :: "int option"
  f_source_memory_ids :: "string list"
  f_provenance :: provenance
  f_valid_from :: "timestamp option"
  f_valid_to :: "timestamp option"
  f_supersedes_id :: "uuid option"
  f_superseded_by_id :: "uuid option"
  f_tags :: "string list"
  f_metadata :: "(string \<times> json) list"
  f_created_by :: principal_id
  f_approved_by :: "principal_id list"
  f_version :: int
  f_created_at :: timestamp
  f_updated_at :: timestamp

text \<open>
  The row of the table holds one column more than the Go struct, the embedding: the bit patterns of
  its \<^verbatim>\<open>float32\<close> components. Scanning a row into a \<^verbatim>\<open>Fact\<close> is \<open>fact.truncate\<close>.
\<close>

type_synonym vec = "int list"

record fact_row = fact +
  f_embedding :: "vec option"

section \<open>Promotions\<close>

datatype promo_state =
    StatePending
  | StateInReview
  | StateChangesRequested
  | StateApproved
  | StateRejected

fun state_str :: "promo_state \<Rightarrow> string" where
  "state_str StatePending = ''pending''"
| "state_str StateInReview = ''in_review''"
| "state_str StateChangesRequested = ''changes_requested''"
| "state_str StateApproved = ''approved''"
| "state_str StateRejected = ''rejected''"

datatype decision =
    DecisionApprove
  | DecisionReject
  | DecisionRequestChanges

record review =
  r_reviewer :: principal_id
  r_decision :: decision
  r_comment :: string
  r_at :: timestamp

record promotion =
  p_id :: uuid
  p_fact_id :: uuid
  p_target_namespace_id :: uuid
  p_proposed_statement :: string
  p_state :: promo_state
  p_candidate_memory_ids :: "string list"
  p_proposer :: principal_id
  p_reviews :: "review list"
  p_required_approvals :: int
  p_conflict_with :: "uuid option"
  p_idempotency_key :: "string option"
  p_created_at :: timestamp
  p_updated_at :: timestamp

section \<open>Namespaces, memberships, audit events\<close>

text \<open>\<^verbatim>\<open>Kind\<close> and \<^verbatim>\<open>Role\<close> are strings in the source; which of them are stored is a \<open>CHECK\<close> of the table.\<close>

record ns_row =
  nr_id :: uuid
  nr_name :: string
  nr_kind :: string
  nr_parent_id :: "uuid option"
  nr_policy :: json
  nr_created_at :: timestamp

record membership =
  m_principal :: principal_id
  m_namespace_id :: uuid
  m_role :: string

text \<open>The values an audit event's detail is built from.\<close>

datatype detail =
    DUuid uuid
  | DUuidOpt "uuid option"
  | DStr string
  | DInt int
  | DJson json

record audit_event =
  a_at :: timestamp
  a_principal :: principal_id
  a_action :: string
  a_subject_type :: string
  a_subject_id :: uuid
  a_from_state :: "string option"
  a_to_state :: "string option"
  a_detail :: "(string \<times> detail) list"

record db =
  namespaces_tbl :: "ns_row list"
  facts_tbl :: "fact_row list"
  promotions_tbl :: "promotion list"
  memberships_tbl :: "membership list"
  audit_tbl :: "audit_event list"

definition empty_db :: db where
  "empty_db = \<lparr>namespaces_tbl = [], facts_tbl = [], promotions_tbl = [], memberships_tbl = [], audit_tbl = []\<rparr>"

section \<open>Tables of keyed rows\<close>

definition tbl_get :: "('r \<Rightarrow> 'k) \<Rightarrow> 'k \<Rightarrow> 'r list \<Rightarrow> 'r option" where
  "tbl_get key k rows = find (\<lambda>r. key r = k) rows"

definition tbl_ins :: "'r \<Rightarrow> 'r list \<Rightarrow> 'r list" where
  "tbl_ins r rows = rows @ [r]"

definition tbl_upd :: "('r \<Rightarrow> 'k) \<Rightarrow> 'k \<Rightarrow> ('r \<Rightarrow> 'r) \<Rightarrow> 'r list \<Rightarrow> 'r list" where
  "tbl_upd key k f rows = map (\<lambda>r. if key r = k then f r else r) rows"

lemma tbl_get_Some: "tbl_get key k rows = Some r \<Longrightarrow> r \<in> set rows \<and> key r = k"
  by (auto simp: tbl_get_def dest: find_SomeD)

lemma tbl_get_None: "tbl_get key k rows = None \<longleftrightarrow> k \<notin> key ` set rows"
  by (auto simp: tbl_get_def find_None_iff)

lemma tbl_get_upd:
  assumes "\<And>r. key (f r) = key r"
  shows "tbl_get key k' (tbl_upd key k f t) = (if k' = k then map_option f (tbl_get key k t) else tbl_get key k' t)"
  unfolding tbl_get_def tbl_upd_def
  by (induction t) (auto simp: assms)

lemma tbl_keyed:
  "keyed_table key (tbl_get key) tbl_ins (tbl_upd key) set (\<lambda>t. distinct (map key t))"
proof (unfold_locales, goal_cases)
  case (1 t r)
  then show ?case by (auto simp: tbl_ins_def tbl_get_None)
next
  case (2 t f k)
  then have "map key (tbl_upd key k f t) = map key t" by (simp add: tbl_upd_def)
  with 2 show ?case by simp
next
  case (3 t r k)
  then have "tbl_get key (key r) t = None" by simp
  then show ?case
    by (cases "tbl_get key k t") (auto simp: tbl_ins_def tbl_get_def find_append)
next
  case (4 f k' k t)
  then show ?case by (rule tbl_get_upd)
next
  case (5 t k r)
  then show ?case
    by (auto simp: tbl_get_def dest: find_SomeD intro!: find_unique intro: distinct_map_inj)
qed

interpretation ft: keyed_table "f_id :: fact_row \<Rightarrow> uuid" "tbl_get f_id" tbl_ins "tbl_upd f_id" set
    "\<lambda>t. distinct (map f_id t)"
  by (rule tbl_keyed)

interpretation pt: keyed_table "p_id :: promotion \<Rightarrow> uuid" "tbl_get p_id" tbl_ins "tbl_upd p_id" set
    "\<lambda>t. distinct (map p_id t)"
  by (rule tbl_keyed)

interpretation nt: keyed_table "nr_id :: ns_row \<Rightarrow> uuid" "tbl_get nr_id" tbl_ins "tbl_upd nr_id" set
    "\<lambda>t. distinct (map nr_id t)"
  by (rule tbl_keyed)

section \<open>Constraints\<close>

definition int4_max :: int where "int4_max = 2147483647"
definition int4_min :: int where "int4_min = - 2147483648"

definition embedding_dims :: nat where "embedding_dims = 768"

definition kinds :: "string list" where
  "kinds = [''user'', ''team'', ''project'', ''org'']"

definition roles :: "string list" where
  "roles = [''reader'', ''contributor'', ''reviewer'', ''namespace_admin'']"

text \<open>\<^verbatim>\<open>REFERENCES\<close>: a null reference refers to nothing.\<close>

definition refers :: "uuid option \<Rightarrow> uuid list \<Rightarrow> bool" where
  "refers r ids = (case r of None \<Rightarrow> True | Some i \<Rightarrow> i \<in> set ids)"

text \<open>\<^verbatim>\<open>facts_active_unique\<close>: the partial unique index on \<^verbatim>\<open>(namespace_id, canonical_key)\<close>.\<close>

definition active_keys :: "fact_row list \<Rightarrow> (uuid \<times> string) list" where
  "active_keys rows =
     map (\<lambda>f. (f_namespace_id f, f_canonical_key f)) (filter (\<lambda>f. f_status f = StatusActive) rows)"

definition namespaces_ok :: "ns_row list \<Rightarrow> bool" where
  "namespaces_ok rows \<longleftrightarrow>
     distinct (map nr_id rows) \<and> distinct (map nr_name rows) \<and>
     list_all (\<lambda>n. nr_kind n \<in> set kinds \<and> refers (nr_parent_id n) (map nr_id rows)) rows"

definition facts_ok :: "db \<Rightarrow> fact_row list \<Rightarrow> bool" where
  "facts_ok d rows \<longleftrightarrow>
     distinct (map f_id rows) \<and> distinct (active_keys rows) \<and>
     list_all (\<lambda>f. f_namespace_id f \<in> set (map nr_id (namespaces_tbl d)) \<and>
       refers (f_supersedes_id f) (map f_id rows) \<and> refers (f_superseded_by_id f) (map f_id rows) \<and>
       f_version f \<le> int4_max \<and>
       (case f_embedding f of None \<Rightarrow> True | Some v \<Rightarrow> length v = embedding_dims)) rows"

definition idem_keys :: "promotion list \<Rightarrow> (principal_id \<times> string) list" where
  "idem_keys rows =
     map (\<lambda>p. (p_proposer p, the (p_idempotency_key p))) (filter (\<lambda>p. p_idempotency_key p \<noteq> None) rows)"

definition promotions_ok :: "db \<Rightarrow> promotion list \<Rightarrow> bool" where
  "promotions_ok d rows \<longleftrightarrow>
     distinct (map p_id rows) \<and> distinct (idem_keys rows) \<and>
     list_all (\<lambda>p. p_fact_id p \<in> set (map f_id (facts_tbl d)) \<and>
       p_target_namespace_id p \<in> set (map nr_id (namespaces_tbl d)) \<and>
       refers (p_conflict_with p) (map f_id (facts_tbl d)) \<and>
       int4_min \<le> p_required_approvals p \<and> p_required_approvals p \<le> int4_max) rows"

definition memberships_ok :: "db \<Rightarrow> membership list \<Rightarrow> bool" where
  "memberships_ok d rows \<longleftrightarrow>
     distinct rows \<and>
     list_all (\<lambda>m. m_role m \<in> set roles \<and> m_namespace_id m \<in> set (map nr_id (namespaces_tbl d))) rows"

text \<open>The schema holds of a whole store.\<close>

definition schema_ok :: "db \<Rightarrow> bool" where
  "schema_ok d \<longleftrightarrow> namespaces_ok (namespaces_tbl d) \<and> facts_ok d (facts_tbl d) \<and>
     promotions_ok d (promotions_tbl d) \<and> memberships_ok d (memberships_tbl d)"

section \<open>Writing a table\<close>

definition put_namespaces :: "ns_row list \<Rightarrow> db \<Rightarrow> error + unit \<times> db" where
  "put_namespaces rows d =
     (if namespaces_ok rows then Inr ((), d\<lparr>namespaces_tbl := rows\<rparr>) else Inl ErrConstraint)"

definition put_facts :: "fact_row list \<Rightarrow> db \<Rightarrow> error + unit \<times> db" where
  "put_facts rows d = (if facts_ok d rows then Inr ((), d\<lparr>facts_tbl := rows\<rparr>) else Inl ErrConstraint)"

definition put_promotions :: "promotion list \<Rightarrow> db \<Rightarrow> error + unit \<times> db" where
  "put_promotions rows d =
     (if promotions_ok d rows then Inr ((), d\<lparr>promotions_tbl := rows\<rparr>) else Inl ErrConstraint)"

definition put_memberships :: "membership list \<Rightarrow> db \<Rightarrow> error + unit \<times> db" where
  "put_memberships rows d =
     (if memberships_ok d rows then Inr ((), d\<lparr>memberships_tbl := rows\<rparr>) else Inl ErrConstraint)"

text \<open>Lookups by primary key.\<close>

abbreviation fact_at :: "db \<Rightarrow> uuid \<Rightarrow> fact_row option" where
  "fact_at d i \<equiv> tbl_get f_id i (facts_tbl d)"

abbreviation promotion_at :: "db \<Rightarrow> uuid \<Rightarrow> promotion option" where
  "promotion_at d i \<equiv> tbl_get p_id i (promotions_tbl d)"

abbreviation namespace_at :: "db \<Rightarrow> uuid \<Rightarrow> ns_row option" where
  "namespace_at d i \<equiv> tbl_get nr_id i (namespaces_tbl d)"

section \<open>Facts\<close>

lemma state_str_inj [simp]: "state_str a = state_str b \<longleftrightarrow> a = b"
  by (cases a; cases b) simp_all

lemma schema_ok_empty: "schema_ok empty_db"
  by (simp add: schema_ok_def empty_db_def namespaces_ok_def facts_ok_def promotions_ok_def
      memberships_ok_def active_keys_def idem_keys_def)

lemma active_keys_append [simp]: "active_keys (xs @ ys) = active_keys xs @ active_keys ys"
  by (simp add: active_keys_def)

lemma active_keys_Cons:
  "active_keys (f # fs) = (if f_status f = StatusActive then [(f_namespace_id f, f_canonical_key f)] else []) @ active_keys fs"
  by (simp add: active_keys_def)

lemma active_unique:
  assumes "distinct (active_keys rows)" and "f \<in> set rows" and "g \<in> set rows"
    and "f_status f = StatusActive" and "f_status g = StatusActive"
    and "f_namespace_id f = f_namespace_id g" and "f_canonical_key f = f_canonical_key g"
  shows "f = g"
  using assms by (auto simp: active_keys_def distinct_map inj_on_def)

lemma put_facts_Inr:
  "put_facts rows d = Inr (u, d') \<longleftrightarrow> facts_ok d rows \<and> d' = d\<lparr>facts_tbl := rows\<rparr>"
  by (auto simp: put_facts_def)

lemma put_promotions_Inr:
  "put_promotions rows d = Inr (u, d') \<longleftrightarrow> promotions_ok d rows \<and> d' = d\<lparr>promotions_tbl := rows\<rparr>"
  by (auto simp: put_promotions_def)

lemma put_namespaces_Inr:
  "put_namespaces rows d = Inr (u, d') \<longleftrightarrow> namespaces_ok rows \<and> d' = d\<lparr>namespaces_tbl := rows\<rparr>"
  by (auto simp: put_namespaces_def)

lemma put_memberships_Inr:
  "put_memberships rows d = Inr (u, d') \<longleftrightarrow> memberships_ok d rows \<and> d' = d\<lparr>memberships_tbl := rows\<rparr>"
  by (auto simp: put_memberships_def)

lemma facts_ok_ids: "facts_ok d rows \<Longrightarrow> distinct (map f_id rows)"
  by (simp add: facts_ok_def)

lemma facts_ok_row:
  assumes "facts_ok d rows" and "f \<in> set rows"
  shows "f_namespace_id f \<in> set (map nr_id (namespaces_tbl d))" "refers (f_supersedes_id f) (map f_id rows)"
    "refers (f_superseded_by_id f) (map f_id rows)" "f_version f \<le> int4_max"
    "\<forall>v. f_embedding f = Some v \<longrightarrow> length v = embedding_dims"
  using assms by (auto simp: facts_ok_def list_all_iff)

lemma facts_ok_active: "facts_ok d rows \<Longrightarrow> distinct (active_keys rows)"
  by (simp add: facts_ok_def)

lemma facts_ok_cong: "namespaces_tbl d = namespaces_tbl d' \<Longrightarrow> facts_ok d rows = facts_ok d' rows"
  by (simp add: facts_ok_def)

lemma promotions_ok_mono:
  assumes "promotions_ok d rows" and "set (map f_id (facts_tbl d)) \<subseteq> set (map f_id (facts_tbl d'))"
    and "set (map nr_id (namespaces_tbl d)) \<subseteq> set (map nr_id (namespaces_tbl d'))"
  shows "promotions_ok d' rows"
  using assms by (fastforce simp: promotions_ok_def list_all_iff refers_def split: option.splits)


section \<open>Changed stores\<close>

text \<open>The stores the statements of the services leave, seen through lookups.\<close>

definition upd_fact :: "uuid \<Rightarrow> (fact_row \<Rightarrow> fact_row) \<Rightarrow> db \<Rightarrow> db" where
  "upd_fact i u d = d\<lparr>facts_tbl := tbl_upd f_id i u (facts_tbl d)\<rparr>"

definition ins_fact :: "fact_row \<Rightarrow> db \<Rightarrow> db" where
  "ins_fact f d = d\<lparr>facts_tbl := tbl_ins f (facts_tbl d)\<rparr>"

definition upd_promotion :: "uuid \<Rightarrow> (promotion \<Rightarrow> promotion) \<Rightarrow> db \<Rightarrow> db" where
  "upd_promotion i u d = d\<lparr>promotions_tbl := tbl_upd p_id i u (promotions_tbl d)\<rparr>"

definition ins_promotion :: "promotion \<Rightarrow> db \<Rightarrow> db" where
  "ins_promotion p d = d\<lparr>promotions_tbl := tbl_ins p (promotions_tbl d)\<rparr>"

definition log_event :: "audit_event \<Rightarrow> db \<Rightarrow> db" where
  "log_event a d = d\<lparr>audit_tbl := audit_tbl d @ [a]\<rparr>"

lemma upd_fact_sel [simp]:
  "facts_tbl (upd_fact i u d) = tbl_upd f_id i u (facts_tbl d)"
  "promotions_tbl (upd_fact i u d) = promotions_tbl d" "namespaces_tbl (upd_fact i u d) = namespaces_tbl d"
  "memberships_tbl (upd_fact i u d) = memberships_tbl d" "audit_tbl (upd_fact i u d) = audit_tbl d"
  by (simp_all add: upd_fact_def)

lemma ins_fact_sel [simp]:
  "facts_tbl (ins_fact f d) = tbl_ins f (facts_tbl d)"
  "promotions_tbl (ins_fact f d) = promotions_tbl d" "namespaces_tbl (ins_fact f d) = namespaces_tbl d"
  "memberships_tbl (ins_fact f d) = memberships_tbl d" "audit_tbl (ins_fact f d) = audit_tbl d"
  by (simp_all add: ins_fact_def)

lemma upd_promotion_sel [simp]:
  "promotions_tbl (upd_promotion i w d) = tbl_upd p_id i w (promotions_tbl d)"
  "facts_tbl (upd_promotion i w d) = facts_tbl d" "namespaces_tbl (upd_promotion i w d) = namespaces_tbl d"
  "memberships_tbl (upd_promotion i w d) = memberships_tbl d" "audit_tbl (upd_promotion i w d) = audit_tbl d"
  by (simp_all add: upd_promotion_def)

lemma ins_promotion_sel [simp]:
  "promotions_tbl (ins_promotion p d) = tbl_ins p (promotions_tbl d)"
  "facts_tbl (ins_promotion p d) = facts_tbl d" "namespaces_tbl (ins_promotion p d) = namespaces_tbl d"
  "memberships_tbl (ins_promotion p d) = memberships_tbl d" "audit_tbl (ins_promotion p d) = audit_tbl d"
  by (simp_all add: ins_promotion_def)

lemma log_event_sel [simp]:
  "audit_tbl (log_event a d) = audit_tbl d @ [a]" "promotions_tbl (log_event a d) = promotions_tbl d"
  "facts_tbl (log_event a d) = facts_tbl d" "namespaces_tbl (log_event a d) = namespaces_tbl d"
  "memberships_tbl (log_event a d) = memberships_tbl d"
  by (simp_all add: log_event_def)

lemma tbl_get_ins:
  "tbl_get key k (tbl_ins r t) = (case tbl_get key k t of None \<Rightarrow> if key r = k then Some r else None | Some x \<Rightarrow> Some x)"
  by (simp add: tbl_get_def tbl_ins_def find_append split: option.split)

lemma tbl_get_in: "distinct (map key t) \<Longrightarrow> r \<in> set t \<Longrightarrow> tbl_get key (key r) t = Some r"
  unfolding tbl_get_def by (rule find_unique) (auto intro: distinct_map_inj)

lemma map_key_upd: "(\<And>r. key (f r) = key r) \<Longrightarrow> map key (tbl_upd key k f t) = map key t"
  by (simp add: tbl_upd_def)

lemma map_key_ins: "map key (tbl_ins r t) = map key t @ [key r]"
  by (simp add: tbl_ins_def)

text \<open>When an update of one fact keeps the constraints, and what the constraints leave of it.\<close>

lemma facts_ok_upd:
  assumes "facts_ok d (facts_tbl d)" and f: "fact_at d i = Some f"
    and keep: "\<And>r. f_id (u r) = f_id r"
    and row: "f_namespace_id (u f) = f_namespace_id f" "refers (f_supersedes_id (u f)) (map f_id (facts_tbl d))"
      "refers (f_superseded_by_id (u f)) (map f_id (facts_tbl d))" "f_version (u f) \<le> int4_max"
      "\<forall>v. f_embedding (u f) = Some v \<longrightarrow> length v = embedding_dims"
    and alone: "f_status (u f) = StatusActive \<Longrightarrow>
      \<forall>g \<in> set (facts_tbl d). f_status g = StatusActive \<longrightarrow> f_id g \<noteq> i \<longrightarrow>
        f_namespace_id g = f_namespace_id f \<longrightarrow> f_canonical_key g \<noteq> f_canonical_key (u f)"
  shows "facts_ok d (tbl_upd f_id i u (facts_tbl d))"
proof -
  let ?t = "facts_tbl d"
  have ids: "distinct (map f_id ?t)" and act: "distinct (active_keys ?t)"
    using assms(1) by (simp_all add: facts_ok_def)
  have ff: "f \<in> set ?t" "f_id f = i" using f by (auto dest: tbl_get_Some)
  then have uniq: "r = f" if "r \<in> set ?t" "f_id r = i" for r
    using that ids by (auto intro: distinct_map_inj)
  from ff obtain xs ys where t: "?t = xs @ f # ys" by (meson split_list)
  have no: "f_id r \<noteq> i" if "r \<in> set xs \<union> set ys" for r
    using that ids t ff by (auto simp: rev_image_eqI)
  have un: "tbl_upd f_id i u ?t = xs @ u f # ys"
    using no ff by (auto simp: t tbl_upd_def intro: map_idI)
  have "distinct (active_keys (xs @ u f # ys))"
  proof (cases "f_status (u f) = StatusActive")
    case True
    have "(f_namespace_id f, f_canonical_key (u f)) \<notin> set (active_keys (xs @ ys))"
      using alone[OF True] no by (auto simp: active_keys_def t)
    then show ?thesis using act True row(1)
      by (auto simp: t active_keys_Cons split: if_splits)
  next
    case False
    then show ?thesis using act by (auto simp: t active_keys_Cons split: if_splits)
  qed
  moreover have "map f_id (xs @ u f # ys) = map f_id ?t" by (simp add: t keep)
  ultimately show ?thesis using assms(1) row
    unfolding un by (auto simp: facts_ok_def t list_all_iff split: option.split)
qed

lemma promotions_ok_facts:
  "map f_id (facts_tbl d') = map f_id (facts_tbl d) \<Longrightarrow> namespaces_tbl d' = namespaces_tbl d \<Longrightarrow>
   promotions_ok d' rows = promotions_ok d rows"
  by (simp add: promotions_ok_def flip: set_map)

end
