(* ===== verification/Audit_Log.thy ===== *)
theory Audit_Log
  imports Schema
begin

text \<open>
  The append-only event writer (\<^verbatim>\<open>internal/audit/audit.go\<close>). \<open>audit_write\<close> is one \<open>INSERT\<close>: the only
  statement of the service that names the table, so a store's events only ever grow at the end. The
  detail is a map of marshalable values, so its marshalling does not fail.
\<close>

record event =
  e_principal :: principal_id
  e_action :: string
  e_subject_type :: string
  e_subject_id :: uuid
  e_from_state :: string
  e_to_state :: string
  e_detail :: "(string \<times> detail) list"

definition nullable :: "string \<Rightarrow> string option" where
  "nullable s = (if s = [] then None else Some s)"

definition audit_row :: "timestamp \<Rightarrow> event \<Rightarrow> audit_event" where
  "audit_row now e = \<lparr>a_at = now, a_principal = e_principal e, a_action = e_action e,
     a_subject_type = e_subject_type e, a_subject_id = e_subject_id e,
     a_from_state = nullable (e_from_state e), a_to_state = nullable (e_to_state e), a_detail = e_detail e\<rparr>"

definition audit_write :: "timestamp \<Rightarrow> event \<Rightarrow> (db, unit) sql" where
  "audit_write now e = stmt (\<lambda>d. Inr ((), d\<lparr>audit_tbl := audit_tbl d @ [audit_row now e]\<rparr>))"

lemma audit_write_run [sql_run]:
  "audit_write now e \<lparr>store = d, aborted = False, faults = []\<rparr> =
     (Inr (), \<lparr>store = d\<lparr>audit_tbl := audit_tbl d @ [audit_row now e]\<rparr>, aborted = False, faults = []\<rparr>)"
  "audit_write now e \<lparr>store = d, aborted = True, faults = fs\<rparr> =
     (Inl ErrTxAborted, \<lparr>store = d, aborted = True, faults = fs\<rparr>)"
  by (simp_all add: audit_write_def sql_run)

lemma well_behaved_audit_write [sql_safe]: "well_behaved (audit_write now e)"
  unfolding audit_write_def by (rule sql_safe)

lemma exec_audit_write [sql_exec]:
  "exec (audit_write now e) d a d' \<longleftrightarrow> d' = log_event (audit_row now e) d"
  by (auto simp: audit_write_def sql_exec log_event_def)

lemma exec_fail_audit_write [sql_exec]: "exec_fail (audit_write now e) d x d' \<longleftrightarrow> False"
  by (simp add: audit_write_def sql_exec)

end
