(* ===== verification/Evolution.thy ===== *)
theory Evolution
  imports Audit_Log "HOL-Library.Sublist"
begin

text \<open>
  What no statement of the service ever undoes. \<open>evolves\<close> relates a store to the stores it can become:
  the schema's constraints and the derivation of the canonical key are kept, the audit trail and the
  reviews of a promotion only grow at their end, and a stored fact, promotion or namespace keeps its
  identity and every field the code has no statement for. It is a preorder, so an operation has it when
  each of its statements has: \<open>upholds evolves\<close> follows the shape of the code.
\<close>

section \<open>What a row keeps\<close>

definition fact_fixed :: "fact_row \<Rightarrow> fact_row \<Rightarrow> bool" where
  "fact_fixed f g \<longleftrightarrow>
     f_id g = f_id f \<and> f_namespace_id g = f_namespace_id f \<and> f_statement g = f_statement f \<and>
     f_subject g = f_subject f \<and> f_canonical_key g = f_canonical_key f \<and>
     f_confidence g = f_confidence f \<and> f_source_memory_ids g = f_source_memory_ids f \<and>
     f_provenance g = f_provenance f \<and> f_valid_to g = f_valid_to f \<and> f_metadata g = f_metadata f \<and>
     f_created_by g = f_created_by f \<and> f_created_at g = f_created_at f \<and>
     set (f_tags f) \<subseteq> set (f_tags g) \<and> f_version f \<le> f_version g"

definition promotion_fixed :: "promotion \<Rightarrow> promotion \<Rightarrow> bool" where
  "promotion_fixed p q \<longleftrightarrow>
     p_id q = p_id p \<and> p_fact_id q = p_fact_id p \<and> p_target_namespace_id q = p_target_namespace_id p \<and>
     p_candidate_memory_ids q = p_candidate_memory_ids p \<and> p_proposer q = p_proposer p \<and>
     p_required_approvals q = p_required_approvals p \<and> p_conflict_with q = p_conflict_with p \<and>
     p_idempotency_key q = p_idempotency_key p \<and> p_created_at q = p_created_at p \<and>
     prefix (p_reviews p) (p_reviews q)"

definition namespace_fixed :: "ns_row \<Rightarrow> ns_row \<Rightarrow> bool" where
  "namespace_fixed n m \<longleftrightarrow>
     nr_id m = nr_id n \<and> nr_name m = nr_name n \<and> nr_kind m = nr_kind n \<and>
     nr_parent_id m = nr_parent_id n \<and> nr_created_at m = nr_created_at n"

lemma fact_fixed_refl [simp]: "fact_fixed f f"
  by (simp add: fact_fixed_def)

lemma fact_fixed_trans: "fact_fixed f g \<Longrightarrow> fact_fixed g h \<Longrightarrow> fact_fixed f h"
  unfolding fact_fixed_def by auto

lemma promotion_fixed_refl [simp]: "promotion_fixed p p"
  by (simp add: promotion_fixed_def)

lemma promotion_fixed_trans: "promotion_fixed p q \<Longrightarrow> promotion_fixed q r \<Longrightarrow> promotion_fixed p r"
  unfolding promotion_fixed_def by (auto intro: prefix_order.order_trans)

lemma namespace_fixed_refl [simp]: "namespace_fixed n n"
  by (simp add: namespace_fixed_def)

lemma namespace_fixed_trans: "namespace_fixed n m \<Longrightarrow> namespace_fixed m k \<Longrightarrow> namespace_fixed n k"
  by (simp add: namespace_fixed_def)

section \<open>What a store keeps\<close>

definition keys_derived :: "db \<Rightarrow> bool" where
  "keys_derived d \<longleftrightarrow> list_all (\<lambda>f. f_canonical_key f = canonical_key (f_subject f)) (facts_tbl d)"

definition rows_kept :: "('r \<Rightarrow> 'r \<Rightarrow> bool) \<Rightarrow> ('r \<Rightarrow> uuid) \<Rightarrow> 'r list \<Rightarrow> 'r list \<Rightarrow> bool" where
  "rows_kept R key t t' \<longleftrightarrow> (\<forall>i r. tbl_get key i t = Some r \<longrightarrow> (\<exists>r'. tbl_get key i t' = Some r' \<and> R r r'))"

definition evolves :: "db \<Rightarrow> db \<Rightarrow> bool" where
  "evolves d d' \<longleftrightarrow>
     (schema_ok d \<longrightarrow> schema_ok d') \<and> (keys_derived d \<longrightarrow> keys_derived d') \<and>
     prefix (audit_tbl d) (audit_tbl d') \<and>
     rows_kept fact_fixed f_id (facts_tbl d) (facts_tbl d') \<and>
     rows_kept promotion_fixed p_id (promotions_tbl d) (promotions_tbl d') \<and>
     rows_kept namespace_fixed nr_id (namespaces_tbl d) (namespaces_tbl d')"

lemma rows_kept_refl: "(\<And>r. R r r) \<Longrightarrow> rows_kept R key t t"
  by (simp add: rows_kept_def)

lemma rows_kept_trans:
  assumes "\<And>a b c. R a b \<Longrightarrow> R b c \<Longrightarrow> R a c" and "rows_kept R key t t'" and "rows_kept R key t' t''"
  shows "rows_kept R key t t''"
  using assms unfolding rows_kept_def by meson

lemma rows_kept_ins: "(\<And>r. R r r) \<Longrightarrow> rows_kept R key t (tbl_ins r t)"
  by (simp add: rows_kept_def tbl_get_ins)

lemma rows_kept_upd:
  assumes "\<And>r. key (u r) = key r" and "\<And>r. R r r" and "\<And>r. R r (u r)"
  shows "rows_kept R key t (tbl_upd key i u t)"
  using assms by (auto simp: rows_kept_def tbl_get_upd)

lemma evolves_preorder [simp]: "reflp evolves" "transp evolves"
proof -
  show "reflp evolves" by (simp add: reflp_def evolves_def rows_kept_refl)
  show "transp evolves"
    unfolding transp_def evolves_def
    by (auto intro: prefix_order.order_trans rows_kept_trans[OF fact_fixed_trans]
        rows_kept_trans[OF promotion_fixed_trans] rows_kept_trans[OF namespace_fixed_trans])
qed

lemma evolves_refl [simp]: "evolves d d"
  using evolves_preorder(1) by (simp add: reflp_def)

lemma evolves_trans: "evolves d d' \<Longrightarrow> evolves d' d'' \<Longrightarrow> evolves d d''"
  using evolves_preorder(2) by (meson transpD)

section \<open>Changes that are evolutions\<close>

lemma evolves_upd_fact:
  assumes "facts_ok d (tbl_upd f_id i u (facts_tbl d))" and "\<And>f. fact_fixed f (u f)"
  shows "evolves d (upd_fact i u d)"
proof -
  have id: "f_id (u f) = f_id f" for f using assms(2)[of f] by (simp add: fact_fixed_def)
  have "facts_ok (upd_fact i u d) (tbl_upd f_id i u (facts_tbl d))"
    using assms(1) facts_ok_cong[of d "upd_fact i u d"] by simp
  moreover have "promotions_ok (upd_fact i u d) = promotions_ok d"
    by (rule ext, rule promotions_ok_facts) (simp_all add: map_key_upd id)
  moreover have "memberships_ok (upd_fact i u d) = memberships_ok d"
    by (simp add: memberships_ok_def fun_eq_iff)
  moreover have "keys_derived d \<Longrightarrow> keys_derived (upd_fact i u d)"
    using assms(2) by (auto simp: keys_derived_def list_all_iff tbl_upd_def fact_fixed_def)
  moreover have "rows_kept fact_fixed f_id (facts_tbl d) (tbl_upd f_id i u (facts_tbl d))"
    using assms(2) id by (intro rows_kept_upd) auto
  ultimately show ?thesis by (simp add: evolves_def schema_ok_def rows_kept_refl)
qed

lemma evolves_ins_fact:
  assumes "facts_ok d (tbl_ins f (facts_tbl d))" and "f_canonical_key f = canonical_key (f_subject f)"
  shows "evolves d (ins_fact f d)"
proof -
  have "facts_ok (ins_fact f d) (tbl_ins f (facts_tbl d))"
    using assms(1) facts_ok_cong[of d "ins_fact f d"] by simp
  moreover have "promotions_ok d rows \<Longrightarrow> promotions_ok (ins_fact f d) rows" for rows
    by (rule promotions_ok_mono) (auto simp: map_key_ins tbl_ins_def)
  moreover have "memberships_ok (ins_fact f d) = memberships_ok d"
    by (simp add: memberships_ok_def fun_eq_iff)
  moreover have "keys_derived d \<Longrightarrow> keys_derived (ins_fact f d)"
    using assms(2) by (simp add: keys_derived_def tbl_ins_def)
  ultimately show ?thesis by (simp add: evolves_def schema_ok_def rows_kept_refl rows_kept_ins)
qed

lemma evolves_upd_promotion:
  assumes "promotions_ok d (tbl_upd p_id i u (promotions_tbl d))" and "\<And>p. promotion_fixed p (u p)"
  shows "evolves d (upd_promotion i u d)"
proof -
  have id: "p_id (u p) = p_id p" for p using assms(2)[of p] by (simp add: promotion_fixed_def)
  have "promotions_ok (upd_promotion i u d) = promotions_ok d" "memberships_ok (upd_promotion i u d) = memberships_ok d"
    "facts_ok (upd_promotion i u d) = facts_ok d" "keys_derived (upd_promotion i u d) = keys_derived d"
    by (simp_all add: promotions_ok_def memberships_ok_def facts_ok_def keys_derived_def fun_eq_iff)
  moreover have "rows_kept promotion_fixed p_id (promotions_tbl d) (tbl_upd p_id i u (promotions_tbl d))"
    using assms(2) id by (intro rows_kept_upd) auto
  ultimately show ?thesis using assms(1) by (simp add: evolves_def schema_ok_def rows_kept_refl)
qed

lemma evolves_ins_promotion:
  assumes "promotions_ok d (tbl_ins p (promotions_tbl d))"
  shows "evolves d (ins_promotion p d)"
proof -
  have "promotions_ok (ins_promotion p d) = promotions_ok d" "memberships_ok (ins_promotion p d) = memberships_ok d"
    "facts_ok (ins_promotion p d) = facts_ok d" "keys_derived (ins_promotion p d) = keys_derived d"
    by (simp_all add: promotions_ok_def memberships_ok_def facts_ok_def keys_derived_def fun_eq_iff)
  then show ?thesis using assms by (simp add: evolves_def schema_ok_def rows_kept_refl rows_kept_ins)
qed

lemma evolves_log [simp]: "evolves d (log_event a d)"
proof -
  have "promotions_ok (log_event a d) = promotions_ok d" "memberships_ok (log_event a d) = memberships_ok d"
    "facts_ok (log_event a d) = facts_ok d" "keys_derived (log_event a d) = keys_derived d"
    by (simp_all add: promotions_ok_def memberships_ok_def facts_ok_def keys_derived_def fun_eq_iff)
  then show ?thesis by (simp add: evolves_def schema_ok_def rows_kept_refl)
qed

lemma upholds_audit_write: "upholds evolves (audit_write now e)"
  by (auto simp: upholds_def sql_exec intro: sql_safe)

end
