(* ===== verification/Facts.thy ===== *)
theory Facts
  imports Evolution
begin

text \<open>
  The fact repository and service (\<^verbatim>\<open>internal/facts/repo.go\<close>, \<^verbatim>\<open>service.go\<close>, \<^verbatim>\<open>backfill.go\<close>): each function
  that issues statements is a program over the store. The transaction's clock \<^verbatim>\<open>now()\<close> and the uuid
  \<^verbatim>\<open>gen_random_uuid()\<close> draws are arguments. A query whose order the SQL leaves open visits the rows in
  the order \<open>plan\<close> gives, any permutation; the vector distance of the index is the argument \<open>dist\<close>.
\<close>

section \<open>What an update does to a row\<close>

definition row_status :: "timestamp \<Rightarrow> status \<Rightarrow> fact_row \<Rightarrow> fact_row" where
  "row_status now to f = f\<lparr>f_status := to, f_version := f_version f + 1, f_updated_at := now\<rparr>"

definition row_activate :: "timestamp \<Rightarrow> principal_id list \<Rightarrow> fact_row \<Rightarrow> fact_row" where
  "row_activate now approved_by f =
     f\<lparr>f_status := StatusActive, f_valid_from := Some now, f_approved_by := approved_by,
       f_version := f_version f + 1, f_updated_at := now\<rparr>"

text \<open>\<^verbatim>\<open>array_agg(DISTINCT t)\<close> over the tags and \<open>auto:true\<close>: each once, in order.\<close>

definition auto_tags :: "string list \<Rightarrow> string list" where
  "auto_tags ts = sort (remdups (ts @ [''auto:true'']))"

definition row_activate_auto :: "timestamp \<Rightarrow> fact_row \<Rightarrow> fact_row" where
  "row_activate_auto now f =
     f\<lparr>f_status := StatusActive, f_valid_from := Some now, f_tags := auto_tags (f_tags f),
       f_version := f_version f + 1, f_updated_at := now\<rparr>"

definition row_superseded :: "timestamp \<Rightarrow> uuid \<Rightarrow> fact_row \<Rightarrow> fact_row" where
  "row_superseded now new f =
     f\<lparr>f_status := StatusSuperseded, f_superseded_by_id := Some new,
       f_version := f_version f + 1, f_updated_at := now\<rparr>"

definition row_supersedes :: "timestamp \<Rightarrow> uuid \<Rightarrow> fact_row \<Rightarrow> fact_row" where
  "row_supersedes now old f = f\<lparr>f_supersedes_id := Some old, f_updated_at := now\<rparr>"

definition row_embed :: "vec \<Rightarrow> fact_row \<Rightarrow> fact_row" where
  "row_embed v f = f\<lparr>f_embedding := Some v\<rparr>"

section \<open>Statements\<close>

text \<open>\<^verbatim>\<open>UPDATE facts SET u WHERE p\<close>, with the number of rows affected.\<close>

definition update_facts :: "(fact_row \<Rightarrow> bool) \<Rightarrow> (fact_row \<Rightarrow> fact_row) \<Rightarrow> db \<Rightarrow> error + nat \<times> db" where
  "update_facts p u d =
     (case put_facts (map (\<lambda>f. if p f then u f else f) (facts_tbl d)) d of
        Inl e \<Rightarrow> Inl e
      | Inr (_, d') \<Rightarrow> Inr (length (filter p (facts_tbl d)), d'))"

definition fact_to_row :: "fact \<Rightarrow> fact_row" where
  "fact_to_row f = fact.extend (f\<lparr>f_superseded_by_id := None, f_approved_by := []\<rparr>) (fact_row.fields None)"

definition insert_fact :: "timestamp \<Rightarrow> uuid \<Rightarrow> fact \<Rightarrow> (db, fact) sql" where
  "insert_fact now new f =
     (let f' = f\<lparr>f_canonical_key := canonical_key (f_subject f), f_id := new, f_version := 1,
                 f_created_at := now, f_updated_at := now\<rparr>
      in bind_sql (stmt (\<lambda>d. put_facts (tbl_ins (fact_to_row f') (facts_tbl d)) d)) (\<lambda>_. return_sql f'))"

definition set_embedding :: "uuid \<Rightarrow> vec \<Rightarrow> (db, nat) sql" where
  "set_embedding i v = stmt (update_facts (\<lambda>f. f_id f = i) (row_embed v))"

definition get_fact :: "uuid \<Rightarrow> (db, fact) sql" where
  "get_fact i = fetch ErrFactNotFound (\<lambda>d. map_option fact.truncate (fact_at d i))"

definition active_by_key :: "uuid \<Rightarrow> string \<Rightarrow> db \<Rightarrow> fact_row option" where
  "active_by_key ns key d =
     find (\<lambda>f. f_namespace_id f = ns \<and> f_canonical_key f = key \<and> f_status f = StatusActive) (facts_tbl d)"

definition find_active_by_key :: "uuid \<Rightarrow> string \<Rightarrow> (db, fact) sql" where
  "find_active_by_key ns key =
     fetch ErrFactNotFound (\<lambda>d. map_option fact.truncate (active_by_key ns key d))"

definition affected :: "error \<Rightarrow> nat \<Rightarrow> (db, unit) sql" where
  "affected e n = (if n = 0 then fail_sql e else return_sql ())"

definition set_status :: "timestamp \<Rightarrow> uuid \<Rightarrow> status \<Rightarrow> (db, unit) sql" where
  "set_status now i to =
     bind_sql (stmt (update_facts (\<lambda>f. f_id f = i) (row_status now to))) (affected ErrFactNotFound)"

definition activate_fact :: "timestamp \<Rightarrow> uuid \<Rightarrow> principal_id list \<Rightarrow> (db, unit) sql" where
  "activate_fact now i approved_by =
     bind_sql (stmt (update_facts (\<lambda>f. f_id f = i) (row_activate now approved_by))) (affected ErrFactNotFound)"

definition activate_auto :: "timestamp \<Rightarrow> uuid \<Rightarrow> (db, unit) sql" where
  "activate_auto now i =
     bind_sql (stmt (update_facts (\<lambda>f. f_id f = i) (row_activate_auto now))) (affected ErrFactNotFound)"

definition supersede :: "timestamp \<Rightarrow> uuid \<Rightarrow> uuid \<Rightarrow> (db, unit) sql" where
  "supersede now old new =
     bind_sql (stmt (update_facts (\<lambda>f. f_id f = old) (row_superseded now new)))
     (\<lambda>_. bind_sql (stmt (update_facts (\<lambda>f. f_id f = new) (row_supersedes now old)))
     (\<lambda>_. return_sql ()))"

text \<open>The expected version is a 64-bit \<^verbatim>\<open>int\<close>; one outside the column's range is refused by the driver.\<close>

definition revoke_with_version :: "timestamp \<Rightarrow> uuid \<Rightarrow> int \<Rightarrow> (db, unit) sql" where
  "revoke_with_version now i expected =
     bind_sql (stmt (\<lambda>d. if expected < int4_min \<or> int4_max < expected then Inl ErrConstraint
         else update_facts (\<lambda>f. f_id f = i \<and> f_version f = expected \<and> f_status f = StatusActive)
           (row_status now StatusRevoked) d))
     (\<lambda>n. if n = 0
          then bind_sql (attempt (get_fact i))
            (\<lambda>r. case r of
               Inl e \<Rightarrow> fail_sql (if e = ErrFactNotFound then ErrFactNotFound else ErrVersionConflict)
             | Inr f \<Rightarrow> if f_status f \<noteq> StatusActive then fail_sql (ErrCannotRevoke (f_status f))
                       else fail_sql ErrVersionConflict)
          else return_sql ())"

section \<open>Listing\<close>

record list_filter =
  lf_namespaces :: "uuid list option"
  lf_status :: "string option"
  lf_canonical_key :: "string option"
  lf_tag :: "string option"
  lf_tags :: "string list"
  lf_text :: "string option"
  lf_query_vec :: "vec option"
  lf_limit :: int

text \<open>SQL \<^verbatim>\<open>LIKE\<close>: \<open>%\<close> any text, \<open>_\<close> one character, \<open>\\<close> quotes the next; \<^verbatim>\<open>ILIKE\<close> ignores case.\<close>

fun like :: "string \<Rightarrow> string \<Rightarrow> bool" where
  "like [] s \<longleftrightarrow> s = []"
| "like (c # p) [] \<longleftrightarrow> c = CHR ''%'' \<and> like p []"
| "like (c # p) (x # s) \<longleftrightarrow>
     (if c = CHR ''%'' then like p (x # s) \<or> like (c # p) s
      else if c = CHR ''_'' then like p s
      else if c = CHR 0x5C then (case p of [] \<Rightarrow> False | e # p' \<Rightarrow> e = x \<and> like p' s)
      else c = x \<and> like p s)"

definition ilike :: "string \<Rightarrow> string \<Rightarrow> bool" where
  "ilike pat s = like (to_lower pat) (to_lower s)"

definition delivered :: "string list \<Rightarrow> string list \<Rightarrow> bool" where
  "delivered wanted tags \<longleftrightarrow>
     (\<exists>t \<in> set tags. t \<in> set wanted) \<or> ''authoritative:true'' \<in> set tags \<or> ''tier:always'' \<in> set tags"

definition opt_holds :: "'a option \<Rightarrow> ('a \<Rightarrow> bool) \<Rightarrow> bool" where
  "opt_holds x P = (case x of None \<Rightarrow> True | Some v \<Rightarrow> P v)"

definition list_where :: "list_filter \<Rightarrow> fact_row \<Rightarrow> bool" where
  "list_where q f \<longleftrightarrow>
     opt_holds (lf_namespaces q) (\<lambda>ns. f_namespace_id f \<in> set ns) \<and>
     opt_holds (lf_status q) (\<lambda>s. status_str (f_status f) = s) \<and>
     opt_holds (lf_canonical_key q) (\<lambda>k. f_canonical_key f = k) \<and>
     opt_holds (lf_tag q) (\<lambda>t. t \<in> set (f_tags f)) \<and>
     (lf_tags q \<noteq> [] \<longrightarrow> delivered (lf_tags q) (f_tags f)) \<and>
     (lf_query_vec q = None \<longrightarrow>
        opt_holds (lf_text q) (\<lambda>t. ilike (''%'' @ t @ ''%'') (f_statement f)))"

text \<open>
  \<^verbatim>\<open>ORDER BY embedding <=> q ASC NULLS LAST\<close>, or newest first. Vectors of different dimensions have no
  distance: the query is refused.
\<close>

definition list_order :: "(vec \<Rightarrow> vec \<Rightarrow> int) \<Rightarrow> list_filter \<Rightarrow> fact_row list \<Rightarrow> fact_row list" where
  "list_order dist q rows =
     (case lf_query_vec q of
        Some v \<Rightarrow> sort_key (\<lambda>f. dist v (the (f_embedding f))) (filter (\<lambda>f. f_embedding f \<noteq> None) rows)
                  @ filter (\<lambda>f. f_embedding f = None) rows
      | None \<Rightarrow> sort_key (\<lambda>f. - f_created_at f) rows)"

definition dims_differ :: "list_filter \<Rightarrow> fact_row list \<Rightarrow> bool" where
  "dims_differ q rows =
     (case lf_query_vec q of
        None \<Rightarrow> False
      | Some v \<Rightarrow> v = [] \<or> list_ex (\<lambda>f. case f_embedding f of None \<Rightarrow> False | Some w \<Rightarrow> length w \<noteq> length v) rows)"

definition limited :: "int \<Rightarrow> 'a list \<Rightarrow> 'a list" where
  "limited n xs = (if n > 0 then take (nat n) xs else xs)"

definition list_facts ::
    "(fact_row list \<Rightarrow> fact_row list) \<Rightarrow> (vec \<Rightarrow> vec \<Rightarrow> int) \<Rightarrow> list_filter \<Rightarrow> (db, fact list) sql" where
  "list_facts plan dist q =
     stmt (\<lambda>d. let rows = filter (list_where q) (plan (facts_tbl d)) in
       if dims_differ q rows then Inl ErrConstraint
       else Inr (map fact.truncate (limited (lf_limit q) (list_order dist q rows)), d))"

section \<open>The service\<close>

definition revoke_body :: "timestamp \<Rightarrow> uuid \<Rightarrow> int \<Rightarrow> principal_id \<Rightarrow> (db, unit) sql" where
  "revoke_body now i expected who =
     bind_sql (revoke_with_version now i expected)
     (\<lambda>_. audit_write now \<lparr>e_principal = who, e_action = ''fact.revoked'', e_subject_type = ''fact'',
        e_subject_id = i, e_from_state = status_str StatusActive, e_to_state = status_str StatusRevoked,
        e_detail = []\<rparr>)"

definition revoke_fact :: "timestamp \<Rightarrow> uuid \<Rightarrow> int \<Rightarrow> principal_id \<Rightarrow> (db, unit) sql" where
  "revoke_fact now i expected who = in_tx (revoke_body now i expected who)"

definition coalesce :: "string option \<Rightarrow> string" where
  "coalesce s = (case s of None \<Rightarrow> [] | Some x \<Rightarrow> x)"

definition to_event :: "audit_event \<Rightarrow> event" where
  "to_event a = \<lparr>e_principal = a_principal a, e_action = a_action a, e_subject_type = a_subject_type a,
     e_subject_id = a_subject_id a, e_from_state = coalesce (a_from_state a),
     e_to_state = coalesce (a_to_state a), e_detail = []\<rparr>"

definition history :: "(audit_event list \<Rightarrow> audit_event list) \<Rightarrow> uuid \<Rightarrow> (db, event list) sql" where
  "history plan i =
     on_pool (query (\<lambda>d. map to_event (sort_key a_at (filter (\<lambda>a. a_subject_id a = i) (plan (audit_tbl d))))))"

section \<open>Backfill\<close>

type_synonym embedder = "string \<Rightarrow> error + vec"

record backfill_result =
  scanned :: nat
  embedded :: nat
  failed :: nat

fun backfill_loop :: "embedder \<Rightarrow> (uuid \<times> string) list \<Rightarrow> backfill_result \<Rightarrow> (db, backfill_result) sql" where
  "backfill_loop em [] res = return_sql res"
| "backfill_loop em ((i, text) # work) res =
     (case em text of
        Inl e \<Rightarrow> backfill_loop em work (res\<lparr>failed := failed res + 1\<rparr>)
      | Inr v \<Rightarrow> bind_sql (attempt (on_pool (set_embedding i v)))
          (\<lambda>r. case r of
             Inl e \<Rightarrow> backfill_loop em work (res\<lparr>failed := failed res + 1\<rparr>)
           | Inr _ \<Rightarrow> backfill_loop em work (res\<lparr>embedded := embedded res + 1\<rparr>)))"

definition backfill_todo :: "fact_row \<Rightarrow> bool" where
  "backfill_todo f \<longleftrightarrow> f_status f = StatusActive \<and> f_embedding f = None"

definition backfill_embeddings ::
    "(fact_row list \<Rightarrow> fact_row list) \<Rightarrow> embedder \<Rightarrow> (db, backfill_result) sql" where
  "backfill_embeddings plan em =
     bind_sql (on_pool (query (\<lambda>d. map (\<lambda>f. (f_id f, embed_text (f_subject f) (f_statement f)))
         (filter backfill_todo (plan (facts_tbl d))))))
     (\<lambda>work. backfill_loop em work \<lparr>scanned = length work, embedded = 0, failed = 0\<rparr>)"


section \<open>What the row updates keep\<close>

lemmas row_defs = row_status_def row_activate_def row_activate_auto_def row_superseded_def
  row_supersedes_def row_embed_def

lemma row_status_sel [simp]:
  "f_id (row_status now to f) = f_id f" "f_namespace_id (row_status now to f) = f_namespace_id f"
  "f_canonical_key (row_status now to f) = f_canonical_key f" "f_status (row_status now to f) = to"
  "f_approved_by (row_status now to f) = f_approved_by f" "f_valid_to (row_status now to f) = f_valid_to f"
  "f_supersedes_id (row_status now to f) = f_supersedes_id f" "f_tags (row_status now to f) = f_tags f"
  "f_superseded_by_id (row_status now to f) = f_superseded_by_id f"
  "f_version (row_status now to f) = f_version f + 1" "f_embedding (row_status now to f) = f_embedding f"
  by (simp_all add: row_status_def)

lemma row_activate_sel [simp]:
  "f_id (row_activate now a f) = f_id f" "f_namespace_id (row_activate now a f) = f_namespace_id f"
  "f_canonical_key (row_activate now a f) = f_canonical_key f" "f_status (row_activate now a f) = StatusActive"
  "f_approved_by (row_activate now a f) = a" "f_tags (row_activate now a f) = f_tags f"
  "f_supersedes_id (row_activate now a f) = f_supersedes_id f"
  "f_superseded_by_id (row_activate now a f) = f_superseded_by_id f"
  "f_version (row_activate now a f) = f_version f + 1" "f_embedding (row_activate now a f) = f_embedding f"
  by (simp_all add: row_activate_def)

lemma row_activate_auto_sel [simp]:
  "f_id (row_activate_auto now f) = f_id f" "f_namespace_id (row_activate_auto now f) = f_namespace_id f"
  "f_canonical_key (row_activate_auto now f) = f_canonical_key f"
  "f_status (row_activate_auto now f) = StatusActive" "f_tags (row_activate_auto now f) = auto_tags (f_tags f)"
  "f_approved_by (row_activate_auto now f) = f_approved_by f"
  "f_supersedes_id (row_activate_auto now f) = f_supersedes_id f"
  "f_superseded_by_id (row_activate_auto now f) = f_superseded_by_id f"
  "f_version (row_activate_auto now f) = f_version f + 1" "f_embedding (row_activate_auto now f) = f_embedding f"
  by (simp_all add: row_activate_auto_def)

lemma row_superseded_sel [simp]:
  "f_id (row_superseded now n f) = f_id f" "f_namespace_id (row_superseded now n f) = f_namespace_id f"
  "f_canonical_key (row_superseded now n f) = f_canonical_key f"
  "f_status (row_superseded now n f) = StatusSuperseded" "f_tags (row_superseded now n f) = f_tags f"
  "f_approved_by (row_superseded now n f) = f_approved_by f"
  "f_supersedes_id (row_superseded now n f) = f_supersedes_id f"
  "f_superseded_by_id (row_superseded now n f) = Some n"
  "f_version (row_superseded now n f) = f_version f + 1" "f_embedding (row_superseded now n f) = f_embedding f"
  by (simp_all add: row_superseded_def)

lemma row_supersedes_sel [simp]:
  "f_id (row_supersedes now n f) = f_id f" "f_namespace_id (row_supersedes now n f) = f_namespace_id f"
  "f_canonical_key (row_supersedes now n f) = f_canonical_key f"
  "f_status (row_supersedes now n f) = f_status f" "f_tags (row_supersedes now n f) = f_tags f"
  "f_approved_by (row_supersedes now n f) = f_approved_by f"
  "f_supersedes_id (row_supersedes now n f) = Some n"
  "f_superseded_by_id (row_supersedes now n f) = f_superseded_by_id f"
  "f_version (row_supersedes now n f) = f_version f" "f_embedding (row_supersedes now n f) = f_embedding f"
  by (simp_all add: row_supersedes_def)

lemma row_embed_sel [simp]:
  "f_id (row_embed v f) = f_id f" "f_namespace_id (row_embed v f) = f_namespace_id f"
  "f_canonical_key (row_embed v f) = f_canonical_key f" "f_status (row_embed v f) = f_status f"
  "f_tags (row_embed v f) = f_tags f" "f_approved_by (row_embed v f) = f_approved_by f"
  "f_supersedes_id (row_embed v f) = f_supersedes_id f"
  "f_superseded_by_id (row_embed v f) = f_superseded_by_id f"
  "f_version (row_embed v f) = f_version f" "f_embedding (row_embed v f) = Some v"
  by (simp_all add: row_embed_def)

lemma fact_to_row_sel [simp]:
  "f_id (fact_to_row f) = f_id f" "f_namespace_id (fact_to_row f) = f_namespace_id f"
  "f_statement (fact_to_row f) = f_statement f" "f_subject (fact_to_row f) = f_subject f"
  "f_canonical_key (fact_to_row f) = f_canonical_key f" "f_status (fact_to_row f) = f_status f"
  "f_tags (fact_to_row f) = f_tags f" "f_approved_by (fact_to_row f) = []"
  "f_supersedes_id (fact_to_row f) = f_supersedes_id f" "f_superseded_by_id (fact_to_row f) = None"
  "f_version (fact_to_row f) = f_version f" "f_embedding (fact_to_row f) = None"
  "f_created_by (fact_to_row f) = f_created_by f"
  by (simp_all add: fact_to_row_def fact.defs fact_row.defs)

lemma set_auto_tags [simp]: "set (auto_tags ts) = insert ''auto:true'' (set ts)"
  by (auto simp: auto_tags_def)

lemma fact_fixed_rows [simp]:
  "fact_fixed f (row_status now to f)" "fact_fixed f (row_activate now a f)"
  "fact_fixed f (row_activate_auto now f)" "fact_fixed f (row_superseded now n f)"
  "fact_fixed f (row_supersedes now n f)" "fact_fixed f (row_embed v f)"
  by (auto simp: fact_fixed_def) (simp_all add: row_defs)

lemma truncate_sel [simp]:
  "f_id (fact.truncate f) = f_id f" "f_namespace_id (fact.truncate f) = f_namespace_id f"
  "f_status (fact.truncate f) = f_status f" "f_canonical_key (fact.truncate f) = f_canonical_key f"
  "f_statement (fact.truncate f) = f_statement f" "f_subject (fact.truncate f) = f_subject f"
  "f_tags (fact.truncate f) = f_tags f" "f_version (fact.truncate f) = f_version f"
  "f_created_by (fact.truncate f) = f_created_by f"
  by (simp_all add: fact.defs)

section \<open>Clean runs of the statements\<close>

lemma update_facts_id_Inr:
  "update_facts (\<lambda>f. f_id f = i) u d = Inr (n, d') \<longleftrightarrow>
     facts_ok d (tbl_upd f_id i u (facts_tbl d)) \<and> d' = upd_fact i u d \<and>
     n = length (filter (\<lambda>f. f_id f = i) (facts_tbl d))"
  by (auto simp: update_facts_def upd_fact_def tbl_upd_def put_facts_def)

lemma filter_id_none: "filter (\<lambda>f. f_id f = i) t = [] \<longleftrightarrow> tbl_get f_id i t = None"
  by (simp add: tbl_get_def find_None_filter)

lemma exec_affected [sql_exec]: "exec (affected e n) d a d' \<longleftrightarrow> n \<noteq> 0 \<and> d' = d"
  by (simp add: affected_def sql_exec)

lemma well_behaved_affected [sql_safe]: "well_behaved (affected e n)"
  by (simp add: affected_def sql_safe)

lemmas fact_statement_defs = set_embedding_def get_fact_def find_active_by_key_def set_status_def
  activate_fact_def activate_auto_def supersede_def

lemma well_behaved_fact_statements [sql_safe]:
  "well_behaved (set_embedding i v)" "well_behaved (get_fact i)" "well_behaved (find_active_by_key ns k)"
  "well_behaved (set_status now i to)" "well_behaved (activate_fact now i a)"
  "well_behaved (activate_auto now i)" "well_behaved (supersede now old new)"
  "well_behaved (insert_fact now new f0)"
  unfolding fact_statement_defs insert_fact_def Let_def by (intro sql_safe)+

lemma exec_update_by_id:
  "exec (bind_sql (stmt (update_facts (\<lambda>f. f_id f = i) u)) (affected e)) d a d' \<longleftrightarrow>
     fact_at d i \<noteq> None \<and> facts_ok d (tbl_upd f_id i u (facts_tbl d)) \<and> d' = upd_fact i u d"
  using filter_id_none[of i "facts_tbl d"]
  by (auto simp: sql_exec sql_safe update_facts_id_Inr)

lemma exec_set_status [sql_exec]:
  "exec (set_status now i to) d a d' \<longleftrightarrow>
     fact_at d i \<noteq> None \<and> facts_ok d (tbl_upd f_id i (row_status now to) (facts_tbl d)) \<and>
     d' = upd_fact i (row_status now to) d"
  unfolding set_status_def by (rule exec_update_by_id)

lemma exec_activate_fact [sql_exec]:
  "exec (activate_fact now i by_whom) d a d' \<longleftrightarrow>
     fact_at d i \<noteq> None \<and> facts_ok d (tbl_upd f_id i (row_activate now by_whom) (facts_tbl d)) \<and>
     d' = upd_fact i (row_activate now by_whom) d"
  unfolding activate_fact_def by (rule exec_update_by_id)

lemma exec_activate_auto [sql_exec]:
  "exec (activate_auto now i) d a d' \<longleftrightarrow>
     fact_at d i \<noteq> None \<and> facts_ok d (tbl_upd f_id i (row_activate_auto now) (facts_tbl d)) \<and>
     d' = upd_fact i (row_activate_auto now) d"
  unfolding activate_auto_def by (rule exec_update_by_id)

lemma exec_set_embedding [sql_exec]:
  "exec (set_embedding i v) d n d' \<longleftrightarrow>
     facts_ok d (tbl_upd f_id i (row_embed v) (facts_tbl d)) \<and> d' = upd_fact i (row_embed v) d \<and>
     n = length (filter (\<lambda>f. f_id f = i) (facts_tbl d))"
  by (simp add: set_embedding_def sql_exec update_facts_id_Inr)

lemma exec_fail_fact_statements [sql_exec]:
  "exec_fail (set_embedding i v) d e d' \<longleftrightarrow> False"
  "exec_fail (supersede now old new) d e d' \<longleftrightarrow> False"
  "exec_fail (get_fact i) d e d' \<longleftrightarrow> fact_at d i = None \<and> e = ErrFactNotFound \<and> d' = d"
  by (auto simp: set_embedding_def supersede_def get_fact_def sql_exec sql_safe)

lemma exec_fail_affected [sql_exec]: "exec_fail (affected x n) d e d' \<longleftrightarrow> n = 0 \<and> e = x \<and> d' = d"
  by (simp add: affected_def sql_exec)

lemma exec_fail_activate_auto [sql_exec]:
  "exec_fail (activate_auto now i) d e d' \<longleftrightarrow>
     fact_at d i = None \<and> e = ErrFactNotFound \<and> facts_ok d (tbl_upd f_id i (row_activate_auto now) (facts_tbl d)) \<and>
     d' = upd_fact i (row_activate_auto now) d"
  using filter_id_none[of i "facts_tbl d"]
  by (auto simp: activate_auto_def sql_exec sql_safe update_facts_id_Inr)

lemma exec_supersede [sql_exec]:
  "exec (supersede now old new) d a d' \<longleftrightarrow>
     facts_ok d (tbl_upd f_id old (row_superseded now new) (facts_tbl d)) \<and>
     facts_ok (upd_fact old (row_superseded now new) d)
       (tbl_upd f_id new (row_supersedes now old) (tbl_upd f_id old (row_superseded now new) (facts_tbl d))) \<and>
     d' = upd_fact new (row_supersedes now old) (upd_fact old (row_superseded now new) d)"
  by (auto simp: supersede_def sql_exec sql_safe update_facts_id_Inr)

lemma exec_get_fact [sql_exec]:
  "exec (get_fact i) d a d' \<longleftrightarrow> (\<exists>r. fact_at d i = Some r \<and> a = fact.truncate r) \<and> d' = d"
  by (auto simp: get_fact_def sql_exec)

lemma exec_absent_find_active [sql_exec]:
  "exec (absent_on ErrFactNotFound (find_active_by_key ns k)) d a d' \<longleftrightarrow>
     a = map_option fact.truncate (active_by_key ns k d) \<and> d' = d"
  by (auto simp: find_active_by_key_def sql_exec)

definition new_fact :: "timestamp \<Rightarrow> uuid \<Rightarrow> fact \<Rightarrow> fact" where
  "new_fact now new f =
     f\<lparr>f_canonical_key := canonical_key (f_subject f), f_id := new, f_version := 1,
       f_created_at := now, f_updated_at := now\<rparr>"

lemma new_fact_sel [simp]:
  "f_id (new_fact now new f) = new" "f_canonical_key (new_fact now new f) = canonical_key (f_subject f)"
  "f_subject (new_fact now new f) = f_subject f" "f_namespace_id (new_fact now new f) = f_namespace_id f"
  "f_status (new_fact now new f) = f_status f" "f_tags (new_fact now new f) = f_tags f"
  "f_version (new_fact now new f) = 1" "f_created_by (new_fact now new f) = f_created_by f"
  "f_statement (new_fact now new f) = f_statement f" "f_supersedes_id (new_fact now new f) = f_supersedes_id f"
  by (simp_all add: new_fact_def)

lemma exec_insert_fact [sql_exec]:
  "exec (insert_fact now new f) d a d' \<longleftrightarrow>
     facts_ok d (tbl_ins (fact_to_row (new_fact now new f)) (facts_tbl d)) \<and>
     a = new_fact now new f \<and> d' = ins_fact (fact_to_row (new_fact now new f)) d"
  by (auto simp: insert_fact_def Let_def sql_exec sql_safe put_facts_def ins_fact_def new_fact_def)

lemma exec_fail_by_id:
  "exec_fail (set_status now i to) d e d' \<Longrightarrow> evolves d d'"
  "exec_fail (activate_fact now i a) d e d' \<Longrightarrow> evolves d d'"
  by (auto simp: set_status_def activate_fact_def sql_exec sql_safe update_facts_id_Inr intro: evolves_upd_fact)

lemma upholds_fact_statements [sql_safe]:
  "upholds evolves (set_embedding i v)" "upholds evolves (set_status now i to)"
  "upholds evolves (activate_fact now i a)" "upholds evolves (activate_auto now i)"
  "upholds evolves (supersede now old new)" "upholds evolves (insert_fact now new f0)"
proof -
  show "upholds evolves (set_embedding i v)" "upholds evolves (set_status now i to)"
    "upholds evolves (activate_fact now i a)" "upholds evolves (activate_auto now i)"
    "upholds evolves (supersede now old new)"
    by (auto simp: upholds_def sql_exec sql_safe dest: exec_fail_by_id intro: evolves_upd_fact
        intro!: evolves_trans[OF evolves_upd_fact evolves_upd_fact])
  show "upholds evolves (insert_fact now new f0)"
    by (auto simp: upholds_def sql_exec sql_safe insert_fact_def Let_def put_facts_def intro: evolves_ins_fact)
      (auto simp: ins_fact_def[symmetric] intro!: evolves_ins_fact)
qed

section \<open>Revoking\<close>

lemma distinct_set_singleton: "distinct xs \<Longrightarrow> set xs = {x} \<Longrightarrow> xs = [x]"
  by (cases xs; cases "tl xs") auto

lemma guarded_upd:
  assumes "distinct (map f_id t)" and "tbl_get f_id i t = Some f"
  shows "map (\<lambda>g. if f_id g = i \<and> P g then u g else g) t = (if P f then tbl_upd f_id i u t else t)"
    and "filter (\<lambda>g. f_id g = i \<and> P g) t = (if P f then [f] else [])"
proof -
  have f: "f \<in> set t" "f_id f = i" using assms(2) by (auto dest: tbl_get_Some)
  have uniq: "g = f" if "g \<in> set t" "f_id g = i" for g
    using that f assms(1) by (auto intro: distinct_map_inj)
  show "map (\<lambda>g. if f_id g = i \<and> P g then u g else g) t = (if P f then tbl_upd f_id i u t else t)"
    using uniq by (auto simp: tbl_upd_def intro!: map_idI)
  have t: "distinct t" using assms(1) by (simp add: distinct_map)
  show "filter (\<lambda>g. f_id g = i \<and> P g) t = (if P f then [f] else [])"
  proof (cases "P f")
    case True
    have "set (filter (\<lambda>g. f_id g = i \<and> P g) t) = {f}"
      unfolding set_filter using uniq f True by blast
    moreover have "distinct (filter (\<lambda>g. f_id g = i \<and> P g) t)" using t by simp
    ultimately have "filter (\<lambda>g. f_id g = i \<and> P g) t = [f]" by (rule distinct_set_singleton[rotated])
    then show ?thesis using True by simp
  next
    case False
    then show ?thesis using uniq by (auto simp: filter_empty_conv)
  qed
qed

definition revocable :: "db \<Rightarrow> uuid \<Rightarrow> int \<Rightarrow> bool" where
  "revocable d i v = (case fact_at d i of None \<Rightarrow> False | Some f \<Rightarrow> f_status f = StatusActive \<and> f_version f = v)"

lemma well_behaved_revoke_with_version [sql_safe]: "well_behaved (revoke_with_version now i v)"
  unfolding revoke_with_version_def
  by (auto intro!: sql_safe split: sum.split)

lemma well_behaved_revoke_body [sql_safe]: "well_behaved (revoke_body now i v who)"
  unfolding revoke_body_def by (intro sql_safe)

lemma facts_ok_ids_upd:
  "facts_ok d (map (\<lambda>f. if p f then u f else f) t) \<Longrightarrow> (\<And>f. f_id (u f) = f_id f) \<Longrightarrow> distinct (map f_id t)"
  by (auto simp: facts_ok_def comp_def if_distrib[of f_id] cong: if_cong)

lemma exec_revoke_with_version [sql_exec]:
  "exec (revoke_with_version now i v) d a d' \<longleftrightarrow>
     int4_min \<le> v \<and> v \<le> int4_max \<and> revocable d i v \<and>
     facts_ok d (tbl_upd f_id i (row_status now StatusRevoked) (facts_tbl d)) \<and>
     d' = upd_fact i (row_status now StatusRevoked) d"
proof -
  let ?p = "\<lambda>f. f_id f = i \<and> f_version f = v \<and> f_status f = StatusActive"
  let ?u = "row_status now StatusRevoked"
  let ?t' = "map (\<lambda>f. if ?p f then ?u f else f) (facts_tbl d)"
  have e: "exec (revoke_with_version now i v) d a d' \<longleftrightarrow>
      int4_min \<le> v \<and> v \<le> int4_max \<and> filter ?p (facts_tbl d) \<noteq> [] \<and> facts_ok d ?t' \<and> d' = d\<lparr>facts_tbl := ?t'\<rparr>"
    unfolding revoke_with_version_def
    by (subst exec_bind) (auto simp: sql_exec sql_safe update_facts_def put_facts_def split: sum.split if_splits)
  show ?thesis
  proof (cases "distinct (map f_id (facts_tbl d))")
    case False
    then have "\<not> facts_ok d ?t'" "\<not> facts_ok d (tbl_upd f_id i ?u (facts_tbl d))"
      using facts_ok_ids_upd[of d _ ?u "facts_tbl d"] by (auto simp: tbl_upd_def)
    then show ?thesis unfolding e by simp
  next
    case ids: True
    show ?thesis
    proof (cases "fact_at d i")
      case None
      then have "filter ?p (facts_tbl d) = []" by (auto simp: tbl_get_None filter_empty_conv)
      then show ?thesis unfolding e using None by (simp add: revocable_def)
    next
      case (Some f)
      show ?thesis unfolding e
        by (auto simp: guarded_upd[OF ids Some, where P = "\<lambda>f. f_version f = v \<and> f_status f = StatusActive"]
            revocable_def Some upd_fact_def)
    qed
  qed
qed

lemma exec_revoke_body:
  "exec (revoke_body now i v who) d a d' \<longleftrightarrow>
     int4_min \<le> v \<and> v \<le> int4_max \<and> revocable d i v \<and>
     facts_ok d (tbl_upd f_id i (row_status now StatusRevoked) (facts_tbl d)) \<and>
     d' = log_event (audit_row now \<lparr>e_principal = who, e_action = ''fact.revoked'', e_subject_type = ''fact'',
        e_subject_id = i, e_from_state = status_str StatusActive, e_to_state = status_str StatusRevoked,
        e_detail = []\<rparr>) (upd_fact i (row_status now StatusRevoked) d)"
  by (auto simp: revoke_body_def sql_exec sql_safe)

lemma revoke_body_evolves: "exec (revoke_body now i v who) d a d' \<Longrightarrow> evolves d d'"
  by (auto simp: exec_revoke_body intro: evolves_trans[OF evolves_upd_fact])

lemma revocable_facts_ok:
  assumes "facts_ok d (facts_tbl d)" and "revocable d i v" and "v < int4_max"
  shows "facts_ok d (tbl_upd f_id i (row_status now StatusRevoked) (facts_tbl d))"
proof -
  obtain f where f: "fact_at d i = Some f" "f_version f = v"
    using assms(2) by (auto simp: revocable_def split: option.splits)
  note row = facts_ok_row[OF assms(1) conjunct1[OF tbl_get_Some[OF f(1)]]]
  show ?thesis
    by (rule facts_ok_upd[OF assms(1) f(1)]) (use f assms(3) row in simp_all)
qed

end
