(* ===== verification/Samples.thy ===== *)
theory Samples
  imports Facts
begin

text \<open>
  Small concrete stores on which the properties are evaluated: a team namespace, a project below it, and
  facts in each state of interest.
\<close>

definition sample_subject :: subject where
  "sample_subject = \<lparr>s_type = ''lang'', s_scope = ''api'', s_qualifiers = []\<rparr>"

definition sample_fact :: "uuid \<Rightarrow> uuid \<Rightarrow> string \<Rightarrow> status \<Rightarrow> string list \<Rightarrow> vec option \<Rightarrow> fact_row" where
  "sample_fact i ns stm st tags em =
     \<lparr>f_id = i, f_namespace_id = ns, f_statement = stm, f_subject = sample_subject,
      f_canonical_key = ''lang:api'', f_status = st, f_confidence = None, f_source_memory_ids = [],
      f_provenance = \<lparr>origin_actor = [], origin_session = [], derived_from = [], rationale = []\<rparr>,
      f_valid_from = None, f_valid_to = None, f_supersedes_id = None, f_superseded_by_id = None,
      f_tags = tags, f_metadata = [], f_created_by = ''ann'', f_approved_by = [], f_version = 1,
      f_created_at = int i, f_updated_at = int i, f_embedding = em\<rparr>"

definition sample_ns :: "uuid \<Rightarrow> string \<Rightarrow> string \<Rightarrow> uuid option \<Rightarrow> ns_row" where
  "sample_ns i name kind parent =
     \<lparr>nr_id = i, nr_name = name, nr_kind = kind, nr_parent_id = parent, nr_policy = JObj [], nr_created_at = 0\<rparr>"

definition sample_db :: "fact_row list \<Rightarrow> promotion list \<Rightarrow> db" where
  "sample_db fs ps =
     \<lparr>namespaces_tbl = [sample_ns 1 ''team'' ''team'' None, sample_ns 2 ''web'' ''project'' (Some 1)],
      facts_tbl = fs, promotions_tbl = ps,
      memberships_tbl = [\<lparr>m_principal = ''rev'', m_namespace_id = 1, m_role = ''reviewer''\<rparr>], audit_tbl = []\<rparr>"

lemma sample_fact_sel [simp]:
  "f_id (sample_fact i ns stm st tags em) = i" "f_namespace_id (sample_fact i ns stm st tags em) = ns"
  "f_status (sample_fact i ns stm st tags em) = st" "f_canonical_key (sample_fact i ns stm st tags em) = ''lang:api''"
  "f_version (sample_fact i ns stm st tags em) = 1" "f_supersedes_id (sample_fact i ns stm st tags em) = None"
  "f_superseded_by_id (sample_fact i ns stm st tags em) = None" "f_embedding (sample_fact i ns stm st tags em) = em"
  "f_tags (sample_fact i ns stm st tags em) = tags" "f_statement (sample_fact i ns stm st tags em) = stm"
  "f_subject (sample_fact i ns stm st tags em) = sample_subject" "f_created_at (sample_fact i ns stm st tags em) = int i"
  "f_approved_by (sample_fact i ns stm st tags em) = []" "f_valid_to (sample_fact i ns stm st tags em) = None"
  by (simp_all add: sample_fact_def)

lemma sample_db_sel [simp]:
  "facts_tbl (sample_db fs ps) = fs" "promotions_tbl (sample_db fs ps) = ps"
  "map nr_id (namespaces_tbl (sample_db fs ps)) = [1, 2]" "audit_tbl (sample_db fs ps) = []"
  "map nr_name (namespaces_tbl (sample_db fs ps)) = [''team'', ''web'']"
  by (simp_all add: sample_db_def sample_ns_def)

lemma sample_namespaces_ok: "namespaces_ok (namespaces_tbl (sample_db fs ps))"
  by (simp add: sample_db_def sample_ns_def namespaces_ok_def kinds_def refers_def)

lemma sample_memberships_ok: "memberships_ok (sample_db fs ps) (memberships_tbl (sample_db fs ps))"
  by (simp add: sample_db_def sample_ns_def memberships_ok_def roles_def)

lemma sample_schema_ok:
  "schema_ok (sample_db fs ps) \<longleftrightarrow> facts_ok (sample_db fs ps) fs \<and> promotions_ok (sample_db fs ps) ps"
  by (simp add: schema_ok_def sample_namespaces_ok sample_memberships_ok)

lemmas sample_eval = sample_schema_ok facts_ok_def promotions_ok_def active_keys_def idem_keys_def refers_def
  int4_max_def int4_min_def embedding_dims_def

lemma sample_row_ids: "map nr_id (namespaces_tbl (sample_db fs ps)) = [1, 2]"
  by simp

end
