(* ===== verification/Namespaces.thy ===== *)
theory Namespaces
  imports Samples
begin

text \<open>
  The registry of namespaces and their policies (\<^verbatim>\<open>internal/namespaces\<close>): the policy's wire format in
  the \<^verbatim>\<open>jsonb\<close> column, the default of each kind, and the repository's statements. A namespace that is
  scanned has its policy decoded; a policy the column holds but the decoder refuses is an error.
\<close>

section \<open>Policies\<close>

record auto_promote =
  ap_engine :: string
  ap_rules :: raw_json

record policy =
  required_approvals :: int
  allowed_proposers :: "string list option"
  pol_auto_promote :: "auto_promote option"

record namespace =
  n_id :: uuid
  n_name :: string
  n_kind :: string
  n_parent_id :: "uuid option"
  n_policy :: policy
  n_created_at :: timestamp

definition zero_policy :: policy where
  "zero_policy = \<lparr>required_approvals = 0, allowed_proposers = None, pol_auto_promote = None\<rparr>"

definition is_zero :: "policy \<Rightarrow> bool" where
  "is_zero p \<longleftrightarrow> required_approvals p = 0 \<and> allowed_proposers p = None \<and> pol_auto_promote p = None"

definition default_policy :: "string \<Rightarrow> policy" where
  "default_policy k =
     (if k = ''org'' then zero_policy\<lparr>required_approvals := 2\<rparr>
      else if k = ''team'' then zero_policy\<lparr>required_approvals := 1,
             pol_auto_promote := Some \<lparr>ap_engine = ''simple/v1'', ap_rules = RawEmpty\<rparr>\<rparr>
      else zero_policy\<lparr>required_approvals := 1\<rparr>)"

section \<open>Wire format\<close>

text \<open>\<^verbatim>\<open>omitempty\<close> leaves out an empty list, empty raw JSON and a nil pointer.\<close>

definition marshal_auto_promote :: "auto_promote \<Rightarrow> error + json" where
  "marshal_auto_promote ap =
     (case ap_rules ap of
        RawEmpty \<Rightarrow> Inr (JObj [(''engine'', JStr (ap_engine ap))])
      | RawMalformed _ \<Rightarrow> Inl ErrMarshal
      | RawJson v \<Rightarrow> Inr (JObj [(''engine'', JStr (ap_engine ap)), (''rules'', v)]))"

definition marshal_policy :: "policy \<Rightarrow> error + json" where
  "marshal_policy p =
     (let base = [(''required_approvals'', JNum (required_approvals p))]
            @ (case allowed_proposers p of
                 None \<Rightarrow> []
               | Some ps \<Rightarrow> if ps = [] then [] else [(''allowed_proposers'', JArr (map JStr ps))])
      in case pol_auto_promote p of
           None \<Rightarrow> Inr (JObj base)
         | Some ap \<Rightarrow>
             (case marshal_auto_promote ap of
                Inl e \<Rightarrow> Inl e
              | Inr v \<Rightarrow> Inr (JObj (base @ [(''auto_promote'', v)]))))"

text \<open>Decoding into an \<^verbatim>\<open>int\<close>, a \<^verbatim>\<open>[]string\<close>, a raw message and a pointer: \<^verbatim>\<open>null\<close> leaves the zero value.\<close>

fun as_int :: "json \<Rightarrow> int option" where
  "as_int (JNum i) = (if int_min \<le> i \<and> i \<le> int_max then Some i else None)"
| "as_int JNull = Some 0"
| "as_int _ = None"

fun as_nil_strings :: "json \<Rightarrow> string list option option" where
  "as_nil_strings (JArr vs) = map_option Some (as_strings vs)"
| "as_nil_strings JNull = Some None"
| "as_nil_strings _ = None"

definition field :: "(json \<Rightarrow> 'a option) \<Rightarrow> 'a \<Rightarrow> string \<Rightarrow> (string \<times> json) list \<Rightarrow> 'a option" where
  "field dec zero name ms = (case member name ms of None \<Rightarrow> Some zero | Some v \<Rightarrow> dec v)"

fun unmarshal_auto_promote :: "json \<Rightarrow> auto_promote option option" where
  "unmarshal_auto_promote JNull = Some None"
| "unmarshal_auto_promote (JObj ms) =
     (case field as_string [] ''engine'' ms of
        None \<Rightarrow> None
      | Some e \<Rightarrow>
          Some (Some \<lparr>ap_engine = e,
            ap_rules = (case member ''rules'' ms of None \<Rightarrow> RawEmpty | Some v \<Rightarrow> RawJson v)\<rparr>))"
| "unmarshal_auto_promote _ = None"

fun unmarshal_policy :: "json \<Rightarrow> error + policy" where
  "unmarshal_policy (JObj ms) =
     (case (field as_int 0 ''required_approvals'' ms,
            field as_nil_strings None ''allowed_proposers'' ms,
            field unmarshal_auto_promote None ''auto_promote'' ms) of
        (Some r, Some ps, Some ap) \<Rightarrow>
          Inr \<lparr>required_approvals = r, allowed_proposers = ps, pol_auto_promote = ap\<rparr>
      | _ \<Rightarrow> Inl ErrUnmarshal)"
| "unmarshal_policy JNull = Inr zero_policy"
| "unmarshal_policy _ = Inl ErrUnmarshal"

section \<open>The repository\<close>

definition scan_ns :: "ns_row \<Rightarrow> error + namespace" where
  "scan_ns r =
     (case unmarshal_policy (nr_policy r) of
        Inl e \<Rightarrow> Inl e
      | Inr p \<Rightarrow> Inr \<lparr>n_id = nr_id r, n_name = nr_name r, n_kind = nr_kind r, n_parent_id = nr_parent_id r,
                     n_policy = p, n_created_at = nr_created_at r\<rparr>)"

definition of_sum :: "error + 'a \<Rightarrow> ('db, 'a) sql" where
  "of_sum r = (case r of Inl e \<Rightarrow> fail_sql e | Inr a \<Rightarrow> return_sql a)"

definition create_namespace :: "timestamp \<Rightarrow> uuid \<Rightarrow> namespace \<Rightarrow> (db, namespace) sql" where
  "create_namespace now new ns =
     (let ns = (if is_zero (n_policy ns) then ns\<lparr>n_policy := default_policy (n_kind ns)\<rparr> else ns)
      in case marshal_policy (n_policy ns) of
           Inl e \<Rightarrow> fail_sql e
         | Inr js \<Rightarrow>
             bind_sql (on_pool (stmt (\<lambda>d. put_namespaces (tbl_ins \<lparr>nr_id = new, nr_name = n_name ns,
                 nr_kind = n_kind ns, nr_parent_id = n_parent_id ns, nr_policy = js, nr_created_at = now\<rparr>
                 (namespaces_tbl d)) d)))
               (\<lambda>_. return_sql (ns\<lparr>n_id := new, n_created_at := now\<rparr>)))"

definition get_namespace :: "uuid \<Rightarrow> (db, namespace) sql" where
  "get_namespace i =
     bind_sql (on_pool (fetch ErrNamespaceNotFound (\<lambda>d. namespace_at d i))) (\<lambda>r. of_sum (scan_ns r))"

fun scan_all :: "ns_row list \<Rightarrow> error + namespace list" where
  "scan_all [] = Inr []"
| "scan_all (r # rs) =
     (case scan_ns r of
        Inl e \<Rightarrow> Inl e
      | Inr n \<Rightarrow> (case scan_all rs of Inl e \<Rightarrow> Inl e | Inr ns \<Rightarrow> Inr (n # ns)))"

definition list_namespaces :: "(db, namespace list) sql" where
  "list_namespaces =
     bind_sql (on_pool (query (\<lambda>d. sort_key nr_name (namespaces_tbl d)))) (\<lambda>rs. of_sum (scan_all rs))"

definition update_policy :: "uuid \<Rightarrow> policy \<Rightarrow> (db, unit) sql" where
  "update_policy i p =
     (case marshal_policy p of
        Inl e \<Rightarrow> fail_sql e
      | Inr js \<Rightarrow>
          bind_sql (on_pool (stmt (\<lambda>d.
              (case put_namespaces (tbl_upd nr_id i (\<lambda>n. n\<lparr>nr_policy := js\<rparr>) (namespaces_tbl d)) d of
                 Inl e \<Rightarrow> Inl e
               | Inr (_, d') \<Rightarrow> Inr (length (filter (\<lambda>n. nr_id n = i) (namespaces_tbl d)), d')))))
            (\<lambda>n. if n = 0 then fail_sql ErrNamespaceNotFound else return_sql ()))"

section \<open>Round trips\<close>

text \<open>What a policy looks like after the column: no empty list, no raw bytes that are not JSON.\<close>

definition storable :: "policy \<Rightarrow> bool" where
  "storable p \<longleftrightarrow> int_min \<le> required_approvals p \<and> required_approvals p \<le> int_max \<and>
     (case pol_auto_promote p of
        None \<Rightarrow> True
      | Some ap \<Rightarrow> (case ap_rules ap of RawMalformed _ \<Rightarrow> False | _ \<Rightarrow> True))"

definition stored_policy :: "policy \<Rightarrow> policy" where
  "stored_policy p = (if allowed_proposers p = Some [] then p\<lparr>allowed_proposers := None\<rparr> else p)"

lemma equal_fold_keys [simp]:
  "\<not> equal_fold ''required_approvals'' ''allowed_proposers''" "\<not> equal_fold ''required_approvals'' ''auto_promote''"
  "\<not> equal_fold ''allowed_proposers'' ''required_approvals''" "\<not> equal_fold ''allowed_proposers'' ''auto_promote''"
  "\<not> equal_fold ''auto_promote'' ''required_approvals''" "\<not> equal_fold ''auto_promote'' ''allowed_proposers''"
  "\<not> equal_fold ''engine'' ''rules''" "\<not> equal_fold ''rules'' ''engine''" "equal_fold s s"
  by (simp_all add: equal_fold_def to_lower_def lower_byte_def)

lemma marshal_unmarshal:
  assumes "storable p" and "marshal_policy p = Inr js"
  shows "unmarshal_policy js = Inr (stored_policy p)"
proof -
  obtain r ps ap where p: "p = \<lparr>required_approvals = r, allowed_proposers = ps, pol_auto_promote = ap\<rparr>"
    by (metis policy.surjective old.unit.exhaust)
  show ?thesis
    using assms
    by (cases ap; cases ps; cases "ps = Some []"; cases "ap_rules (the ap)")
      (auto simp: p storable_def stored_policy_def marshal_policy_def marshal_auto_promote_def Let_def field_def
        member_def as_strings_map)
qed

lemma marshal_total: "storable p \<Longrightarrow> \<exists>js. marshal_policy p = Inr js"
  by (auto simp: storable_def marshal_policy_def marshal_auto_promote_def Let_def split: option.split raw_json.splits)

lemma default_policy_storable: "storable (default_policy k) \<and> stored_policy (default_policy k) = default_policy k"
  by (simp add: default_policy_def storable_def stored_policy_def zero_policy_def int_min_def int_max_def)

definition effective_policy :: "namespace \<Rightarrow> policy" where
  "effective_policy ns = (if is_zero (n_policy ns) then default_policy (n_kind ns) else n_policy ns)"

lemma effective_storable: "storable (n_policy ns) \<Longrightarrow> storable (effective_policy ns)"
  by (simp add: effective_policy_def default_policy_storable)

text \<open>
  What is created can be read back: when \<^verbatim>\<open>Create\<close> succeeds, \<^verbatim>\<open>Get\<close> under the returned id gives the namespace
  with the policy it was created with, the default of its kind when none was given (an empty list of
  proposers reads back as none).
\<close>

lemma namespace_roundtrip:
  assumes "run (create_namespace now new ns) fs d = (Inr ns', d')" and "storable (n_policy ns)"
  shows "n_id ns' = new \<and> n_policy ns' = effective_policy ns \<and>
    run (get_namespace new) [] d' = (Inr (ns'\<lparr>n_policy := stored_policy (effective_policy ns)\<rparr>), d') \<and>
    n_kind ns' \<in> set kinds"
proof -
  let ?ns = "ns\<lparr>n_policy := effective_policy ns\<rparr>"
  obtain js where js: "marshal_policy (effective_policy ns) = Inr js"
    using marshal_total[OF effective_storable[OF assms(2)]] by blast
  have eff: "(if is_zero (n_policy ns) then ns\<lparr>n_policy := default_policy (n_kind ns)\<rparr> else ns) = ?ns"
    by (simp add: effective_policy_def)
  let ?row = "\<lparr>nr_id = new, nr_name = n_name ns, nr_kind = n_kind ns, nr_parent_id = n_parent_id ns,
      nr_policy = js, nr_created_at = now\<rparr>"
  have put: "namespaces_ok (tbl_ins ?row (namespaces_tbl d))"
      "d' = d\<lparr>namespaces_tbl := tbl_ins ?row (namespaces_tbl d)\<rparr>" "ns' = ?ns\<lparr>n_id := new, n_created_at := now\<rparr>"
    using assms(1) unfolding create_namespace_def Let_def eff
    by (auto simp: js run_def bind_sql_def on_pool_def stmt_def return_sql_def put_namespaces_def
        split: prod.splits bool.splits if_splits)
  have "tbl_get nr_id new (namespaces_tbl d) = None"
    using put(1) by (auto simp: namespaces_ok_def tbl_ins_def tbl_get_None)
  then have "namespace_at d' new = Some ?row"
    by (simp add: put(2) tbl_get_ins)
  moreover have "scan_ns ?row = Inr (ns'\<lparr>n_policy := stored_policy (effective_policy ns)\<rparr>)"
    using marshal_unmarshal[OF effective_storable[OF assms(2)] js] by (simp add: scan_ns_def put(3))
  moreover have "n_kind ns \<in> set kinds" using put(1) by (simp add: namespaces_ok_def tbl_ins_def)
  ultimately show ?thesis
    by (simp add: get_namespace_def sql_run of_sum_def put(3))
qed

definition fresh_ns :: namespace where
  "fresh_ns = \<lparr>n_id = 0, n_name = ''core'', n_kind = ''org'', n_parent_id = None, n_policy = zero_policy, n_created_at = 0\<rparr>"

lemma namespace_roundtrip_applied:
  "\<exists>d'. required_approvals (n_policy (fresh_ns\<lparr>n_id := 9, n_created_at := 4, n_policy := default_policy ''org''\<rparr>)) = 2 \<and>
     run (get_namespace 9) [] d' =
       (Inr (fresh_ns\<lparr>n_id := 9, n_created_at := 4, n_policy := default_policy ''org''\<rparr>), d')"
proof -
  have "\<exists>d'. run (create_namespace 4 9 fresh_ns) [] empty_db =
      (Inr (fresh_ns\<lparr>n_id := 9, n_created_at := 4, n_policy := default_policy ''org''\<rparr>), d')"
    by (simp add: create_namespace_def fresh_ns_def is_zero_def zero_policy_def default_policy_def marshal_policy_def
        sql_run put_namespaces_def namespaces_ok_def empty_db_def tbl_ins_def kinds_def refers_def)
  then obtain d' where d': "run (create_namespace 4 9 fresh_ns) [] empty_db =
      (Inr (fresh_ns\<lparr>n_id := 9, n_created_at := 4, n_policy := default_policy ''org''\<rparr>), d')" by blast
  have "storable (n_policy fresh_ns)"
    by (simp add: fresh_ns_def storable_def zero_policy_def int_min_def int_max_def)
  from namespace_roundtrip[OF d' this] show ?thesis
    by (intro exI[of _ d'])
      (simp add: fresh_ns_def effective_policy_def is_zero_def zero_policy_def default_policy_def stored_policy_def)
qed

end
