(* ===== verification/Memory.thy ===== *)
theory Memory
  imports Namespaces
begin

text \<open>
  The port to a memory backend (package \<^verbatim>\<open>memory\<close>) and its two adapters, \<^verbatim>\<open>null\<close> and \<^verbatim>\<open>mem0\<close>. The HTTP client
  is a parameter: a \<open>transport\<close> answers a request with an error of the network or a status and a body.
  A request keeps its path as the list of its segments and its query as a list of pairs, so that escaping
  and unescaping, which cancel, are left out.
\<close>

section \<open>The port\<close>

record memory =
  mem_id :: string
  mem_actor_id :: string
  mem_content :: string
  mem_metadata :: "(string \<times> json) list"
  mem_created_at :: timestamp

record memory_source =
  ms_list :: "string \<Rightarrow> int \<Rightarrow> error + memory list"
  ms_search :: "string \<Rightarrow> string \<Rightarrow> int \<Rightarrow> error + memory list"
  ms_get :: "string \<Rightarrow> error + memory"

record add_opts =
  ao_metadata :: "(string \<times> json) list"
  ao_infer :: "bool option"

type_synonym memory_writer = "string \<Rightarrow> string \<Rightarrow> add_opts \<Rightarrow> error + memory"

definition null_source :: memory_source where
  "null_source = \<lparr>ms_list = (\<lambda>_ _. Inr []), ms_search = (\<lambda>_ _ _. Inr []), ms_get = (\<lambda>_. Inl ErrMemoryNotFound)\<rparr>"

section \<open>HTTP\<close>

record http_request =
  hq_method :: string
  hq_base :: string
  hq_path :: "string list"
  hq_query :: "(string \<times> string) list"
  hq_headers :: "(string \<times> string) list"
  hq_body :: "json option"

type_synonym transport = "http_request \<Rightarrow> error + int \<times> raw_json"

section \<open>The Mem0 adapter\<close>

record mem0 =
  m0_base_url :: string
  m0_api_key :: string
  m0_client :: transport
  m0_time :: "string \<Rightarrow> timestamp option"

definition new_mem0 :: "transport \<Rightarrow> (string \<Rightarrow> timestamp option) \<Rightarrow> string \<Rightarrow> string \<Rightarrow> mem0" where
  "new_mem0 client time base key =
     \<lparr>m0_base_url = trim_right_char CHR ''/'' base, m0_api_key = key, m0_client = client, m0_time = time\<rparr>"

record mem0_memory =
  w_id :: string
  w_user_id :: string
  w_memory :: string
  w_metadata :: "(string \<times> json) list"
  w_created_at :: timestamp

definition to_neutral :: "mem0_memory \<Rightarrow> memory" where
  "to_neutral m = \<lparr>mem_id = w_id m, mem_actor_id = w_user_id m, mem_content = w_memory m,
     mem_metadata = w_metadata m, mem_created_at = w_created_at m\<rparr>"

text \<open>Decoding the wire shape: an absent or \<^verbatim>\<open>null\<close> member leaves the zero value.\<close>

fun as_object :: "json \<Rightarrow> (string \<times> json) list option" where
  "as_object (JObj ms) = Some (go_map ms)"
| "as_object JNull = Some []"
| "as_object _ = None"

fun as_time :: "(string \<Rightarrow> timestamp option) \<Rightarrow> json \<Rightarrow> timestamp option" where
  "as_time parse JNull = Some 0"
| "as_time parse (JStr s) = parse s"
| "as_time parse _ = None"

fun decode_mem0 :: "(string \<Rightarrow> timestamp option) \<Rightarrow> json \<Rightarrow> mem0_memory option" where
  "decode_mem0 parse (JObj ms) =
     (case (field as_string [] ''id'' ms, field as_string [] ''user_id'' ms, field as_string [] ''memory'' ms,
            field as_object [] ''metadata'' ms, field (as_time parse) 0 ''created_at'' ms) of
        (Some i, Some u, Some c, Some md, Some t) \<Rightarrow>
          Some \<lparr>w_id = i, w_user_id = u, w_memory = c, w_metadata = md, w_created_at = t\<rparr>
      | _ \<Rightarrow> None)"
| "decode_mem0 parse JNull = Some \<lparr>w_id = [], w_user_id = [], w_memory = [], w_metadata = [], w_created_at = 0\<rparr>"
| "decode_mem0 parse _ = None"

fun decode_all :: "(json \<Rightarrow> 'a option) \<Rightarrow> json list \<Rightarrow> 'a list option" where
  "decode_all f [] = Some []"
| "decode_all f (j # js) =
     (case f j of None \<Rightarrow> None | Some a \<Rightarrow> (case decode_all f js of None \<Rightarrow> None | Some as \<Rightarrow> Some (a # as)))"

fun decode_results :: "(string \<Rightarrow> timestamp option) \<Rightarrow> json \<Rightarrow> mem0_memory list option" where
  "decode_results parse (JObj ms) =
     (case member ''results'' ms of
        None \<Rightarrow> Some []
      | Some JNull \<Rightarrow> Some []
      | Some (JArr js) \<Rightarrow> decode_all (decode_mem0 parse) js
      | Some _ \<Rightarrow> None)"
| "decode_results parse JNull = Some []"
| "decode_results parse _ = None"

definition mem0_auth :: "mem0 \<Rightarrow> http_request \<Rightarrow> http_request" where
  "mem0_auth s r =
     (if m0_api_key s \<noteq> [] then r\<lparr>hq_headers := hq_headers r @ [(''Authorization'', ''Bearer '' @ m0_api_key s)]\<rparr> else r)"

text \<open>\<^verbatim>\<open>do\<close>: the status decides before the body is read.\<close>

definition mem0_do :: "mem0 \<Rightarrow> (json \<Rightarrow> 'a option) \<Rightarrow> http_request \<Rightarrow> error + 'a" where
  "mem0_do s decode r =
     (case m0_client s r of
        Inl e \<Rightarrow> Inl ErrMemoryIO
      | Inr (status, body) \<Rightarrow>
          if status = 404 then Inl ErrMemoryNotFound
          else if status \<ge> 300 then Inl (ErrMemoryStatus status)
          else (case body of
                  RawJson j \<Rightarrow> (case decode j of None \<Rightarrow> Inl ErrMemoryDecode | Some a \<Rightarrow> Inr a)
                | _ \<Rightarrow> Inl ErrMemoryDecode))"

definition mem0_get_json :: "mem0 \<Rightarrow> (json \<Rightarrow> 'a option) \<Rightarrow> string list \<Rightarrow> (string \<times> string) list \<Rightarrow> error + 'a" where
  "mem0_get_json s decode path params =
     mem0_do s decode (mem0_auth s \<lparr>hq_method = ''GET'', hq_base = m0_base_url s, hq_path = path,
       hq_query = params, hq_headers = [], hq_body = None\<rparr>)"

definition mem0_post_json :: "mem0 \<Rightarrow> (json \<Rightarrow> 'a option) \<Rightarrow> string list \<Rightarrow> json \<Rightarrow> error + 'a" where
  "mem0_post_json s decode path body =
     mem0_do s decode (mem0_auth s \<lparr>hq_method = ''POST'', hq_base = m0_base_url s, hq_path = path,
       hq_query = [], hq_headers = [(''Content-Type'', ''application/json'')], hq_body = Some body\<rparr>)"

definition map_result :: "('a \<Rightarrow> 'b) \<Rightarrow> error + 'a \<Rightarrow> error + 'b" where
  "map_result f r = (case r of Inl e \<Rightarrow> Inl e | Inr a \<Rightarrow> Inr (f a))"

definition mem0_list :: "mem0 \<Rightarrow> string \<Rightarrow> int \<Rightarrow> error + memory list" where
  "mem0_list s actor limit =
     map_result (map to_neutral) (mem0_get_json s (decode_results (m0_time s)) [''memories'']
       ((if limit > 0 then [(''limit'', show_int limit)] else []) @ [(''user_id'', actor)]))"

definition mem0_search :: "mem0 \<Rightarrow> string \<Rightarrow> string \<Rightarrow> int \<Rightarrow> error + memory list" where
  "mem0_search s actor q limit =
     map_result (map to_neutral) (mem0_post_json s (decode_results (m0_time s)) [''search'']
       (JObj ([(''user_id'', JStr actor), (''query'', JStr q)] @ (if limit > 0 then [(''limit'', JNum limit)] else []))))"

definition mem0_get :: "mem0 \<Rightarrow> string \<Rightarrow> error + memory" where
  "mem0_get s i = map_result to_neutral (mem0_get_json s (decode_mem0 (m0_time s)) [''memories'', i] [])"

definition add_body :: "string \<Rightarrow> string \<Rightarrow> add_opts \<Rightarrow> json" where
  "add_body actor content opts =
     JObj ([(''messages'', JArr [JObj [(''role'', JStr ''user''), (''content'', JStr content)]]), (''user_id'', JStr actor)]
       @ (if ao_metadata opts \<noteq> [] then [(''metadata'', JObj (ao_metadata opts))] else [])
       @ (case ao_infer opts of None \<Rightarrow> [] | Some b \<Rightarrow> [(''infer'', JBool b)]))"

definition mem0_add :: "mem0 \<Rightarrow> memory_writer" where
  "mem0_add s actor content opts =
     (case mem0_post_json s (decode_results (m0_time s)) [''memories''] (add_body actor content opts) of
        Inl e \<Rightarrow> Inl e
      | Inr [] \<Rightarrow> Inr \<lparr>mem_id = [], mem_actor_id = actor, mem_content = content,
                    mem_metadata = ao_metadata opts, mem_created_at = 0\<rparr>
      | Inr (m # _) \<Rightarrow> Inr (to_neutral m))"

definition mem0_source :: "mem0 \<Rightarrow> memory_source" where
  "mem0_source s = \<lparr>ms_list = mem0_list s, ms_search = mem0_search s, ms_get = mem0_get s\<rparr>"

section \<open>Reading is all the port can do\<close>

text \<open>The requests of Mem0's interface that read: \<^verbatim>\<open>GET /memories\<close> and \<^verbatim>\<open>POST /search\<close>.\<close>

definition read_request :: "http_request \<Rightarrow> bool" where
  "read_request r \<longleftrightarrow>
     hq_method r = ''GET'' \<and> hq_body r = None \<and> take 1 (hq_path r) = [''memories''] \<or>
     hq_method r = ''POST'' \<and> hq_path r = [''search'']"

definition agree_on_reads :: "transport \<Rightarrow> transport \<Rightarrow> bool" where
  "agree_on_reads c c' \<longleftrightarrow> (\<forall>r. read_request r \<longrightarrow> c r = c' r)"

text \<open>
  What a reading operation promises: its answer depends only on how the backend answers read requests,
  so it sends no other.
\<close>

locale read_port =
  fixes read_op :: "transport \<Rightarrow> 'q \<Rightarrow> error + 'r"
  assumes reads_only: "agree_on_reads c c' \<Longrightarrow> read_op c q = read_op c' q"
begin

lemma reads_agree: "agree_on_reads c c' \<Longrightarrow> map (read_op c) qs = map (read_op c') qs"
  using reads_only by simp

end

lemma mem0_do_agree:
  "agree_on_reads c c' \<Longrightarrow> read_request r \<Longrightarrow> mem0_do (s\<lparr>m0_client := c\<rparr>) dec r = mem0_do (s\<lparr>m0_client := c'\<rparr>) dec r"
  by (simp add: mem0_do_def agree_on_reads_def)

lemma read_request_auth [simp]: "read_request (mem0_auth s r) = read_request r"
  by (simp add: read_request_def mem0_auth_def)

lemma mem0_auth_client [simp]: "mem0_auth (s\<lparr>m0_client := c\<rparr>) = mem0_auth s"
  by (simp add: fun_eq_iff mem0_auth_def)

lemma mem0_get_json_agree:
  assumes "agree_on_reads c c'"
  shows "mem0_get_json (s\<lparr>m0_client := c\<rparr>) dec (''memories'' # path) params
       = mem0_get_json (s\<lparr>m0_client := c'\<rparr>) dec (''memories'' # path) params"
  by (simp add: mem0_get_json_def, rule mem0_do_agree[OF assms], simp only: read_request_auth, simp add: read_request_def)

lemma mem0_search_agree:
  assumes "agree_on_reads c c'"
  shows "mem0_post_json (s\<lparr>m0_client := c\<rparr>) dec [''search''] body = mem0_post_json (s\<lparr>m0_client := c'\<rparr>) dec [''search''] body"
  by (simp add: mem0_post_json_def, rule mem0_do_agree[OF assms], simp only: read_request_auth, simp add: read_request_def)

interpretation mem0_lists: read_port "\<lambda>c (actor, limit). mem0_list (s\<lparr>m0_client := c\<rparr>) actor limit" for s
  by unfold_locales (clarsimp simp: mem0_list_def mem0_get_json_agree[where s = s] split: prod.split)

interpretation mem0_searches: read_port "\<lambda>c (actor, q, limit). mem0_search (s\<lparr>m0_client := c\<rparr>) actor q limit" for s
  by unfold_locales (clarsimp simp: mem0_search_def mem0_search_agree[where s = s] split: prod.split)

interpretation mem0_gets: read_port "\<lambda>c i. mem0_get (s\<lparr>m0_client := c\<rparr>) i" for s
  by unfold_locales (clarsimp simp: mem0_get_def mem0_get_json_agree[where s = s])

section \<open>What Mem0 documents\<close>

text \<open>
  The requests of the three reads, and the bodies Mem0 answers with: a memory as an object, a list of them
  under \<^verbatim>\<open>results\<close>; \<open>fmt\<close> prints a time.
\<close>

definition read_url :: "mem0 \<Rightarrow> string list \<Rightarrow> (string \<times> string) list \<Rightarrow> http_request" where
  "read_url s path params = mem0_auth s \<lparr>hq_method = ''GET'', hq_base = m0_base_url s, hq_path = path,
     hq_query = params, hq_headers = [], hq_body = None\<rparr>"

definition list_url :: "mem0 \<Rightarrow> string \<Rightarrow> int \<Rightarrow> http_request" where
  "list_url s actor limit =
     read_url s [''memories''] ((if limit > 0 then [(''limit'', show_int limit)] else []) @ [(''user_id'', actor)])"

definition get_url :: "mem0 \<Rightarrow> string \<Rightarrow> http_request" where
  "get_url s i = read_url s [''memories'', i] []"

definition search_url :: "mem0 \<Rightarrow> string \<Rightarrow> string \<Rightarrow> int \<Rightarrow> http_request" where
  "search_url s actor q limit = mem0_auth s \<lparr>hq_method = ''POST'', hq_base = m0_base_url s, hq_path = [''search''],
     hq_query = [], hq_headers = [(''Content-Type'', ''application/json'')],
     hq_body = Some (JObj ([(''user_id'', JStr actor), (''query'', JStr q)]
       @ (if limit > 0 then [(''limit'', JNum limit)] else [])))\<rparr>"

definition wire_memory :: "(timestamp \<Rightarrow> string) \<Rightarrow> memory \<Rightarrow> json" where
  "wire_memory fmt m = JObj [(''id'', JStr (mem_id m)), (''user_id'', JStr (mem_actor_id m)), (''memory'', JStr (mem_content m)),
     (''metadata'', JObj (mem_metadata m)), (''created_at'', JStr (fmt (mem_created_at m)))]"

definition wire_results :: "(timestamp \<Rightarrow> string) \<Rightarrow> memory list \<Rightarrow> json" where
  "wire_results fmt ms = JObj [(''results'', JArr (map (wire_memory fmt) ms)), (''relations'', JArr [])]"

text \<open>A memory the wire form can carry: its metadata is a decoded object, and its time is printed so that it can be read.\<close>

definition carried :: "mem0 \<Rightarrow> (timestamp \<Rightarrow> string) \<Rightarrow> memory \<Rightarrow> bool" where
  "carried s fmt m \<longleftrightarrow> go_map (mem_metadata m) = mem_metadata m \<and> m0_time s (fmt (mem_created_at m)) = Some (mem_created_at m)"

lemma mem0_names [simp]:
  "to_lower ''id'' = ''id''" "to_lower ''user_id'' = ''user_id''" "to_lower ''memory'' = ''memory''"
  "to_lower ''metadata'' = ''metadata''" "to_lower ''created_at'' = ''created_at''"
  "to_lower ''results'' = ''results''" "to_lower ''relations'' = ''relations''"
  by (simp_all add: to_lower_def lower_byte_def)

lemma decode_wire: "carried s fmt m \<Longrightarrow> map_option to_neutral (decode_mem0 (m0_time s) (wire_memory fmt m)) = Some m"
  by (simp add: wire_memory_def field_def member_def equal_fold_def to_neutral_def carried_def)

lemma decode_wires:
  "list_all (carried s fmt) ms \<Longrightarrow> map_option (map to_neutral) (decode_all (decode_mem0 (m0_time s)) (map (wire_memory fmt) ms)) = Some ms"
proof (induction ms)
  case (Cons m ms)
  then show ?case using decode_wire[of s fmt m] by (auto split: option.splits)
qed simp

lemma decode_wire_results:
  "list_all (carried s fmt) ms \<Longrightarrow> map_option (map to_neutral) (decode_results (m0_time s) (wire_results fmt ms)) = Some ms"
  using decode_wires by (simp add: wire_results_def member_def equal_fold_def)

section \<open>Properties\<close>

definition failed_with :: "error + 'a \<Rightarrow> error option" where
  "failed_with r = (case r of Inl e \<Rightarrow> Some e | Inr a \<Rightarrow> None)"

text \<open>Each way the backend can fail a request, with its own error; anything else is a body that was read.\<close>

definition fails_as :: "error + int \<times> raw_json \<Rightarrow> error option \<Rightarrow> bool" where
  "fails_as answer err \<longleftrightarrow>
     (err = Some ErrMemoryIO \<longleftrightarrow> isl answer) \<and>
     (err = Some ErrMemoryNotFound \<longleftrightarrow> (\<exists>b. answer = Inr (404, b))) \<and>
     (\<forall>n. err = Some (ErrMemoryStatus n) \<longleftrightarrow> n \<ge> 300 \<and> n \<noteq> 404 \<and> (\<exists>b. answer = Inr (n, b))) \<and>
     (err = Some ErrMemoryDecode \<or> err = None \<longleftrightarrow> (\<exists>n b. answer = Inr (n, b) \<and> n < 300)) \<and>
     (err = None \<longrightarrow> (\<exists>n j. answer = Inr (n, RawJson j)))"

lemma mem0_do_fails_as: "fails_as (m0_client s rq) (failed_with (map_result f (mem0_do s dec rq)))"
  by (auto simp: fails_as_def failed_with_def map_result_def mem0_do_def
      split: sum.splits prod.splits raw_json.splits option.splits if_splits)

lemma mem0_do_reads:
  assumes "m0_client s rq = Inr (n, RawJson j)" and "n < 300" and "map_option f (dec j) = Some a"
  shows "map_result f (mem0_do s dec rq) = Inr a"
  using assms by (auto simp: mem0_do_def map_result_def)

lemma mem0_reads:
  "mem0_list s actor limit = map_result (map to_neutral) (mem0_do s (decode_results (m0_time s)) (list_url s actor limit))"
  "mem0_search s actor q limit =
     map_result (map to_neutral) (mem0_do s (decode_results (m0_time s)) (search_url s actor q limit))"
  "mem0_get s i = map_result to_neutral (mem0_do s (decode_mem0 (m0_time s)) (get_url s i))"
  by (simp_all add: mem0_list_def mem0_search_def mem0_get_def mem0_get_json_def mem0_post_json_def list_url_def
      search_url_def get_url_def read_url_def)

lemma mem0_reads_only:
  assumes "agree_on_reads (m0_client s) c"
  shows "mem0_source s = mem0_source (s\<lparr>m0_client := c\<rparr>)"
proof -
  have "s = s\<lparr>m0_client := m0_client s\<rparr>" by simp
  moreover have "mem0_list s = mem0_list (s\<lparr>m0_client := c\<rparr>)"
    using mem0_lists.reads_only[OF assms, of s] by (auto simp: fun_eq_iff split: prod.splits)
  moreover have "mem0_search s = mem0_search (s\<lparr>m0_client := c\<rparr>)"
    using mem0_searches.reads_only[OF assms, of s] by (auto simp: fun_eq_iff split: prod.splits)
  moreover have "mem0_get s = mem0_get (s\<lparr>m0_client := c\<rparr>)"
    using mem0_gets.reads_only[OF assms, of s] by (auto simp: fun_eq_iff)
  ultimately show ?thesis by (simp add: mem0_source_def)
qed


definition tea_memory :: memory where
  "tea_memory = \<lparr>mem_id = ''m1'', mem_actor_id = ''ann'', mem_content = ''likes tea'',
     mem_metadata = [(''type'', JStr ''semantic'')], mem_created_at = 0\<rparr>"

definition sample_backend :: transport where
  "sample_backend r =
     (if hq_path r = [''memories''] then Inr (200, RawJson (wire_results (\<lambda>_. ''t'') [tea_memory]))
      else if hq_path r = [''search''] then Inr (500, RawEmpty)
      else Inl ErrMemoryIO)"


end
