(* ===== verification/Rbac.thy ===== *)
theory Rbac
  imports Namespaces
begin

text \<open>
  Roles, the permission matrix, memberships and entitlement resolution (\<^verbatim>\<open>internal/rbac\<close>). A role and an
  action are strings: a lookup in the source's tables decides which are known. The recursive query of
  \<^verbatim>\<open>Resolve\<close> is the loop PostgreSQL runs for it: the working table starts with the granted namespaces and
  is replaced by the parents not seen before until it is empty.
\<close>

section \<open>The matrix\<close>

definition valid_role :: "string \<Rightarrow> bool" where
  "valid_role r \<longleftrightarrow> r \<in> set [''reader'', ''contributor'', ''reviewer'', ''namespace_admin'']"

definition rank :: "string \<rightharpoonup> nat" where
  "rank = map_of [(''reader'', 0), (''contributor'', 1), (''reviewer'', 2), (''namespace_admin'', 3)]"

definition min_role :: "string \<rightharpoonup> string" where
  "min_role = map_of
     [(''read_facts'', ''reader''), (''propose_promotion'', ''contributor''),
      (''approve_reject'', ''reviewer''), (''revoke_fact'', ''reviewer''),
      (''manage_members_policy'', ''namespace_admin'')]"

text \<open>\<^verbatim>\<open>rank[need]\<close> of an absent key is the zero value.\<close>

definition can :: "string \<Rightarrow> string \<Rightarrow> bool" where
  "can r a =
     (case min_role a of
        None \<Rightarrow> False
      | Some need \<Rightarrow>
          (case rank r of
             None \<Rightarrow> False
           | Some have' \<Rightarrow> have' \<ge> (case rank need of None \<Rightarrow> 0 | Some n \<Rightarrow> n)))"

fun can_any :: "string list \<Rightarrow> string \<Rightarrow> bool" where
  "can_any [] a = False"
| "can_any (r # rs) a = (if can r a then True else can_any rs a)"

text \<open>The governed operations, and the matrix as a table: what each role may do, and that nothing else is allowed.\<close>

definition actions :: "string list" where
  "actions = [''read_facts'', ''propose_promotion'', ''approve_reject'', ''revoke_fact'', ''manage_members_policy'']"

lemma can_matrix:
  "can ''reader'' a \<longleftrightarrow> a \<in> set (take 1 actions)"
  "can ''contributor'' a \<longleftrightarrow> a \<in> set (take 2 actions)"
  "can ''reviewer'' a \<longleftrightarrow> a \<in> set (take 4 actions)"
  "can ''namespace_admin'' a \<longleftrightarrow> a \<in> set actions"
  by (simp_all add: can_def min_role_def rank_def actions_def)

lemma can_known:
  assumes "can r a"
  shows "valid_role r \<and> a \<in> set actions"
  using assms by (simp add: can_def min_role_def rank_def actions_def valid_role_def roles_def split: option.splits if_splits)

section \<open>Entitlements\<close>

record principal =
  pr_id :: principal_id
  pr_platform_admin :: bool

record entitlements =
  ent_principal :: principal
  ent_direct :: "uuid \<Rightarrow> string list"
  ent_readable :: "uuid list"

definition ent_can :: "entitlements \<Rightarrow> uuid \<Rightarrow> string \<Rightarrow> bool" where
  "ent_can e ns a = (if pr_platform_admin (ent_principal e) then True else can_any (ent_direct e ns) a)"

definition ent_can_read :: "entitlements \<Rightarrow> uuid \<Rightarrow> bool" where
  "ent_can_read e ns = (if pr_platform_admin (ent_principal e) then True else ns \<in> set (ent_readable e))"

definition readable_namespaces :: "(uuid list \<Rightarrow> uuid list) \<Rightarrow> entitlements \<Rightarrow> uuid list" where
  "readable_namespaces plan e = plan (ent_readable e)"

definition roles_in :: "entitlements \<Rightarrow> uuid \<Rightarrow> string list" where
  "roles_in e ns = ent_direct e ns"

section \<open>Memberships\<close>

definition grant :: "principal_id \<Rightarrow> uuid \<Rightarrow> string \<Rightarrow> (db, unit) sql" where
  "grant who ns role =
     (if \<not> valid_role role then fail_sql (ErrInvalidRole role)
      else on_pool (stmt (\<lambda>d.
        let m = \<lparr>m_principal = who, m_namespace_id = ns, m_role = role\<rparr>
        in if m \<in> set (memberships_tbl d) then Inr ((), d)
           else put_memberships (memberships_tbl d @ [m]) d)))"

definition revoke_grant :: "principal_id \<Rightarrow> uuid \<Rightarrow> string \<Rightarrow> (db, unit) sql" where
  "revoke_grant who ns role =
     on_pool (stmt (\<lambda>d. put_memberships
       (filter (\<lambda>m. \<not> (m_principal m = who \<and> m_namespace_id m = ns \<and> m_role m = role)) (memberships_tbl d)) d))"

record grant_row =
  g_namespace_id :: uuid
  g_role :: string

definition list_members :: "uuid \<Rightarrow> (db, grant_row list \<times> principal_id list) sql" where
  "list_members ns =
     on_pool (query (\<lambda>d.
       let ms = sort_key m_principal (sort_key m_role (filter (\<lambda>m. m_namespace_id m = ns) (memberships_tbl d)))
       in (map (\<lambda>m. \<lparr>g_namespace_id = ns, g_role = m_role m\<rparr>) ms, map m_principal ms)))"

section \<open>Resolution\<close>

definition next_rows :: "ns_row list \<Rightarrow> ns_row list \<Rightarrow> ns_row list \<Rightarrow> ns_row list" where
  "next_rows rows acc work =
     filter (\<lambda>n. (\<exists>a \<in> set work. nr_parent_id a = Some (nr_id n)) \<and> n \<notin> set acc) rows"

function ancestors :: "ns_row list \<Rightarrow> ns_row list \<Rightarrow> ns_row list \<Rightarrow> ns_row list" where
  "ancestors rows acc work =
     (if work = [] then acc
      else ancestors rows (acc @ next_rows rows acc work) (next_rows rows acc work))"
  by pat_completeness auto

lemma next_rows_shrink:
  assumes "next_rows rows acc work \<noteq> []"
  shows "card (set rows - set (acc @ next_rows rows acc work)) < card (set rows - set acc)"
proof (rule psubset_card_mono)
  obtain n where "n \<in> set (next_rows rows acc work)" using assms by (cases "next_rows rows acc work") auto
  then have "n \<in> set rows - set acc" "n \<in> set (acc @ next_rows rows acc work)" by (auto simp: next_rows_def)
  then show "set rows - set (acc @ next_rows rows acc work) \<subset> set rows - set acc" by auto
qed simp

termination ancestors
proof (relation "measures [\<lambda>(rows, acc, work). card (set rows - set acc), \<lambda>(rows, acc, work). length work]", goal_cases)
  case (2 rows acc work)
  then show ?case
    using next_rows_shrink[of rows acc work] by (cases "next_rows rows acc work = []") auto
qed simp

declare ancestors.simps [simp del]

lemma ancestors_Nil [simp]: "ancestors rows acc [] = acc"
  by (simp add: ancestors.simps)

definition resolve_rows :: "principal_id \<Rightarrow> db \<Rightarrow> uuid list" where
  "resolve_rows who d =
     (let granted = map m_namespace_id (filter (\<lambda>m. m_principal m = who) (memberships_tbl d));
          seed = filter (\<lambda>n. nr_id n \<in> set granted) (namespaces_tbl d)
      in map nr_id (ancestors (namespaces_tbl d) seed seed))"

definition resolve_principal :: "principal \<Rightarrow> (db, entitlements) sql" where
  "resolve_principal p =
     bind_sql (on_pool (query (\<lambda>d. map (\<lambda>m. (m_namespace_id m, m_role m))
         (filter (\<lambda>m. m_principal m = pr_id p) (memberships_tbl d)))))
     (\<lambda>grants. bind_sql (on_pool (query (resolve_rows (pr_id p))))
     (\<lambda>ids. return_sql \<lparr>ent_principal = p,
        ent_direct = (\<lambda>ns. map snd (filter (\<lambda>g. fst g = ns) grants)), ent_readable = ids\<rparr>))"

section \<open>The loop computes the closure\<close>

definition parent_of :: "ns_row list \<Rightarrow> (uuid \<times> uuid) set" where
  "parent_of rows = {(nr_id n, p) |n p. n \<in> set rows \<and> nr_parent_id n = Some p \<and> p \<in> nr_id ` set rows}"

lemma ancestors_sound:
  assumes "set acc \<subseteq> set rows" and "set work \<subseteq> set acc"
  shows "set acc \<subseteq> set (ancestors rows acc work) \<and> set (ancestors rows acc work) \<subseteq> set rows \<and>
    (\<forall>n \<in> set (ancestors rows acc work). \<exists>a \<in> set acc. (nr_id a, nr_id n) \<in> (parent_of rows)\<^sup>*)"
  using assms
proof (induction rows acc work rule: ancestors.induct)
  case (1 rows acc work)
  show ?case
  proof (cases "work = []")
    case True
    then show ?thesis using 1 by auto
  next
    case False
    let ?new = "next_rows rows acc work"
    have sub: "set (acc @ ?new) \<subseteq> set rows" "set ?new \<subseteq> set (acc @ ?new)"
      using "1.prems" by (auto simp: next_rows_def)
    have e: "ancestors rows acc work = ancestors rows (acc @ ?new) ?new"
      using False by (simp add: ancestors.simps[of rows acc work])
    note IH = "1.IH"[OF False sub]
    have new: "\<exists>a \<in> set acc. (nr_id a, nr_id n) \<in> (parent_of rows)\<^sup>*" if "n \<in> set (acc @ ?new)" for n
    proof (cases "n \<in> set acc")
      case False
      then have "n \<in> set ?new" using that by simp
      then obtain a where a: "a \<in> set work" "nr_parent_id a = Some (nr_id n)" "n \<in> set rows"
        by (auto simp: next_rows_def)
      then have "(nr_id a, nr_id n) \<in> parent_of rows"
        using "1.prems" by (force simp: parent_of_def)
      then show ?thesis using a(1) "1.prems"(2) by blast
    qed blast
    have "\<exists>a \<in> set acc. (nr_id a, nr_id n) \<in> (parent_of rows)\<^sup>*" if n: "n \<in> set (ancestors rows acc work)" for n
    proof -
      obtain b where "b \<in> set (acc @ ?new)" "(nr_id b, nr_id n) \<in> (parent_of rows)\<^sup>*"
        using IH n unfolding e by blast
      with new[of b] show ?thesis by (meson rtrancl_trans)
    qed
    then show ?thesis using IH unfolding e by auto
  qed
qed

lemma ancestors_closed:
  assumes "set acc \<subseteq> set rows" and "set work \<subseteq> set acc"
    and "\<And>a n. a \<in> set acc - set work \<Longrightarrow> n \<in> set rows \<Longrightarrow> nr_parent_id a = Some (nr_id n) \<Longrightarrow> n \<in> set acc"
  shows "\<forall>a \<in> set (ancestors rows acc work). \<forall>n \<in> set rows.
    nr_parent_id a = Some (nr_id n) \<longrightarrow> n \<in> set (ancestors rows acc work)"
  using assms
proof (induction rows acc work rule: ancestors.induct)
  case (1 rows acc work)
  show ?case
  proof (cases "work = []")
    case True
    then show ?thesis using "1.prems" by auto
  next
    case False
    let ?new = "next_rows rows acc work"
    have "n \<in> set (acc @ ?new)"
      if a: "a \<in> set (acc @ ?new) - set ?new" and n: "n \<in> set rows" "nr_parent_id a = Some (nr_id n)" for a n
    proof (cases "a \<in> set work")
      case True
      then show ?thesis using n by (auto simp: next_rows_def)
    next
      case False
      then show ?thesis using a n "1.prems"(3)[of a n] by auto
    qed
    then show ?thesis
      using "1.IH"[OF False] "1.prems" False
      by (subst (1 2) ancestors.simps) (auto simp: next_rows_def)
  qed
qed

lemma ancestors_closure:
  assumes "distinct (map nr_id rows)" and "set seed \<subseteq> set rows"
  shows "nr_id ` set (ancestors rows seed seed) = (parent_of rows)\<^sup>* `` (nr_id ` set seed)"
proof (intro set_eqI iffI)
  fix i assume "i \<in> nr_id ` set (ancestors rows seed seed)"
  then show "i \<in> (parent_of rows)\<^sup>* `` (nr_id ` set seed)"
    using ancestors_sound[OF assms(2) order_refl] by fastforce
next
  fix i assume "i \<in> (parent_of rows)\<^sup>* `` (nr_id ` set seed)"
  then obtain a where a: "a \<in> set seed" "(nr_id a, i) \<in> (parent_of rows)\<^sup>*" by auto
  from a(2) show "i \<in> nr_id ` set (ancestors rows seed seed)"
  proof (induction rule: rtrancl_induct)
    case base
    then show ?case using ancestors_sound[OF assms(2) order_refl] a(1) by auto
  next
    case (step y z)
    then obtain m where m: "m \<in> set (ancestors rows seed seed)" "nr_id m = y" by auto
    then have "m \<in> set rows" using ancestors_sound[OF assms(2) order_refl] by auto
    moreover obtain n k where "n \<in> set rows" "nr_id n = y" "nr_parent_id n = Some z" "k \<in> set rows" "nr_id k = z"
      using step.hyps(2) by (auto simp: parent_of_def)
    ultimately have "nr_parent_id m = Some (nr_id k)" "k \<in> set rows" "nr_id k = z"
      using m assms(1) by (auto dest: distinct_map_inj)
    then show ?case
      using ancestors_closed[OF assms(2) order_refl] m(1) by (metis Diff_cancel emptyE imageI)
  qed
qed

lemma ancestors_distinct:
  "distinct rows \<Longrightarrow> distinct acc \<Longrightarrow> distinct (ancestors rows acc work)"
proof (induction rows acc work rule: ancestors.induct)
  case (1 rows acc work)
  have "distinct (acc @ next_rows rows acc work)" using "1.prems" by (auto simp: next_rows_def)
  then show ?case using "1.IH" "1.prems" by (simp add: ancestors.simps[of rows acc work])
qed

section \<open>What resolution grants\<close>

definition direct_roles :: "principal_id \<Rightarrow> uuid \<Rightarrow> db \<Rightarrow> string set" where
  "direct_roles who ns d = {r. \<lparr>m_principal = who, m_namespace_id = ns, m_role = r\<rparr> \<in> set (memberships_tbl d)}"

definition member_of :: "principal_id \<Rightarrow> db \<Rightarrow> uuid set" where
  "member_of who d = {ns. direct_roles who ns d \<noteq> {}}"

lemma membership_eta [simp]:
  "\<lparr>m_principal = m_principal m, m_namespace_id = m_namespace_id m, m_role = m_role m\<rparr> = m"
  by (cases m) simp

lemma direct_roles_iff: "r \<in> direct_roles who ns d \<longleftrightarrow>
    (\<exists>m \<in> set (memberships_tbl d). m_principal m = who \<and> m_namespace_id m = ns \<and> m_role m = r)"
  by (auto simp: direct_roles_def) (metis membership.select_convs(1,2,3))

lemma image_restrict: "S \<subseteq> f ` A \<Longrightarrow> f ` {x \<in> A. f x \<in> S} = S"
  by blast

lemma can_any_iff: "can_any rs a \<longleftrightarrow> (\<exists>r \<in> set rs. can r a)"
  by (induction rs) auto

lemma resolve_run:
  "run (resolve_principal p) [] d = (Inr \<lparr>ent_principal = p,
     ent_direct = (\<lambda>ns. map snd (filter (\<lambda>g. fst g = ns)
        (map (\<lambda>m. (m_namespace_id m, m_role m)) (filter (\<lambda>m. m_principal m = pr_id p) (memberships_tbl d))))),
     ent_readable = resolve_rows (pr_id p) d\<rparr>, d)"
  by (simp add: resolve_principal_def sql_run)

lemma on_pool_query_Inr:
  assumes "\<not> aborted s" and "on_pool (query f) s = (Inr a, s')"
  shows "a = f (store s) \<and> store s' = store s \<and> \<not> aborted s'"
  using assms by (auto simp: on_pool_def query_def stmt_def split: prod.splits bool.splits)

lemma resolve_Inr:
  assumes "run (resolve_principal p) fs d = (Inr e, d')"
  shows "run (resolve_principal p) [] d = (Inr e, d')"
proof -
  have "all_or_nothing (resolve_principal p)"
    unfolding resolve_principal_def by (intro sql_safe)
  from all_or_nothing_success[OF this assms] show ?thesis .
qed

lemma resolve_readable:
  assumes "schema_ok d"
  shows "set (resolve_rows who d) = (parent_of (namespaces_tbl d))\<^sup>* `` member_of who d"
proof -
  let ?g = "map m_namespace_id (filter (\<lambda>m. m_principal m = who) (memberships_tbl d))"
  let ?seed = "filter (\<lambda>n. nr_id n \<in> set ?g) (namespaces_tbl d)"
  have "set ?g \<subseteq> nr_id ` set (namespaces_tbl d)"
    using assms by (auto simp: schema_ok_def memberships_ok_def list_all_iff)
  then have "nr_id ` set ?seed = set ?g" unfolding set_filter by (rule image_restrict)
  also have "\<dots> = member_of who d"
    by (auto simp: member_of_def direct_roles_iff simp flip: ex_in_conv)
  finally have "nr_id ` set ?seed = member_of who d" .
  moreover have "set (resolve_rows who d) = nr_id ` set (ancestors (namespaces_tbl d) ?seed ?seed)"
    by (simp add: resolve_rows_def)
  moreover have "distinct (map nr_id (namespaces_tbl d))"
    using assms by (simp add: schema_ok_def namespaces_ok_def)
  ultimately show ?thesis
    using ancestors_closure[of "namespaces_tbl d" ?seed] by auto
qed

text \<open>
  The permission matrix: the eleven pairs the source's tables allow and no others, an unknown role or
  action being refused; and the roles are cumulative.
\<close>

lemma permission_matrix:
  "can r a \<longleftrightarrow>
     (r, a) \<in> {''reader''} \<times> {''read_facts''} \<union>
       {''contributor''} \<times> {''read_facts'', ''propose_promotion''} \<union>
       {''reviewer''} \<times> {''read_facts'', ''propose_promotion'', ''approve_reject'', ''revoke_fact''} \<union>
       {''namespace_admin''} \<times> {''read_facts'', ''propose_promotion'', ''approve_reject'', ''revoke_fact'',
          ''manage_members_policy''}"
  by (auto simp: can_def min_role_def rank_def)

text \<open>
  C30. Resolution grants exactly what the memberships say: an action in a namespace needs a role held
  there directly, a read of a namespace needs a role there or in a descendant, along any number of
  parent links. Only reads are inherited.
\<close>

theorem resolve_entitlements:
  assumes "schema_ok d" and "run (resolve_principal p) fs d = (Inr e, d')" and "\<not> pr_platform_admin p"
  shows "d' = d \<and>
    (\<forall>ns a. ent_can e ns a \<longleftrightarrow> (\<exists>r \<in> direct_roles (pr_id p) ns d. can r a)) \<and>
    (\<forall>ns. ent_can_read e ns \<longleftrightarrow> (\<exists>m \<in> member_of (pr_id p) d. (m, ns) \<in> (parent_of (namespaces_tbl d))\<^sup>*)) \<and>
    (\<forall>plan. (\<forall>xs. mset (plan xs) = mset xs) \<longrightarrow>
       set (readable_namespaces plan e) = {ns. ent_can_read e ns})"
proof -
  have e: "d' = d" "ent_principal e = p" "ent_readable e = resolve_rows (pr_id p) d"
    "ent_direct e = (\<lambda>ns. map snd (filter (\<lambda>g. fst g = ns)
        (map (\<lambda>m. (m_namespace_id m, m_role m)) (filter (\<lambda>m. m_principal m = pr_id p) (memberships_tbl d)))))"
    using resolve_Inr[OF assms(2)] unfolding resolve_run by auto
  have "set (ent_direct e ns) = direct_roles (pr_id p) ns d" for ns
    unfolding e(4) by (force simp: direct_roles_iff)
  then have "ent_can e ns a \<longleftrightarrow> (\<exists>r \<in> direct_roles (pr_id p) ns d. can r a)" for ns a
    using assms(3) by (simp add: ent_can_def e(2) can_any_iff)
  moreover have "ent_can_read e ns \<longleftrightarrow> (\<exists>m \<in> member_of (pr_id p) d. (m, ns) \<in> (parent_of (namespaces_tbl d))\<^sup>*)" for ns
    using assms(3) resolve_readable[OF assms(1), of "pr_id p"] by (simp add: ent_can_read_def e(2,3) Image_iff)
  moreover have "set (readable_namespaces plan e) = {ns. ent_can_read e ns}"
    if "\<forall>xs. mset (plan xs) = mset xs" for plan
    using that assms(3) by (auto simp: readable_namespaces_def ent_can_read_def e(2) dest: mset_eq_setD)
  ultimately show ?thesis using e(1) by blast
qed

definition tree_db :: db where
  "tree_db = (sample_db [] [])\<lparr>memberships_tbl :=
     [\<lparr>m_principal = ''dev'', m_namespace_id = 2, m_role = ''contributor''\<rparr>]\<rparr>"

lemma tree_db_ok: "schema_ok tree_db"
  by (simp add: tree_db_def sample_db_def sample_ns_def schema_ok_def namespaces_ok_def facts_ok_def
      promotions_ok_def memberships_ok_def active_keys_def idem_keys_def kinds_def roles_def refers_def)

theorem resolve_entitlements_witness:
  "\<exists>e. run (resolve_principal \<lparr>pr_id = ''dev'', pr_platform_admin = False\<rparr>) [] tree_db = (Inr e, tree_db) \<and>
     ent_can_read e 1 \<and> \<not> ent_can e 1 ''read_facts'' \<and> ent_can e 2 ''propose_promotion''"
proof -
  let ?p = "\<lparr>pr_id = ''dev'', pr_platform_admin = False\<rparr>"
  obtain e where e: "run (resolve_principal ?p) [] tree_db = (Inr e, tree_db)" by (simp add: resolve_run)
  have r: "direct_roles ''dev'' ns tree_db = (if ns = 2 then {''contributor''} else {})" for ns
    by (auto simp: direct_roles_def tree_db_def)
  then have m: "2 \<in> member_of ''dev'' tree_db" by (simp add: member_of_def)
  have "(2, 1) \<in> parent_of (namespaces_tbl tree_db)"
    unfolding parent_of_def
    by (intro CollectI exI[of _ "sample_ns 2 ''web'' ''project'' (Some 1)"] exI[of _ 1])
      (simp add: tree_db_def sample_db_def, simp add: sample_ns_def)
  then have p: "(2, 1) \<in> (parent_of (namespaces_tbl tree_db))\<^sup>*" ..
  note t = resolve_entitlements[OF tree_db_ok e]
  have "ent_can_read e 1" using t m p by auto
  moreover have "\<not> ent_can e 1 ''read_facts''" "ent_can e 2 ''propose_promotion''"
    using t r by (auto simp: can_def min_role_def rank_def)
  ultimately show ?thesis using e by blast
qed

text \<open>
  Granting is idempotent and takes effect; revoking a grant removes that role and leaves every other
  grant in place. A role outside the four known ones is never granted.
\<close>

lemma grant_revoke:
  assumes "run (grant who ns role) fs d = (Inr u, d')" and "memberships_ok d (memberships_tbl d)"
  shows "valid_role role \<and>
    (\<forall>w n. direct_roles w n d' = direct_roles w n d \<union> (if w = who \<and> n = ns then {role} else {})) \<and>
    run (grant who ns role) [] d' = (Inr (), d') \<and>
    (\<exists>d''. run (revoke_grant who ns role) [] d' = (Inr (), d'') \<and>
       (\<forall>w n. direct_roles w n d'' = direct_roles w n d' - (if w = who \<and> n = ns then {role} else {})))"
proof -
  let ?m = "\<lparr>m_principal = who, m_namespace_id = ns, m_role = role\<rparr>"
  have v: "valid_role role" and
    g: "d' = (if ?m \<in> set (memberships_tbl d) then d else d\<lparr>memberships_tbl := memberships_tbl d @ [?m]\<rparr>)"
      "?m \<notin> set (memberships_tbl d) \<Longrightarrow> memberships_ok d (memberships_tbl d @ [?m])"
    using assms by (auto simp: grant_def run_def on_pool_def stmt_def fail_sql_def Let_def put_memberships_def
        split: prod.splits bool.splits if_splits)
  have in': "?m \<in> set (memberships_tbl d')" by (simp add: g(1))
  have "memberships_ok d (memberships_tbl d')" using g(2) assms(2) by (simp add: g(1))
  moreover have "namespaces_tbl d' = namespaces_tbl d" by (simp add: g(1))
  ultimately have ok': "memberships_ok d' (memberships_tbl d')" by (simp only: memberships_ok_def)
  let ?keep = "\<lambda>m. \<not> (m_principal m = who \<and> m_namespace_id m = ns \<and> m_role m = role)"
  have "memberships_ok d' (filter ?keep (memberships_tbl d'))"
    using ok' by (auto simp: memberships_ok_def list_all_iff)
  then have "run (revoke_grant who ns role) [] d' =
      (Inr (), d'\<lparr>memberships_tbl := filter ?keep (memberships_tbl d')\<rparr>)"
    by (simp add: revoke_grant_def sql_run put_memberships_def)
  moreover have "direct_roles w n (d'\<lparr>memberships_tbl := filter ?keep (memberships_tbl d')\<rparr>) =
      direct_roles w n d' - (if w = who \<and> n = ns then {role} else {})" for w n
    by (auto simp: direct_roles_def)
  moreover have "direct_roles w n d' = direct_roles w n d \<union> (if w = who \<and> n = ns then {role} else {})" for w n
    by (auto simp: g(1) direct_roles_def)
  moreover have "run (grant who ns role) [] d' = (Inr (), d')"
    using v in' by (simp add: grant_def sql_run Let_def)
  ultimately show ?thesis using v by blast
qed

lemma grant_revoke_applied:
  "\<exists>d'. direct_roles ''eve'' 2 d' = {''reviewer''} \<and> run (grant ''eve'' 2 ''reviewer'') [] d' = (Inr (), d')"
proof -
  have ok: "memberships_ok tree_db (memberships_tbl tree_db)" using tree_db_ok by (simp add: schema_ok_def)
  have "\<exists>d'. run (grant ''eve'' 2 ''reviewer'') [] tree_db = (Inr (), d')"
    by (simp add: grant_def valid_role_def sql_run Let_def put_memberships_def memberships_ok_def tree_db_def
        roles_def sample_db_def sample_ns_def)
  then obtain d' where d': "run (grant ''eve'' 2 ''reviewer'') [] tree_db = (Inr (), d')" by blast
  have "direct_roles ''eve'' 2 tree_db = {}" by (auto simp: direct_roles_def tree_db_def)
  with grant_revoke[OF d' ok] show ?thesis by (intro exI[of _ d']) auto
qed

text \<open>
  C31. Resolution ends whatever the parent links are, in a cycle too: it answers or fails with the statement that
  failed and never changes the store, and the answer names each readable namespace once, so at most as many
  as there are.
\<close>

theorem resolve_terminates:
  assumes "distinct (map nr_id (namespaces_tbl d))"
  shows "\<exists>r. run (resolve_principal p) fs d = (r, d) \<and> (fs = [] \<longrightarrow> (\<exists>e. r = Inr e)) \<and>
    (\<forall>e. r = Inr e \<longrightarrow> distinct (ent_readable e) \<and> length (ent_readable e) \<le> length (namespaces_tbl d) \<and>
       set (ent_readable e) = (parent_of (namespaces_tbl d))\<^sup>* `` (member_of (pr_id p) d \<inter> nr_id ` set (namespaces_tbl d)))"
proof -
  let ?rows = "namespaces_tbl d"
  define seed where "seed = filter (\<lambda>n. nr_id n \<in> member_of (pr_id p) d) ?rows"
  have granted: "set (map m_namespace_id (filter (\<lambda>m. m_principal m = pr_id p) (memberships_tbl d))) = member_of (pr_id p) d"
    unfolding member_of_def by (force simp: direct_roles_iff)
  have ids: "resolve_rows (pr_id p) d = map nr_id (ancestors ?rows seed seed)"
    by (simp only: resolve_rows_def Let_def granted seed_def)
  have sub: "set (ancestors ?rows seed seed) \<subseteq> set ?rows"
    using ancestors_sound[of seed ?rows seed] by (auto simp: seed_def)
  have rows: "distinct ?rows" "inj_on nr_id (set ?rows)" using assms by (simp_all add: distinct_map)
  then have dist: "distinct (resolve_rows (pr_id p) d)"
    using ancestors_distinct[of ?rows seed seed] inj_on_subset[OF rows(2) sub]
    by (simp add: ids distinct_map seed_def)
  have "card (set (ancestors ?rows seed seed)) \<le> card (set ?rows)" by (rule card_mono[OF _ sub]) simp
  then have bound: "length (resolve_rows (pr_id p) d) \<le> length ?rows"
    using ancestors_distinct[of ?rows seed seed] rows(1) by (simp add: ids seed_def distinct_card)
  have "nr_id ` set seed = member_of (pr_id p) d \<inter> nr_id ` set ?rows" by (auto simp: seed_def)
  then have closure: "set (resolve_rows (pr_id p) d) =
      (parent_of ?rows)\<^sup>* `` (member_of (pr_id p) d \<inter> nr_id ` set ?rows)"
    using ancestors_closure[OF assms, of seed] by (simp add: ids) (simp add: seed_def)
  obtain r d' where r: "run (resolve_principal p) fs d = (r, d')" by fastforce
  have "read_only (resolve_principal p)" unfolding resolve_principal_def by (intro sql_safe)
  then have "d' = d"
    using r by (auto simp: read_only_def run_def dest: spec[of _ "\<lparr>store = d, aborted = False, faults = fs\<rparr>"] split: prod.splits)
  moreover have "ent_readable e = resolve_rows (pr_id p) d" if "r = Inr e" for e
    using resolve_Inr[OF r[unfolded that]] unfolding resolve_run by auto
  moreover have "\<exists>e. r = Inr e" if "fs = []" using r resolve_run[of p d] that by auto
  ultimately show ?thesis using r dist bound closure by metis
qed

definition cyclic_db :: db where
  "cyclic_db = tree_db\<lparr>namespaces_tbl := [sample_ns 1 ''team'' ''team'' (Some 2), sample_ns 2 ''web'' ''project'' (Some 1)]\<rparr>"

theorem resolve_terminates_witness:
  "\<exists>e. run (resolve_principal \<lparr>pr_id = ''dev'', pr_platform_admin = False\<rparr>) [] cyclic_db = (Inr e, cyclic_db) \<and>
     length (ent_readable e) \<le> 2"
proof -
  have "distinct (map nr_id (namespaces_tbl cyclic_db))" by (simp add: cyclic_db_def sample_ns_def)
  from resolve_terminates[OF this, of "\<lparr>pr_id = ''dev'', pr_platform_admin = False\<rparr>" "[]"]
  obtain e where "run (resolve_principal \<lparr>pr_id = ''dev'', pr_platform_admin = False\<rparr>) [] cyclic_db = (Inr e, cyclic_db)"
    "length (ent_readable e) \<le> length (namespaces_tbl cyclic_db)"
    by auto
  moreover have "length (namespaces_tbl cyclic_db) = 2" by (simp add: cyclic_db_def)
  ultimately show ?thesis by auto
qed

end
