(* ===== verification/Context.thy ===== *)
theory Context
  imports Memory Rbac "HOL-Library.AList"
begin

text \<open>
  The resolver of \<^verbatim>\<open>/context\<close> (\<^verbatim>\<open>internal/contextsvc\<close>): for each canonical key the active fact of highest
  precedence in the caller's namespaces, then the actor's memories. The join returns its rows in any
  order, the argument \<open>plan\<close>; the Go map \<^verbatim>\<open>best\<close> is an association list (its iteration order is undone by
  the sort on distinct keys).
\<close>

section \<open>Items and queries\<close>

datatype source = SourceFact | SourceMemory

record item =
  it_source :: source
  it_statement :: string
  it_namespace_id :: "uuid option"
  it_canonical_key :: string
  it_confidence :: "int option"
  it_valid_to :: "timestamp option"
  it_tags :: "string list"
  it_metadata :: "(string \<times> json) list"

record context_query =
  cq_actor_id :: string
  cq_namespaces :: "uuid list"
  cq_include_memories :: bool
  cq_limit :: int
  cq_tags :: "string list"

text \<open>\<^verbatim>\<open>kindRank[k]\<close> of an absent key is the zero value.\<close>

definition kind_rank :: "string \<Rightarrow> nat" where
  "kind_rank k =
     (case map_of [(''user'', 3), (''project'', 2), (''team'', 1), (''org'', 0)] k of None \<Rightarrow> 0 | Some r \<Rightarrow> r)"

definition outranks :: "bool \<Rightarrow> string \<Rightarrow> bool \<Rightarrow> string \<Rightarrow> bool" where
  "outranks a_auth a_kind b_auth b_kind =
     (if a_auth \<noteq> b_auth then a_auth else kind_rank a_kind > kind_rank b_kind)"

fun has_tag :: "string list \<Rightarrow> string \<Rightarrow> bool" where
  "has_tag [] want = False"
| "has_tag (t # ts) want = (if t = want then True else has_tag ts want)"

definition apply_limit :: "'a list \<Rightarrow> int \<Rightarrow> 'a list" where
  "apply_limit items limit = (if limit > 0 \<and> int (length items) > limit then take (nat limit) items else items)"

section \<open>The facts\<close>

definition ctx_where :: "timestamp \<Rightarrow> context_query \<Rightarrow> fact_row \<Rightarrow> bool" where
  "ctx_where now q f \<longleftrightarrow>
     f_status f = StatusActive \<and> f_namespace_id f \<in> set (cq_namespaces q) \<and>
     (case f_valid_to f of None \<Rightarrow> True | Some t \<Rightarrow> t > now) \<and>
     (cq_tags q \<noteq> [] \<longrightarrow> delivered (cq_tags q) (f_tags f))"

definition ctx_join :: "timestamp \<Rightarrow> context_query \<Rightarrow> db \<Rightarrow> (fact_row \<times> ns_row) list" where
  "ctx_join now q d =
     [(f, n). f \<leftarrow> facts_tbl d, n \<leftarrow> namespaces_tbl d, nr_id n = f_namespace_id f \<and> ctx_where now q f]"

record cand =
  c_item :: item
  c_kind :: string
  c_authoritative :: bool

definition fact_item :: "fact_row \<Rightarrow> item" where
  "fact_item f = \<lparr>it_source = SourceFact, it_statement = f_statement f, it_namespace_id = Some (f_namespace_id f),
     it_canonical_key = f_canonical_key f, it_confidence = f_confidence f, it_valid_to = f_valid_to f,
     it_tags = f_tags f, it_metadata = f_metadata f\<rparr>"

definition to_cand :: "fact_row \<times> ns_row \<Rightarrow> cand" where
  "to_cand = (\<lambda>(f, n). \<lparr>c_item = fact_item f, c_kind = nr_kind n,
     c_authoritative = has_tag (f_tags f) ''authoritative:true''\<rparr>)"

definition cand_key :: "cand \<Rightarrow> string" where
  "cand_key c = it_canonical_key (c_item c)"

definition cand_beats :: "cand \<Rightarrow> cand \<Rightarrow> bool" where
  "cand_beats c cur = outranks (c_authoritative c) (c_kind c) (c_authoritative cur) (c_kind cur)"

text \<open>One round of the loop over the rows: keep the candidate unless it beats the one held for its key.\<close>

definition best_step :: "('a \<Rightarrow> 'a \<Rightarrow> bool) \<Rightarrow> ('a \<Rightarrow> 'k) \<Rightarrow> 'a \<Rightarrow> ('k \<times> 'a) list \<Rightarrow> ('k \<times> 'a) list" where
  "best_step beats key c best =
     (case map_of best (key c) of
        None \<Rightarrow> AList.update (key c) c best
      | Some cur \<Rightarrow> if beats c cur then AList.update (key c) c best else best)"

definition best_of :: "('a \<Rightarrow> 'a \<Rightarrow> bool) \<Rightarrow> ('a \<Rightarrow> 'k) \<Rightarrow> 'a list \<Rightarrow> ('k \<times> 'a) list" where
  "best_of beats key rows = fold (best_step beats key) rows []"

definition resolved_facts :: "(fact_row \<times> ns_row) list \<Rightarrow> item list" where
  "resolved_facts rows =
     sort_key it_canonical_key (map (\<lambda>(k, c). c_item c) (best_of cand_beats cand_key (map to_cand rows)))"

section \<open>The memories\<close>

definition memory_item :: "memory \<Rightarrow> item" where
  "memory_item m = \<lparr>it_source = SourceMemory, it_statement = mem_content m, it_namespace_id = None,
     it_canonical_key = [], it_confidence = None, it_valid_to = None, it_tags = [], it_metadata = mem_metadata m\<rparr>"

definition covered :: "item list \<Rightarrow> memory \<Rightarrow> bool" where
  "covered facts m =
     (case map_of (mem_metadata m) ''canonical_key'' of
        Some (JStr k) \<Rightarrow> k \<in> set (map it_canonical_key facts)
      | _ \<Rightarrow> False)"

definition maybe_merge_memories :: "memory_source option \<Rightarrow> context_query \<Rightarrow> item list \<Rightarrow> item list" where
  "maybe_merge_memories mem q facts =
     (if \<not> cq_include_memories q then apply_limit facts (cq_limit q)
      else case mem of
             None \<Rightarrow> apply_limit facts (cq_limit q)
           | Some ms \<Rightarrow>
               (case ms_list ms (cq_actor_id q) (cq_limit q) of
                  Inl e \<Rightarrow> apply_limit facts (cq_limit q)
                | Inr mems \<Rightarrow>
                    apply_limit (facts @ map memory_item (filter (\<lambda>m. \<not> covered facts m) mems)) (cq_limit q)))"

definition resolve_context ::
    "((fact_row \<times> ns_row) list \<Rightarrow> (fact_row \<times> ns_row) list) \<Rightarrow> memory_source option \<Rightarrow> timestamp \<Rightarrow> context_query
      \<Rightarrow> (db, item list) sql" where
  "resolve_context plan mem now q =
     (if cq_namespaces q = [] then return_sql (maybe_merge_memories mem q [])
      else bind_sql (on_pool (query (\<lambda>d. plan (ctx_join now q d))))
             (\<lambda>rows. return_sql (maybe_merge_memories mem q (resolved_facts rows))))"

section \<open>Keeping the best of each key\<close>

text \<open>
  What the loop needs of the comparison: a strict weak order. The interface gives what is kept: one
  candidate for each key that occurs, beaten by none.
\<close>

locale precedence =
  fixes beats :: "'a \<Rightarrow> 'a \<Rightarrow> bool" and key :: "'a \<Rightarrow> 'k"
  assumes beats_asym: "beats a b \<Longrightarrow> \<not> beats b a"
    and beats_negtrans: "\<not> beats a b \<Longrightarrow> \<not> beats b c \<Longrightarrow> \<not> beats a c"
begin

lemma best_of_snoc: "best_of beats key (rows @ [c]) = best_step beats key c (best_of beats key rows)"
  by (simp add: best_of_def)

lemma best_distinct: "distinct (map fst (best_of beats key rows))"
  by (induction rows rule: rev_induct)
    (auto simp: best_of_snoc best_step_def distinct_update split: option.split, simp add: best_of_def)

lemma best_dom: "fst ` set (best_of beats key rows) = key ` set rows"
proof (induction rows rule: rev_induct)
  case Nil
  then show ?case by (simp add: best_of_def)
next
  case (snoc c rows)
  have "dom (map_of (best_step beats key c (best_of beats key rows))) = insert (key c) (dom (map_of (best_of beats key rows)))"
    by (auto simp: best_step_def update_conv' split: option.split)
  then show ?case using snoc by (simp add: best_of_snoc dom_map_of_conv_image_fst)
qed

lemma best_of_Some:
  "map_of (best_of beats key rows) k = Some c \<Longrightarrow>
     c \<in> set rows \<and> key c = k \<and> (\<forall>r \<in> set rows. key r = k \<longrightarrow> \<not> beats r c)"
proof (induction rows arbitrary: k c rule: rev_induct)
  case Nil
  then show ?case by (simp add: best_of_def)
next
  case (snoc x rows)
  let ?b = "best_of beats key rows"
  note IH = snoc.IH
  show ?case
  proof (cases "k = key x")
    case False
    then have "map_of ?b k = Some c"
      using snoc.prems by (auto simp: best_of_snoc best_step_def update_conv' split: option.splits if_splits)
    then show ?thesis using IH[of k c] False by auto
  next
    case k: True
    show ?thesis
    proof (cases "map_of ?b k")
      case None
      then have "c = x" using snoc.prems k by (simp add: best_of_snoc best_step_def update_conv')
      moreover have "k \<notin> key ` set rows"
        using None best_dom[of rows] by (metis dom_map_of_conv_image_fst domIff)
      ultimately show ?thesis using k beats_asym[of x x] by (auto simp: image_iff)
    next
      case (Some cur)
      note cur = IH[OF Some]
      show ?thesis
      proof (cases "beats x cur")
        case True
        then have "c = x" using snoc.prems k Some by (simp add: best_of_snoc best_step_def update_conv')
        moreover have "\<not> beats r x" if "r \<in> set rows" "key r = k" for r
          using that cur beats_asym[OF True] beats_negtrans[of r cur x] by blast
        ultimately show ?thesis using k beats_asym[of x x] by auto
      next
        case False
        then have "c = cur" using snoc.prems k Some by (simp add: best_of_snoc best_step_def)
        then show ?thesis using cur False k by auto
      qed
    qed
  qed
qed

lemma best_total: "r \<in> set rows \<Longrightarrow> \<exists>c. map_of (best_of beats key rows) (key r) = Some c"
  using best_dom[of rows] by (metis dom_map_of_conv_image_fst domD imageI)

lemma best_set: "(k, c) \<in> set (best_of beats key rows) \<longleftrightarrow> map_of (best_of beats key rows) k = Some c"
  by (simp add: best_distinct)

lemma best_order_free:
  assumes "set rows = set rows'"
    and "\<And>a b. a \<in> set rows \<Longrightarrow> b \<in> set rows \<Longrightarrow> key a = key b \<Longrightarrow> a \<noteq> b \<Longrightarrow> beats a b \<or> beats b a"
  shows "set (best_of beats key rows) = set (best_of beats key rows')"
proof -
  have "map_of (best_of beats key rows) k = Some c"
    if "map_of (best_of beats key rows') k = Some c" "set rows = set rows'"
      "\<And>a b. a \<in> set rows \<Longrightarrow> b \<in> set rows \<Longrightarrow> key a = key b \<Longrightarrow> a \<noteq> b \<Longrightarrow> beats a b \<or> beats b a"
    for rows rows' k c
  proof -
    note prems = that
    note c = best_of_Some[OF prems(1)]
    then obtain c' where c': "map_of (best_of beats key rows) k = Some c'"
      using best_total[of c rows] prems(2) by auto
    with c best_of_Some[OF c'] prems(2,3) show ?thesis by metis
  qed
  note half = this
  have "map_of (best_of beats key rows) k = Some c \<longleftrightarrow> map_of (best_of beats key rows') k = Some c" for k c
  proof
    assume "map_of (best_of beats key rows') k = Some c"
    then show "map_of (best_of beats key rows) k = Some c" by (rule half[OF _ assms])
  next
    assume "map_of (best_of beats key rows) k = Some c"
    then show "map_of (best_of beats key rows') k = Some c"
      by (rule half) (use assms in simp_all)
  qed
  then show ?thesis by (auto simp: best_set)
qed

end

interpretation ctx: precedence cand_beats cand_key
  by unfold_locales (auto simp: cand_beats_def outranks_def split: if_splits)

section \<open>What is resolved\<close>

text \<open>
  The documented precedence, on rows of the store: an authoritative fact before any other, and otherwise the
  fact of the more specific kind of namespace, user before project before team before org.
\<close>

definition more_specific :: "string \<Rightarrow> string \<Rightarrow> bool" where
  "more_specific a b \<longleftrightarrow> a = ''user'' \<and> b \<noteq> ''user'' \<or> a = ''project'' \<and> b \<notin> {''user'', ''project''} \<or>
     a = ''team'' \<and> b \<notin> {''user'', ''project'', ''team''}"

definition authoritative :: "fact_row \<Rightarrow> bool" where
  "authoritative f \<longleftrightarrow> ''authoritative:true'' \<in> set (f_tags f)"

definition ctx_kind :: "db \<Rightarrow> fact_row \<Rightarrow> string" where
  "ctx_kind d f = (case namespace_at d (f_namespace_id f) of None \<Rightarrow> [] | Some n \<Rightarrow> nr_kind n)"

definition row_outranks :: "db \<Rightarrow> fact_row \<Rightarrow> fact_row \<Rightarrow> bool" where
  "row_outranks d g f \<longleftrightarrow> authoritative g \<and> \<not> authoritative f \<or>
     authoritative g = authoritative f \<and> more_specific (ctx_kind d g) (ctx_kind d f)"

definition eligible :: "timestamp \<Rightarrow> context_query \<Rightarrow> db \<Rightarrow> fact_row set" where
  "eligible now q d = {f \<in> set (facts_tbl d). ctx_where now q f}"

lemma has_tag_iff: "has_tag ts t \<longleftrightarrow> t \<in> set ts"
  by (induction ts) auto

lemma kind_rank_less: "kind_rank a > kind_rank b \<longleftrightarrow> more_specific a b"
  by (auto simp: kind_rank_def more_specific_def)

lemma row_outranks_iff:
  "row_outranks d g f = outranks (has_tag (f_tags g) ''authoritative:true'') (ctx_kind d g)
     (has_tag (f_tags f) ''authoritative:true'') (ctx_kind d f)"
  by (auto simp: row_outranks_def outranks_def authoritative_def has_tag_iff kind_rank_less)

lemma fact_item_sel [simp]: "it_source (fact_item f) = SourceFact" "it_canonical_key (fact_item f) = f_canonical_key f"
  by (simp_all add: fact_item_def)

lemma memory_item_source [simp]: "it_source (memory_item m) = SourceMemory"
  by (simp add: memory_item_def)

lemma ctx_join_iff:
  "(f, n) \<in> set (ctx_join now q d) \<longleftrightarrow>
     f \<in> set (facts_tbl d) \<and> n \<in> set (namespaces_tbl d) \<and> nr_id n = f_namespace_id f \<and> ctx_where now q f"
  by (auto simp: ctx_join_def)

lemma ctx_join_eligible:
  assumes "schema_ok d"
  shows "(f, n) \<in> set (ctx_join now q d) \<longleftrightarrow> f \<in> eligible now q d \<and> namespace_at d (f_namespace_id f) = Some n"
  using assms nt.lookup_rows[of "namespaces_tbl d" "f_namespace_id f" n]
  by (auto simp: ctx_join_iff eligible_def schema_ok_def namespaces_ok_def)

lemma eligible_joined:
  assumes "schema_ok d" and "f \<in> eligible now q d"
  obtains n where "namespace_at d (f_namespace_id f) = Some n"
proof -
  have "f_namespace_id f \<in> set (map nr_id (namespaces_tbl d))"
    using assms by (auto simp: eligible_def schema_ok_def facts_ok_def list_all_iff)
  then show thesis using that by (cases "namespace_at d (f_namespace_id f)") (auto simp: tbl_get_None)
qed

lemma cand_key_to_cand [simp]: "cand_key (to_cand (f, n)) = f_canonical_key f"
  by (simp add: cand_key_def to_cand_def)

lemma c_item_to_cand [simp]: "c_item (to_cand (f, n)) = fact_item f"
  by (simp add: to_cand_def)

lemma resolved_keys:
  "map it_canonical_key (resolved_facts rows) = sort (map fst (best_of cand_beats cand_key (map to_cand rows)))"
proof -
  let ?b = "best_of cand_beats cand_key (map to_cand rows)"
  have "it_canonical_key (c_item c) = k" if "(k, c) \<in> set ?b" for k c
    using ctx.best_of_Some[of "map to_cand rows" k c] that by (simp add: ctx.best_set cand_key_def)
  then have "map it_canonical_key (map (\<lambda>(k, c). c_item c) ?b) = map fst ?b" by (auto simp: comp_def)
  moreover have "map it_canonical_key (resolved_facts rows) = sort (map it_canonical_key (map (\<lambda>(k, c). c_item c) ?b))"
    unfolding resolved_facts_def
    by (rule properties_for_sort[symmetric]) (simp_all only: mset_map mset_sort sorted_sort_key)
  ultimately show ?thesis by (simp only:)
qed

lemma resolved_facts_item:
  assumes "it \<in> set (resolved_facts rows)"
  obtains f n where "(f, n) \<in> set rows" "it = fact_item f"
    "\<And>g m. (g, m) \<in> set rows \<Longrightarrow> f_canonical_key g = f_canonical_key f \<Longrightarrow> \<not> cand_beats (to_cand (g, m)) (to_cand (f, n))"
proof -
  obtain k c where kc: "map_of (best_of cand_beats cand_key (map to_cand rows)) k = Some c" "it = c_item c"
    using assms by (auto simp: resolved_facts_def ctx.best_set)
  note c = ctx.best_of_Some[OF kc(1)]
  then obtain f n where "(f, n) \<in> set rows" "c = to_cand (f, n)" by auto
  with c kc(2) show thesis by (intro that[of f n]) auto
qed

lemma resolved_distinct: "distinct (map it_canonical_key (resolved_facts rows))"
  by (simp add: resolved_keys ctx.best_distinct)

lemma resolved_sorted: "sorted (map it_canonical_key (resolved_facts rows))"
  by (simp add: resolved_keys)

lemma resolved_covers: "set (map it_canonical_key (resolved_facts rows)) = f_canonical_key ` fst ` set rows"
proof -
  have "set (map it_canonical_key (resolved_facts rows)) = fst ` set (best_of cand_beats cand_key (map to_cand rows))"
    by (simp only: resolved_keys set_sort set_map)
  also have "\<dots> = cand_key ` to_cand ` set rows" by (simp only: ctx.best_dom set_map)
  finally show ?thesis by (simp add: image_image split_def) (metis (no_types, lifting) cand_key_to_cand image_cong prod.collapse)
qed

text \<open>What the service returns, in terms of the facts alone.\<close>

definition ctx_facts ::
    "((fact_row \<times> ns_row) list \<Rightarrow> (fact_row \<times> ns_row) list) \<Rightarrow> timestamp \<Rightarrow> context_query \<Rightarrow> db \<Rightarrow> item list" where
  "ctx_facts plan now q d = (if cq_namespaces q = [] then [] else resolved_facts (plan (ctx_join now q d)))"

lemma resolve_context_Inr:
  "run (resolve_context plan mem now q) fs d = (Inr items, d') \<Longrightarrow>
     d' = d \<and> items = maybe_merge_memories mem q (ctx_facts plan now q d)"
  by (auto simp: resolve_context_def ctx_facts_def run_def return_sql_def bind_sql_def on_pool_def query_def stmt_def
      split: if_splits prod.splits bool.splits)

lemma ctx_facts_no_namespaces: "cq_namespaces q = [] \<Longrightarrow> ctx_join now q d = []"
  by (simp add: ctx_join_def ctx_where_def)

lemma set_apply_limit: "set (apply_limit xs n) \<subseteq> set xs"
  by (auto simp: apply_limit_def dest: in_set_takeD)

lemma merged_facts: "it \<in> set (maybe_merge_memories mem q facts) \<Longrightarrow> it_source it = SourceFact \<Longrightarrow> it \<in> set facts"
  using set_apply_limit by (fastforce simp: maybe_merge_memories_def split: if_splits option.splits sum.splits)

section \<open>Properties\<close>

text \<open>
  C15. Context never leaks: every fact in the answer is an active, unexpired fact of one of the namespaces asked
  for, which are the caller's entitled ones, and carries one of the tags asked for or a mark that is always
  delivered; the store is not changed.
\<close>

theorem context_sound:
  assumes "run (resolve_context plan mem now q) fs d = (Inr items, d')" and "\<And>xs. mset (plan xs) = mset xs"
    and "it \<in> set items" and "it_source it = SourceFact"
  shows "d' = d \<and> (\<exists>f \<in> set (facts_tbl d). it = fact_item f \<and> f_status f = StatusActive \<and>
    f_namespace_id f \<in> set (cq_namespaces q) \<and> (case f_valid_to f of None \<Rightarrow> True | Some t \<Rightarrow> now < t) \<and>
    (cq_tags q = [] \<or> set (cq_tags q) \<inter> set (f_tags f) \<noteq> {} \<or>
       ''authoritative:true'' \<in> set (f_tags f) \<or> ''tier:always'' \<in> set (f_tags f)))"
proof -
  note r = resolve_context_Inr[OF assms(1)]
  have "it \<in> set (ctx_facts plan now q d)" using assms(3,4) r merged_facts by blast
  then obtain f n where f: "(f, n) \<in> set (plan (ctx_join now q d))" "it = fact_item f"
    by (auto simp: ctx_facts_def split: if_splits elim!: resolved_facts_item)
  then have "f \<in> set (facts_tbl d)" "ctx_where now q f"
    using mset_eq_setD[OF assms(2)] by (auto simp: ctx_join_iff)
  with f(2) r show ?thesis by (auto simp: ctx_where_def delivered_def intro!: bexI[of _ f])
qed

text \<open>
  C14. Precedence: without a limit the facts of the answer have distinct canonical keys in ascending order, one
  for every key that has an eligible fact, and each is an eligible fact that no other with its key outranks:
  an authoritative one before any other, then the one of the more specific kind of namespace.
\<close>

theorem context_precedence:
  assumes "run (resolve_context plan mem now q) fs d = (Inr items, d')" and "\<And>xs. mset (plan xs) = mset xs"
    and "schema_ok d" and "cq_limit q \<le> 0"
  shows "let chosen = filter (\<lambda>it. it_source it = SourceFact) items in
    sorted_wrt (<) (map it_canonical_key chosen) \<and>
    set (map it_canonical_key chosen) = f_canonical_key ` eligible now q d \<and>
    (\<forall>it \<in> set chosen. \<exists>f \<in> eligible now q d. it = fact_item f \<and>
       (\<forall>g \<in> eligible now q d. f_canonical_key g = f_canonical_key f \<longrightarrow> \<not> row_outranks d g f))"
proof -
  let ?rows = "plan (ctx_join now q d)"
  have items: "items = maybe_merge_memories mem q (ctx_facts plan now q d)"
    using resolve_context_Inr[OF assms(1)] by simp
  have rows: "(f, n) \<in> set ?rows \<longleftrightarrow> f \<in> eligible now q d \<and> namespace_at d (f_namespace_id f) = Some n" for f n
    using mset_eq_setD[OF assms(2)] ctx_join_eligible[OF assms(3)] by auto
  have plan_Nil: "plan [] = []" using assms(2)[of "[]"] by simp
  have ctx: "ctx_facts plan now q d = resolved_facts ?rows"
    by (simp add: ctx_facts_def ctx_facts_no_namespaces plan_Nil resolved_facts_def best_of_def)
  have only: "filter (\<lambda>it. it_source it = SourceFact) (resolved_facts ?rows) = resolved_facts ?rows"
    using resolved_facts_item[of _ ?rows] by (intro filter_True) (metis fact_item_sel(1))
  have chosen: "filter (\<lambda>it. it_source it = SourceFact) items = resolved_facts ?rows"
    using assms(4) only
    by (auto simp: items ctx maybe_merge_memories_def apply_limit_def filter_map comp_def
        split: option.split sum.split)
  have "f_canonical_key ` fst ` set ?rows = f_canonical_key ` eligible now q d"
  proof (intro set_eqI iffI)
    fix k assume "k \<in> f_canonical_key ` eligible now q d"
    then obtain f where f: "f \<in> eligible now q d" "k = f_canonical_key f" by blast
    obtain n where "namespace_at d (f_namespace_id f) = Some n" by (rule eligible_joined[OF assms(3) f(1)])
    with f rows have "(f, n) \<in> set ?rows" by simp
    then show "k \<in> f_canonical_key ` fst ` set ?rows" using f(2) by force
  qed (use rows in auto)
  moreover have "\<exists>f \<in> eligible now q d. it = fact_item f \<and>
      (\<forall>g \<in> eligible now q d. f_canonical_key g = f_canonical_key f \<longrightarrow> \<not> row_outranks d g f)"
    if "it \<in> set (resolved_facts ?rows)" for it
  proof -
    note it = that
    obtain f n where f: "(f, n) \<in> set ?rows" "it = fact_item f"
      "\<And>g m. (g, m) \<in> set ?rows \<Longrightarrow> f_canonical_key g = f_canonical_key f \<Longrightarrow> \<not> cand_beats (to_cand (g, m)) (to_cand (f, n))"
      using resolved_facts_item[OF it] by metis
    have "\<not> row_outranks d g f" if "g \<in> eligible now q d" "f_canonical_key g = f_canonical_key f" for g
    proof -
      note g = that
      obtain m where "namespace_at d (f_namespace_id g) = Some m" by (rule eligible_joined[OF assms(3) g(1)])
      then show ?thesis
        using f(3)[of g m] f(1) g rows by (simp add: cand_beats_def to_cand_def row_outranks_iff ctx_kind_def)
    qed
    then show ?thesis using f(1,2) rows by blast
  qed
  ultimately show ?thesis
    using resolved_distinct resolved_sorted resolved_covers
    by (simp add: chosen Let_def strict_sorted_iff)
qed

lemma maybe_merge_memories_no: "maybe_merge_memories None (q\<lparr>cq_include_memories := False, cq_limit := 0\<rparr>) facts = facts"
  by (simp add: maybe_merge_memories_def apply_limit_def)

lemma not_covered:
  "\<not> covered facts m \<longleftrightarrow> (\<forall>f \<in> set facts. map_of (mem_metadata m) ''canonical_key'' \<noteq> Some (JStr (it_canonical_key f)))"
  by (auto simp: covered_def split: option.split json.split)

lemma apply_limit_eq: "apply_limit xs n = (if 0 < n then take (nat n) xs else xs)"
  by (simp add: apply_limit_def)

lemma maybe_merge_memories_eq:
  "maybe_merge_memories mem q facts =
     (let memories =
        (case mem of
           None \<Rightarrow> []
         | Some ms \<Rightarrow> (case ms_list ms (cq_actor_id q) (cq_limit q) of Inl e \<Rightarrow> [] | Inr mems \<Rightarrow> mems));
          lower = [\<lparr>it_source = SourceMemory, it_statement = mem_content m, it_namespace_id = None, it_canonical_key = [],
               it_confidence = None, it_valid_to = None, it_tags = [], it_metadata = mem_metadata m\<rparr>.
             m \<leftarrow> memories, cq_include_memories q \<and>
             (\<forall>f \<in> set facts. map_of (mem_metadata m) ''canonical_key'' \<noteq> Some (JStr (it_canonical_key f)))]
      in if 0 < cq_limit q then take (nat (cq_limit q)) (facts @ lower) else facts @ lower)"
proof -
  have l: "[memory_item m. m \<leftarrow> mems, P m] = map memory_item (filter P mems)" for P mems
    by (induction mems) simp_all
  have n: "concat (map (\<lambda>m. []) mems) = []" for mems :: "memory list" by (induction mems) simp_all
  show ?thesis
    unfolding memory_item_def[symmetric] not_covered[symmetric] Let_def apply_limit_eq[symmetric]
    by (cases "cq_include_memories q") (simp_all add: l n maybe_merge_memories_def split: option.split sum.split)
qed

text \<open>
  C16. Memories are the lowest layer and best effort. For every backend and every pattern of faults, the read
  fails exactly when reading the facts alone fails, with the same error, and it never fails because of the
  backend. Otherwise the answer is the facts, resolved as without memories, then, if the backend answers, the
  statements and metadata of the actor's memories in its order, without those whose \<^verbatim>\<open>canonical_key\<close> is
  the key of a fact, all cut at the limit. The store is left alone.
\<close>

theorem context_memories:
  "run (resolve_context plan mem now q) fs d =
     (case run (resolve_context plan None now (q\<lparr>cq_include_memories := False, cq_limit := 0\<rparr>)) fs d of
        (Inl e, d') \<Rightarrow> (Inl e, d)
      | (Inr facts, d') \<Rightarrow>
          (let memories =
             (case mem of
                None \<Rightarrow> []
              | Some ms \<Rightarrow> (case ms_list ms (cq_actor_id q) (cq_limit q) of Inl e \<Rightarrow> [] | Inr mems \<Rightarrow> mems));
               lower = [\<lparr>it_source = SourceMemory, it_statement = mem_content m, it_namespace_id = None, it_canonical_key = [],
                    it_confidence = None, it_valid_to = None, it_tags = [], it_metadata = mem_metadata m\<rparr>.
                  m \<leftarrow> memories, cq_include_memories q \<and>
                  (\<forall>f \<in> set facts. map_of (mem_metadata m) ''canonical_key'' \<noteq> Some (JStr (it_canonical_key f)))]
           in (Inr (if 0 < cq_limit q then take (nat (cq_limit q)) (facts @ lower) else facts @ lower), d)))"
proof -
  let ?q = "q\<lparr>cq_include_memories := False, cq_limit := 0\<rparr>"
  have "run (resolve_context plan mem now q) fs d =
      (case run (resolve_context plan None now ?q) fs d of
         (Inl e, d') \<Rightarrow> (Inl e, d) | (Inr facts, d') \<Rightarrow> (Inr (maybe_merge_memories mem q facts), d))"
    by (simp add: resolve_context_def run_def bind_sql_def return_sql_def on_pool_def query_def stmt_def
        maybe_merge_memories_no ctx_join_def ctx_where_def split: prod.split sum.split bool.split)
  then show ?thesis
    by (simp only: maybe_merge_memories_eq Let_def)
qed

text \<open>
  When no two eligible facts with the same key tie, the order in which the database returns its rows does
  not matter: the answer is determined.
\<close>

lemma context_deterministic:
  assumes "schema_ok d" and "\<And>xs. mset (plan xs) = mset xs" and "\<And>xs. mset (plan' xs) = mset xs"
    and "\<forall>f \<in> eligible now q d. \<forall>g \<in> eligible now q d. f_canonical_key f = f_canonical_key g \<longrightarrow> f \<noteq> g \<longrightarrow>
           row_outranks d f g \<or> row_outranks d g f"
  shows "run (resolve_context plan mem now q) fs d = run (resolve_context plan' mem now q) fs d"
proof -
  let ?rows = "plan (ctx_join now q d)" and ?rows' = "plan' (ctx_join now q d)"
  let ?b = "\<lambda>rows. best_of cand_beats cand_key (map to_cand rows)"
  have rows: "set ?rows = set (ctx_join now q d)" "set ?rows' = set (ctx_join now q d)"
    using mset_eq_setD[OF assms(2)] mset_eq_setD[OF assms(3)] by auto
  have "set (?b ?rows) = set (?b ?rows')"
  proof (rule ctx.best_order_free)
    fix a b assume ab: "a \<in> set (map to_cand ?rows)" "b \<in> set (map to_cand ?rows)" "cand_key a = cand_key b" "a \<noteq> b"
    then obtain f n g m where fg: "a = to_cand (f, n)" "(f, n) \<in> set (ctx_join now q d)"
        "b = to_cand (g, m)" "(g, m) \<in> set (ctx_join now q d)" by (auto simp: rows)
    then have "f \<noteq> g" using ab(4) by (auto simp: ctx_join_eligible[OF assms(1)])
    then show "cand_beats a b \<or> cand_beats b a"
      using assms(4) ab(3) fg
      by (fastforce simp: ctx_join_eligible[OF assms(1)] row_outranks_iff cand_beats_def to_cand_def ctx_kind_def cand_key_def)
  qed (simp add: rows)
  then have "set (resolved_facts ?rows) = set (resolved_facts ?rows')" by (simp add: resolved_facts_def)
  moreover have "map it_canonical_key (resolved_facts ?rows) = map it_canonical_key (resolved_facts ?rows')"
    using resolved_covers rows resolved_sorted resolved_distinct by (intro sorted_distinct_set_unique) metis+
  ultimately have "resolved_facts ?rows = resolved_facts ?rows'"
    using resolved_distinct by (intro map_sorted_distinct_set_unique[of it_canonical_key])
      (auto simp: inj_on_def resolved_sorted dest: distinct_map_inj[OF resolved_distinct])
  then show ?thesis
    by (auto simp: resolve_context_def run_def bind_sql_def on_pool_def query_def stmt_def return_sql_def
        split: prod.split bool.split)
qed

section \<open>Evaluated\<close>

text \<open>A team's authoritative fact, a project's fact with the same key, a third that has expired, and a memory.\<close>

definition ctx_db :: db where
  "ctx_db = sample_db
     [sample_fact 10 1 ''tabs'' StatusActive [''authoritative:true''] None,
      sample_fact 11 2 ''spaces'' StatusActive [] None,
      (sample_fact 12 2 ''old'' StatusActive [] None)\<lparr>f_canonical_key := ''os:api'', f_valid_to := Some 5\<rparr>] []"

definition ctx_query :: context_query where
  "ctx_query = \<lparr>cq_actor_id = ''ann'', cq_namespaces = [2, 1], cq_include_memories = True, cq_limit = 0, cq_tags = []\<rparr>"

definition ctx_memory :: memory where
  "ctx_memory = \<lparr>mem_id = ''m'', mem_actor_id = ''ann'', mem_content = ''tea'', mem_metadata = [], mem_created_at = 0\<rparr>"

definition ctx_source :: memory_source where
  "ctx_source = null_source\<lparr>ms_list := (\<lambda>_ _. Inr [ctx_memory,
     ctx_memory\<lparr>mem_metadata := [(''canonical_key'', JStr ''lang:api'')]\<rparr>])\<rparr>"

lemma ctx_db_join:
  "ctx_join 9 ctx_query ctx_db =
     [(sample_fact 10 1 ''tabs'' StatusActive [''authoritative:true''] None, sample_ns 1 ''team'' ''team'' None),
      (sample_fact 11 2 ''spaces'' StatusActive [] None, sample_ns 2 ''web'' ''project'' (Some 1))]"
  by (simp add: ctx_join_def ctx_db_def ctx_query_def sample_db_def sample_ns_def ctx_where_def)

lemma ctx_db_eligible:
  "eligible 9 ctx_query ctx_db =
     {sample_fact 10 1 ''tabs'' StatusActive [''authoritative:true''] None, sample_fact 11 2 ''spaces'' StatusActive [] None}"
proof -
  have "eligible 9 ctx_query ctx_db = set (filter (ctx_where 9 ctx_query) (facts_tbl ctx_db))"
    by (simp add: eligible_def)
  then show ?thesis by (simp add: ctx_db_def ctx_where_def ctx_query_def)
qed

lemma ctx_db_facts:
  "resolved_facts (ctx_join 9 ctx_query ctx_db)
     = [fact_item (sample_fact 10 1 ''tabs'' StatusActive [''authoritative:true''] None)]"
  "resolved_facts (rev (ctx_join 9 ctx_query ctx_db))
     = [fact_item (sample_fact 10 1 ''tabs'' StatusActive [''authoritative:true''] None)]"
  by (simp_all add: ctx_db_join resolved_facts_def best_of_def best_step_def cand_beats_def outranks_def)
    (simp_all add: to_cand_def)

lemma ctx_run:
  "run (resolve_context (\<lambda>xs. xs) (Some ctx_source) 9 ctx_query) [] ctx_db =
     (Inr [fact_item (sample_fact 10 1 ''tabs'' StatusActive [''authoritative:true''] None), memory_item ctx_memory], ctx_db)"
  "run (resolve_context (\<lambda>xs. xs) None 9 (ctx_query\<lparr>cq_include_memories := False, cq_limit := 0\<rparr>)) [] ctx_db =
     (Inr [fact_item (sample_fact 10 1 ''tabs'' StatusActive [''authoritative:true''] None)], ctx_db)"
  using ctx_db_facts(1)
  by (simp_all add: resolve_context_def sql_run maybe_merge_memories_def ctx_query_def ctx_source_def null_source_def
      apply_limit_def covered_def ctx_memory_def ctx_join_def ctx_where_def)

lemma ctx_db_ok: "schema_ok ctx_db"
  by (simp add: ctx_db_def sample_eval sample_fact_def)

theorem context_sound_witness:
  "\<exists>f. f \<in> set (facts_tbl ctx_db) \<and>
     fact_item (sample_fact 10 1 ''tabs'' StatusActive [''authoritative:true''] None) = fact_item f"
  using context_sound[OF ctx_run(1), of "fact_item (sample_fact 10 1 ''tabs'' StatusActive [''authoritative:true''] None)"]
  by auto

theorem context_precedence_witness:
  "f_canonical_key ` eligible 9 ctx_query ctx_db = {''lang:api''}"
  using context_precedence[OF ctx_run(1) _ ctx_db_ok] by (simp add: ctx_query_def)

text \<open>The same read with a working backend and with one that fails.\<close>

theorem context_memories_witness:
  "run (resolve_context (\<lambda>xs. xs) (Some ctx_source) 9 ctx_query) [] ctx_db =
     (Inr [fact_item (sample_fact 10 1 ''tabs'' StatusActive [''authoritative:true''] None), memory_item ctx_memory], ctx_db) \<and>
   run (resolve_context (\<lambda>xs. xs) (Some (ctx_source\<lparr>ms_list := (\<lambda>_ _. Inl ErrMemoryIO)\<rparr>)) 9 ctx_query) [] ctx_db =
     (Inr [fact_item (sample_fact 10 1 ''tabs'' StatusActive [''authoritative:true''] None)], ctx_db)"
  unfolding context_memories[of _ "Some ctx_source"] context_memories[of _ "Some (ctx_source\<lparr>ms_list := _\<rparr>)"] ctx_run(2)
  by (simp add: ctx_query_def ctx_source_def null_source_def ctx_memory_def memory_item_def Let_def)

lemma context_deterministic_witness:
  "run (resolve_context (\<lambda>xs. xs) (Some ctx_source) 9 ctx_query) [] ctx_db =
   run (resolve_context rev (Some ctx_source) 9 ctx_query) [] ctx_db"
proof (rule context_deterministic[OF ctx_db_ok])
  show "\<forall>f \<in> eligible 9 ctx_query ctx_db. \<forall>g \<in> eligible 9 ctx_query ctx_db.
      f_canonical_key f = f_canonical_key g \<longrightarrow> f \<noteq> g \<longrightarrow> row_outranks ctx_db f g \<or> row_outranks ctx_db g f"
    by (simp add: ctx_db_eligible row_outranks_def authoritative_def)
qed auto

text \<open>
  Two facts of different namespaces of the same kind tie, and then the answer is the one the database
  returns first.
\<close>

definition tied_db :: db where
  "tied_db = (sample_db [sample_fact 10 1 ''tabs'' StatusActive [] None, sample_fact 11 2 ''spaces'' StatusActive [] None] [])
     \<lparr>namespaces_tbl := [sample_ns 1 ''a'' ''team'' None, sample_ns 2 ''b'' ''team'' None]\<rparr>"

lemma tied_join:
  "ctx_join 9 ctx_query tied_db =
     [(sample_fact 10 1 ''tabs'' StatusActive [] None, sample_ns 1 ''a'' ''team'' None),
      (sample_fact 11 2 ''spaces'' StatusActive [] None, sample_ns 2 ''b'' ''team'' None)]"
  by (simp add: ctx_join_def tied_db_def ctx_query_def sample_ns_def ctx_where_def)

lemma context_tie:
  "resolved_facts (ctx_join 9 ctx_query tied_db) = [fact_item (sample_fact 10 1 ''tabs'' StatusActive [] None)]"
  "resolved_facts (rev (ctx_join 9 ctx_query tied_db)) = [fact_item (sample_fact 11 2 ''spaces'' StatusActive [] None)]"
  by (simp_all add: tied_join resolved_facts_def best_of_def best_step_def cand_beats_def outranks_def)
    (simp_all add: to_cand_def sample_ns_def)

end
