(* ===== verification/Autopromote.thy ===== *)
theory Autopromote
  imports Rbac
begin

text \<open>
  The auto-promotion contract and registry (\<^verbatim>\<open>internal/autopromote\<close>) and the \<^verbatim>\<open>simple/v1\<close> engine
  (\<^verbatim>\<open>internal/autopromote/simple\<close>): decoding of the rules document, validation against the whitelist, and
  evaluation. The locale \<open>auto_engine\<close> states what the registry's clients rely on from any engine; the
  engine of the source is shown to provide it.
\<close>

section \<open>Engines and the registry\<close>

record candidate =
  cd_origin_type :: string
  cd_source_kind :: string
  cd_actor_type :: string
  cd_tags :: "string list"
  cd_metadata :: "(string \<times> json) list"

text \<open>The package's \<^verbatim>\<open>Decision\<close>; an engine returns it with an error or none, as the source does.\<close>

record verdict =
  v_auto_promote :: bool
  v_reason :: string
  v_matched_rule :: "json option"

record engine =
  eng_id :: string
  eng_validate :: "raw_json \<Rightarrow> error + unit"
  eng_evaluate :: "candidate \<Rightarrow> raw_json \<Rightarrow> verdict \<times> error option"

type_synonym registry = "string \<rightharpoonup> engine"

definition no_promotion :: "string \<Rightarrow> verdict" where
  "no_promotion reason = \<lparr>v_auto_promote = False, v_reason = reason, v_matched_rule = None\<rparr>"

definition new_registry :: "engine list \<Rightarrow> registry" where
  "new_registry es = fold (\<lambda>e m. m(eng_id e \<mapsto> e)) es (\<lambda>_. None)"

definition registry_get :: "registry \<Rightarrow> string \<Rightarrow> error + engine" where
  "registry_get reg i = (case reg i of None \<Rightarrow> Inl (ErrUnknownEngine i) | Some e \<Rightarrow> Inr e)"

definition validate_policy :: "registry \<Rightarrow> string \<Rightarrow> raw_json \<Rightarrow> error + unit" where
  "validate_policy reg i rules =
     (case registry_get reg i of Inl e \<Rightarrow> Inl e | Inr e \<Rightarrow> eng_validate e rules)"

definition registry_evaluate :: "registry \<Rightarrow> string \<Rightarrow> candidate \<Rightarrow> raw_json \<Rightarrow> verdict \<times> error option" where
  "registry_evaluate reg i c rules =
     (case registry_get reg i of
        Inl e \<Rightarrow> (no_promotion [], Some e)
      | Inr e \<Rightarrow>
          (case eng_evaluate e c rules of
             (d, Some err) \<Rightarrow> (no_promotion [], Some err)
           | (d, None) \<Rightarrow> (d, None)))"

section \<open>The contract of an engine\<close>

locale auto_engine =
  fixes validate :: "raw_json \<Rightarrow> error + unit"
    and evaluate :: "candidate \<Rightarrow> raw_json \<Rightarrow> verdict \<times> error option"
  assumes closed_on_error: "evaluate c rules = (d, Some e) \<Longrightarrow> \<not> v_auto_promote d"
    and closed_on_invalid: "evaluate c rules = (d, None) \<Longrightarrow> validate rules = Inr ()"
    and reports_match: "evaluate c rules = (d, None) \<Longrightarrow> v_auto_promote d \<longleftrightarrow> v_matched_rule d \<noteq> None"
begin

lemma promotes_valid: "v_auto_promote (fst (evaluate c rules)) \<Longrightarrow>
    validate rules = Inr () \<and> snd (evaluate c rules) = None \<and> v_matched_rule (fst (evaluate c rules)) \<noteq> None"
proof -
  assume p: "v_auto_promote (fst (evaluate c rules))"
  obtain d e where ev: "evaluate c rules = (d, e)" by fastforce
  then have "e = None" using p closed_on_error[of c rules d] by (cases e) auto
  with ev p closed_on_invalid[of c rules d] reports_match[of c rules d] show ?thesis by simp
qed

lemma invalid_closed: "isl (validate rules) \<Longrightarrow> \<not> v_auto_promote (fst (evaluate c rules))"
  using promotes_valid[of c rules] by (cases "validate rules") auto

lemma registry_promotes:
  assumes "reg i = Some \<lparr>eng_id = i, eng_validate = validate, eng_evaluate = evaluate\<rparr>"
    and "registry_evaluate reg i c rules = (d, err)" and "v_auto_promote d"
  shows "err = None \<and> validate_policy reg i rules = Inr () \<and> evaluate c rules = (d, None) \<and> v_matched_rule d \<noteq> None"
  using assms promotes_valid[of c rules]
  by (auto simp: registry_evaluate_def registry_get_def validate_policy_def no_promotion_def
      split: prod.splits option.splits)

end

section \<open>The rules document of simple/v1\<close>

record condition =
  c_field :: string
  c_op :: string
  c_value :: "json option"

type_synonym rule = "condition list"

definition zero_condition :: condition where
  "zero_condition = \<lparr>c_field = [], c_op = [], c_value = None\<rparr>"

text \<open>
  \<^verbatim>\<open>strict\<close> is \<^verbatim>\<open>DisallowUnknownFields\<close>: a member the struct has no field for is an error.
\<close>

fun decode_condition :: "bool \<Rightarrow> json \<Rightarrow> condition option" where
  "decode_condition strict JNull = Some zero_condition"
| "decode_condition strict (JObj ms) =
     (if strict \<and> \<not> known_members [''field'', ''op'', ''value''] ms then None
      else case (field as_string [] ''field'' ms, field as_string [] ''op'' ms) of
        (Some f, Some oper) \<Rightarrow> Some \<lparr>c_field = f, c_op = oper, c_value = member ''value'' ms\<rparr>
      | _ \<Rightarrow> None)"
| "decode_condition strict _ = None"

fun decode_list :: "(json \<Rightarrow> 'a option) \<Rightarrow> json list \<Rightarrow> 'a list option" where
  "decode_list dec [] = Some []"
| "decode_list dec (v # vs) =
     (case dec v of
        None \<Rightarrow> None
      | Some x \<Rightarrow> (case decode_list dec vs of None \<Rightarrow> None | Some xs \<Rightarrow> Some (x # xs)))"

fun decode_array :: "(json \<Rightarrow> 'a option) \<Rightarrow> json \<Rightarrow> 'a list option" where
  "decode_array dec (JArr vs) = decode_list dec vs"
| "decode_array dec JNull = Some []"
| "decode_array dec _ = None"

fun decode_rule :: "bool \<Rightarrow> json \<Rightarrow> rule option" where
  "decode_rule strict JNull = Some []"
| "decode_rule strict (JObj ms) =
     (if strict \<and> \<not> known_members [''all''] ms then None
      else field (decode_array (decode_condition strict)) [] ''all'' ms)"
| "decode_rule strict _ = None"

fun decode_rule_set :: "bool \<Rightarrow> json \<Rightarrow> rule list option" where
  "decode_rule_set strict JNull = Some []"
| "decode_rule_set strict (JObj ms) =
     (if strict \<and> \<not> known_members [''rules''] ms then None
      else field (decode_array (decode_rule strict)) [] ''rules'' ms)"
| "decode_rule_set strict _ = None"

definition parse_rules :: "bool \<Rightarrow> raw_json \<Rightarrow> rule list option" where
  "parse_rules strict rules =
     (case rules of RawJson v \<Rightarrow> decode_rule_set strict v | _ \<Rightarrow> None)"

section \<open>Validation\<close>

definition whitelisted_fields :: "string list" where
  "whitelisted_fields = [''provenance.origin_type'', ''provenance.source.kind'', ''actor.type'', ''tags'']"

definition metadata_key :: "string \<Rightarrow> string option" where
  "metadata_key f =
     (if length f > length ''metadata.'' \<and> take (length ''metadata.'') f = ''metadata.''
      then Some (drop (length ''metadata.'') f) else None)"

definition field_allowed :: "string \<Rightarrow> bool" where
  "field_allowed f = (if f \<in> set whitelisted_fields then True else metadata_key f \<noteq> None)"

definition condition_ok :: "condition \<Rightarrow> bool" where
  "condition_ok c \<longleftrightarrow>
     (if \<not> field_allowed (c_field c) then False
      else if c_op c \<noteq> ''eq'' \<and> c_op c \<noteq> ''in'' then False
      else c_value c \<noteq> None)"

text \<open>
  The rules are a \<^verbatim>\<open>json.RawMessage\<close> that was itself read as one member of a document, so no bytes follow the value
  the decoder reads.
\<close>

definition simple_validate :: "raw_json \<Rightarrow> error + unit" where
  "simple_validate rules =
     (case parse_rules True rules of
        None \<Rightarrow> Inl ErrRules
      | Some rs \<Rightarrow>
          if rs = [] then Inl ErrRules
          else if list_all (\<lambda>r. r \<noteq> [] \<and> list_all condition_ok r) rs then Inr ()
          else Inl ErrRules)"

section \<open>Evaluation\<close>

definition field_has_scalar :: "string \<Rightarrow> string \<Rightarrow> candidate \<Rightarrow> bool" where
  "field_has_scalar f want c =
     (if f = ''provenance.origin_type'' then cd_origin_type c = want
      else if f = ''provenance.source.kind'' then cd_source_kind c = want
      else if f = ''actor.type'' then cd_actor_type c = want
      else if f = ''tags'' then want \<in> set (cd_tags c)
      else case metadata_key f of
             None \<Rightarrow> False
           | Some k \<Rightarrow>
               (case map_of (cd_metadata c) k of None \<Rightarrow> False | Some v \<Rightarrow> fmt_v v = want))"

definition condition_matches :: "candidate \<Rightarrow> condition \<Rightarrow> bool" where
  "condition_matches c k =
     (if c_op k = ''eq'' then
        (case Option.bind (c_value k) as_string of None \<Rightarrow> False | Some want \<Rightarrow> field_has_scalar (c_field k) want c)
      else if c_op k = ''in'' then
        (case Option.bind (c_value k) as_string_list of
           None \<Rightarrow> False
         | Some ws \<Rightarrow> list_ex (\<lambda>w. field_has_scalar (c_field k) w c) ws)
      else False)"

fun rule_matches :: "candidate \<Rightarrow> rule \<Rightarrow> bool" where
  "rule_matches c [] = True"
| "rule_matches c (k # ks) = (if \<not> condition_matches c k then False else rule_matches c ks)"

definition condition_json :: "condition \<Rightarrow> json" where
  "condition_json k = JObj [(''field'', JStr (c_field k)), (''op'', JStr (c_op k)),
     (''value'', case c_value k of None \<Rightarrow> JNull | Some v \<Rightarrow> v)]"

definition rule_json :: "rule \<Rightarrow> json" where
  "rule_json r = JObj [(''all'', JArr (map condition_json r))]"

definition simple_evaluate :: "candidate \<Rightarrow> raw_json \<Rightarrow> verdict \<times> error option" where
  "simple_evaluate c rules =
     (case simple_validate rules of
        Inl e \<Rightarrow> (no_promotion [], Some e)
      | Inr _ \<Rightarrow>
          (case parse_rules False rules of
             None \<Rightarrow> (no_promotion [], Some ErrRules)
           | Some rs \<Rightarrow>
               (case find (rule_matches c) rs of
                  Some r \<Rightarrow> (\<lparr>v_auto_promote = True, v_reason = ''matched simple/v1 rule'',
                             v_matched_rule = Some (rule_json r)\<rparr>, None)
                | None \<Rightarrow> (no_promotion ''no rule matched'', None))))"

definition simple_engine :: engine where
  "simple_engine = \<lparr>eng_id = ''simple/v1'', eng_validate = simple_validate, eng_evaluate = simple_evaluate\<rparr>"

interpretation simple: auto_engine simple_validate simple_evaluate
  by unfold_locales
    (auto simp: simple_evaluate_def no_promotion_def split: sum.splits option.splits)

section \<open>Strict and lenient decoding\<close>

lemma decode_list_mono:
  "(\<And>v x. dec v = Some x \<Longrightarrow> dec' v = Some x) \<Longrightarrow> decode_list dec vs = Some xs \<Longrightarrow> decode_list dec' vs = Some xs"
  by (induction vs arbitrary: xs) (auto split: option.splits)

lemma decode_array_mono:
  "(\<And>v x. dec v = Some x \<Longrightarrow> dec' v = Some x) \<Longrightarrow> decode_array dec v = Some xs \<Longrightarrow> decode_array dec' v = Some xs"
  by (cases v) (auto intro: decode_list_mono)

lemma field_mono:
  "(\<And>v x. dec v = Some x \<Longrightarrow> dec' v = Some x) \<Longrightarrow> field dec z n ms = Some x \<Longrightarrow> field dec' z n ms = Some x"
  by (auto simp: field_def split: option.splits)

lemma decode_condition_lenient: "decode_condition True v = Some c \<Longrightarrow> decode_condition False v = Some c"
  by (cases v) (auto split: if_splits)

lemma decode_rule_lenient: "decode_rule True v = Some r \<Longrightarrow> decode_rule False v = Some r"
  by (cases v) (auto split: if_splits intro: field_mono[OF decode_array_mono[OF decode_condition_lenient]])

lemma parse_rules_lenient: "parse_rules True rules = Some rs \<Longrightarrow> parse_rules False rules = Some rs"
proof -
  have "decode_rule_set True v = Some rs \<Longrightarrow> decode_rule_set False v = Some rs" for v
    by (cases v) (auto split: if_splits intro: field_mono[OF decode_array_mono[OF decode_rule_lenient]])
  then show "parse_rules True rules = Some rs \<Longrightarrow> parse_rules False rules = Some rs"
    by (auto simp: parse_rules_def split: raw_json.splits)
qed

lemma rule_matches_all: "rule_matches c r \<longleftrightarrow> list_all (condition_matches c) r"
  by (induction r) auto

lemma simple_validate_Inr:
  "simple_validate rules = Inr u \<longleftrightarrow> (\<exists>rs. parse_rules True rules = Some rs \<and> rs \<noteq> [] \<and>
     list_all (\<lambda>r. r \<noteq> [] \<and> list_all condition_ok r) rs)"
  by (auto simp: simple_validate_def split: option.splits if_splits)

section \<open>Properties\<close>

definition the_registry :: registry where
  "the_registry = new_registry [simple_engine]"

lemma the_registry_simps [simp]: "the_registry i = (if i = ''simple/v1'' then Some simple_engine else None)"
  by (simp add: the_registry_def new_registry_def simple_engine_def)

text \<open>
  C32. The registry the server builds fails closed: it answers \<open>auto-promote\<close> exactly when the pinned engine
  is \<^verbatim>\<open>simple/v1\<close>, the rules pass its validation, and some rule of theirs has every condition true of the
  candidate; the first such rule is the one reported, and no error comes with it.
\<close>

theorem evaluate_fail_closed:
  assumes "registry_evaluate the_registry i c rules = (d, err)"
  shows "v_auto_promote d \<longleftrightarrow>
      i = ''simple/v1'' \<and>
      (\<exists>rs r. parse_rules True rules = Some rs \<and> validate_policy the_registry i rules = Inr () \<and>
         find (rule_matches c) rs = Some r \<and> list_all (condition_matches c) r \<and>
         list_all condition_ok r \<and> v_matched_rule d = Some (rule_json r) \<and> err = None)"
proof
  assume p: "v_auto_promote d"
  then have i: "i = ''simple/v1''" and "the_registry i = Some simple_engine"
    using assms by (auto simp: registry_evaluate_def registry_get_def no_promotion_def split: if_splits)
  then have r: "err = None" "validate_policy the_registry i rules = Inr ()" "simple_evaluate c rules = (d, None)"
    using simple.registry_promotes[of the_registry i c rules d err] assms p by (simp_all add: simple_engine_def)
  then obtain rs where rs: "parse_rules True rules = Some rs" "list_all (\<lambda>r. r \<noteq> [] \<and> list_all condition_ok r) rs"
    using i by (auto simp: validate_policy_def registry_get_def simple_engine_def simple_validate_Inr)
  then obtain x where x: "find (rule_matches c) rs = Some x" "v_matched_rule d = Some (rule_json x)"
    using r(3) p parse_rules_lenient[OF rs(1)]
    by (auto simp: simple_evaluate_def no_promotion_def split: sum.splits option.splits)
  then have "x \<in> set rs" "rule_matches c x" using find_SomeD by fastforce+
  then show "i = ''simple/v1'' \<and>
      (\<exists>rs r. parse_rules True rules = Some rs \<and> validate_policy the_registry i rules = Inr () \<and>
         find (rule_matches c) rs = Some r \<and> list_all (condition_matches c) r \<and>
         list_all condition_ok r \<and> v_matched_rule d = Some (rule_json r) \<and> err = None)"
    using i r rs x by (auto simp: rule_matches_all list_all_iff)
next
  assume "i = ''simple/v1'' \<and>
      (\<exists>rs r. parse_rules True rules = Some rs \<and> validate_policy the_registry i rules = Inr () \<and>
         find (rule_matches c) rs = Some r \<and> list_all (condition_matches c) r \<and>
         list_all condition_ok r \<and> v_matched_rule d = Some (rule_json r) \<and> err = None)"
  then show "v_auto_promote d"
    using assms parse_rules_lenient
    by (auto simp: registry_evaluate_def registry_get_def simple_engine_def simple_evaluate_def validate_policy_def
        split: sum.splits option.splits)
qed

definition human_rules :: raw_json where
  "human_rules = RawJson (JObj [(''rules'', JArr [JObj [(''all'', JArr [JObj
     [(''field'', JStr ''actor.type''), (''op'', JStr ''eq''), (''value'', JStr ''human'')]])]])])"

definition human_candidate :: candidate where
  "human_candidate = \<lparr>cd_origin_type = [], cd_source_kind = [], cd_actor_type = ''human'', cd_tags = [], cd_metadata = []\<rparr>"

lemma equal_fold_rules [simp]:
  "\<not> equal_fold ''field'' ''op''" "\<not> equal_fold ''field'' ''value''" "\<not> equal_fold ''op'' ''value''"
  "\<not> equal_fold ''op'' ''field''" "\<not> equal_fold ''value'' ''field''" "\<not> equal_fold ''value'' ''op''"
  by (simp_all add: equal_fold_def to_lower_def lower_byte_def)

lemmas rules_eval = parse_rules_def field_def member_def known_members_def simple_validate_def condition_ok_def
  field_allowed_def whitelisted_fields_def metadata_key_def simple_evaluate_def condition_matches_def
  field_has_scalar_def

lemma human_rules_verdict:
  "simple_evaluate human_candidate human_rules = (\<lparr>v_auto_promote = True, v_reason = ''matched simple/v1 rule'',
     v_matched_rule = Some (rule_json [\<lparr>c_field = ''actor.type'', c_op = ''eq'', c_value = Some (JStr ''human'')\<rparr>])\<rparr>, None)"
  by (simp add: human_rules_def human_candidate_def rules_eval)

theorem evaluate_fail_closed_witness:
  "\<exists>d rs r. registry_evaluate the_registry ''simple/v1'' human_candidate human_rules = (d, None) \<and>
     parse_rules True human_rules = Some rs \<and> find (rule_matches human_candidate) rs = Some r"
proof -
  obtain d where d: "registry_evaluate the_registry ''simple/v1'' human_candidate human_rules = (d, None)"
    "v_auto_promote d"
    by (simp add: registry_evaluate_def registry_get_def simple_engine_def human_rules_verdict)
  then show ?thesis using evaluate_fail_closed[OF d(1)] by auto
qed

text \<open>
  Versions are isolated: registering another engine changes nothing for a policy pinned to an id
  that is not its own, neither what validates nor what is decided.
\<close>

lemma version_isolation:
  assumes "eng_id e \<noteq> i"
  shows "registry_evaluate (new_registry (es @ [e])) i c rules = registry_evaluate (new_registry es) i c rules \<and>
    validate_policy (new_registry (es @ [e])) i rules = validate_policy (new_registry es) i rules"
proof -
  have "new_registry (es @ [e]) i = new_registry es i"
    using assms by (simp add: new_registry_def)
  then show ?thesis
    by (simp add: registry_evaluate_def validate_policy_def registry_get_def)
qed

theorem version_isolation_witness:
  "registry_evaluate (new_registry ([simple_engine] @ [simple_engine\<lparr>eng_id := ''simple/v2''\<rparr>])) ''simple/v1'' human_candidate human_rules
   = registry_evaluate (new_registry [simple_engine]) ''simple/v1'' human_candidate human_rules"
  by (rule conjunct1[OF version_isolation]) simp

text \<open>A rule whose value is \<^verbatim>\<open>null\<close> validates, and matches a candidate that carries no such signal.\<close>

definition null_rules :: raw_json where
  "null_rules = RawJson (JObj [(''rules'', JArr [JObj [(''all'', JArr [JObj
     [(''field'', JStr ''provenance.source.kind''), (''op'', JStr ''eq''), (''value'', JNull)]])]])])"

lemma null_rule_matches_absent:
  "simple_validate null_rules = Inr () \<and> v_auto_promote (fst (simple_evaluate human_candidate null_rules))"
  by (simp add: null_rules_def human_candidate_def rules_eval)

end
