(* ===== verification/Promotion.thy ===== *)
theory Promotion
  imports Autopromote
begin

text \<open>
  Promotion requests (\<^verbatim>\<open>internal/promotions/promotion.go\<close>, \<^verbatim>\<open>repo.go\<close>): counting distinct approvals, and
  the statements on their table.
\<close>

section \<open>Counting approvals\<close>

definition distinct_approvers :: "promotion \<Rightarrow> principal_id set" where
  "distinct_approvers p =
     set (map r_reviewer (filter (\<lambda>r. r_decision r = DecisionApprove \<and> r_reviewer r \<noteq> p_proposer p) (p_reviews p)))"

definition approval_count :: "promotion \<Rightarrow> int" where
  "approval_count p = int (card (distinct_approvers p))"

definition has_enough_approvals :: "promotion \<Rightarrow> bool" where
  "has_enough_approvals p \<longleftrightarrow> approval_count p \<ge> p_required_approvals p"

definition already_approved_by :: "promotion \<Rightarrow> principal_id \<Rightarrow> bool" where
  "already_approved_by p who \<longleftrightarrow>
     list_ex (\<lambda>r. r_reviewer r = who \<and> r_decision r = DecisionApprove) (p_reviews p)"

text \<open>The list \<^verbatim>\<open>activate\<close> stores: the approvers in the order of their first approval.\<close>

fun approvers_seen :: "principal_id \<Rightarrow> principal_id list \<Rightarrow> review list \<Rightarrow> principal_id list" where
  "approvers_seen proposer acc [] = acc"
| "approvers_seen proposer acc (r # rs) =
     (if r_decision r = DecisionApprove \<and> r_reviewer r \<noteq> proposer
      then if r_reviewer r \<notin> set acc then approvers_seen proposer (acc @ [r_reviewer r]) rs
           else approvers_seen proposer acc rs
      else approvers_seen proposer acc rs)"

definition approvers :: "promotion \<Rightarrow> principal_id list" where
  "approvers p = approvers_seen (p_proposer p) [] (p_reviews p)"

lemma approvers_seen_spec:
  "distinct acc \<Longrightarrow> distinct (approvers_seen w acc rs) \<and>
   set (approvers_seen w acc rs) = set acc \<union>
     {r_reviewer r |r. r \<in> set rs \<and> r_decision r = DecisionApprove \<and> r_reviewer r \<noteq> w}"
  by (induction rs arbitrary: acc) auto

lemma set_approvers: "set (approvers p) = distinct_approvers p"
  using approvers_seen_spec[of "[]" "p_proposer p" "p_reviews p"]
  by (auto simp: approvers_def distinct_approvers_def)

lemma distinct_approvers_list: "distinct (approvers p)"
  using approvers_seen_spec[of "[]" "p_proposer p" "p_reviews p"] by (simp add: approvers_def)

lemma length_approvers: "int (length (approvers p)) = approval_count p"
  using distinct_card[OF distinct_approvers_list, of p] by (simp add: approval_count_def set_approvers)

lemma proposer_not_approver: "p_proposer p \<notin> distinct_approvers p"
  by (auto simp: distinct_approvers_def)

lemma distinct_approvers_iff:
  "w \<in> distinct_approvers p \<longleftrightarrow>
     w \<noteq> p_proposer p \<and> (\<exists>r \<in> set (p_reviews p). r_reviewer r = w \<and> r_decision r = DecisionApprove)"
  by (auto simp: distinct_approvers_def)

lemma already_approved_iff:
  "who \<noteq> p_proposer p \<Longrightarrow> already_approved_by p who \<longleftrightarrow> who \<in> distinct_approvers p"
  by (auto simp: already_approved_by_def distinct_approvers_def list_ex_iff)

section \<open>Rows\<close>

definition row_reviewed :: "timestamp \<Rightarrow> promo_state \<Rightarrow> review list \<Rightarrow> promotion \<Rightarrow> promotion" where
  "row_reviewed now st rs p = p\<lparr>p_state := st, p_reviews := rs, p_updated_at := now\<rparr>"

definition row_statement :: "timestamp \<Rightarrow> string \<Rightarrow> promotion \<Rightarrow> promotion" where
  "row_statement now s p = p\<lparr>p_proposed_statement := s, p_updated_at := now\<rparr>"

definition insert_promotion :: "timestamp \<Rightarrow> uuid \<Rightarrow> promotion \<Rightarrow> (db, promotion) sql" where
  "insert_promotion now new p =
     (let p' = p\<lparr>p_id := new, p_created_at := now, p_updated_at := now\<rparr>
      in bind_sql (stmt (\<lambda>d. put_promotions (tbl_ins p' (promotions_tbl d)) d)) (\<lambda>_. return_sql p'))"

definition get_promotion :: "uuid \<Rightarrow> (db, promotion) sql" where
  "get_promotion i = fetch ErrPromotionNotFound (\<lambda>d. promotion_at d i)"

definition idem_match :: "principal_id \<Rightarrow> string \<Rightarrow> db \<Rightarrow> promotion option" where
  "idem_match who key d = find (\<lambda>p. p_proposer p = who \<and> p_idempotency_key p = Some key) (promotions_tbl d)"

definition find_by_idempotency_key :: "principal_id \<Rightarrow> string \<Rightarrow> (db, promotion) sql" where
  "find_by_idempotency_key who key = fetch ErrPromotionNotFound (idem_match who key)"

definition list_promotions ::
    "(promotion list \<Rightarrow> promotion list) \<Rightarrow> uuid option \<Rightarrow> string option \<Rightarrow> principal_id option \<Rightarrow> (db, promotion list) sql" where
  "list_promotions plan ns st proposer =
     on_pool (query (\<lambda>d. sort_key p_created_at (filter (\<lambda>p.
       opt_holds ns (\<lambda>n. p_target_namespace_id p = n) \<and> opt_holds st (\<lambda>s. state_str (p_state p) = s) \<and>
       opt_holds proposer (\<lambda>w. p_proposer p = w)) (plan (promotions_tbl d)))))"

definition update_promotions :: "uuid \<Rightarrow> (promotion \<Rightarrow> promotion) \<Rightarrow> db \<Rightarrow> error + nat \<times> db" where
  "update_promotions i u d =
     (case put_promotions (tbl_upd p_id i u (promotions_tbl d)) d of
        Inl e \<Rightarrow> Inl e
      | Inr (_, d') \<Rightarrow> Inr (length (filter (\<lambda>p. p_id p = i) (promotions_tbl d)), d'))"

definition update_state_and_reviews :: "timestamp \<Rightarrow> uuid \<Rightarrow> promo_state \<Rightarrow> review list \<Rightarrow> (db, unit) sql" where
  "update_state_and_reviews now i st rs =
     bind_sql (stmt (update_promotions i (row_reviewed now st rs))) (affected ErrPromotionNotFound)"

definition update_statement :: "timestamp \<Rightarrow> uuid \<Rightarrow> string \<Rightarrow> (db, nat) sql" where
  "update_statement now i s = stmt (update_promotions i (row_statement now s))"

section \<open>Clean runs\<close>

lemma row_reviewed_sel [simp]:
  "p_id (row_reviewed now st rs p) = p_id p" "p_state (row_reviewed now st rs p) = st"
  "p_reviews (row_reviewed now st rs p) = rs" "p_proposer (row_reviewed now st rs p) = p_proposer p"
  "p_fact_id (row_reviewed now st rs p) = p_fact_id p"
  "p_required_approvals (row_reviewed now st rs p) = p_required_approvals p"
  "p_conflict_with (row_reviewed now st rs p) = p_conflict_with p"
  "p_target_namespace_id (row_reviewed now st rs p) = p_target_namespace_id p"
  "p_idempotency_key (row_reviewed now st rs p) = p_idempotency_key p"
  by (simp_all add: row_reviewed_def)

lemma row_statement_sel [simp]:
  "p_id (row_statement now s p) = p_id p" "p_state (row_statement now s p) = p_state p"
  "p_reviews (row_statement now s p) = p_reviews p" "p_proposer (row_statement now s p) = p_proposer p"
  "p_fact_id (row_statement now s p) = p_fact_id p"
  "p_required_approvals (row_statement now s p) = p_required_approvals p"
  "p_conflict_with (row_statement now s p) = p_conflict_with p"
  "p_target_namespace_id (row_statement now s p) = p_target_namespace_id p"
  "p_idempotency_key (row_statement now s p) = p_idempotency_key p"
  "p_proposed_statement (row_statement now s p) = s"
  by (simp_all add: row_statement_def)

text \<open>An update that keeps what the constraints mention is never refused.\<close>

definition promotion_keyed :: "(promotion \<Rightarrow> promotion) \<Rightarrow> bool" where
  "promotion_keyed u \<longleftrightarrow> (\<forall>p. p_id (u p) = p_id p \<and> p_proposer (u p) = p_proposer p \<and>
     p_idempotency_key (u p) = p_idempotency_key p \<and> p_fact_id (u p) = p_fact_id p \<and>
     p_target_namespace_id (u p) = p_target_namespace_id p \<and> p_conflict_with (u p) = p_conflict_with p \<and>
     p_required_approvals (u p) = p_required_approvals p)"

lemma promotion_keyed_rows [simp]:
  "promotion_keyed (row_reviewed now st rs)" "promotion_keyed (row_statement now s)"
  by (simp_all add: promotion_keyed_def)

lemma idem_keys_upd: "promotion_keyed u \<Longrightarrow> idem_keys (tbl_upd p_id i u t) = idem_keys t"
  unfolding idem_keys_def tbl_upd_def by (induction t) (auto simp: promotion_keyed_def)

lemma promotions_ok_upd: "promotion_keyed u \<Longrightarrow> promotions_ok d (tbl_upd p_id i u t) = promotions_ok d t"
proof -
  assume u: "promotion_keyed u"
  then have "map p_id (tbl_upd p_id i u t) = map p_id t"
    by (intro map_key_upd) (simp add: promotion_keyed_def)
  moreover have "list_all P (tbl_upd p_id i u t) = list_all P t"
    if "\<And>p. P (u p) = P p" for P
    unfolding tbl_upd_def by (induction t) (simp_all add: that)
  ultimately show ?thesis
    using u by (simp add: promotions_ok_def idem_keys_upd promotion_keyed_def)
qed

lemma update_promotions_Inr:
  "promotion_keyed u \<Longrightarrow> update_promotions i u d = Inr (n, d') \<longleftrightarrow>
     promotions_ok d (promotions_tbl d) \<and> d' = upd_promotion i u d \<and>
     n = length (filter (\<lambda>p. p_id p = i) (promotions_tbl d))"
  by (auto simp: update_promotions_def put_promotions_def promotions_ok_upd upd_promotion_def)

lemma filter_pid_none: "filter (\<lambda>p. p_id p = i) t = [] \<longleftrightarrow> tbl_get p_id i t = None"
  by (simp add: tbl_get_def find_None_filter)

lemma well_behaved_promotion_statements [sql_safe]:
  "well_behaved (insert_promotion now new p)" "well_behaved (get_promotion i)"
  "well_behaved (find_by_idempotency_key who key)" "well_behaved (update_state_and_reviews now i st rs)"
  "well_behaved (update_statement now i s)"
  unfolding insert_promotion_def get_promotion_def find_by_idempotency_key_def update_state_and_reviews_def
    update_statement_def Let_def
  by (intro sql_safe)+

lemma exec_get_promotion [sql_exec]: "exec (get_promotion i) d a d' \<longleftrightarrow> promotion_at d i = Some a \<and> d' = d"
  by (simp add: get_promotion_def sql_exec)

definition new_promotion :: "timestamp \<Rightarrow> uuid \<Rightarrow> promotion \<Rightarrow> promotion" where
  "new_promotion now new p = p\<lparr>p_id := new, p_created_at := now, p_updated_at := now\<rparr>"

lemma new_promotion_sel [simp]:
  "p_id (new_promotion now new p) = new" "p_state (new_promotion now new p) = p_state p"
  "p_reviews (new_promotion now new p) = p_reviews p" "p_proposer (new_promotion now new p) = p_proposer p"
  "p_fact_id (new_promotion now new p) = p_fact_id p"
  "p_required_approvals (new_promotion now new p) = p_required_approvals p"
  "p_conflict_with (new_promotion now new p) = p_conflict_with p"
  "p_target_namespace_id (new_promotion now new p) = p_target_namespace_id p"
  "p_idempotency_key (new_promotion now new p) = p_idempotency_key p"
  by (simp_all add: new_promotion_def)

lemma exec_insert_promotion [sql_exec]:
  "exec (insert_promotion now new p) d a d' \<longleftrightarrow>
     promotions_ok d (tbl_ins (new_promotion now new p) (promotions_tbl d)) \<and>
     a = new_promotion now new p \<and> d' = ins_promotion (new_promotion now new p) d"
  by (auto simp: insert_promotion_def Let_def sql_exec sql_safe put_promotions_def ins_promotion_def new_promotion_def)

lemma exec_update_state_and_reviews [sql_exec]:
  "exec (update_state_and_reviews now i st rs) d a d' \<longleftrightarrow>
     promotion_at d i \<noteq> None \<and> promotions_ok d (promotions_tbl d) \<and> d' = upd_promotion i (row_reviewed now st rs) d"
  using filter_pid_none[of i "promotions_tbl d"]
  by (auto simp: update_state_and_reviews_def sql_exec sql_safe update_promotions_Inr)

lemma exec_fail_update_state_and_reviews [sql_exec]:
  "exec_fail (update_state_and_reviews now i st rs) d e d' \<longleftrightarrow>
     promotion_at d i = None \<and> promotions_ok d (promotions_tbl d) \<and> e = ErrPromotionNotFound \<and>
     d' = upd_promotion i (row_reviewed now st rs) d"
  using filter_pid_none[of i "promotions_tbl d"]
  by (auto simp: update_state_and_reviews_def sql_exec sql_safe update_promotions_Inr)

lemma exec_update_statement [sql_exec]:
  "exec (update_statement now i s) d n d' \<longleftrightarrow>
     promotions_ok d (promotions_tbl d) \<and> d' = upd_promotion i (row_statement now s) d \<and>
     n = length (filter (\<lambda>p. p_id p = i) (promotions_tbl d))"
  by (simp add: update_statement_def sql_exec update_promotions_Inr)

end
