(* ===== verification/Promotions_Service.thy ===== *)
theory Promotions_Service
  imports Promotion
begin

text \<open>
  The promotion workflow (\<^verbatim>\<open>internal/promotions/service.go\<close>): each operation with its guards, its one
  transaction and its audit events, in the order the source issues them. An error the source discards
  is an \<open>attempt\<close> whose result is discarded. The uuids the database draws and its clock, and the Go
  wall clock stamped on a review, are arguments. The embedder and the engines may be absent, as in the
  source.
\<close>

section \<open>Configuration and input\<close>

record service =
  sv_engines :: "registry option"
  sv_embedder :: "embedder option"

record propose_input =
  in_target :: uuid
  in_statement :: string
  in_subject :: subject
  in_memory_ids :: "string list"
  in_provenance :: provenance
  in_tags :: "string list"
  in_metadata :: "(string \<times> json) list"
  in_proposer :: principal_id
  in_idempotency_key :: string
  in_origin_type :: string
  in_source_kind :: string
  in_actor_type :: string

definition embed_activated_fact :: "service \<Rightarrow> uuid \<Rightarrow> fact \<Rightarrow> (db, unit) sql" where
  "embed_activated_fact sv i f =
     (case sv_embedder sv of
        None \<Rightarrow> return_sql ()
      | Some em \<Rightarrow>
          (case em (embed_text (f_subject f) (f_statement f)) of
             Inl e \<Rightarrow> return_sql ()
           | Inr v \<Rightarrow> bind_sql (attempt (set_embedding i v)) (\<lambda>_. return_sql ())))"

text \<open>\<^verbatim>\<open>if f, err := facts.Get(...); err == nil { s.embedActivatedFact(...) }\<close>\<close>

definition embed_stored_fact :: "service \<Rightarrow> uuid \<Rightarrow> (db, unit) sql" where
  "embed_stored_fact sv i =
     bind_sql (attempt (get_fact i))
       (\<lambda>r. case r of Inl e \<Rightarrow> return_sql () | Inr f \<Rightarrow> embed_activated_fact sv i f)"

section \<open>Events\<close>

definition superseded_event :: "principal_id \<Rightarrow> uuid \<Rightarrow> uuid \<Rightarrow> event" where
  "superseded_event who old new =
     \<lparr>e_principal = who, e_action = ''fact.superseded'', e_subject_type = ''fact'', e_subject_id = old,
      e_from_state = status_str StatusActive, e_to_state = status_str StatusSuperseded,
      e_detail = [(''superseded_by'', DUuid new)]\<rparr>"

definition proposed_event :: "propose_input \<Rightarrow> string \<Rightarrow> promotion \<Rightarrow> event" where
  "proposed_event inp key p =
     \<lparr>e_principal = in_proposer inp, e_action = ''fact.proposed'', e_subject_type = ''promotion'',
      e_subject_id = p_id p, e_from_state = [], e_to_state = state_str StatePending,
      e_detail = [(''fact_id'', DUuid (p_fact_id p)), (''canonical_key'', DStr key),
                  (''conflict_with'', DUuidOpt (p_conflict_with p))]\<rparr>"

definition auto_promoted_event :: "auto_promote \<Rightarrow> verdict \<Rightarrow> uuid \<Rightarrow> event" where
  "auto_promoted_event ap v i =
     \<lparr>e_principal = ''engine:'' @ ap_engine ap, e_action = ''fact.auto_promoted'', e_subject_type = ''fact'',
      e_subject_id = i, e_from_state = [], e_to_state = status_str StatusActive,
      e_detail = [(''engine'', DStr (ap_engine ap)),
                  (''matched_rule'', case v_matched_rule v of None \<Rightarrow> DJson JNull | Some j \<Rightarrow> DJson j),
                  (''reason'', DStr (v_reason v))]\<rparr>"

definition activated_event :: "principal_id \<Rightarrow> uuid \<Rightarrow> event" where
  "activated_event who i =
     \<lparr>e_principal = who, e_action = ''fact.activated'', e_subject_type = ''fact'', e_subject_id = i,
      e_from_state = [], e_to_state = status_str StatusActive, e_detail = []\<rparr>"

definition promotion_event :: "principal_id \<Rightarrow> string \<Rightarrow> uuid \<Rightarrow> promo_state \<Rightarrow> (string \<times> detail) list \<Rightarrow> event" where
  "promotion_event who action i st det =
     \<lparr>e_principal = who, e_action = action, e_subject_type = ''promotion'', e_subject_id = i,
      e_from_state = [], e_to_state = state_str st, e_detail = det\<rparr>"

section \<open>Propose\<close>

definition candidate_of :: "propose_input \<Rightarrow> candidate" where
  "candidate_of inp = \<lparr>cd_origin_type = in_origin_type inp, cd_source_kind = in_source_kind inp,
     cd_actor_type = in_actor_type inp, cd_tags = in_tags inp, cd_metadata = in_metadata inp\<rparr>"

text \<open>
  The source changes \<^verbatim>\<open>p.State\<close> through the pointer: the promotion is returned as the caller sees it.
\<close>

definition auto_supersede :: "timestamp \<Rightarrow> principal_id \<Rightarrow> promotion \<Rightarrow> (db, unit) sql" where
  "auto_supersede now who p =
     (case p_conflict_with p of
        None \<Rightarrow> return_sql ()
      | Some c \<Rightarrow>
          bind_sql (supersede now c (p_fact_id p))
          (\<lambda>_. bind_sql (attempt (audit_write now (superseded_event who c (p_fact_id p))))
          (\<lambda>_. return_sql ())))"

definition auto_activate :: "service \<Rightarrow> timestamp \<Rightarrow> promotion \<Rightarrow> auto_promote \<Rightarrow> verdict \<Rightarrow> (db, promotion) sql" where
  "auto_activate sv now p ap v =
     bind_sql (attempt (auto_supersede now (''engine:'' @ ap_engine ap) p))
     (\<lambda>r. case r of Inl e \<Rightarrow> return_sql p | Inr _ \<Rightarrow>
      bind_sql (attempt (activate_auto now (p_fact_id p)))
      (\<lambda>r. case r of Inl e \<Rightarrow> return_sql p | Inr _ \<Rightarrow>
       bind_sql (embed_stored_fact sv (p_fact_id p))
       (\<lambda>_. let p' = p\<lparr>p_state := StateApproved\<rparr> in
        bind_sql (attempt (update_state_and_reviews now (p_id p') (p_state p') (p_reviews p')))
        (\<lambda>r. case r of Inl e \<Rightarrow> return_sql p' | Inr _ \<Rightarrow>
         bind_sql (attempt (audit_write now (auto_promoted_event ap v (p_fact_id p'))))
         (\<lambda>_. return_sql p')))))"

definition maybe_auto_promote ::
    "service \<Rightarrow> timestamp \<Rightarrow> promotion \<Rightarrow> auto_promote option \<Rightarrow> propose_input \<Rightarrow> (db, promotion) sql" where
  "maybe_auto_promote sv now p apo inp =
     (case (sv_engines sv, apo) of
        (Some reg, Some ap) \<Rightarrow>
          if ap_engine ap = [] then return_sql p
          else (case registry_evaluate reg (ap_engine ap) (candidate_of inp) (ap_rules ap) of
                  (v, err) \<Rightarrow>
                    if err \<noteq> None \<or> \<not> v_auto_promote v then return_sql p
                    else auto_activate sv now p ap v)
      | _ \<Rightarrow> return_sql p)"

text \<open>The transaction of \<^verbatim>\<open>Propose\<close>, for the policy read before it.\<close>

definition draft_fact :: "propose_input \<Rightarrow> fact" where
  "draft_fact inp =
     \<lparr>f_id = 0, f_namespace_id = in_target inp, f_statement = in_statement inp, f_subject = in_subject inp,
      f_canonical_key = [], f_status = StatusProposed, f_confidence = None,
      f_source_memory_ids = in_memory_ids inp, f_provenance = in_provenance inp, f_valid_from = None,
      f_valid_to = None, f_supersedes_id = None, f_superseded_by_id = None, f_tags = in_tags inp,
      f_metadata = in_metadata inp, f_created_by = in_proposer inp, f_approved_by = [], f_version = 0,
      f_created_at = 0, f_updated_at = 0\<rparr>"

definition draft_promotion :: "propose_input \<Rightarrow> uuid \<Rightarrow> int \<Rightarrow> uuid option \<Rightarrow> promotion" where
  "draft_promotion inp fact_id required conflict_with =
     \<lparr>p_id = 0, p_fact_id = fact_id, p_target_namespace_id = in_target inp,
      p_proposed_statement = in_statement inp, p_state = StatePending,
      p_candidate_memory_ids = in_memory_ids inp, p_proposer = in_proposer inp, p_reviews = [],
      p_required_approvals = required, p_conflict_with = conflict_with,
      p_idempotency_key = (if in_idempotency_key inp \<noteq> [] then Some (in_idempotency_key inp) else None),
      p_created_at = 0, p_updated_at = 0\<rparr>"

definition propose_tx ::
    "service \<Rightarrow> timestamp \<Rightarrow> uuid \<Rightarrow> uuid \<Rightarrow> propose_input \<Rightarrow> int \<Rightarrow> auto_promote option \<Rightarrow> (db, promotion) sql" where
  "propose_tx sv now new_fact_id new_promotion_id inp required apo =
     (let key = canonical_key (in_subject inp) in
      bind_sql (absent_on ErrFactNotFound (find_active_by_key (in_target inp) key))
      (\<lambda>existing. let conflict_with = map_option f_id existing in
      bind_sql (insert_fact now new_fact_id (draft_fact inp))
      (\<lambda>f. bind_sql (insert_promotion now new_promotion_id (draft_promotion inp (f_id f) required conflict_with))
      (\<lambda>p. bind_sql (audit_write now (proposed_event inp key p))
      (\<lambda>_. maybe_auto_promote sv now p apo inp)))))"

definition clamp_required :: "int \<Rightarrow> int" where
  "clamp_required r = (if r < 1 then 1 else r)"

definition propose_fresh :: "service \<Rightarrow> timestamp \<Rightarrow> uuid \<Rightarrow> uuid \<Rightarrow> propose_input \<Rightarrow> (db, promotion) sql" where
  "propose_fresh sv now new_fact_id new_promotion_id inp =
     bind_sql (get_namespace (in_target inp))
     (\<lambda>ns. in_tx (propose_tx sv now new_fact_id new_promotion_id inp
        (clamp_required (required_approvals (n_policy ns))) (pol_auto_promote (n_policy ns))))"

definition propose :: "service \<Rightarrow> timestamp \<Rightarrow> uuid \<Rightarrow> uuid \<Rightarrow> propose_input \<Rightarrow> (db, promotion) sql" where
  "propose sv now new_fact_id new_promotion_id inp =
     (if \<not> subject_valid (in_subject inp) then fail_sql ErrInvalidSubject
      else if in_idempotency_key inp \<noteq> [] then
        bind_sql (absent_on ErrPromotionNotFound
          (on_pool (find_by_idempotency_key (in_proposer inp) (in_idempotency_key inp))))
        (\<lambda>existing. case existing of
           Some p \<Rightarrow> return_sql p
         | None \<Rightarrow> propose_fresh sv now new_fact_id new_promotion_id inp)
      else propose_fresh sv now new_fact_id new_promotion_id inp)"

section \<open>Approve\<close>

definition supersede_conflict :: "timestamp \<Rightarrow> principal_id \<Rightarrow> promotion \<Rightarrow> (db, unit) sql" where
  "supersede_conflict now who p =
     (case p_conflict_with p of
        None \<Rightarrow> return_sql ()
      | Some c \<Rightarrow>
          bind_sql (supersede now c (p_fact_id p))
          (\<lambda>_. audit_write now (superseded_event who c (p_fact_id p))))"

definition activate :: "service \<Rightarrow> timestamp \<Rightarrow> promotion \<Rightarrow> principal_id \<Rightarrow> (db, unit) sql" where
  "activate sv now p who =
     bind_sql (supersede_conflict now who p)
     (\<lambda>_. bind_sql (activate_fact now (p_fact_id p) (approvers p))
     (\<lambda>_. bind_sql (embed_stored_fact sv (p_fact_id p))
     (\<lambda>_. audit_write now (activated_event who (p_fact_id p)))))"

definition add_approval :: "timestamp \<Rightarrow> principal_id \<Rightarrow> string \<Rightarrow> promotion \<Rightarrow> promotion" where
  "add_approval wall who comment p =
     (if \<not> already_approved_by p who
      then p\<lparr>p_reviews := p_reviews p @ [\<lparr>r_reviewer = who, r_decision = DecisionApprove, r_comment = comment, r_at = wall\<rparr>]\<rparr>
      else p)"

definition approve_body ::
    "service \<Rightarrow> timestamp \<Rightarrow> timestamp \<Rightarrow> uuid \<Rightarrow> principal_id \<Rightarrow> string \<Rightarrow> (db, promotion) sql" where
  "approve_body sv now wall i reviewer comment =
     bind_sql (get_promotion i)
     (\<lambda>p. if p_state p \<noteq> StateInReview \<and> p_state p \<noteq> StatePending then fail_sql ErrInvalidState
      else if reviewer = p_proposer p then fail_sql ErrSelfApproval
      else
        (let p = add_approval wall reviewer comment p in
         bind_sql
          (if has_enough_approvals p
           then (let p = p\<lparr>p_state := StateApproved\<rparr>
                 in bind_sql (activate sv now p reviewer) (\<lambda>_. return_sql p))
           else return_sql (p\<lparr>p_state := StateInReview\<rparr>))
          (\<lambda>p. bind_sql (update_state_and_reviews now (p_id p) (p_state p) (p_reviews p))
          (\<lambda>_. bind_sql (audit_write now (promotion_event reviewer ''promotion.approved'' (p_id p) (p_state p)
                 [(''approvals'', DInt (approval_count p)), (''required'', DInt (p_required_approvals p))]))
          (\<lambda>_. return_sql p)))))"

definition approve ::
    "service \<Rightarrow> timestamp \<Rightarrow> timestamp \<Rightarrow> uuid \<Rightarrow> principal_id \<Rightarrow> string \<Rightarrow> (db, promotion) sql" where
  "approve sv now wall i reviewer comment = in_tx (approve_body sv now wall i reviewer comment)"

text \<open>The latency recorded once \<^verbatim>\<open>Approve\<close> has returned, if any.\<close>

definition approval_latency :: "timestamp \<Rightarrow> error + promotion \<Rightarrow> int option" where
  "approval_latency wall r =
     (case r of
        Inl e \<Rightarrow> None
      | Inr p \<Rightarrow> if p_state p = StateApproved then Some (wall - p_created_at p) else None)"

section \<open>Review and transition\<close>

definition review_body ::
    "timestamp \<Rightarrow> timestamp \<Rightarrow> uuid \<Rightarrow> principal_id \<Rightarrow> decision \<Rightarrow> string \<Rightarrow> promo_state \<Rightarrow> status \<Rightarrow> string \<Rightarrow> (db, promotion) sql" where
  "review_body now wall i reviewer dec comment to fact_to action =
     bind_sql (get_promotion i)
     (\<lambda>p. if p_state p \<noteq> StateInReview \<and> p_state p \<noteq> StatePending then fail_sql ErrInvalidState
      else
        (let p = p\<lparr>p_reviews := p_reviews p @ [\<lparr>r_reviewer = reviewer, r_decision = dec, r_comment = comment, r_at = wall\<rparr>],
                   p_state := to\<rparr> in
         bind_sql (update_state_and_reviews now (p_id p) (p_state p) (p_reviews p))
         (\<lambda>_. bind_sql (set_status now (p_fact_id p) fact_to)
         (\<lambda>_. bind_sql (audit_write now (promotion_event reviewer action (p_id p) to []))
         (\<lambda>_. return_sql p)))))"

definition reject :: "timestamp \<Rightarrow> timestamp \<Rightarrow> uuid \<Rightarrow> principal_id \<Rightarrow> string \<Rightarrow> (db, promotion) sql" where
  "reject now wall i reviewer comment =
     in_tx (review_body now wall i reviewer DecisionReject comment StateRejected StatusRejected ''promotion.rejected'')"

definition request_changes ::
    "timestamp \<Rightarrow> timestamp \<Rightarrow> uuid \<Rightarrow> principal_id \<Rightarrow> string \<Rightarrow> string \<Rightarrow> (db, promotion) sql" where
  "request_changes now wall i reviewer comment suggested =
     bind_sql (in_tx (review_body now wall i reviewer DecisionRequestChanges comment StateChangesRequested
        StatusProposed ''promotion.changes_requested''))
     (\<lambda>p. if suggested = [] then return_sql p
      else bind_sql (attempt (on_pool (update_statement now i suggested)))
        (\<lambda>_. return_sql (p\<lparr>p_proposed_statement := suggested\<rparr>)))"

definition transition_body ::
    "timestamp \<Rightarrow> uuid \<Rightarrow> principal_id \<Rightarrow> (promotion \<Rightarrow> error + promotion) \<Rightarrow> status \<Rightarrow> string \<Rightarrow> (db, promotion) sql" where
  "transition_body now i who mutate fact_to action =
     bind_sql (get_promotion i)
     (\<lambda>p. case mutate p of
        Inl e \<Rightarrow> fail_sql e
      | Inr p \<Rightarrow>
         bind_sql (update_state_and_reviews now (p_id p) (p_state p) (p_reviews p))
         (\<lambda>_. bind_sql (set_status now (p_fact_id p) fact_to)
         (\<lambda>_. bind_sql (audit_write now (promotion_event who action (p_id p) (p_state p) []))
         (\<lambda>_. return_sql p))))"

definition submit_mutate :: "principal_id \<Rightarrow> promotion \<Rightarrow> error + promotion" where
  "submit_mutate who p =
     (if p_state p \<noteq> StatePending \<and> p_state p \<noteq> StateChangesRequested then Inl ErrInvalidState
      else if p_proposer p \<noteq> who then Inl ErrNotProposer
      else Inr (p\<lparr>p_state := StateInReview\<rparr>))"

definition withdraw_mutate :: "principal_id \<Rightarrow> promotion \<Rightarrow> error + promotion" where
  "withdraw_mutate who p =
     (if p_proposer p \<noteq> who then Inl ErrNotProposer
      else if p_state p \<noteq> StatePending \<and> p_state p \<noteq> StateChangesRequested then Inl ErrInvalidState
      else Inr (p\<lparr>p_state := StateRejected\<rparr>))"

definition submit :: "timestamp \<Rightarrow> uuid \<Rightarrow> principal_id \<Rightarrow> (db, promotion) sql" where
  "submit now i who = in_tx (transition_body now i who (submit_mutate who) StatusInReview ''promotion.submitted'')"

definition withdraw :: "timestamp \<Rightarrow> uuid \<Rightarrow> principal_id \<Rightarrow> (db, promotion) sql" where
  "withdraw now i who = in_tx (transition_body now i who (withdraw_mutate who) StatusRejected ''promotion.withdrawn'')"

definition get_promotion_pool :: "uuid \<Rightarrow> (db, promotion) sql" where
  "get_promotion_pool i = on_pool (get_promotion i)"

end
