(* ===== verification/Http.thy ===== *)
theory Http
  imports Context Promotions_Service
begin

text \<open>
  What the HTTP handlers share (\<^verbatim>\<open>internal/server\<close>: \<^verbatim>\<open>auth.go\<close>, \<^verbatim>\<open>authz.go\<close>, \<^verbatim>\<open>respond.go\<close>, the request bodies):
  requests and responses, the authentication middleware, the authorization checks and the decoding of
  parameters and bodies. A response keeps the value the source encodes (\<open>payload\<close>), not its bytes. The
  router \<^verbatim>\<open>chi\<close> and \<^verbatim>\<open>uuid.Parse\<close> are fields of the server; a memory source that can also write has a
  \<open>srv_writer\<close>, which is what the type assertion to \<^verbatim>\<open>memory.Writer\<close> asks.
\<close>

section \<open>Requests and responses\<close>

record request =
  rq_method :: string
  rq_path :: "string list"
  rq_query :: "(string \<times> string) list"
  rq_headers :: "(string \<times> string) list"
  rq_body :: raw_json

datatype payload =
    PError string
  | PErrorOf string error
  | PStatus string
  | PNamespace namespace
  | PNamespaces "namespace list"
  | PMembers "(principal_id \<times> string) list"
  | PMember principal_id string
  | PPromotion promotion
  | PPromotions "promotion list"
  | PFact fact
  | PFacts "fact list"
  | PEvents "event list"
  | PItems "item list"
  | PMemory memory

record response =
  rs_status :: nat
  rs_etag :: "int option"
  rs_body :: payload

definition write_json :: "nat \<Rightarrow> payload \<Rightarrow> response" where
  "write_json status body = \<lparr>rs_status = status, rs_etag = None, rs_body = body\<rparr>"

definition write_error :: "nat \<Rightarrow> string \<Rightarrow> response" where
  "write_error status msg = write_json status (PError msg)"

text \<open>\<^verbatim>\<open>url.Values.Get\<close> and \<^verbatim>\<open>http.Header.Get\<close>: the first value, or the empty string.\<close>

definition query_get :: "request \<Rightarrow> string \<Rightarrow> string" where
  "query_get rq k = (case map_of (rq_query rq) k of None \<Rightarrow> [] | Some v \<Rightarrow> v)"

definition header_get :: "request \<Rightarrow> string \<Rightarrow> string" where
  "header_get rq k = (case find (\<lambda>(n, v). equal_fold n k) (rq_headers rq) of None \<Rightarrow> [] | Some (n, v) \<Rightarrow> v)"

definition nonempty :: "string \<Rightarrow> string option" where
  "nonempty s = (if s = [] then None else Some s)"

definition parse_csv :: "string \<Rightarrow> string list" where
  "parse_csv s =
     (if trim_space s = [] then [] else filter (\<lambda>v. v \<noteq> []) (map trim_space (split_on CHR '','' s)))"

text \<open>
  The value of \<^verbatim>\<open>n, _ := strconv.Atoi(s)\<close>: zero for a text that is no number, the nearest 64-bit integer
  for a number out of range.
\<close>

definition atoi_value :: "string \<Rightarrow> int" where
  "atoi_value s =
     (let neg = has_prefix s ''-'';
          ds = (if neg \<or> has_prefix s ''+'' then tl s else s)
      in if ds = [] then 0
         else case read_digits 0 ds of
                None \<Rightarrow> 0
              | Some n \<Rightarrow> max int_min (min int_max (if neg then - int n else int n)))"

section \<open>The server\<close>

datatype auth_error = Unauthenticated | AuthFailed

type_synonym authenticator = "request \<Rightarrow> auth_error + principal"

text \<open>What a route leads to, with the patterns of \<^verbatim>\<open>Handler\<close>.\<close>

datatype endpoint =
    EpHealthz | EpReadyz
  | EpListNamespaces | EpCreateNamespace | EpGetNamespace | EpPatchNamespacePolicy
  | EpListMembers | EpAddMember | EpRemoveMember
  | EpCreatePromotion | EpListPromotions | EpGetPromotion | EpPromotionAction string
  | EpListFacts | EpGetFact | EpGetFactHistory | EpRevokeFact
  | EpGetContext | EpAddMemory

type_synonym route = "string \<times> string \<times> endpoint"
type_synonym params = "string \<rightharpoonup> string"

record server =
  srv_engines :: registry
  srv_embedder :: "embedder option"
  srv_mem :: memory_source
  srv_writer :: "memory_writer option"
  srv_auth :: authenticator
  srv_router :: "route list \<Rightarrow> request \<Rightarrow> response + endpoint \<times> params"
  srv_parse_uuid :: "string \<Rightarrow> uuid option"

definition promos :: "server \<Rightarrow> service" where
  "promos s = \<lparr>sv_engines = Some (srv_engines s), sv_embedder = srv_embedder s\<rparr>"

text \<open>What one request draws from outside: the clocks, the new uuids, and the orders of rows and map keys.\<close>

record world =
  w_now :: timestamp
  w_wall :: timestamp
  w_new_fact :: uuid
  w_new_promotion :: uuid
  w_new_namespace :: uuid
  w_ids :: "uuid list \<Rightarrow> uuid list"
  w_facts :: "fact_row list \<Rightarrow> fact_row list"
  w_context :: "(fact_row \<times> ns_row) list \<Rightarrow> (fact_row \<times> ns_row) list"
  w_promotions :: "promotion list \<Rightarrow> promotion list"
  w_events :: "audit_event list \<Rightarrow> audit_event list"
  w_dist :: "vec \<Rightarrow> vec \<Rightarrow> int"

section \<open>Authentication\<close>

definition header_authenticator :: authenticator where
  "header_authenticator rq =
     (let i = trim_space (header_get rq ''X-Baseline-Principal'') in
      if i = [] then Inl Unauthenticated
      else Inr \<lparr>pr_id = i, pr_platform_admin = equal_fold (header_get rq ''X-Baseline-Platform-Admin'') ''true''\<rparr>)"

text \<open>The request context: \<^verbatim>\<open>Authn\<close> puts the principal and the entitlements in it, together.\<close>

type_synonym request_ctx = "(principal \<times> entitlements) option"

definition principal_from :: "request_ctx \<Rightarrow> principal" where
  "principal_from ctx = (case ctx of None \<Rightarrow> \<lparr>pr_id = [], pr_platform_admin = False\<rparr> | Some (p, e) \<Rightarrow> p)"

definition try_sql :: "('db, 'a) sql \<Rightarrow> (error \<Rightarrow> response) \<Rightarrow> ('a \<Rightarrow> ('db, response) sql) \<Rightarrow> ('db, response) sql" where
  "try_sql m on_error k = bind_sql (attempt m) (\<lambda>r. case r of Inl e \<Rightarrow> return_sql (on_error e) | Inr a \<Rightarrow> k a)"

definition authn :: "server \<Rightarrow> request \<Rightarrow> (request_ctx \<Rightarrow> (db, response) sql) \<Rightarrow> (db, response) sql" where
  "authn s rq handler =
     (case srv_auth s rq of
        Inl Unauthenticated \<Rightarrow> return_sql (write_error 401 ''unauthenticated'')
      | Inl AuthFailed \<Rightarrow> return_sql (write_error 500 ''auth error'')
      | Inr p \<Rightarrow>
          try_sql (resolve_principal p) (\<lambda>_. write_error 500 ''entitlement resolution failed'')
            (\<lambda>ent. handler (Some (p, ent))))"

section \<open>Authorization\<close>

definition authorize :: "request_ctx \<Rightarrow> uuid \<Rightarrow> string \<Rightarrow> response + entitlements" where
  "authorize ctx ns a =
     (case ctx of
        None \<Rightarrow> Inl (write_error 500 ''missing entitlements'')
      | Some (p, ent) \<Rightarrow>
          (if (if a = ''read_facts'' then ent_can_read ent ns else ent_can ent ns a) then Inr ent
           else Inl (write_error 403 ''forbidden'')))"

definition require_platform_admin :: "request_ctx \<Rightarrow> response option" where
  "require_platform_admin ctx =
     (if ctx = None \<or> \<not> pr_platform_admin (principal_from ctx) then Some (write_error 403 ''platform_admin required'')
      else None)"

text \<open>The early returns of a handler.\<close>

definition guard_sql :: "response + 'a \<Rightarrow> ('a \<Rightarrow> ('db, response) sql) \<Rightarrow> ('db, response) sql" where
  "guard_sql g k = (case g of Inl r \<Rightarrow> return_sql r | Inr a \<Rightarrow> k a)"

definition entitlements_from :: "request_ctx \<Rightarrow> response + entitlements" where
  "entitlements_from ctx = (case ctx of None \<Rightarrow> Inl (write_error 500 ''missing entitlements'') | Some (p, e) \<Rightarrow> Inr e)"

definition url_param :: "params \<Rightarrow> string \<Rightarrow> string" where
  "url_param ps k = (case ps k of None \<Rightarrow> [] | Some v \<Rightarrow> v)"

definition parse_id :: "server \<Rightarrow> params \<Rightarrow> response + uuid" where
  "parse_id s ps =
     (case srv_parse_uuid s (url_param ps ''id'') of
        None \<Rightarrow> Inl (write_error 400 ''invalid id'')
      | Some i \<Rightarrow> Inr i)"

section \<open>Request bodies\<close>

text \<open>\<^verbatim>\<open>json.NewDecoder(r.Body).Decode\<close>: an empty body is an error, \<^verbatim>\<open>null\<close> leaves the zero value.\<close>

fun decode_struct :: "'a \<Rightarrow> ((string \<times> json) list \<Rightarrow> 'a option) \<Rightarrow> json \<Rightarrow> 'a option" where
  "decode_struct zero dec JNull = Some zero"
| "decode_struct zero dec (JObj ms) = dec ms"
| "decode_struct zero dec _ = None"

definition decode_body :: "(json \<Rightarrow> 'a option) \<Rightarrow> string \<Rightarrow> raw_json \<Rightarrow> response + 'a" where
  "decode_body dec msg body =
     (case body of
        RawJson j \<Rightarrow> (case dec j of None \<Rightarrow> Inl (write_error 400 msg) | Some a \<Rightarrow> Inr a)
      | _ \<Rightarrow> Inl (write_error 400 msg))"

fun as_uuid :: "(string \<Rightarrow> uuid option) \<Rightarrow> json \<Rightarrow> uuid option" where
  "as_uuid parse (JStr s) = parse s"
| "as_uuid parse JNull = Some 0"
| "as_uuid parse _ = None"

fun as_pointer :: "(json \<Rightarrow> 'a option) \<Rightarrow> json \<Rightarrow> 'a option option" where
  "as_pointer dec JNull = Some None"
| "as_pointer dec j = map_option Some (dec j)"

fun as_bool :: "json \<Rightarrow> bool option" where
  "as_bool (JBool b) = Some b"
| "as_bool JNull = Some False"
| "as_bool _ = None"

definition as_policy :: "json \<Rightarrow> policy option" where
  "as_policy j = (case unmarshal_policy j of Inl e \<Rightarrow> None | Inr p \<Rightarrow> Some p)"

record add_member_req =
  am_principal :: string
  am_role :: string

definition decode_add_member :: "json \<Rightarrow> add_member_req option" where
  "decode_add_member =
     decode_struct \<lparr>am_principal = [], am_role = []\<rparr>
       (\<lambda>ms. case (field as_string [] ''principal'' ms, field as_string [] ''role'' ms) of
          (Some p, Some r) \<Rightarrow> Some \<lparr>am_principal = p, am_role = r\<rparr>
        | _ \<Rightarrow> None)"

record create_namespace_req =
  cn_name :: string
  cn_kind :: string
  cn_parent_id :: "uuid option"
  cn_policy :: "policy option"

definition decode_create_namespace :: "(string \<Rightarrow> uuid option) \<Rightarrow> json \<Rightarrow> create_namespace_req option" where
  "decode_create_namespace parse =
     decode_struct \<lparr>cn_name = [], cn_kind = [], cn_parent_id = None, cn_policy = None\<rparr>
       (\<lambda>ms. case (field as_string [] ''name'' ms, field as_string [] ''kind'' ms,
                   field (as_pointer (as_uuid parse)) None ''parent_id'' ms,
                   field (as_pointer as_policy) None ''policy'' ms) of
          (Some n, Some k, Some pa, Some po) \<Rightarrow>
            Some \<lparr>cn_name = n, cn_kind = k, cn_parent_id = pa, cn_policy = po\<rparr>
        | _ \<Rightarrow> None)"

record add_memory_req =
  mr_content :: string
  mr_actor_id :: string
  mr_metadata :: "(string \<times> json) list"
  mr_infer :: "bool option"

definition decode_add_memory :: "json \<Rightarrow> add_memory_req option" where
  "decode_add_memory =
     decode_struct \<lparr>mr_content = [], mr_actor_id = [], mr_metadata = [], mr_infer = None\<rparr>
       (\<lambda>ms. case (field as_string [] ''content'' ms, field as_string [] ''actor_id'' ms,
                   field as_object [] ''metadata'' ms, field (as_pointer as_bool) None ''infer'' ms) of
          (Some c, Some a, Some md, Some fi) \<Rightarrow>
            Some \<lparr>mr_content = c, mr_actor_id = a, mr_metadata = md, mr_infer = fi\<rparr>
        | _ \<Rightarrow> None)"

fun as_string_map :: "json \<Rightarrow> (string \<times> string) list option" where
  "as_string_map JNull = Some []"
| "as_string_map (JObj ms) = map_option (\<lambda>vs. keep_last (zip (map fst ms) vs)) (as_strings (map snd ms))"
| "as_string_map _ = None"

definition decode_subject :: "json \<Rightarrow> subject option" where
  "decode_subject =
     decode_struct \<lparr>s_type = [], s_scope = [], s_qualifiers = []\<rparr>
       (\<lambda>ms. case (field as_string [] ''type'' ms, field as_string [] ''scope'' ms,
                   field as_string_map [] ''qualifiers'' ms) of
          (Some t, Some sc, Some q) \<Rightarrow> Some \<lparr>s_type = t, s_scope = sc, s_qualifiers = q\<rparr>
        | _ \<Rightarrow> None)"

definition decode_provenance :: "json \<Rightarrow> provenance option" where
  "decode_provenance =
     decode_struct \<lparr>origin_actor = [], origin_session = [], derived_from = [], rationale = []\<rparr>
       (\<lambda>ms. case (field as_string [] ''origin_actor'' ms, field as_string [] ''origin_session'' ms,
                   field as_string_list [] ''derived_from'' ms, field as_string [] ''rationale'' ms) of
          (Some a, Some se, Some df, Some ra) \<Rightarrow>
            Some \<lparr>origin_actor = a, origin_session = se, derived_from = df, rationale = ra\<rparr>
        | _ \<Rightarrow> None)"

text \<open>\<^verbatim>\<open>proposeReq\<close>: the input of \<^verbatim>\<open>Propose\<close> but for the proposer and the idempotency key.\<close>

definition zero_propose :: propose_input where
  "zero_propose =
     \<lparr>in_target = 0, in_statement = [], in_subject = \<lparr>s_type = [], s_scope = [], s_qualifiers = []\<rparr>, in_memory_ids = [],
      in_provenance = \<lparr>origin_actor = [], origin_session = [], derived_from = [], rationale = []\<rparr>, in_tags = [],
      in_metadata = [], in_proposer = [], in_idempotency_key = [], in_origin_type = [], in_source_kind = [],
      in_actor_type = []\<rparr>"

definition decode_propose :: "(string \<Rightarrow> uuid option) \<Rightarrow> json \<Rightarrow> propose_input option" where
  "decode_propose parse =
     decode_struct zero_propose
       (\<lambda>ms. case (field (as_uuid parse) 0 ''target_namespace'' ms, field as_string [] ''proposed_statement'' ms,
                   field decode_subject (in_subject zero_propose) ''subject'' ms,
                   field as_string_list [] ''candidate_memory_ids'' ms,
                   field decode_provenance (in_provenance zero_propose) ''provenance'' ms,
                   field as_string_list [] ''tags'' ms, field as_object [] ''metadata'' ms,
                   (field as_string [] ''origin_type'' ms, field as_string [] ''source_kind'' ms,
                    field as_string [] ''actor_type'' ms)) of
          (Some t, Some st, Some su, Some ids, Some pv, Some tg, Some md, (Some ot, Some sk, Some aty)) \<Rightarrow>
            Some (zero_propose\<lparr>in_target := t, in_statement := st, in_subject := su, in_memory_ids := ids,
              in_provenance := pv, in_tags := tg, in_metadata := md, in_origin_type := ot, in_source_kind := sk,
              in_actor_type := aty\<rparr>)
        | _ \<Rightarrow> None)"

text \<open>
  \<^verbatim>\<open>_ = json.NewDecoder(r.Body).Decode(&body)\<close>: the error is dropped, so a member that is \<^verbatim>\<open>null\<close> or of the wrong
  type leaves its field as it is and the others are still read.
\<close>

record comment_req =
  cr_comment :: string
  cr_suggested :: string

definition comment_field :: "string \<Rightarrow> raw_json \<Rightarrow> string" where
  "comment_field name body =
     (case body of
        RawJson (JObj ms) \<Rightarrow>
          fold (\<lambda>(k, v) old. case v of JStr s \<Rightarrow> if equal_fold k name then s else old | _ \<Rightarrow> old) ms []
      | _ \<Rightarrow> [])"

definition decode_comment :: "raw_json \<Rightarrow> comment_req" where
  "decode_comment body =
     \<lparr>cr_comment = comment_field ''comment'' body, cr_suggested = comment_field ''suggested_statement'' body\<rparr>"

end
