(* ===== verification/Handlers.thy ===== *)
theory Handlers
  imports Http
begin

text \<open>
  The handlers (\<^verbatim>\<open>internal/server/handlers_*.go\<close>), the route table and the dispatch of \<^verbatim>\<open>server.go\<close>. A handler
  is a program over the store that always ends with a response; each early return of the source is a
  guard in the source's order. The middleware around the router (OpenTelemetry spans) is left out.
\<close>

section \<open>Namespaces\<close>

definition valid_kind :: "string \<Rightarrow> bool" where
  "valid_kind k \<longleftrightarrow> k \<in> set [''user'', ''team'', ''project'', ''org'']"

text \<open>An absent context gives the zero entitlements, which can read nothing.\<close>

definition can_read_from :: "request_ctx \<Rightarrow> uuid \<Rightarrow> bool" where
  "can_read_from ctx ns = (case ctx of None \<Rightarrow> False | Some (p, ent) \<Rightarrow> ent_can_read ent ns)"

definition h_list_namespaces :: "request_ctx \<Rightarrow> (db, response) sql" where
  "h_list_namespaces ctx =
     try_sql list_namespaces (\<lambda>_. write_error 500 ''list failed'')
       (\<lambda>all. return_sql (write_json 200 (PNamespaces (filter (\<lambda>n. can_read_from ctx (n_id n)) all))))"

definition to_namespace :: "create_namespace_req \<Rightarrow> namespace" where
  "to_namespace req = \<lparr>n_id = 0, n_name = cn_name req, n_kind = cn_kind req, n_parent_id = cn_parent_id req,
     n_policy = (case cn_policy req of None \<Rightarrow> zero_policy | Some p \<Rightarrow> p), n_created_at = 0\<rparr>"

definition h_create_namespace :: "server \<Rightarrow> world \<Rightarrow> request \<Rightarrow> request_ctx \<Rightarrow> (db, response) sql" where
  "h_create_namespace s w rq ctx =
     (case require_platform_admin ctx of
        Some r \<Rightarrow> return_sql r
      | None \<Rightarrow>
          guard_sql (decode_body (decode_create_namespace (srv_parse_uuid s)) ''invalid json'' (rq_body rq))
          (\<lambda>req. if cn_name req = [] \<or> \<not> valid_kind (cn_kind req)
                 then return_sql (write_error 400 ''name and valid kind required'')
                 else try_sql (create_namespace (w_now w) (w_new_namespace w) (to_namespace req))
                        (\<lambda>_. write_error 500 ''create failed'')
                        (\<lambda>created. return_sql (write_json 201 (PNamespace created)))))"

definition h_get_namespace :: "server \<Rightarrow> params \<Rightarrow> request_ctx \<Rightarrow> (db, response) sql" where
  "h_get_namespace s ps ctx =
     guard_sql (parse_id s ps) (\<lambda>i. guard_sql (authorize ctx i ''read_facts'') (\<lambda>_.
       try_sql (get_namespace i)
         (\<lambda>e. if e = ErrNamespaceNotFound then write_error 404 ''not found'' else write_error 500 ''get failed'')
         (\<lambda>n. return_sql (write_json 200 (PNamespace n)))))"

definition policy_rejected :: "server \<Rightarrow> policy \<Rightarrow> error option" where
  "policy_rejected s p =
     (case pol_auto_promote p of
        None \<Rightarrow> None
      | Some ap \<Rightarrow>
          if ap_engine ap = [] then None
          else (case validate_policy (srv_engines s) (ap_engine ap) (ap_rules ap) of Inl e \<Rightarrow> Some e | Inr _ \<Rightarrow> None))"

definition h_patch_namespace_policy :: "server \<Rightarrow> request \<Rightarrow> params \<Rightarrow> request_ctx \<Rightarrow> (db, response) sql" where
  "h_patch_namespace_policy s rq ps ctx =
     guard_sql (parse_id s ps) (\<lambda>i. guard_sql (authorize ctx i ''manage_members_policy'') (\<lambda>_.
     guard_sql (decode_body as_policy ''invalid json'' (rq_body rq)) (\<lambda>policy.
     case policy_rejected s policy of
       Some e \<Rightarrow> return_sql (write_json 400 (PErrorOf ''invalid auto_promote policy: '' e))
     | None \<Rightarrow>
         try_sql (update_policy i policy)
           (\<lambda>e. if e = ErrNamespaceNotFound then write_error 404 ''not found'' else write_error 500 ''update failed'')
           (\<lambda>_. return_sql (write_json 200 (PStatus ''updated''))))))"

section \<open>Members\<close>

definition h_list_members :: "server \<Rightarrow> params \<Rightarrow> request_ctx \<Rightarrow> (db, response) sql" where
  "h_list_members s ps ctx =
     guard_sql (parse_id s ps) (\<lambda>i. guard_sql (authorize ctx i ''read_facts'') (\<lambda>_.
       try_sql (list_members i) (\<lambda>_. write_error 500 ''list members failed'')
         (\<lambda>(grants, principals). return_sql (write_json 200 (PMembers (zip principals (map g_role grants)))))))"

definition h_add_member :: "server \<Rightarrow> request \<Rightarrow> params \<Rightarrow> request_ctx \<Rightarrow> (db, response) sql" where
  "h_add_member s rq ps ctx =
     guard_sql (parse_id s ps) (\<lambda>i. guard_sql (authorize ctx i ''manage_members_policy'') (\<lambda>_.
     guard_sql (decode_body decode_add_member ''invalid json'' (rq_body rq)) (\<lambda>req.
       if am_principal req = [] then return_sql (write_error 400 ''principal required'')
       else try_sql (grant (am_principal req) i (am_role req))
         (\<lambda>e. case e of ErrInvalidRole _ \<Rightarrow> write_error 400 ''invalid role'' | _ \<Rightarrow> write_error 500 ''grant failed'')
         (\<lambda>_. return_sql (write_json 201 (PMember (am_principal req) (am_role req)))))))"

definition h_remove_member :: "server \<Rightarrow> request \<Rightarrow> params \<Rightarrow> request_ctx \<Rightarrow> (db, response) sql" where
  "h_remove_member s rq ps ctx =
     guard_sql (parse_id s ps) (\<lambda>i. guard_sql (authorize ctx i ''manage_members_policy'') (\<lambda>_.
       let who = url_param ps ''principal''; role = query_get rq ''role'' in
       if who = [] \<or> role = [] then return_sql (write_error 400 ''principal and ?role= required'')
       else try_sql (revoke_grant who i role) (\<lambda>_. write_error 500 ''revoke failed'')
         (\<lambda>_. return_sql (write_json 200 (PStatus ''revoked'')))))"

section \<open>Promotions\<close>

definition h_create_promotion :: "server \<Rightarrow> world \<Rightarrow> request \<Rightarrow> request_ctx \<Rightarrow> (db, response) sql" where
  "h_create_promotion s w rq ctx =
     guard_sql (decode_body (decode_propose (srv_parse_uuid s)) ''invalid json'' (rq_body rq)) (\<lambda>req.
     guard_sql (authorize ctx (in_target req) ''propose_promotion'') (\<lambda>_.
       try_sql (propose (promos s) (w_now w) (w_new_fact w) (w_new_promotion w)
           (req\<lparr>in_proposer := pr_id (principal_from ctx), in_idempotency_key := header_get rq ''Idempotency-Key''\<rparr>))
         (\<lambda>e. if e = ErrInvalidSubject then write_error 400 ''subject with a type is required''
              else write_error 500 ''propose failed'')
         (\<lambda>out. return_sql (write_json 201 (PPromotion out)))))"

text \<open>An optional filter on a namespace the caller must be able to read.\<close>

definition namespace_filter :: "server \<Rightarrow> entitlements \<Rightarrow> string \<Rightarrow> response + uuid option" where
  "namespace_filter s ent v =
     (if v = [] then Inr None
      else case srv_parse_uuid s v of
             None \<Rightarrow> Inl (write_error 400 ''invalid namespace'')
           | Some i \<Rightarrow> if \<not> ent_can_read ent i then Inl (write_error 403 ''forbidden'') else Inr (Some i))"

definition h_list_promotions :: "server \<Rightarrow> world \<Rightarrow> request \<Rightarrow> request_ctx \<Rightarrow> (db, response) sql" where
  "h_list_promotions s w rq ctx =
     guard_sql (entitlements_from ctx) (\<lambda>ent.
     guard_sql (namespace_filter s ent (query_get rq ''namespace'')) (\<lambda>ns.
       let proposer = map_option (\<lambda>v. if v = ''me'' then pr_id (principal_from ctx) else v)
             (nonempty (query_get rq ''proposer'')) in
       try_sql (list_promotions (w_promotions w) ns (nonempty (query_get rq ''state'')) proposer)
         (\<lambda>_. write_error 500 ''list failed'')
         (\<lambda>all. return_sql (write_json 200
            (PPromotions (filter (\<lambda>p. ent_can_read ent (p_target_namespace_id p)) all))))))"

definition h_get_promotion :: "server \<Rightarrow> params \<Rightarrow> request_ctx \<Rightarrow> (db, response) sql" where
  "h_get_promotion s ps ctx =
     guard_sql (parse_id s ps) (\<lambda>i.
       try_sql (get_promotion_pool i)
         (\<lambda>e. if e = ErrPromotionNotFound then write_error 404 ''not found'' else write_error 500 ''get failed'')
         (\<lambda>p. guard_sql (authorize ctx (p_target_namespace_id p) ''read_facts'') (\<lambda>_.
            return_sql (write_json 200 (PPromotion p)))))"

definition map_workflow_err :: "error \<Rightarrow> nat option" where
  "map_workflow_err e =
     (if e = ErrSelfApproval then Some 403
      else if e = ErrNotProposer then Some 403
      else if e = ErrInvalidState then Some 409
      else None)"

text \<open>An action no case names calls no service and answers with the zero promotion.\<close>

definition zero_promotion :: promotion where
  "zero_promotion = (draft_promotion zero_propose 0 0 None)"

definition run_action :: "server \<Rightarrow> world \<Rightarrow> string \<Rightarrow> uuid \<Rightarrow> principal_id \<Rightarrow> comment_req \<Rightarrow> (db, promotion) sql" where
  "run_action s w action i who body =
     (if action = ''submit'' then submit (w_now w) i who
      else if action = ''approve'' then approve (promos s) (w_now w) (w_wall w) i who (cr_comment body)
      else if action = ''reject'' then reject (w_now w) (w_wall w) i who (cr_comment body)
      else if action = ''request-changes'' then
        request_changes (w_now w) (w_wall w) i who (cr_comment body) (cr_suggested body)
      else if action = ''withdraw'' then withdraw (w_now w) i who
      else return_sql zero_promotion)"

definition h_promotion_action ::
    "server \<Rightarrow> world \<Rightarrow> string \<Rightarrow> request \<Rightarrow> params \<Rightarrow> request_ctx \<Rightarrow> (db, response) sql" where
  "h_promotion_action s w action rq ps ctx =
     guard_sql (parse_id s ps) (\<lambda>i.
       try_sql (get_promotion_pool i)
         (\<lambda>e. if e = ErrPromotionNotFound then write_error 404 ''not found'' else write_error 500 ''lookup failed'')
         (\<lambda>p. guard_sql
            (if action \<in> set [''approve'', ''reject'', ''request-changes'']
             then map_sum id (\<lambda>_. ()) (authorize ctx (p_target_namespace_id p) ''approve_reject'')
             else Inr ())
            (\<lambda>_. try_sql (run_action s w action i (pr_id (principal_from ctx)) (decode_comment (rq_body rq)))
               (\<lambda>e. case map_workflow_err e of
                  Some status \<Rightarrow> write_json status (PErrorOf [] e)
                | None \<Rightarrow> write_error 500 ''action failed'')
               (\<lambda>result. return_sql (write_json 200 (PPromotion result))))))"

section \<open>Facts\<close>

definition search_terms :: "server \<Rightarrow> string \<Rightarrow> vec option \<times> string option" where
  "search_terms s q =
     (if q = [] then (None, None)
      else case srv_embedder s of
             None \<Rightarrow> (None, Some q)
           | Some em \<Rightarrow> (case em q of Inr v \<Rightarrow> (Some v, None) | Inl e \<Rightarrow> (None, Some q)))"

definition h_list_facts :: "server \<Rightarrow> world \<Rightarrow> request \<Rightarrow> request_ctx \<Rightarrow> (db, response) sql" where
  "h_list_facts s w rq ctx =
     guard_sql (entitlements_from ctx) (\<lambda>ent.
     guard_sql (namespace_filter s ent (query_get rq ''namespace'')) (\<lambda>ns.
       let scope = (case ns of None \<Rightarrow> readable_namespaces (w_ids w) ent | Some i \<Rightarrow> [i]);
           (vec, text) = search_terms s (query_get rq ''q'');
           flt = \<lparr>lf_namespaces = Some scope, lf_status = nonempty (query_get rq ''status''),
                  lf_canonical_key = nonempty (query_get rq ''canonical_key''), lf_tag = nonempty (query_get rq ''tag''),
                  lf_tags = parse_csv (query_get rq ''tags''), lf_text = text, lf_query_vec = vec,
                  lf_limit = atoi_value (query_get rq ''limit'')\<rparr> in
       try_sql (on_pool (list_facts (w_facts w) (w_dist w) flt)) (\<lambda>_. write_error 500 ''list failed'')
         (\<lambda>out. return_sql (write_json 200 (PFacts out)))))"

text \<open>\<^verbatim>\<open>facts.Get\<close> and the answer to its two failures, as three of the handlers begin.\<close>

definition with_fact :: "server \<Rightarrow> params \<Rightarrow> (uuid \<Rightarrow> fact \<Rightarrow> (db, response) sql) \<Rightarrow> (db, response) sql" where
  "with_fact s ps k =
     guard_sql (parse_id s ps) (\<lambda>i.
       try_sql (on_pool (get_fact i))
         (\<lambda>e. if e = ErrFactNotFound then write_error 404 ''not found'' else write_error 500 ''get failed'')
         (k i))"

definition h_get_fact :: "server \<Rightarrow> params \<Rightarrow> request_ctx \<Rightarrow> (db, response) sql" where
  "h_get_fact s ps ctx =
     with_fact s ps (\<lambda>i f. guard_sql (authorize ctx (f_namespace_id f) ''read_facts'') (\<lambda>_.
       return_sql ((write_json 200 (PFact f))\<lparr>rs_etag := Some (f_version f)\<rparr>)))"

definition h_get_fact_history :: "server \<Rightarrow> world \<Rightarrow> params \<Rightarrow> request_ctx \<Rightarrow> (db, response) sql" where
  "h_get_fact_history s w ps ctx =
     with_fact s ps (\<lambda>i f. guard_sql (authorize ctx (f_namespace_id f) ''read_facts'') (\<lambda>_.
       try_sql (history (w_events w) i) (\<lambda>_. write_error 500 ''history failed'')
         (\<lambda>hist. return_sql (write_json 200 (PEvents hist)))))"

definition h_revoke_fact :: "server \<Rightarrow> world \<Rightarrow> request \<Rightarrow> params \<Rightarrow> request_ctx \<Rightarrow> (db, response) sql" where
  "h_revoke_fact s w rq ps ctx =
     with_fact s ps (\<lambda>i f. guard_sql (authorize ctx (f_namespace_id f) ''revoke_fact'') (\<lambda>_.
       let if_match = header_get rq ''If-Match'' in
       if if_match = [] then return_sql (write_error 428 ''If-Match (version) required'')
       else case atoi if_match of
              None \<Rightarrow> return_sql (write_error 400 ''invalid If-Match'')
            | Some version \<Rightarrow>
                try_sql (revoke_fact (w_now w) i version (pr_id (principal_from ctx)))
                  (\<lambda>e. if e = ErrVersionConflict then write_error 409 ''stale version''
                       else if e = ErrFactNotFound then write_error 404 ''not found''
                       else write_json 409 (PErrorOf [] e))
                  (\<lambda>_. return_sql (write_json 200 (PStatus ''revoked'')))))"

section \<open>Context and memories\<close>

fun parse_ids :: "(string \<Rightarrow> uuid option) \<Rightarrow> string list \<Rightarrow> uuid list option" where
  "parse_ids parse [] = Some []"
| "parse_ids parse (p # ps) =
     (case parse (trim_space p) of
        None \<Rightarrow> None
      | Some i \<Rightarrow> map_option (\<lambda>is. i # is) (parse_ids parse ps))"

definition narrowed :: "server \<Rightarrow> string \<Rightarrow> uuid list \<Rightarrow> response + uuid list" where
  "narrowed s raw readable =
     (if raw = [] then Inr readable
      else case parse_ids (srv_parse_uuid s) (split_on CHR '','' raw) of
             None \<Rightarrow> Inl (write_error 400 ''invalid namespaces filter'')
           | Some want \<Rightarrow> Inr (filter (\<lambda>i. i \<in> set want) readable))"

definition h_get_context :: "server \<Rightarrow> world \<Rightarrow> request \<Rightarrow> request_ctx \<Rightarrow> (db, response) sql" where
  "h_get_context s w rq ctx =
     guard_sql (entitlements_from ctx) (\<lambda>ent.
     guard_sql (narrowed s (query_get rq ''namespaces'') (readable_namespaces (w_ids w) ent)) (\<lambda>readable.
       let actor = (if query_get rq ''actor_id'' = [] then pr_id (principal_from ctx) else query_get rq ''actor_id'') in
       try_sql (resolve_context (w_context w) (Some (srv_mem s)) (w_now w)
           \<lparr>cq_actor_id = actor, cq_namespaces = readable,
            cq_include_memories = (query_get rq ''include_memories'' = ''true''),
            cq_limit = atoi_value (query_get rq ''limit''), cq_tags = parse_csv (query_get rq ''tags'')\<rparr>)
         (\<lambda>_. write_error 500 ''context resolution failed'')
         (\<lambda>items. return_sql (write_json 200 (PItems items)))))"

definition h_add_memory :: "server \<Rightarrow> request \<Rightarrow> request_ctx \<Rightarrow> (db, response) sql" where
  "h_add_memory s rq ctx =
     (case srv_writer s of
        None \<Rightarrow> return_sql (write_error 501 ''memory backend is read-only (standards-only mode); no capture path'')
      | Some add \<Rightarrow>
          guard_sql (decode_body decode_add_memory ''invalid JSON body'' (rq_body rq)) (\<lambda>req.
            if mr_content req = [] then return_sql (write_error 400 ''content is required'')
            else
              (let actor = (if mr_actor_id req = [] then pr_id (principal_from ctx) else mr_actor_id req) in
               if actor = [] then return_sql (write_error 400 ''no actor_id and no authenticated principal'')
               else return_sql
                 (case add actor (mr_content req) \<lparr>ao_metadata = mr_metadata req, ao_infer = mr_infer req\<rparr> of
                    Inl e \<Rightarrow> write_json 502 (PErrorOf ''memory backend write failed: '' e)
                  | Inr mem \<Rightarrow> write_json 201 (PMemory mem)))))"

section \<open>Routes\<close>

definition routes :: "route list" where
  "routes =
     [(''GET'', ''/healthz'', EpHealthz), (''GET'', ''/readyz'', EpReadyz),
      (''GET'', ''/v1/namespaces/'', EpListNamespaces), (''POST'', ''/v1/namespaces/'', EpCreateNamespace),
      (''GET'', ''/v1/namespaces/{id}'', EpGetNamespace), (''PATCH'', ''/v1/namespaces/{id}'', EpPatchNamespacePolicy),
      (''GET'', ''/v1/namespaces/{id}/members'', EpListMembers), (''POST'', ''/v1/namespaces/{id}/members'', EpAddMember),
      (''DELETE'', ''/v1/namespaces/{id}/members/{principal}'', EpRemoveMember),
      (''POST'', ''/v1/promotions/'', EpCreatePromotion), (''GET'', ''/v1/promotions/'', EpListPromotions),
      (''GET'', ''/v1/promotions/{id}'', EpGetPromotion),
      (''POST'', ''/v1/promotions/{id}/submit'', EpPromotionAction ''submit''),
      (''POST'', ''/v1/promotions/{id}/approve'', EpPromotionAction ''approve''),
      (''POST'', ''/v1/promotions/{id}/reject'', EpPromotionAction ''reject''),
      (''POST'', ''/v1/promotions/{id}/request-changes'', EpPromotionAction ''request-changes''),
      (''POST'', ''/v1/promotions/{id}/withdraw'', EpPromotionAction ''withdraw''),
      (''GET'', ''/v1/facts/'', EpListFacts), (''GET'', ''/v1/facts/{id}'', EpGetFact),
      (''GET'', ''/v1/facts/{id}/history'', EpGetFactHistory), (''PATCH'', ''/v1/facts/{id}'', EpRevokeFact),
      (''GET'', ''/v1/context'', EpGetContext), (''POST'', ''/v1/memories'', EpAddMemory)]"

text \<open>The handlers under \<^verbatim>\<open>/v1\<close>, behind the middleware.\<close>

fun handle :: "server \<Rightarrow> world \<Rightarrow> request \<Rightarrow> params \<Rightarrow> endpoint \<Rightarrow> request_ctx \<Rightarrow> (db, response) sql" where
  "handle s w rq ps EpHealthz ctx = return_sql (write_json 200 (PStatus ''ok''))"
| "handle s w rq ps EpReadyz ctx =
     try_sql (on_pool (query (\<lambda>d. ()))) (\<lambda>_. write_error 503 ''not ready'')
       (\<lambda>_. return_sql (write_json 200 (PStatus ''ready'')))"
| "handle s w rq ps EpListNamespaces ctx = h_list_namespaces ctx"
| "handle s w rq ps EpCreateNamespace ctx = h_create_namespace s w rq ctx"
| "handle s w rq ps EpGetNamespace ctx = h_get_namespace s ps ctx"
| "handle s w rq ps EpPatchNamespacePolicy ctx = h_patch_namespace_policy s rq ps ctx"
| "handle s w rq ps EpListMembers ctx = h_list_members s ps ctx"
| "handle s w rq ps EpAddMember ctx = h_add_member s rq ps ctx"
| "handle s w rq ps EpRemoveMember ctx = h_remove_member s rq ps ctx"
| "handle s w rq ps EpCreatePromotion ctx = h_create_promotion s w rq ctx"
| "handle s w rq ps EpListPromotions ctx = h_list_promotions s w rq ctx"
| "handle s w rq ps EpGetPromotion ctx = h_get_promotion s ps ctx"
| "handle s w rq ps (EpPromotionAction a) ctx = h_promotion_action s w a rq ps ctx"
| "handle s w rq ps EpListFacts ctx = h_list_facts s w rq ctx"
| "handle s w rq ps EpGetFact ctx = h_get_fact s ps ctx"
| "handle s w rq ps EpGetFactHistory ctx = h_get_fact_history s w ps ctx"
| "handle s w rq ps EpRevokeFact ctx = h_revoke_fact s w rq ps ctx"
| "handle s w rq ps EpGetContext ctx = h_get_context s w rq ctx"
| "handle s w rq ps EpAddMemory ctx = h_add_memory s rq ctx"

definition public :: "endpoint \<Rightarrow> bool" where
  "public ep \<longleftrightarrow> ep = EpHealthz \<or> ep = EpReadyz"

text \<open>A request the router does not match is answered by the router.\<close>

definition serve :: "server \<Rightarrow> world \<Rightarrow> request \<Rightarrow> (db, response) sql" where
  "serve s w rq =
     (case srv_router s routes rq of
        Inl r \<Rightarrow> return_sql r
      | Inr (ep, ps) \<Rightarrow>
          if public ep then handle s w rq ps ep None
          else authn s rq (handle s w rq ps ep))"

definition new_with_memory ::
    "authenticator \<Rightarrow> memory_source \<Rightarrow> memory_writer option \<Rightarrow> (route list \<Rightarrow> request \<Rightarrow> response + endpoint \<times> params)
      \<Rightarrow> (string \<Rightarrow> uuid option) \<Rightarrow> server" where
  "new_with_memory auth mem writer router parse =
     \<lparr>srv_engines = the_registry, srv_embedder = None, srv_mem = mem, srv_writer = writer, srv_auth = auth,
      srv_router = router, srv_parse_uuid = parse\<rparr>"

definition new_server ::
    "authenticator \<Rightarrow> (route list \<Rightarrow> request \<Rightarrow> response + endpoint \<times> params) \<Rightarrow> (string \<Rightarrow> uuid option) \<Rightarrow> server" where
  "new_server auth router parse = new_with_memory auth null_source None router parse"

definition set_embedder :: "embedder \<Rightarrow> server \<Rightarrow> server" where
  "set_embedder em s = s\<lparr>srv_embedder := Some em\<rparr>"

end
