(* ===== verification/Promotion_Effects.thy ===== *)
theory Promotion_Effects
  imports Promotions_Service
begin

text \<open>
  What a clean run of each operation of the promotion workflow leaves in the store, as an equation between
  stores: the refinement of the statement-level programs by effects on rows. The invariants of the
  service are proved from these equations.
\<close>

section \<open>Promotions evolve\<close>

lemma exec_fail_insert_promotion [sql_exec]:
  "exec_fail (insert_promotion now new p) d e d' \<longleftrightarrow> False"
  "exec_fail (insert_fact now new f) d e d' \<longleftrightarrow> False"
  "exec_fail (update_statement now i s) d e d' \<longleftrightarrow> False"
  by (simp_all add: insert_promotion_def insert_fact_def update_statement_def Let_def sql_exec sql_safe)

lemma promotion_fixed_statement [simp]: "promotion_fixed p (row_statement now s p)"
  by (simp add: promotion_fixed_def row_statement_def)

lemma promotion_fixed_reviewed:
  "prefix (p_reviews p) rs \<Longrightarrow> promotion_fixed p (row_reviewed now st rs p)"
  by (simp add: promotion_fixed_def row_reviewed_def)

lemma evolves_upd_promotion_at:
  assumes "promotions_ok d (promotions_tbl d)" and "promotion_keyed u"
    and "\<And>p. promotion_at d i = Some p \<Longrightarrow> promotion_fixed p (u p)"
  shows "evolves d (upd_promotion i u d)"
proof -
  have id: "p_id (u p) = p_id p" for p using assms(2) by (simp add: promotion_keyed_def)
  have "promotions_ok (upd_promotion i u d) = promotions_ok d" "memberships_ok (upd_promotion i u d) = memberships_ok d"
    "facts_ok (upd_promotion i u d) = facts_ok d" "keys_derived (upd_promotion i u d) = keys_derived d"
    by (simp_all add: promotions_ok_def memberships_ok_def facts_ok_def keys_derived_def fun_eq_iff)
  moreover have "rows_kept promotion_fixed p_id (promotions_tbl d) (tbl_upd p_id i u (promotions_tbl d))"
    using assms(3) by (auto simp: rows_kept_def tbl_get_upd[of p_id u, OF id])
  ultimately show ?thesis
    using assms(1,2) by (simp add: evolves_def schema_ok_def rows_kept_refl promotions_ok_upd)
qed

section \<open>Well-behaved programs\<close>

lemma well_behaved_embed [sql_safe]:
  "well_behaved (embed_activated_fact sv i f)" "well_behaved (embed_stored_fact sv i)"
proof -
  show e: "well_behaved (embed_activated_fact sv i f)" for f
    unfolding embed_activated_fact_def by (auto intro!: sql_safe split: option.split sum.split)
  show "well_behaved (embed_stored_fact sv i)"
    unfolding embed_stored_fact_def by (auto intro!: sql_safe e split: sum.split)
qed

lemma well_behaved_auto_supersede [sql_safe]: "well_behaved (auto_supersede now who p)"
  unfolding auto_supersede_def by (auto intro!: sql_safe split: option.split)

lemma well_behaved_auto_activate [sql_safe]: "well_behaved (auto_activate sv now p ap v)"
  unfolding auto_activate_def Let_def by (auto intro!: sql_safe split: sum.split)

lemma well_behaved_maybe_auto_promote [sql_safe]: "well_behaved (maybe_auto_promote sv now p apo inp)"
  unfolding maybe_auto_promote_def by (auto intro!: sql_safe split: option.split prod.split)

lemma well_behaved_propose_tx [sql_safe]: "well_behaved (propose_tx sv now nf np inp req apo)"
  unfolding propose_tx_def Let_def by (intro sql_safe)

lemma well_behaved_supersede_conflict [sql_safe]: "well_behaved (supersede_conflict now who p)"
  unfolding supersede_conflict_def by (auto intro!: sql_safe split: option.split)

lemma well_behaved_activate [sql_safe]: "well_behaved (activate sv now p who)"
  unfolding activate_def by (intro sql_safe)

lemma well_behaved_approve_body [sql_safe]: "well_behaved (approve_body sv now wall i who c)"
  unfolding approve_body_def Let_def by (auto intro!: sql_safe)

lemma well_behaved_review_body [sql_safe]: "well_behaved (review_body now wall i who dec c to fact_to act)"
  unfolding review_body_def Let_def by (auto intro!: sql_safe)

lemma well_behaved_transition_body [sql_safe]: "well_behaved (transition_body now i who mutate fact_to act)"
  unfolding transition_body_def by (auto intro!: sql_safe split: sum.split)

section \<open>Embedding\<close>

definition embedding_for :: "service \<Rightarrow> fact_row \<Rightarrow> vec option" where
  "embedding_for sv f =
     (case sv_embedder sv of
        None \<Rightarrow> None
      | Some em \<Rightarrow> (case em (embed_text (f_subject f) (f_statement f)) of Inl e \<Rightarrow> None | Inr v \<Rightarrow> Some v))"

definition embed_effect :: "service \<Rightarrow> uuid \<Rightarrow> db \<Rightarrow> db" where
  "embed_effect sv i d =
     (case fact_at d i of
        None \<Rightarrow> d
      | Some f \<Rightarrow> (case embedding_for sv f of None \<Rightarrow> d | Some v \<Rightarrow> upd_fact i (row_embed v) d))"

definition embed_fits :: "service \<Rightarrow> uuid \<Rightarrow> db \<Rightarrow> bool" where
  "embed_fits sv i d =
     (case fact_at d i of
        None \<Rightarrow> True
      | Some f \<Rightarrow> (case embedding_for sv f of
          None \<Rightarrow> True | Some v \<Rightarrow> facts_ok d (tbl_upd f_id i (row_embed v) (facts_tbl d))))"

lemma exec_embed_stored_fact [sql_exec]:
  "exec (embed_stored_fact sv i) d a d' \<longleftrightarrow> embed_fits sv i d \<and> d' = embed_effect sv i d"
proof -
  have w: "well_behaved (case r of Inl e \<Rightarrow> return_sql () | Inr f \<Rightarrow> embed_activated_fact sv i f)" for r
    by (auto intro: sql_safe split: sum.split)
  show ?thesis
    by (cases "fact_at d i")
      (auto simp: embed_stored_fact_def exec_bind[OF _ w] sql_exec sql_safe split_sum_ex embed_activated_fact_def
        embed_fits_def embed_effect_def embedding_for_def split: option.splits sum.splits)
qed

lemma embed_effect_sel [simp]:
  "promotions_tbl (embed_effect sv i d) = promotions_tbl d" "audit_tbl (embed_effect sv i d) = audit_tbl d"
  "namespaces_tbl (embed_effect sv i d) = namespaces_tbl d" "memberships_tbl (embed_effect sv i d) = memberships_tbl d"
  by (auto simp: embed_effect_def split: option.split)

lemma evolves_embed: "embed_fits sv i d \<Longrightarrow> evolves d (embed_effect sv i d)"
  by (auto simp: embed_effect_def embed_fits_def intro: evolves_upd_fact split: option.splits)

text \<open>Up to the embedding, a fact is what it was.\<close>

definition bare :: "fact_row \<Rightarrow> fact_row" where
  "bare f = f\<lparr>f_embedding := None\<rparr>"

lemma bare_row_embed [simp]: "bare (row_embed v f) = bare f"
  by (simp add: bare_def row_embed_def)

lemma bare_sel [simp]:
  "f_id (bare f) = f_id f" "f_namespace_id (bare f) = f_namespace_id f" "f_status (bare f) = f_status f"
  "f_canonical_key (bare f) = f_canonical_key f" "f_approved_by (bare f) = f_approved_by f"
  "f_tags (bare f) = f_tags f" "f_supersedes_id (bare f) = f_supersedes_id f"
  "f_superseded_by_id (bare f) = f_superseded_by_id f" "f_version (bare f) = f_version f"
  "f_subject (bare f) = f_subject f" "f_created_by (bare f) = f_created_by f"
  by (simp_all add: bare_def)

lemma embed_effect_bare: "map_option bare (fact_at (embed_effect sv i d) j) = map_option bare (fact_at d j)"
  by (cases "fact_at d i") (auto simp: embed_effect_def tbl_get_upd option.map_comp comp_def split: option.splits)


section \<open>Supersession and activation\<close>

lemma exec_fail_attempt [sql_exec]: "exec_fail (attempt m) d e d' \<longleftrightarrow> False"
  by (auto simp: exec_fail_def attempt_def split: prod.splits)

definition supersede_effect :: "timestamp \<Rightarrow> uuid \<Rightarrow> uuid \<Rightarrow> db \<Rightarrow> db" where
  "supersede_effect now old new d = upd_fact new (row_supersedes now old) (upd_fact old (row_superseded now new) d)"

definition supersede_fits :: "timestamp \<Rightarrow> uuid \<Rightarrow> uuid \<Rightarrow> db \<Rightarrow> bool" where
  "supersede_fits now old new d \<longleftrightarrow>
     facts_ok d (tbl_upd f_id old (row_superseded now new) (facts_tbl d)) \<and>
     facts_ok (upd_fact old (row_superseded now new) d)
       (tbl_upd f_id new (row_supersedes now old) (tbl_upd f_id old (row_superseded now new) (facts_tbl d)))"

definition conflict_effect :: "timestamp \<Rightarrow> principal_id \<Rightarrow> promotion \<Rightarrow> db \<Rightarrow> db" where
  "conflict_effect now who p d =
     (case p_conflict_with p of
        None \<Rightarrow> d
      | Some c \<Rightarrow> log_event (audit_row now (superseded_event who c (p_fact_id p)))
                   (supersede_effect now c (p_fact_id p) d))"

definition conflict_fits :: "timestamp \<Rightarrow> promotion \<Rightarrow> db \<Rightarrow> bool" where
  "conflict_fits now p d =
     (case p_conflict_with p of None \<Rightarrow> True | Some c \<Rightarrow> supersede_fits now c (p_fact_id p) d)"

lemma exec_supersede_conflict [sql_exec]:
  "exec (supersede_conflict now who p) d a d' \<longleftrightarrow> conflict_fits now p d \<and> d' = conflict_effect now who p d"
  by (auto simp: supersede_conflict_def conflict_fits_def conflict_effect_def supersede_fits_def supersede_effect_def
      sql_exec sql_safe split: option.split)

lemma exec_auto_supersede [sql_exec]:
  "exec (auto_supersede now who p) d a d' \<longleftrightarrow> conflict_fits now p d \<and> d' = conflict_effect now who p d"
  by (auto simp: auto_supersede_def conflict_fits_def conflict_effect_def supersede_fits_def supersede_effect_def
      sql_exec sql_safe split_sum_ex split: option.split)

lemma exec_fail_auto_supersede [sql_exec]: "exec_fail (auto_supersede now who p) d e d' \<longleftrightarrow> False"
  by (auto simp: auto_supersede_def sql_exec sql_safe split: option.split)

lemma evolves_supersede: "supersede_fits now old new d \<Longrightarrow> evolves d (supersede_effect now old new d)"
  unfolding supersede_fits_def supersede_effect_def
  by (rule evolves_trans[OF evolves_upd_fact evolves_upd_fact]) simp_all

lemma evolves_conflict: "conflict_fits now p d \<Longrightarrow> evolves d (conflict_effect now who p d)"
  by (auto simp: conflict_fits_def conflict_effect_def intro: evolves_trans[OF evolves_supersede] split: option.splits)

lemma supersede_effect_sel [simp]:
  "promotions_tbl (supersede_effect now c f d) = promotions_tbl d" "audit_tbl (supersede_effect now c f d) = audit_tbl d"
  "namespaces_tbl (supersede_effect now c f d) = namespaces_tbl d"
  "memberships_tbl (supersede_effect now c f d) = memberships_tbl d"
  by (simp_all add: supersede_effect_def)

lemma conflict_effect_sel [simp]:
  "promotions_tbl (conflict_effect now who p d) = promotions_tbl d"
  "namespaces_tbl (conflict_effect now who p d) = namespaces_tbl d"
  "memberships_tbl (conflict_effect now who p d) = memberships_tbl d"
  by (simp_all add: conflict_effect_def split: option.split)

lemma supersede_effect_at:
  "fact_at (supersede_effect now c f d) j =
     (let row = (if j = c then map_option (row_superseded now f) (fact_at d j) else fact_at d j)
      in if j = f then map_option (row_supersedes now c) row else row)"
  by (auto simp: supersede_effect_def tbl_get_upd Let_def)

lemma conflict_effect_at:
  "fact_at (conflict_effect now who p d) j =
     (case p_conflict_with p of None \<Rightarrow> fact_at d j | Some c \<Rightarrow> fact_at (supersede_effect now c (p_fact_id p) d) j)"
  by (simp add: conflict_effect_def split: option.split)

definition activate_effect :: "service \<Rightarrow> timestamp \<Rightarrow> promotion \<Rightarrow> principal_id \<Rightarrow> db \<Rightarrow> db" where
  "activate_effect sv now p who d =
     log_event (audit_row now (activated_event who (p_fact_id p)))
       (embed_effect sv (p_fact_id p)
         (upd_fact (p_fact_id p) (row_activate now (approvers p)) (conflict_effect now who p d)))"

definition activate_fits :: "service \<Rightarrow> timestamp \<Rightarrow> promotion \<Rightarrow> principal_id \<Rightarrow> db \<Rightarrow> bool" where
  "activate_fits sv now p who d \<longleftrightarrow>
     (let d1 = conflict_effect now who p d; d2 = upd_fact (p_fact_id p) (row_activate now (approvers p)) d1
      in conflict_fits now p d \<and> fact_at d1 (p_fact_id p) \<noteq> None \<and>
         facts_ok d1 (tbl_upd f_id (p_fact_id p) (row_activate now (approvers p)) (facts_tbl d1)) \<and>
         embed_fits sv (p_fact_id p) d2)"

lemma exec_activate [sql_exec]:
  "exec (activate sv now p who) d a d' \<longleftrightarrow> activate_fits sv now p who d \<and> d' = activate_effect sv now p who d"
  by (auto simp: activate_def activate_fits_def activate_effect_def Let_def sql_exec sql_safe)

lemma evolves_activate: "activate_fits sv now p who d \<Longrightarrow> evolves d (activate_effect sv now p who d)"
  unfolding activate_fits_def activate_effect_def Let_def
  by (elim conjE)
    (rule evolves_trans[OF evolves_trans[OF evolves_trans[OF evolves_conflict evolves_upd_fact] evolves_embed] evolves_log],
      simp_all)

lemma activate_effect_sel [simp]:
  "promotions_tbl (activate_effect sv now p who d) = promotions_tbl d"
  "namespaces_tbl (activate_effect sv now p who d) = namespaces_tbl d"
  "memberships_tbl (activate_effect sv now p who d) = memberships_tbl d"
  by (simp_all add: activate_effect_def)

lemma activate_effect_at:
  "map_option bare (fact_at (activate_effect sv now p who d) j) =
     map_option bare (if j = p_fact_id p
       then map_option (row_activate now (approvers p)) (fact_at (conflict_effect now who p d) j)
       else fact_at (conflict_effect now who p d) j)"
  by (simp add: activate_effect_def embed_effect_bare tbl_get_upd)

section \<open>Approve\<close>

definition reviewed_effect :: "timestamp \<Rightarrow> promotion \<Rightarrow> event \<Rightarrow> db \<Rightarrow> db" where
  "reviewed_effect now p e d =
     log_event (audit_row now e) (upd_promotion (p_id p) (row_reviewed now (p_state p) (p_reviews p)) d)"

definition approved_event :: "principal_id \<Rightarrow> promotion \<Rightarrow> event" where
  "approved_event who p = promotion_event who ''promotion.approved'' (p_id p) (p_state p)
     [(''approvals'', DInt (approval_count p)), (''required'', DInt (p_required_approvals p))]"

definition reviewable :: "promotion \<Rightarrow> bool" where
  "reviewable p \<longleftrightarrow> p_state p = StateInReview \<or> p_state p = StatePending"

definition decided :: "timestamp \<Rightarrow> principal_id \<Rightarrow> string \<Rightarrow> promotion \<Rightarrow> promotion" where
  "decided wall who comment p =
     (let q = add_approval wall who comment p
      in if has_enough_approvals q then q\<lparr>p_state := StateApproved\<rparr> else q\<lparr>p_state := StateInReview\<rparr>)"

lemma add_approval_sel [simp]:
  "p_id (add_approval wall who c p) = p_id p" "p_proposer (add_approval wall who c p) = p_proposer p"
  "p_fact_id (add_approval wall who c p) = p_fact_id p" "p_state (add_approval wall who c p) = p_state p"
  "p_required_approvals (add_approval wall who c p) = p_required_approvals p"
  "p_conflict_with (add_approval wall who c p) = p_conflict_with p"
  "p_target_namespace_id (add_approval wall who c p) = p_target_namespace_id p"
  "p_created_at (add_approval wall who c p) = p_created_at p"
  by (simp_all add: add_approval_def)

lemma decided_sel [simp]:
  "p_id (decided wall who c p) = p_id p" "p_proposer (decided wall who c p) = p_proposer p"
  "p_fact_id (decided wall who c p) = p_fact_id p" "p_conflict_with (decided wall who c p) = p_conflict_with p"
  "p_required_approvals (decided wall who c p) = p_required_approvals p"
  "p_target_namespace_id (decided wall who c p) = p_target_namespace_id p"
  "p_reviews (decided wall who c p) = p_reviews (add_approval wall who c p)"
  by (simp_all add: decided_def Let_def)

lemma approver_congs:
  "distinct_approvers (p\<lparr>p_state := st\<rparr>) = distinct_approvers p" "approvers (p\<lparr>p_state := st\<rparr>) = approvers p"
  "has_enough_approvals (p\<lparr>p_state := st\<rparr>) = has_enough_approvals p"
  "approval_count (p\<lparr>p_state := st\<rparr>) = approval_count p"
  by (simp_all add: distinct_approvers_def approvers_def has_enough_approvals_def approval_count_def)

lemma decided_state:
  "p_state (decided wall who c p) = (if has_enough_approvals (decided wall who c p) then StateApproved else StateInReview)"
  by (simp add: decided_def Let_def approver_congs)

lemma decided_approvers:
  "who \<noteq> p_proposer p \<Longrightarrow> distinct_approvers (decided wall who c p) = insert who (distinct_approvers p)"
  by (rule set_eqI)
    (auto simp: distinct_approvers_iff add_approval_def already_approved_by_def list_ex_iff)

lemma decided_reviews_prefix: "prefix (p_reviews p) (p_reviews (decided wall who c p))"
  by (simp add: add_approval_def)

lemma exec_approve_body [sql_exec]:
  "exec (approve_body sv now wall i who c) d r d' \<longleftrightarrow>
     (\<exists>p. promotion_at d i = Some p \<and> reviewable p \<and> who \<noteq> p_proposer p \<and> r = decided wall who c p \<and>
        (if has_enough_approvals r
         then activate_fits sv now r who d \<and>
              promotions_ok (activate_effect sv now r who d) (promotions_tbl d) \<and>
              d' = reviewed_effect now r (approved_event who r) (activate_effect sv now r who d)
         else promotions_ok d (promotions_tbl d) \<and> d' = reviewed_effect now r (approved_event who r) d))"
proof (cases "promotion_at d i")
  case None
  then show ?thesis by (simp add: approve_body_def Let_def sql_exec sql_safe)
next
  case (Some p)
  then have "exec (approve_body sv now wall i who c) d r d' \<longleftrightarrow>
      reviewable p \<and> who \<noteq> p_proposer p \<and>
      (let q = decided wall who c p in
        (\<exists>d1. (if has_enough_approvals q then activate_fits sv now q who d \<and> d1 = activate_effect sv now q who d
              else d1 = d) \<and>
           promotion_at d1 (p_id q) \<noteq> None \<and> promotions_ok d1 (promotions_tbl d1) \<and> r = q \<and>
           d' = reviewed_effect now q (approved_event who q) d1))"
    by (auto simp: approve_body_def Let_def sql_exec sql_safe reviewable_def decided_def reviewed_effect_def
        approved_event_def approver_congs)
  moreover have "promotion_at d (p_id (decided wall who c p)) \<noteq> None"
    using Some tbl_get_Some[OF Some] by simp
  ultimately show ?thesis
    by (cases "has_enough_approvals (decided wall who c p)") (simp_all add: Let_def Some, blast+)
qed


section \<open>Review and transition\<close>

definition bounced_effect :: "timestamp \<Rightarrow> promotion \<Rightarrow> status \<Rightarrow> event \<Rightarrow> db \<Rightarrow> db" where
  "bounced_effect now p fact_to e d =
     log_event (audit_row now e)
       (upd_fact (p_fact_id p) (row_status now fact_to)
         (upd_promotion (p_id p) (row_reviewed now (p_state p) (p_reviews p)) d))"

definition bounce_fits :: "timestamp \<Rightarrow> promotion \<Rightarrow> status \<Rightarrow> db \<Rightarrow> bool" where
  "bounce_fits now p fact_to d \<longleftrightarrow>
     promotions_ok d (promotions_tbl d) \<and> fact_at d (p_fact_id p) \<noteq> None \<and>
     facts_ok d (tbl_upd f_id (p_fact_id p) (row_status now fact_to) (facts_tbl d))"

definition with_review :: "timestamp \<Rightarrow> principal_id \<Rightarrow> decision \<Rightarrow> string \<Rightarrow> promo_state \<Rightarrow> promotion \<Rightarrow> promotion" where
  "with_review wall who dec c to p =
     p\<lparr>p_reviews := p_reviews p @ [\<lparr>r_reviewer = who, r_decision = dec, r_comment = c, r_at = wall\<rparr>], p_state := to\<rparr>"

lemma with_review_sel [simp]:
  "p_id (with_review wall who dec c to p) = p_id p" "p_state (with_review wall who dec c to p) = to"
  "p_fact_id (with_review wall who dec c to p) = p_fact_id p"
  "p_proposer (with_review wall who dec c to p) = p_proposer p"
  "p_reviews (with_review wall who dec c to p) =
     p_reviews p @ [\<lparr>r_reviewer = who, r_decision = dec, r_comment = c, r_at = wall\<rparr>]"
  "p_required_approvals (with_review wall who dec c to p) = p_required_approvals p"
  "p_target_namespace_id (with_review wall who dec c to p) = p_target_namespace_id p"
  "p_conflict_with (with_review wall who dec c to p) = p_conflict_with p"
  by (simp_all add: with_review_def)

lemma facts_ok_upd_promotion [simp]: "facts_ok (upd_promotion i u d) = facts_ok d"
  by (simp add: facts_ok_def fun_eq_iff)

lemma exec_bounce:
  assumes "promotion_at d (p_id p) \<noteq> None"
  shows "exec (bind_sql (update_state_and_reviews now (p_id p) (p_state p) (p_reviews p))
         (\<lambda>_. bind_sql (set_status now (p_fact_id p) fact_to)
         (\<lambda>_. bind_sql (audit_write now e) (\<lambda>_. return_sql p)))) d r d' \<longleftrightarrow>
     r = p \<and> bounce_fits now p fact_to d \<and> d' = bounced_effect now p fact_to e d"
  using assms by (auto simp: sql_exec sql_safe bounce_fits_def bounced_effect_def)

lemma exec_review_body [sql_exec]:
  "exec (review_body now wall i who dec c to fact_to act) d r d' \<longleftrightarrow>
     (\<exists>p. promotion_at d i = Some p \<and> reviewable p \<and> r = with_review wall who dec c to p \<and>
        bounce_fits now r fact_to d \<and> d' = bounced_effect now r fact_to (promotion_event who act i to []) d)"
proof (cases "promotion_at d i")
  case None
  then show ?thesis by (simp add: review_body_def Let_def sql_exec sql_safe)
next
  case (Some p)
  let ?q = "with_review wall who dec c to p"
  have "p_id p = i" using tbl_get_Some[OF Some] by simp
  moreover have "exec (review_body now wall i who dec c to fact_to act) d r d' \<longleftrightarrow>
      reviewable p \<and> exec (bind_sql (update_state_and_reviews now (p_id ?q) (p_state ?q) (p_reviews ?q))
         (\<lambda>_. bind_sql (set_status now (p_fact_id ?q) fact_to)
         (\<lambda>_. bind_sql (audit_write now (promotion_event who act (p_id ?q) to [])) (\<lambda>_. return_sql ?q)))) d r d'"
    unfolding review_body_def Let_def
    by (subst exec_bind) (auto simp: exec_get_promotion Some exec_fail reviewable_def with_review_def intro!: sql_safe)
  ultimately show ?thesis
    using exec_bounce[of ?q d] Some by auto
qed

lemma exec_transition_body [sql_exec]:
  assumes "\<And>p q. mutate p = Inr q \<Longrightarrow> p_id q = p_id p"
  shows "exec (transition_body now i who mutate fact_to act) d r d' \<longleftrightarrow>
     (\<exists>p. promotion_at d i = Some p \<and> mutate p = Inr r \<and> bounce_fits now r fact_to d \<and>
        d' = bounced_effect now r fact_to (promotion_event who act i (p_state r) []) d)"
proof (cases "promotion_at d i")
  case None
  then show ?thesis
    unfolding transition_body_def
    by (subst exec_bind) (auto simp: exec_get_promotion intro!: sql_safe split: sum.splits)
next
  case (Some p)
  have i: "p_id p = i" using tbl_get_Some[OF Some] by simp
  have e: "exec (transition_body now i who mutate fact_to act) d r d' \<longleftrightarrow>
      (case mutate p of Inl e \<Rightarrow> False | Inr q \<Rightarrow>
         exec (bind_sql (update_state_and_reviews now (p_id q) (p_state q) (p_reviews q))
         (\<lambda>_. bind_sql (set_status now (p_fact_id q) fact_to)
         (\<lambda>_. bind_sql (audit_write now (promotion_event who act (p_id q) (p_state q) [])) (\<lambda>_. return_sql q)))) d r d')"
    unfolding transition_body_def
    by (subst exec_bind) (auto simp: exec_get_promotion Some exec_fail intro!: sql_safe split: sum.splits)
  show ?thesis
  proof (cases "mutate p")
    case (Inl x)
    then show ?thesis using e Some by simp
  next
    case (Inr q)
    then have "p_id q = i" using assms i by simp
    then show ?thesis
      using e Inr exec_bounce[of q d] Some by auto
  qed
qed

lemma mutate_Inr:
  "submit_mutate who p = Inr q \<longleftrightarrow> (p_state p = StatePending \<or> p_state p = StateChangesRequested) \<and>
     p_proposer p = who \<and> q = p\<lparr>p_state := StateInReview\<rparr>"
  "withdraw_mutate who p = Inr q \<longleftrightarrow> (p_state p = StatePending \<or> p_state p = StateChangesRequested) \<and>
     p_proposer p = who \<and> q = p\<lparr>p_state := StateRejected\<rparr>"
  by (auto simp: submit_mutate_def withdraw_mutate_def)

lemma evolves_bounced:
  assumes "bounce_fits now q fact_to d" and "promotion_at d (p_id q) = Some p"
    and "prefix (p_reviews p) (p_reviews q)"
  shows "evolves d (bounced_effect now q fact_to e d)"
proof -
  let ?u = "row_reviewed now (p_state q) (p_reviews q)"
  have "evolves d (upd_promotion (p_id q) ?u d)"
    using assms by (intro evolves_upd_promotion_at) (auto simp: bounce_fits_def promotion_fixed_reviewed)
  moreover have "evolves (upd_promotion (p_id q) ?u d) (upd_fact (p_fact_id q) (row_status now fact_to) (upd_promotion (p_id q) ?u d))"
    using assms(1) by (intro evolves_upd_fact) (auto simp: bounce_fits_def)
  ultimately show ?thesis
    unfolding bounced_effect_def by (meson evolves_log evolves_trans)
qed

lemma evolves_reviewed:
  assumes "promotions_ok d (promotions_tbl d)" and "promotion_at d (p_id q) = Some p"
    and "prefix (p_reviews p) (p_reviews q)"
  shows "evolves d (reviewed_effect now q e d)"
proof -
  have "evolves d (upd_promotion (p_id q) (row_reviewed now (p_state q) (p_reviews q)) d)"
    using assms by (intro evolves_upd_promotion_at) (auto simp: promotion_fixed_reviewed)
  then show ?thesis unfolding reviewed_effect_def by (meson evolves_log evolves_trans)
qed

lemma approve_body_evolves: "exec (approve_body sv now wall i who c) d r d' \<Longrightarrow> evolves d d'"
proof -
  assume "exec (approve_body sv now wall i who c) d r d'"
  then obtain p where p: "promotion_at d i = Some p" and r: "r = decided wall who c p" and
    eff: "(if has_enough_approvals r
         then activate_fits sv now r who d \<and>
              promotions_ok (activate_effect sv now r who d) (promotions_tbl d) \<and>
              d' = reviewed_effect now r (approved_event who r) (activate_effect sv now r who d)
         else promotions_ok d (promotions_tbl d) \<and> d' = reviewed_effect now r (approved_event who r) d)"
    unfolding exec_approve_body by blast
  have at: "promotion_at d (p_id r) = Some p" using p r tbl_get_Some[OF p] by simp
  have pre: "prefix (p_reviews p) (p_reviews r)" using r decided_reviews_prefix by blast
  show ?thesis
  proof (cases "has_enough_approvals r")
    case True
    then have "evolves d (activate_effect sv now r who d)" using eff evolves_activate by simp
    moreover have "evolves (activate_effect sv now r who d) d'"
      using True eff at pre evolves_reviewed[of "activate_effect sv now r who d" r p] by simp
    ultimately show ?thesis by (rule evolves_trans)
  next
    case False
    then show ?thesis using eff at pre evolves_reviewed[of d r p] by simp
  qed
qed

lemma review_body_evolves: "exec (review_body now wall i who dec c to fact_to act) d r d' \<Longrightarrow> evolves d d'"
  unfolding exec_review_body
proof (elim exE conjE)
  fix p assume a: "promotion_at d i = Some p" "r = with_review wall who dec c to p" "bounce_fits now r fact_to d"
    "d' = bounced_effect now r fact_to (promotion_event who act i to []) d"
  then show "evolves d d'"
    using evolves_bounced[of now r fact_to d p] tbl_get_Some[OF a(1)] by simp
qed

lemma transition_body_evolves:
  assumes "\<And>p q. mutate p = Inr q \<Longrightarrow> p_id q = p_id p \<and> p_reviews q = p_reviews p"
    and "exec (transition_body now i who mutate fact_to act) d r d'"
  shows "evolves d d'"
proof -
  obtain p where a: "promotion_at d i = Some p" "mutate p = Inr r" "bounce_fits now r fact_to d"
    "d' = bounced_effect now r fact_to (promotion_event who act i (p_state r) []) d"
    using assms(2) exec_transition_body[of mutate] assms(1) by auto
  then show ?thesis
    using evolves_bounced[of now r fact_to d p] tbl_get_Some[OF a(1)] assms(1)[OF a(2)] by simp
qed


section \<open>Propose\<close>

definition auto_effect :: "service \<Rightarrow> timestamp \<Rightarrow> promotion \<Rightarrow> auto_promote \<Rightarrow> verdict \<Rightarrow> db \<Rightarrow> db" where
  "auto_effect sv now p ap v d =
     log_event (audit_row now (auto_promoted_event ap v (p_fact_id p)))
       (upd_promotion (p_id p) (row_reviewed now StateApproved (p_reviews p))
         (embed_effect sv (p_fact_id p)
           (upd_fact (p_fact_id p) (row_activate_auto now) (conflict_effect now (''engine:'' @ ap_engine ap) p d))))"

definition auto_fits :: "service \<Rightarrow> timestamp \<Rightarrow> promotion \<Rightarrow> auto_promote \<Rightarrow> db \<Rightarrow> bool" where
  "auto_fits sv now p ap d \<longleftrightarrow>
     (let d1 = conflict_effect now (''engine:'' @ ap_engine ap) p d;
          d2 = upd_fact (p_fact_id p) (row_activate_auto now) d1;
          d3 = embed_effect sv (p_fact_id p) d2
      in conflict_fits now p d \<and> facts_ok d1 (tbl_upd f_id (p_fact_id p) (row_activate_auto now) (facts_tbl d1)) \<and>
         embed_fits sv (p_fact_id p) d2 \<and> promotions_ok d3 (promotions_tbl d3))"

lemma conflict_effect_present:
  "fact_at d j \<noteq> None \<Longrightarrow> fact_at (conflict_effect now who p d) j \<noteq> None"
  by (auto simp: conflict_effect_at supersede_effect_at Let_def split: option.split)

lemma well_behaved_auto_tail [sql_safe]:
  "well_behaved (case r of Inl e \<Rightarrow> return_sql p
     | Inr x \<Rightarrow> bind_sql (attempt (audit_write now ev)) (\<lambda>_. return_sql p'))"
  by (auto intro!: sql_safe split: sum.split)

lemma exec_auto_activate:
  assumes "fact_at d (p_fact_id p) \<noteq> None" and "promotion_at d (p_id p) \<noteq> None"
  shows "exec (auto_activate sv now p ap v) d r d' \<longleftrightarrow>
    auto_fits sv now p ap d \<and> r = p\<lparr>p_state := StateApproved\<rparr> \<and> d' = auto_effect sv now p ap v d"
proof -
  let ?who = "''engine:'' @ ap_engine ap"
  let ?d1 = "conflict_effect now ?who p d"
  let ?d2 = "upd_fact (p_fact_id p) (row_activate_auto now) ?d1"
  let ?d3 = "embed_effect sv (p_fact_id p) ?d2"
  have here: "fact_at ?d1 (p_fact_id p) \<noteq> None" using assms(1) by (rule conflict_effect_present)
  have here': "promotion_at ?d3 (p_id p) \<noteq> None" using assms(2) by simp
  show ?thesis
    unfolding auto_activate_def Let_def
    by (subst exec_bind)
      (use here here' in \<open>auto simp: sql_exec sql_safe split_sum_ex auto_fits_def auto_effect_def Let_def
        intro!: sql_safe split: sum.split\<close>)
qed

definition auto_decision :: "service \<Rightarrow> auto_promote option \<Rightarrow> propose_input \<Rightarrow> (auto_promote \<times> verdict) option" where
  "auto_decision sv apo inp =
     (case (sv_engines sv, apo) of
        (Some reg, Some ap) \<Rightarrow>
          (case registry_evaluate reg (ap_engine ap) (candidate_of inp) (ap_rules ap) of
             (v, err) \<Rightarrow> if ap_engine ap \<noteq> [] \<and> err = None \<and> v_auto_promote v then Some (ap, v) else None)
      | _ \<Rightarrow> None)"

lemma exec_maybe_auto_promote:
  assumes "fact_at d (p_fact_id p) \<noteq> None" and "promotion_at d (p_id p) \<noteq> None"
  shows "exec (maybe_auto_promote sv now p apo inp) d r d' \<longleftrightarrow>
    (case auto_decision sv apo inp of
       None \<Rightarrow> r = p \<and> d' = d
     | Some (ap, v) \<Rightarrow> auto_fits sv now p ap d \<and> r = p\<lparr>p_state := StateApproved\<rparr> \<and> d' = auto_effect sv now p ap v d)"
  by (auto simp: maybe_auto_promote_def auto_decision_def exec_auto_activate[OF assms] exec_return
      split: option.split prod.split)

definition draft_row :: "timestamp \<Rightarrow> uuid \<Rightarrow> propose_input \<Rightarrow> fact_row" where
  "draft_row now nf inp = fact_to_row (new_fact now nf (draft_fact inp))"

definition conflicting :: "propose_input \<Rightarrow> db \<Rightarrow> uuid option" where
  "conflicting inp d = map_option f_id (active_by_key (in_target inp) (canonical_key (in_subject inp)) d)"

text \<open>The rows a proposal adds, for the conflict \<open>c\<close> it has read.\<close>

definition pending_with :: "timestamp \<Rightarrow> uuid \<Rightarrow> uuid \<Rightarrow> propose_input \<Rightarrow> int \<Rightarrow> uuid option \<Rightarrow> promotion" where
  "pending_with now nf np inp req c = new_promotion now np (draft_promotion inp nf req c)"

definition propose_effect_with :: "timestamp \<Rightarrow> uuid \<Rightarrow> uuid \<Rightarrow> propose_input \<Rightarrow> int \<Rightarrow> uuid option \<Rightarrow> db \<Rightarrow> db" where
  "propose_effect_with now nf np inp req c d =
     (let q = pending_with now nf np inp req c
      in log_event (audit_row now (proposed_event inp (canonical_key (in_subject inp)) q))
           (ins_promotion q (ins_fact (draft_row now nf inp) d)))"

definition propose_fits_with :: "timestamp \<Rightarrow> uuid \<Rightarrow> uuid \<Rightarrow> propose_input \<Rightarrow> int \<Rightarrow> uuid option \<Rightarrow> db \<Rightarrow> bool" where
  "propose_fits_with now nf np inp req c d \<longleftrightarrow>
     facts_ok d (tbl_ins (draft_row now nf inp) (facts_tbl d)) \<and>
     promotions_ok (ins_fact (draft_row now nf inp) d)
       (tbl_ins (pending_with now nf np inp req c) (promotions_tbl d))"

abbreviation pending_row :: "timestamp \<Rightarrow> uuid \<Rightarrow> uuid \<Rightarrow> propose_input \<Rightarrow> int \<Rightarrow> db \<Rightarrow> promotion" where
  "pending_row now nf np inp req d \<equiv> pending_with now nf np inp req (conflicting inp d)"

abbreviation propose_effect :: "timestamp \<Rightarrow> uuid \<Rightarrow> uuid \<Rightarrow> propose_input \<Rightarrow> int \<Rightarrow> db \<Rightarrow> db" where
  "propose_effect now nf np inp req d \<equiv> propose_effect_with now nf np inp req (conflicting inp d) d"

abbreviation propose_fits :: "timestamp \<Rightarrow> uuid \<Rightarrow> uuid \<Rightarrow> propose_input \<Rightarrow> int \<Rightarrow> db \<Rightarrow> bool" where
  "propose_fits now nf np inp req d \<equiv> propose_fits_with now nf np inp req (conflicting inp d) d"

lemma draft_row_sel [simp]:
  "f_id (draft_row now nf inp) = nf" "f_namespace_id (draft_row now nf inp) = in_target inp"
  "f_status (draft_row now nf inp) = StatusProposed" "f_tags (draft_row now nf inp) = in_tags inp"
  "f_canonical_key (draft_row now nf inp) = canonical_key (in_subject inp)"
  "f_subject (draft_row now nf inp) = in_subject inp" "f_approved_by (draft_row now nf inp) = []"
  "f_supersedes_id (draft_row now nf inp) = None" "f_superseded_by_id (draft_row now nf inp) = None"
  "f_version (draft_row now nf inp) = 1" "f_created_by (draft_row now nf inp) = in_proposer inp"
  "f_embedding (draft_row now nf inp) = None"
  by (simp_all add: draft_row_def draft_fact_def)

lemma pending_with_sel [simp]:
  "p_id (pending_with now nf np inp req c) = np" "p_fact_id (pending_with now nf np inp req c) = nf"
  "p_state (pending_with now nf np inp req c) = StatePending" "p_reviews (pending_with now nf np inp req c) = []"
  "p_proposer (pending_with now nf np inp req c) = in_proposer inp"
  "p_required_approvals (pending_with now nf np inp req c) = req"
  "p_conflict_with (pending_with now nf np inp req c) = c"
  "p_target_namespace_id (pending_with now nf np inp req c) = in_target inp"
  "p_idempotency_key (pending_with now nf np inp req c) =
     (if in_idempotency_key inp \<noteq> [] then Some (in_idempotency_key inp) else None)"
  by (simp_all add: pending_with_def draft_promotion_def)

lemma propose_effect_sel [simp]:
  "facts_tbl (propose_effect_with now nf np inp req c d) = tbl_ins (draft_row now nf inp) (facts_tbl d)"
  "promotions_tbl (propose_effect_with now nf np inp req c d) = tbl_ins (pending_with now nf np inp req c) (promotions_tbl d)"
  "namespaces_tbl (propose_effect_with now nf np inp req c d) = namespaces_tbl d"
  "memberships_tbl (propose_effect_with now nf np inp req c d) = memberships_tbl d"
  by (simp_all add: propose_effect_with_def Let_def)

lemma propose_fresh_ids:
  assumes "propose_fits_with now nf np inp req c d"
  shows "fact_at d nf = None" "promotion_at d np = None"
    "fact_at (propose_effect_with now nf np inp req c d) nf = Some (draft_row now nf inp)"
    "promotion_at (propose_effect_with now nf np inp req c d) np = Some (pending_with now nf np inp req c)"
proof -
  show f: "fact_at d nf = None" and p: "promotion_at d np = None"
    using assms by (auto simp: propose_fits_with_def facts_ok_def promotions_ok_def tbl_ins_def tbl_get_None)
  show "fact_at (propose_effect_with now nf np inp req c d) nf = Some (draft_row now nf inp)"
    "promotion_at (propose_effect_with now nf np inp req c d) np = Some (pending_with now nf np inp req c)"
    using f p by (simp_all add: tbl_get_ins)
qed

text \<open>The transaction of \<^verbatim>\<open>Propose\<close> once it has read its conflict.\<close>

definition propose_rest ::
    "service \<Rightarrow> timestamp \<Rightarrow> uuid \<Rightarrow> uuid \<Rightarrow> propose_input \<Rightarrow> int \<Rightarrow> auto_promote option \<Rightarrow> uuid option \<Rightarrow> (db, promotion) sql" where
  "propose_rest sv now new_fact_id new_promotion_id inp required apo conflict_with =
     bind_sql (insert_fact now new_fact_id (draft_fact inp))
     (\<lambda>f. bind_sql (insert_promotion now new_promotion_id (draft_promotion inp (f_id f) required conflict_with))
     (\<lambda>p. bind_sql (audit_write now (proposed_event inp (canonical_key (in_subject inp)) p))
     (\<lambda>_. maybe_auto_promote sv now p apo inp)))"

lemma propose_tx_rest:
  "propose_tx sv now nf np inp req apo =
     bind_sql (absent_on ErrFactNotFound (find_active_by_key (in_target inp) (canonical_key (in_subject inp))))
     (\<lambda>existing. propose_rest sv now nf np inp req apo (map_option f_id existing))"
  by (simp add: propose_tx_def propose_rest_def Let_def)

lemma well_behaved_propose_rest [sql_safe]: "well_behaved (propose_rest sv now nf np inp req apo c)"
  unfolding propose_rest_def by (intro sql_safe)

lemma exec_propose_rest [sql_exec]:
  "exec (propose_rest sv now nf np inp req apo c) d r d' \<longleftrightarrow>
     propose_fits_with now nf np inp req c d \<and>
     (let q = pending_with now nf np inp req c; d1 = propose_effect_with now nf np inp req c d in
      case auto_decision sv apo inp of
        None \<Rightarrow> r = q \<and> d' = d1
      | Some (ap, v) \<Rightarrow> auto_fits sv now q ap d1 \<and> r = q\<lparr>p_state := StateApproved\<rparr> \<and> d' = auto_effect sv now q ap v d1)"
proof -
  let ?q = "pending_with now nf np inp req c" and ?d1 = "propose_effect_with now nf np inp req c d"
  have "exec (propose_rest sv now nf np inp req apo c) d r d' \<longleftrightarrow>
      propose_fits_with now nf np inp req c d \<and> exec (maybe_auto_promote sv now ?q apo inp) ?d1 r d'"
    by (auto simp: propose_rest_def sql_exec sql_safe propose_fits_with_def propose_effect_with_def Let_def
        pending_with_def draft_row_def)
  also have "\<dots> \<longleftrightarrow> propose_fits_with now nf np inp req c d \<and>
     (case auto_decision sv apo inp of
        None \<Rightarrow> r = ?q \<and> d' = ?d1
      | Some (ap, v) \<Rightarrow> auto_fits sv now ?q ap ?d1 \<and> r = ?q\<lparr>p_state := StateApproved\<rparr> \<and> d' = auto_effect sv now ?q ap v ?d1)"
  proof (rule conj_cong[OF refl])
    assume f: "propose_fits_with now nf np inp req c d"
    show "exec (maybe_auto_promote sv now ?q apo inp) ?d1 r d' \<longleftrightarrow>
      (case auto_decision sv apo inp of
        None \<Rightarrow> r = ?q \<and> d' = ?d1
      | Some (ap, v) \<Rightarrow> auto_fits sv now ?q ap ?d1 \<and> r = ?q\<lparr>p_state := StateApproved\<rparr> \<and> d' = auto_effect sv now ?q ap v ?d1)"
      using propose_fresh_ids[OF f] by (intro exec_maybe_auto_promote) simp_all
  qed
  finally show ?thesis by (simp add: Let_def)
qed

lemma exec_propose_conflict:
  "exec (propose_tx sv now nf np inp req apo) d r d' \<longleftrightarrow>
     exec (propose_rest sv now nf np inp req apo (conflicting inp d)) d r d'"
proof -
  have "map_option f_id (map_option fact.truncate x) = map_option f_id x" for x :: "fact_row option"
    by (simp add: option.map_comp comp_def)
  then show ?thesis
    unfolding propose_tx_rest conflicting_def
    by (subst exec_bind) (auto simp: exec_absent_find_active sql_safe intro!: sql_safe)
qed

lemma exec_propose_tx [sql_exec]:
  "exec (propose_tx sv now nf np inp req apo) d r d' \<longleftrightarrow>
     propose_fits now nf np inp req d \<and>
     (let q = pending_row now nf np inp req d; d1 = propose_effect now nf np inp req d in
      case auto_decision sv apo inp of
        None \<Rightarrow> r = q \<and> d' = d1
      | Some (ap, v) \<Rightarrow> auto_fits sv now q ap d1 \<and> r = q\<lparr>p_state := StateApproved\<rparr> \<and> d' = auto_effect sv now q ap v d1)"
  unfolding exec_propose_conflict exec_propose_rest ..

lemma evolves_propose: "propose_fits_with now nf np inp req c d \<Longrightarrow> evolves d (propose_effect_with now nf np inp req c d)"
  unfolding propose_fits_with_def propose_effect_with_def Let_def
  by (rule evolves_trans[OF evolves_trans[OF evolves_ins_fact evolves_ins_promotion] evolves_log]) simp_all

lemma evolves_auto:
  assumes "auto_fits sv now p ap d" and "promotion_at d (p_id p) = Some q" and "prefix (p_reviews q) (p_reviews p)"
  shows "evolves d (auto_effect sv now p ap v d)"
proof -
  let ?d1 = "conflict_effect now (''engine:'' @ ap_engine ap) p d"
  let ?d2 = "upd_fact (p_fact_id p) (row_activate_auto now) ?d1"
  let ?d3 = "embed_effect sv (p_fact_id p) ?d2"
  have "evolves d ?d3"
    using assms(1) unfolding auto_fits_def Let_def
    by (elim conjE) (rule evolves_trans[OF evolves_trans[OF evolves_conflict evolves_upd_fact] evolves_embed], simp_all)
  moreover have "evolves ?d3 (upd_promotion (p_id p) (row_reviewed now StateApproved (p_reviews p)) ?d3)"
    using assms by (intro evolves_upd_promotion_at) (auto simp: auto_fits_def Let_def promotion_fixed_reviewed)
  ultimately show ?thesis
    unfolding auto_effect_def by (meson evolves_log evolves_trans)
qed

lemma propose_rest_evolves: "exec (propose_rest sv now nf np inp req apo c) d r d' \<Longrightarrow> evolves d d'"
proof -
  assume e: "exec (propose_rest sv now nf np inp req apo c) d r d'"
  then have f: "propose_fits_with now nf np inp req c d" by (simp add: exec_propose_rest)
  note ids = propose_fresh_ids[OF f]
  show ?thesis
    using e evolves_propose[OF f]
      evolves_auto[of sv now "pending_with now nf np inp req c" _ "propose_effect_with now nf np inp req c d"] ids(4)
    by (auto simp: exec_propose_rest Let_def intro: evolves_trans split: option.splits)
qed

lemma propose_tx_evolves: "exec (propose_tx sv now nf np inp req apo) d r d' \<Longrightarrow> evolves d d'"
  by (auto simp: exec_propose_conflict intro: propose_rest_evolves)

end
