(* ===== verification/Fact_Specs.thy ===== *)
theory Fact_Specs
  imports Samples
begin

text \<open>
  What the fact service promises: revocation under optimistic concurrency, listing inside the
  caller's namespaces, and the embedding backfill.
\<close>

section \<open>Revocation\<close>

definition revoked_event :: "timestamp \<Rightarrow> uuid \<Rightarrow> principal_id \<Rightarrow> audit_event" where
  "revoked_event now i who = audit_row now \<lparr>e_principal = who, e_action = ''fact.revoked'',
     e_subject_type = ''fact'', e_subject_id = i, e_from_state = status_str StatusActive,
     e_to_state = status_str StatusRevoked, e_detail = []\<rparr>"

definition revoked_store :: "timestamp \<Rightarrow> uuid \<Rightarrow> principal_id \<Rightarrow> db \<Rightarrow> db" where
  "revoked_store now i who d = log_event (revoked_event now i who) (upd_fact i (row_status now StatusRevoked) d)"

text \<open>The contract of \<^verbatim>\<open>Revoke\<close>: which answer each state of the fact gets.\<close>

definition revoke_answer :: "timestamp \<Rightarrow> uuid \<Rightarrow> int \<Rightarrow> principal_id \<Rightarrow> db \<Rightarrow> (error + unit) \<times> db" where
  "revoke_answer now i v who d =
     (case fact_at d i of
        None \<Rightarrow> (Inl ErrFactNotFound, d)
      | Some f \<Rightarrow>
          if f_status f \<noteq> StatusActive then (Inl (ErrCannotRevoke (f_status f)), d)
          else if f_version f \<noteq> v then (Inl ErrVersionConflict, d)
          else (Inr (), revoked_store now i who d))"

lemma update_facts_guarded:
  assumes "facts_ok d (facts_tbl d)" and "fact_at d i = Some f"
  shows "update_facts (\<lambda>g. f_id g = i \<and> P g) u d =
    (if P f then (if facts_ok d (tbl_upd f_id i u (facts_tbl d)) then Inr (1, upd_fact i u d) else Inl ErrConstraint)
     else Inr (0, d))"
  using guarded_upd[OF facts_ok_ids[OF assms(1)] assms(2), of P] assms(1)
  by (simp add: update_facts_def put_facts_def upd_fact_def)

lemma update_facts_none:
  assumes "facts_ok d (facts_tbl d)" and "fact_at d i = None"
  shows "update_facts (\<lambda>g. f_id g = i \<and> P g) u d = Inr (0, d)"
proof -
  have "map (\<lambda>g. if f_id g = i \<and> P g then u g else g) (facts_tbl d) = facts_tbl d"
    "filter (\<lambda>g. f_id g = i \<and> P g) (facts_tbl d) = []"
    using assms(2) by (auto simp: tbl_get_None filter_empty_conv intro!: map_idI)
  with assms(1) show ?thesis by (simp add: update_facts_def put_facts_def)
qed

lemma revoke_run:
  assumes "schema_ok d" and "int4_min \<le> v" and "v < int4_max"
  shows "run (revoke_fact now i v who) [] d = revoke_answer now i v who d"
proof -
  have ok: "facts_ok d (facts_tbl d)" using assms(1) by (simp add: schema_ok_def)
  have v: "\<not> v < int4_min" "\<not> int4_max < v" using assms(2,3) by simp_all
  show ?thesis
  proof (cases "fact_at d i")
    case None
    then show ?thesis
      by (simp add: revoke_answer_def revoke_fact_def revoke_body_def revoke_with_version_def sql_run v
          update_facts_none[OF ok None] get_fact_def)
  next
    case (Some f)
    then have "revocable d i v \<longleftrightarrow> f_status f = StatusActive \<and> f_version f = v"
      by (auto simp: revocable_def)
    then show ?thesis
      using Some revocable_facts_ok[OF ok _ assms(3), of i now]
      by (auto simp: revoke_answer_def revoke_fact_def revoke_body_def revoke_with_version_def sql_run v
          update_facts_guarded[OF ok Some] get_fact_def revoked_store_def revoked_event_def log_event_def)
  qed
qed

lemma revoke_all_or_nothing [sql_safe]: "all_or_nothing (revoke_fact now i v who)"
  unfolding revoke_fact_def by (intro sql_safe)

text \<open>
  C27. Revoking a fact is atomic and guarded by its version, whatever statements fail: an error leaves the
  store as it was; a success is the clean answer, and that answer is given exactly to the active fact at
  the expected version, which becomes revoked with one audit event, so a second revoke with the same
  version is refused.
\<close>

theorem revoke_optimistic:
  assumes "schema_ok d" and "int4_min \<le> v" and "v < int4_max"
    and "run (revoke_fact now i v who) fs d = (r, d')"
  shows "run (revoke_fact now i v who) [] d = revoke_answer now i v who d \<and>
    (case r of
       Inl e \<Rightarrow> d' = d
     | Inr _ \<Rightarrow> revoke_answer now i v who d = (r, d') \<and> revocable d i v \<and>
         isl (fst (run (revoke_fact now' i v who') fs' d')))"
proof (cases r)
  case (Inl e)
  then show ?thesis
    using revoke_run[OF assms(1-3)] all_or_nothing_error[OF revoke_all_or_nothing] assms(4) by simp
next
  case (Inr u)
  then have r: "revoke_answer now i v who d = (r, d')"
    using all_or_nothing_success[OF revoke_all_or_nothing, of now i v who fs d u d'] assms(4)
      revoke_run[OF assms(1-3), of now i who] by simp
  then have g: "revocable d i v" "d' = revoked_store now i who d"
    using Inr by (auto simp: revoke_answer_def revocable_def split: option.splits if_splits)
  have "\<not> revocable d' i v"
    unfolding g(2) by (auto simp: revocable_def revoked_store_def tbl_get_upd split: option.splits)
  then have "isl (fst (run (revoke_fact now' i v who') fs' d'))"
    using run_in_tx_Inr[OF well_behaved_revoke_body, of now' i v who' fs' d']
    by (cases "run (revoke_fact now' i v who') fs' d'"; cases "fst (run (revoke_fact now' i v who') fs' d')")
      (auto simp: revoke_fact_def exec_revoke_body)
  with Inr r g revoke_run[OF assms(1-3)] show ?thesis by simp
qed

definition active_db :: db where
  "active_db = sample_db [sample_fact 7 1 ''use go'' StatusActive [] None] []"

lemma active_db_ok: "schema_ok active_db"
  by (simp add: active_db_def sample_eval)

theorem revoke_optimistic_witness:
  "run (revoke_fact 5 7 1 ''ann'') [] active_db = (Inr (), revoked_store 5 7 ''ann'' active_db) \<and>
   isl (fst (run (revoke_fact 6 7 1 ''bob'') [] (revoked_store 5 7 ''ann'' active_db)))"
proof -
  have v: "int4_min \<le> 1" "1 < int4_max" by (simp_all add: int4_min_def int4_max_def)
  have a: "revoke_answer 5 7 1 ''ann'' active_db = (Inr (), revoked_store 5 7 ''ann'' active_db)"
    by (simp add: revoke_answer_def active_db_def tbl_get_def)
  then have r: "run (revoke_fact 5 7 1 ''ann'') [] active_db = (Inr (), revoked_store 5 7 ''ann'' active_db)"
    using revoke_run[OF active_db_ok v, of 5 7 "''ann''"] by (simp only:)
  show ?thesis
    using revoke_optimistic[OF active_db_ok v r, of 6 "''bob''" "[]"] unfolding sum.case
    by (intro conjI r) blast
qed


section \<open>Listing\<close>

lemma list_facts_Inr:
  assumes "run (list_facts plan dist q) fs d = (Inr out, d')"
  shows "d' = d \<and> out = map fact.truncate (limited (lf_limit q) (list_order dist q (filter (list_where q) (plan (facts_tbl d)))))"
  using assms by (auto simp: run_def list_facts_def stmt_def Let_def split: prod.splits bool.splits if_splits)

lemma mset_list_order [simp]: "mset (list_order dist q rows) = mset rows"
  by (auto simp: list_order_def multiset_partition[symmetric] split: option.split)

lemma set_list_order [simp]: "set (list_order dist q rows) = set rows"
  by (metis mset_list_order set_mset_mset)

lemma set_limited: "set (limited n xs) \<subseteq> set xs"
  by (auto simp: limited_def dest: in_set_takeD)

lemma length_limited: "n > 0 \<Longrightarrow> length (limited n xs) \<le> nat n"
  by (simp add: limited_def)

definition readable_only :: "uuid list \<Rightarrow> list_filter \<Rightarrow> bool" where
  "readable_only ns q \<longleftrightarrow> lf_namespaces q = Some ns"

text \<open>
  Listing never reaches outside the namespaces it is restricted to: every fact returned is a stored
  fact of one of them that meets every other clause of the filter, with or without a query vector; the
  store is only read, and a positive limit bounds the answer.
\<close>

lemma list_scoped:
  assumes "run (list_facts plan dist q) fs d = (Inr out, d')" and "\<And>t. mset (plan t) = mset t"
    and "readable_only ns q"
  shows "d' = d \<and> (\<forall>f \<in> set out. f_namespace_id f \<in> set ns) \<and>
    (\<forall>f \<in> set out. \<exists>r \<in> set (facts_tbl d). f = fact.truncate r \<and> list_where q r) \<and>
    (lf_limit q > 0 \<longrightarrow> int (length out) \<le> lf_limit q)"
proof -
  let ?rows = "filter (list_where q) (plan (facts_tbl d))"
  have out: "d' = d" "out = map fact.truncate (limited (lf_limit q) (list_order dist q ?rows))"
    using list_facts_Inr[OF assms(1)] by simp_all
  have "set ?rows = {r \<in> set (facts_tbl d). list_where q r}"
    using assms(2)[of "facts_tbl d"] by (auto dest: mset_eq_setD)
  then have sub: "set (limited (lf_limit q) (list_order dist q ?rows)) \<subseteq> {r \<in> set (facts_tbl d). list_where q r}"
    using set_limited by fastforce
  then have "\<forall>f \<in> set out. \<exists>r \<in> set (facts_tbl d). f = fact.truncate r \<and> list_where q r"
    unfolding out(2) by auto
  moreover from this have "\<forall>f \<in> set out. f_namespace_id f \<in> set ns"
    using assms(3) by (auto simp: list_where_def opt_holds_def readable_only_def)
  moreover have "lf_limit q > 0 \<longrightarrow> int (length out) \<le> lf_limit q"
    by (auto simp: out(2) limited_def min_def)
  ultimately show ?thesis using out(1) by blast
qed

definition plain_filter :: "uuid list \<Rightarrow> vec option \<Rightarrow> int \<Rightarrow> list_filter" where
  "plain_filter ns v lim = \<lparr>lf_namespaces = Some ns, lf_status = None, lf_canonical_key = None, lf_tag = None,
     lf_tags = [], lf_text = None, lf_query_vec = v, lf_limit = lim\<rparr>"

definition two_teams_db :: db where
  "two_teams_db = sample_db [sample_fact 7 1 ''use go'' StatusActive [] None, sample_fact 8 2 ''use js'' StatusActive [] None] []"

lemma list_scoped_applied:
  "\<exists>out. run (list_facts (\<lambda>t. t) (\<lambda>_ _. 0) (plain_filter [1] None 0)) [] two_teams_db = (Inr out, two_teams_db) \<and>
     map f_id out = [7] \<and> f_namespace_id (hd out) \<in> set [1]"
proof -
  have r: "run (list_facts (\<lambda>t. t) (\<lambda>_ _. 0) (plain_filter [1] None 0)) [] two_teams_db =
     (Inr [fact.truncate (sample_fact 7 1 ''use go'' StatusActive [] None)], two_teams_db)"
    by (simp add: list_facts_def sql_run two_teams_db_def plain_filter_def list_where_def opt_holds_def
        list_order_def limited_def dims_differ_def)
  have "\<forall>f \<in> set [fact.truncate (sample_fact 7 1 ''use go'' StatusActive [] None)]. f_namespace_id f \<in> set [1]"
    using list_scoped[OF r, of "[1]"] unfolding readable_only_def by (simp add: plain_filter_def)
  with r show ?thesis by simp
qed

text \<open>
  A query vector changes the order of a listing and nothing else: without a limit, the semantic
  listing and the unsearched listing of the same filter return the same facts, the unembedded ones
  after every embedded one.
\<close>

lemma semantic_reorders:
  assumes "run (list_facts plan dist (q\<lparr>lf_query_vec := Some v\<rparr>)) fs d = (Inr out, d')"
    and "run (list_facts plan' dist (q\<lparr>lf_query_vec := None, lf_text := None\<rparr>)) fs' d = (Inr out', d'')"
    and "\<And>t. mset (plan t) = mset t" and "\<And>t. mset (plan' t) = mset t" and "lf_limit q \<le> 0"
  shows "mset out = mset out' \<and>
    (\<exists>(near :: fact_row list) far. out = map fact.truncate (near @ far) \<and> list_all (\<lambda>f. f_embedding f \<noteq> None) near \<and>
       list_all (\<lambda>f. f_embedding f = None) far \<and>
       sorted (map (\<lambda>f. dist v (the (f_embedding f))) near))"
proof -
  let ?q = "q\<lparr>lf_query_vec := Some v\<rparr>" and ?plain = "q\<lparr>lf_query_vec := None, lf_text := None\<rparr>"
  let ?rows = "filter (list_where ?q) (plan (facts_tbl d))"
  have w: "list_where ?plain = list_where ?q"
    by (simp add: list_where_def fun_eq_iff opt_holds_def)
  have lim: "limited (lf_limit q) xs = xs" for xs :: "fact_row list"
    using assms(5) by (simp add: limited_def)
  have out: "out = map fact.truncate (list_order dist ?q ?rows)"
    using list_facts_Inr[OF assms(1)] lim by simp
  have out': "out' = map fact.truncate (list_order dist ?plain (filter (list_where ?q) (plan' (facts_tbl d))))"
    using list_facts_Inr[OF assms(2)] lim unfolding w by simp
  have "mset out = mset out'"
    unfolding out out' mset_map mset_list_order mset_filter using assms(3,4) by simp
  moreover
  let ?near = "sort_key (\<lambda>f. dist v (the (f_embedding f))) (filter (\<lambda>f. f_embedding f \<noteq> None) ?rows)"
  let ?far = "filter (\<lambda>f. f_embedding f = None) ?rows"
  have "out = map fact.truncate (?near @ ?far)"
    by (simp add: out list_order_def)
  moreover have "list_all (\<lambda>f. f_embedding f \<noteq> None) ?near" "list_all (\<lambda>f. f_embedding f = None) ?far"
    by (simp_all add: list_all_iff)
  moreover have "sorted (map (\<lambda>f. dist v (the (f_embedding f))) ?near)"
    by (rule sorted_sort_key)
  ultimately show ?thesis by (intro conjI exI[of _ ?near] exI[of _ ?far])
qed

definition near_fact :: fact_row where
  "near_fact = sample_fact 7 1 ''use go'' StatusActive [] (Some [3])"

definition far_fact :: fact_row where
  "far_fact = sample_fact 8 1 ''use js'' StatusActive [] None"

lemma semantic_reorders_applied:
  "mset [fact.truncate near_fact, fact.truncate far_fact] = mset [fact.truncate far_fact, fact.truncate near_fact]"
proof -
  let ?d = "sample_db [near_fact, far_fact] []"
  let ?q = "plain_filter [1] None 0"
  have r: "run (list_facts (\<lambda>t. t) (\<lambda>_ _. 0) (?q\<lparr>lf_query_vec := Some [4]\<rparr>)) [] ?d =
      (Inr [fact.truncate near_fact, fact.truncate far_fact], ?d)"
    "run (list_facts rev (\<lambda>_ _. 0) (?q\<lparr>lf_query_vec := None, lf_text := None\<rparr>)) [] ?d =
      (Inr [fact.truncate far_fact, fact.truncate near_fact], ?d)"
    by (simp_all add: list_facts_def sql_run plain_filter_def list_where_def opt_holds_def
        list_order_def limited_def dims_differ_def near_fact_def far_fact_def)
  have lim: "lf_limit ?q \<le> 0" by (simp add: plain_filter_def)
  show ?thesis
    by (rule conjunct1[OF semantic_reorders[OF r _ _ lim]]) simp_all
qed

section \<open>Text search\<close>

lemma like_percent_all: "like [CHR ''%''] s"
  by (induction s) simp_all

definition plain_text :: "string \<Rightarrow> bool" where
  "plain_text t \<longleftrightarrow> CHR ''%'' \<notin> set t \<and> CHR ''_'' \<notin> set t \<and> CHR 0x5C \<notin> set t"

lemma like_plain_prefix: "plain_text t \<Longrightarrow> like (t @ [CHR ''%'']) s \<longleftrightarrow> prefix t s"
proof (induction t arbitrary: s)
  case Nil
  then show ?case using like_percent_all by simp
next
  case (Cons c t)
  then have "plain_text t" "c \<noteq> CHR ''%''" "c \<noteq> CHR ''_''" "c \<noteq> CHR 0x5C" by (auto simp: plain_text_def)
  with Cons.IH show ?case by (cases s) auto
qed

lemma like_plain_sublist: "plain_text t \<Longrightarrow> like (CHR ''%'' # t @ [CHR ''%'']) s \<longleftrightarrow> sublist t s"
proof (induction s)
  case Nil
  then show ?case by (cases t) (auto simp: plain_text_def)
next
  case (Cons x s)
  then show ?case using like_plain_prefix[OF Cons.prems, of "x # s"] by (simp add: sublist_Cons_right)
qed

lemma lower_byte_wild: "x \<in> {CHR ''%'', CHR ''_'', CHR 0x5C} \<Longrightarrow> lower_byte c = x \<longleftrightarrow> c = x"
proof -
  assume x: "x \<in> {CHR ''%'', CHR ''_'', CHR 0x5C}"
  let ?n = "of_char :: char \<Rightarrow> nat"
  have up: "?n (char_of (?n c + 32)) = ?n c + 32" if "?n c \<le> 90" using that by simp
  have "?n x \<in> {37, 95, 92}" using x by auto
  then have "char_of (?n c + 32) \<noteq> x" "c \<noteq> x" if "65 \<le> ?n c" "?n c \<le> 90"
    using up that by auto
  then show ?thesis by (auto simp: lower_byte_def Let_def)
qed

lemma plain_text_lower [simp]: "plain_text (to_lower t) \<longleftrightarrow> plain_text t"
proof -
  have "x \<in> set (map lower_byte t) \<longleftrightarrow> x \<in> set t" if "x \<in> {CHR ''%'', CHR ''_'', CHR 0x5C}" for x
    using lower_byte_wild[OF that] by force
  then show ?thesis by (simp add: plain_text_def to_lower_def)
qed

text \<open>
  The \<^verbatim>\<open>q\<close> search: for a text without \<open>%\<close>, \<open>_\<close> and \<open>\\<close> a listing with text and no vector returns
  exactly the facts of the unsearched listing whose statement contains the text, ignoring case.
\<close>

lemma text_search_substring:
  assumes "plain_text t"
  shows "list_where (q\<lparr>lf_query_vec := None, lf_text := Some t\<rparr>) f \<longleftrightarrow>
    list_where (q\<lparr>lf_query_vec := None, lf_text := None\<rparr>) f \<and> sublist (to_lower t) (to_lower (f_statement f))"
proof -
  have "to_lower (''%'' @ t @ ''%'') = CHR ''%'' # to_lower t @ [CHR ''%'']"
    using lower_byte_wild[of "CHR ''%''" "CHR ''%''"] by (simp add: to_lower_def)
  then have "ilike (''%'' @ t @ ''%'') s \<longleftrightarrow> sublist (to_lower t) (to_lower s)" for s
    using assms by (simp only: ilike_def like_plain_sublist plain_text_lower)
  then show ?thesis by (auto simp: list_where_def opt_holds_def)
qed

lemma text_search_substring_applied:
  "list_where (plain_filter [1] None 0\<lparr>lf_query_vec := None, lf_text := Some ''GO''\<rparr>) near_fact"
proof -
  have "list_where (plain_filter [1] None 0\<lparr>lf_query_vec := None, lf_text := None\<rparr>) near_fact"
    by (simp add: list_where_def opt_holds_def plain_filter_def near_fact_def)
  moreover have "sublist (to_lower ''GO'') (to_lower (f_statement near_fact))"
    unfolding near_fact_def sample_fact_sel by code_simp
  ultimately show ?thesis
    using text_search_substring[of "''GO''" "plain_filter [1] None 0" near_fact] by (simp add: plain_text_def)
qed

text \<open>A text with a wildcard is a pattern, not a substring.\<close>

lemma text_search_wildcard:
  "ilike (''%'' @ ''_'' @ ''%'') ''x'' \<and> \<not> sublist ''_'' ''x''"
  by (simp add: ilike_def to_lower_def lower_byte_def sublist_Cons_right)

end
