(* ===== verification/Backfill.thy ===== *)
theory Backfill
  imports Fact_Specs
begin

text \<open>
  The embedding backfill (\<^verbatim>\<open>internal/facts/backfill.go\<close>) under any pattern of faults: its counters, what it
  may touch, and that a pass without faults leaves nothing to do.
\<close>

section \<open>What a pass may touch\<close>

definition embeds_only :: "uuid set \<Rightarrow> db \<Rightarrow> db \<Rightarrow> bool" where
  "embeds_only W d d' \<longleftrightarrow>
     d' = d\<lparr>facts_tbl := facts_tbl d'\<rparr> \<and>
     list_all2 (\<lambda>f g. g = f \<or> f_id f \<in> W \<and> (\<exists>v. g = row_embed v f)) (facts_tbl d) (facts_tbl d')"

lemma embeds_only_refl [simp]: "embeds_only W d d"
  by (simp add: embeds_only_def list_all2_same)

lemma embeds_only_upd: "i \<in> W \<Longrightarrow> embeds_only W d (upd_fact i (row_embed v) d)"
  by (auto simp: embeds_only_def upd_fact_def tbl_upd_def list_all2_map2 intro!: list_all2_refl)

lemma embeds_only_trans:
  assumes "embeds_only W d d'" and "embeds_only W d' d''"
  shows "embeds_only W d d''"
proof -
  define R where "R = (\<lambda>f g. g = f \<or> f_id f \<in> W \<and> (\<exists>v. g = row_embed v f))"
  have "row_embed v (row_embed w f) = row_embed v f" for v w f by (simp add: row_embed_def)
  then have tr: "R f g \<Longrightarrow> R g h \<Longrightarrow> R f h" for f g h by (auto simp: R_def)
  have "list_all2 R (facts_tbl d) (facts_tbl d')" "list_all2 R (facts_tbl d') (facts_tbl d'')"
    using assms by (simp_all only: embeds_only_def R_def)
  then have "list_all2 R (facts_tbl d) (facts_tbl d'')"
    by (rule list_all2_trans[of R R R, rotated]) (blast intro: tr)
  moreover have "d'' = d\<lparr>facts_tbl := facts_tbl d''\<rparr>"
    using assms unfolding embeds_only_def by (metis db.surjective db.update_convs(2))
  ultimately show ?thesis by (simp only: embeds_only_def R_def)
qed

lemma embeds_only_mono: "W \<subseteq> V \<Longrightarrow> embeds_only W d d' \<Longrightarrow> embeds_only V d d'"
  unfolding embeds_only_def by (auto elim!: list_all2_mono)

section \<open>One step and the loop\<close>

lemma set_embedding_step:
  assumes "\<not> aborted s" and "attempt (on_pool (set_embedding i v)) s = (r, s')"
  shows "\<exists>x. r = Inr x \<and> \<not> aborted s' \<and>
    (store s' = store s \<or> store s' = upd_fact i (row_embed v) (store s))"
  using assms
  by (auto simp: attempt_def on_pool_def set_embedding_def stmt_def update_facts_def put_facts_def upd_fact_def
      tbl_upd_def split: prod.splits bool.splits if_splits sum.splits)

lemma backfill_loop_spec:
  assumes "\<not> aborted s" and "backfill_loop em work res s = (r, s')"
  shows "\<not> aborted s' \<and> embeds_only (fst ` set work) (store s) (store s') \<and>
    (\<exists>res'. r = Inr res' \<and> scanned res' = scanned res \<and>
       embedded res' + failed res' = embedded res + failed res + length work)"
  using assms
proof (induction em work res arbitrary: s r s' rule: backfill_loop.induct)
  case (1 em res)
  then show ?case by (auto simp: return_sql_def)
next
  case (2 em i tx work res)
  show ?case
  proof (cases "em tx")
    case (Inl e)
    then have "backfill_loop em work (res\<lparr>failed := failed res + 1\<rparr>) s = (r, s')" using "2.prems"(2) by simp
    from "2.IH"(1)[OF Inl "2.prems"(1) this] show ?thesis
      by (auto intro: embeds_only_mono[rotated])
  next
    case (Inr v)
    obtain r1 s1 where a: "attempt (on_pool (set_embedding i v)) s = (r1, s1)" by fastforce
    then obtain x where x: "r1 = Inr x" "\<not> aborted s1"
      and st: "store s1 = store s \<or> store s1 = upd_fact i (row_embed v) (store s)"
      using set_embedding_step[OF "2.prems"(1)] by blast
    have e1: "embeds_only (fst ` set ((i, tx) # work)) (store s) (store s1)"
      using st by (auto intro: embeds_only_upd)
    show ?thesis
    proof (cases x)
      case Failed: (Inl e)
      then have "backfill_loop em work (res\<lparr>failed := failed res + 1\<rparr>) s1 = (r, s')"
        using "2.prems"(2) Inr a x by (simp add: bind_sql_def)
      from "2.IH"(2)[OF Inr x(2) this] show ?thesis
        using e1 by (auto intro: embeds_only_trans embeds_only_mono[rotated])
    next
      case Done: (Inr n)
      then have "backfill_loop em work (res\<lparr>embedded := embedded res + 1\<rparr>) s1 = (r, s')"
        using "2.prems"(2) Inr a x by (simp add: bind_sql_def)
      from "2.IH"(3)[OF Inr x(2) this] show ?thesis
        using e1 by (auto intro: embeds_only_trans embeds_only_mono[rotated])
    qed
  qed
qed

lemma todo_ids:
  "set (map f_id (filter backfill_todo t)) = {i. \<exists>f \<in> set t. backfill_todo f \<and> f_id f = i}"
  by auto

text \<open>
  A backfill pass, under any faults and any embedder, counts every active fact without an embedding
  exactly once as embedded or failed, and touches nothing but the embeddings of those facts: every
  other column, every fact outside the work list and every other table is as before.
\<close>

lemma backfill_counts:
  assumes "run (backfill_embeddings plan em) fs d = (Inr res, d')" and "\<And>t. mset (plan t) = mset t"
  shows "scanned res = embedded res + failed res \<and>
    scanned res = length (filter backfill_todo (facts_tbl d)) \<and>
    embeds_only {f_id f |f. f \<in> set (facts_tbl d) \<and> backfill_todo f} d d'"
proof -
  let ?work = "map (\<lambda>f. (f_id f, embed_text (f_subject f) (f_statement f))) (filter backfill_todo (plan (facts_tbl d)))"
  let ?s = "\<lparr>store = d, aborted = False, faults = fs\<rparr>"
  let ?q = "on_pool (query (\<lambda>d. map (\<lambda>f. (f_id f, embed_text (f_subject f) (f_statement f)))
         (filter backfill_todo (plan (facts_tbl d)))))"
  obtain s1 where q: "?q ?s = (Inr ?work, s1)" "\<not> aborted s1" "store s1 = d"
    using assms(1) by (cases "pop_fault fs")
      (auto simp: run_def backfill_embeddings_def bind_sql_def on_pool_def query_def stmt_def split: bool.splits)
  obtain r s' where l: "backfill_loop em ?work \<lparr>scanned = length ?work, embedded = 0, failed = 0\<rparr> s1 = (r, s')"
    by fastforce
  have rd: "r = Inr res" "store s' = d'"
    using assms(1) q l by (auto simp: run_def backfill_embeddings_def bind_sql_def)
  have pl: "set (plan (facts_tbl d)) = set (facts_tbl d)"
    using assms(2) mset_eq_setD by blast
  have "fst ` set ?work = {f_id f |f. f \<in> set (facts_tbl d) \<and> backfill_todo f}"
    unfolding set_map image_image set_filter pl by auto
  moreover have "length (filter backfill_todo (plan (facts_tbl d))) = length (filter backfill_todo (facts_tbl d))"
    by (metis assms(2) mset_filter size_mset)
  ultimately show ?thesis
    using backfill_loop_spec[OF q(2) l] rd q(3) by auto
qed

section \<open>A pass without faults\<close>

definition embed_all :: "embedder \<Rightarrow> (uuid \<times> string) list \<Rightarrow> db \<Rightarrow> db" where
  "embed_all em work d =
     fold (\<lambda>(i, tx) d. case em tx of Inl _ \<Rightarrow> d | Inr v \<Rightarrow> upd_fact i (row_embed v) d) work d"

definition embeds_well :: "embedder \<Rightarrow> bool" where
  "embeds_well em \<longleftrightarrow> (\<forall>tx. case em tx of Inl _ \<Rightarrow> False | Inr v \<Rightarrow> length v = embedding_dims)"

lemma embeds_well_Inr: "embeds_well em \<Longrightarrow> \<exists>v. em tx = Inr v \<and> length v = embedding_dims"
  unfolding embeds_well_def by (cases "em tx") (auto dest: spec[of _ tx])

lemma facts_ok_embed:
  assumes "facts_ok d (facts_tbl d)" and "length v = embedding_dims"
  shows "facts_ok d (tbl_upd f_id i (row_embed v) (facts_tbl d))"
proof (cases "fact_at d i")
  case None
  then have "tbl_upd f_id i (row_embed v) (facts_tbl d) = facts_tbl d"
    by (auto simp: tbl_upd_def tbl_get_None intro!: map_idI)
  with assms show ?thesis by simp
next
  case (Some f)
  note f = tbl_get_Some[OF Some]
  note row = facts_ok_row[OF assms(1) conjunct1[OF f]]
  show ?thesis
  proof (rule facts_ok_upd[OF assms(1) Some])
    show "\<forall>g \<in> set (facts_tbl d). f_status g = StatusActive \<longrightarrow> f_id g \<noteq> i \<longrightarrow>
        f_namespace_id g = f_namespace_id f \<longrightarrow> f_canonical_key g \<noteq> f_canonical_key (row_embed v f)"
      if "f_status (row_embed v f) = StatusActive"
      using that active_unique[OF facts_ok_active[OF assms(1)], of _ f] f by auto
  qed (use row assms(2) in simp_all)
qed

lemma facts_ok_same_ns: "facts_ok (upd_fact i u d) = facts_ok d"
  by (simp add: facts_ok_def fun_eq_iff)

lemma backfill_loop_clean:
  assumes "facts_ok d (facts_tbl d)" and "embeds_well em"
  shows "backfill_loop em work res \<lparr>store = d, aborted = False, faults = []\<rparr> =
    (Inr (res\<lparr>embedded := embedded res + length work\<rparr>), \<lparr>store = embed_all em work d, aborted = False, faults = []\<rparr>)"
  using assms(1)
proof (induction work arbitrary: d res)
  case Nil
  then show ?case by (simp add: sql_run embed_all_def)
next
  case (Cons w work)
  obtain i tx where w: "w = (i, tx)" by fastforce
  obtain v where v: "em tx = Inr v" "length v = embedding_dims"
    using embeds_well_Inr assms(2) by blast
  have ok: "facts_ok d (tbl_upd f_id i (row_embed v) (facts_tbl d))"
    by (rule facts_ok_embed[OF Cons.prems v(2)])
  then have "set_embedding i v \<lparr>store = d, aborted = False, faults = []\<rparr> =
      (Inr (length (filter (\<lambda>f. f_id f = i) (facts_tbl d))),
       \<lparr>store = upd_fact i (row_embed v) d, aborted = False, faults = []\<rparr>)"
    using exec_set_embedding[of i v d _ "upd_fact i (row_embed v) d"] by (simp add: exec_def)
  moreover have "facts_ok (upd_fact i (row_embed v) d) (facts_tbl (upd_fact i (row_embed v) d))"
    using ok by (simp add: facts_ok_same_ns)
  ultimately show ?case
    using Cons.IH by (simp add: w v(1) bind_sql_def attempt_def on_pool_def embed_all_def)
qed

lemma embed_all_tbl:
  assumes "embeds_well em"
  shows "\<forall>g \<in> set (facts_tbl (embed_all em work d)).
    \<exists>f \<in> set (facts_tbl d). f_id g = f_id f \<and> f_status g = f_status f \<and>
      (f_embedding g = None \<longrightarrow> f_embedding f = None \<and> f_id f \<notin> fst ` set work)"
proof (induction work arbitrary: d)
  case Nil
  then show ?case by (auto simp: embed_all_def)
next
  case (Cons w work)
  obtain i tx where w: "w = (i, tx)" by fastforce
  obtain v where v: "em tx = Inr v"
    using embeds_well_Inr assms by blast
  have e: "embed_all em (w # work) d = embed_all em work (upd_fact i (row_embed v) d)"
    by (simp add: embed_all_def w v)
  show ?case
  proof
    fix g assume "g \<in> set (facts_tbl (embed_all em (w # work) d))"
    then obtain f where f: "f \<in> set (tbl_upd f_id i (row_embed v) (facts_tbl d))" "f_id g = f_id f"
      "f_status g = f_status f" "f_embedding g = None \<longrightarrow> f_embedding f = None \<and> f_id f \<notin> fst ` set work"
      using Cons.IH[of "upd_fact i (row_embed v) d"] unfolding e by auto
    from f(1) obtain h where "h \<in> set (facts_tbl d)" "f = (if f_id h = i then row_embed v h else h)"
      by (auto simp: tbl_upd_def)
    with f show "\<exists>f \<in> set (facts_tbl d). f_id g = f_id f \<and> f_status g = f_status f \<and>
      (f_embedding g = None \<longrightarrow> f_embedding f = None \<and> f_id f \<notin> fst ` set (w # work))"
      by (intro bexI[of _ h]) (auto simp: w split: if_splits)
  qed
qed

text \<open>
  C29. The backfill converges: with an embedder that answers and nothing failing, one pass embeds every
  fact it scans, leaves no active fact without an embedding, and the next pass has nothing to do.
\<close>

theorem backfill_converges:
  assumes "schema_ok d" and "embeds_well em" and "\<And>t. mset (plan t) = mset t"
  shows "\<exists>d'. run (backfill_embeddings plan em) [] d =
      (Inr \<lparr>scanned = length (filter backfill_todo (facts_tbl d)),
            embedded = length (filter backfill_todo (facts_tbl d)), failed = 0\<rparr>, d') \<and>
    filter backfill_todo (facts_tbl d') = [] \<and>
    run (backfill_embeddings plan em) [] d' = (Inr \<lparr>scanned = 0, embedded = 0, failed = 0\<rparr>, d')"
proof -
  let ?work = "\<lambda>d. map (\<lambda>f. (f_id f, embed_text (f_subject f) (f_statement f))) (filter backfill_todo (plan (facts_tbl d)))"
  have n: "length (filter backfill_todo (plan t)) = length (filter backfill_todo t)" for t
    by (metis assms(3) mset_filter size_mset)
  have ok: "facts_ok d (facts_tbl d)" using assms(1) by (simp add: schema_ok_def)
  let ?d = "embed_all em (?work d) d"
  have one: "run (backfill_embeddings plan em) [] d =
      (Inr \<lparr>scanned = length (filter backfill_todo (facts_tbl d)),
            embedded = length (filter backfill_todo (facts_tbl d)), failed = 0\<rparr>, ?d)"
    by (simp add: backfill_embeddings_def sql_run backfill_loop_clean[OF ok assms(2)] n)
  have ids: "distinct (map f_id (facts_tbl d))" using ok by (rule facts_ok_ids)
  have plan: "set (plan (facts_tbl d)) = set (facts_tbl d)" using assms(3) mset_eq_setD by blast
  have "\<not> backfill_todo g" if g: "g \<in> set (facts_tbl ?d)" for g
  proof
    assume t: "backfill_todo g"
    obtain f where f: "f \<in> set (facts_tbl d)" "f_id g = f_id f" "f_status g = f_status f"
      "f_embedding g = None \<longrightarrow> f_embedding f = None \<and> f_id f \<notin> fst ` set (?work d)"
      using embed_all_tbl[OF assms(2), of "?work d" d] g by blast
    then have "backfill_todo f" and no: "f_id f \<notin> fst ` set (?work d)" using t by (auto simp: backfill_todo_def)
    then have "f \<in> set (filter backfill_todo (plan (facts_tbl d)))" using f(1) plan by simp
    then have "f_id f \<in> fst ` set (?work d)" by (simp add: image_image)
    with no show False ..
  qed
  then have none: "filter backfill_todo (facts_tbl ?d) = []" by (intro filter_False ballI)
  then have "filter backfill_todo (plan (facts_tbl ?d)) = []" using n[of "facts_tbl ?d"] by simp
  then have "run (backfill_embeddings plan em) [] ?d = (Inr \<lparr>scanned = 0, embedded = 0, failed = 0\<rparr>, ?d)"
    by (simp add: backfill_embeddings_def sql_run)
  with one none show ?thesis by (intro exI[of _ ?d] conjI)
qed

section \<open>Witnesses\<close>

definition unit_embedder :: embedder where
  "unit_embedder tx = Inr (replicate embedding_dims 0)"

definition broken_embedder :: embedder where
  "broken_embedder tx = Inl ErrEmbed"

lemma backfill_broken_run:
  "run (backfill_embeddings (\<lambda>t. t) broken_embedder) [] active_db =
     (Inr \<lparr>scanned = 1, embedded = 0, failed = 1\<rparr>, active_db)"
  by (simp add: backfill_embeddings_def sql_run active_db_def backfill_todo_def broken_embedder_def)

lemma backfill_counts_applied:
  "length (filter backfill_todo (facts_tbl active_db)) = 1 \<and> (1 :: nat) = 0 + 1"
  using backfill_counts[OF backfill_broken_run] by simp

theorem backfill_converges_witness:
  "\<exists>d'. run (backfill_embeddings rev unit_embedder) [] active_db =
      (Inr \<lparr>scanned = 1, embedded = 1, failed = 0\<rparr>, d')"
proof -
  have "embeds_well unit_embedder" by (simp add: embeds_well_def unit_embedder_def)
  moreover have "length (filter backfill_todo (facts_tbl active_db)) = 1"
    by (simp add: active_db_def backfill_todo_def)
  ultimately show ?thesis
    using backfill_converges[OF active_db_ok, of unit_embedder rev] by auto
qed

end
