(* ===== verification/Reaper.thy ===== *)
theory Reaper
  imports Backfill
begin

text \<open>
  The expiry job (\<^verbatim>\<open>internal/reaper/reaper.go\<close>): one transaction that selects the active facts whose
  validity has passed, expires them one by one with an audit event each, and counts those due within a
  day. The rows come in the order \<open>plan\<close> gives.
\<close>

section \<open>The job\<close>

record reap_result =
  rr_expired :: nat
  rr_expiring_soon :: nat

definition due :: "timestamp \<Rightarrow> fact_row \<Rightarrow> bool" where
  "due now f \<longleftrightarrow> f_status f = StatusActive \<and> (case f_valid_to f of None \<Rightarrow> False | Some t \<Rightarrow> t \<le> now)"

definition day :: int where "day = 24 * 60 * 60 * 1000000"

definition due_soon :: "timestamp \<Rightarrow> fact_row \<Rightarrow> bool" where
  "due_soon now f \<longleftrightarrow>
     f_status f = StatusActive \<and> (case f_valid_to f of None \<Rightarrow> False | Some t \<Rightarrow> t > now \<and> t \<le> now + day)"

definition expired_event :: "uuid \<Rightarrow> event" where
  "expired_event i =
     \<lparr>e_principal = ''system:reaper'', e_action = ''fact.expired'', e_subject_type = ''fact'', e_subject_id = i,
      e_from_state = ''active'', e_to_state = ''expired'', e_detail = []\<rparr>"

fun reap_loop :: "timestamp \<Rightarrow> uuid list \<Rightarrow> (db, unit) sql" where
  "reap_loop now [] = return_sql ()"
| "reap_loop now (i # is) =
     bind_sql (stmt (update_facts (\<lambda>f. f_id f = i) (row_status now StatusExpired)))
     (\<lambda>_. bind_sql (audit_write now (expired_event i))
     (\<lambda>_. reap_loop now is))"

definition reap_body :: "timestamp \<Rightarrow> (fact_row list \<Rightarrow> fact_row list) \<Rightarrow> (db, reap_result) sql" where
  "reap_body now plan =
     bind_sql (query (\<lambda>d. map f_id (filter (due now) (plan (facts_tbl d)))))
     (\<lambda>ids. bind_sql (reap_loop now ids)
     (\<lambda>_. bind_sql (query (\<lambda>d. length (filter (due_soon now) (facts_tbl d))))
     (\<lambda>n. return_sql \<lparr>rr_expired = length ids, rr_expiring_soon = n\<rparr>)))"

definition reap :: "timestamp \<Rightarrow> (fact_row list \<Rightarrow> fact_row list) \<Rightarrow> (db, reap_result) sql" where
  "reap now plan = in_tx (reap_body now plan)"

section \<open>Its effect\<close>

definition expire_one :: "timestamp \<Rightarrow> uuid \<Rightarrow> db \<Rightarrow> db" where
  "expire_one now i d = log_event (audit_row now (expired_event i)) (upd_fact i (row_status now StatusExpired) d)"

lemma well_behaved_reap_loop [sql_safe]: "well_behaved (reap_loop now is)"
  by (induction "is") (auto intro!: sql_safe)

lemma well_behaved_reap_body [sql_safe]: "well_behaved (reap_body now plan)"
  unfolding reap_body_def by (intro sql_safe)

lemma reap_loop_exec:
  "exec (reap_loop now is) d a d' \<Longrightarrow> d' = fold (expire_one now) is d \<and> evolves d d'"
proof (induction "is" arbitrary: d)
  case Nil
  then show ?case by (simp add: sql_exec)
next
  case (Cons i "is")
  then have ok: "facts_ok d (tbl_upd f_id i (row_status now StatusExpired) (facts_tbl d))" and
    rest: "exec (reap_loop now is) (expire_one now i d) a d'"
    by (auto simp: sql_exec sql_safe update_facts_id_Inr expire_one_def)
  have "evolves d (expire_one now i d)"
    unfolding expire_one_def by (rule evolves_trans[OF evolves_upd_fact[OF ok] evolves_log]) simp
  with Cons.IH[OF rest] show ?case by (auto intro: evolves_trans)
qed

lemma reap_body_exec:
  assumes "exec (reap_body now plan) d r d'"
  shows "d' = fold (expire_one now) (map f_id (filter (due now) (plan (facts_tbl d)))) d \<and> evolves d d' \<and>
    r = \<lparr>rr_expired = length (filter (due now) (plan (facts_tbl d))),
         rr_expiring_soon = length (filter (due_soon now) (facts_tbl d'))\<rparr>"
  using assms by (auto simp: reap_body_def sql_exec sql_safe dest: reap_loop_exec)

lemma expire_all_tbl:
  assumes "distinct is"
  shows "facts_tbl (fold (expire_one now) is d) =
      map (\<lambda>f. if f_id f \<in> set is then row_status now StatusExpired f else f) (facts_tbl d)"
    and "audit_tbl (fold (expire_one now) is d) = audit_tbl d @ map (\<lambda>i. audit_row now (expired_event i)) is"
    and "promotions_tbl (fold (expire_one now) is d) = promotions_tbl d"
    and "namespaces_tbl (fold (expire_one now) is d) = namespaces_tbl d"
    and "memberships_tbl (fold (expire_one now) is d) = memberships_tbl d"
  using assms
  by (induction "is" arbitrary: d) (auto simp: expire_one_def tbl_upd_def)

lemma row_expired_not_due [simp]: "\<not> due now (row_status now StatusExpired f)" "\<not> due_soon now (row_status now StatusExpired f)"
  by (simp_all add: due_def due_soon_def)

definition reaped :: "timestamp \<Rightarrow> fact_row \<Rightarrow> fact_row" where
  "reaped now f = (if due now f then row_status now StatusExpired f else f)"

lemma reap_ids:
  assumes "facts_ok d (facts_tbl d)" and "\<And>t. mset (plan t) = mset t"
  shows "mset (map f_id (filter (due now) (plan (facts_tbl d)))) = mset (map f_id (filter (due now) (facts_tbl d)))"
    and "distinct (map f_id (filter (due now) (plan (facts_tbl d))))"
proof -
  show m: "mset (map f_id (filter (due now) (plan (facts_tbl d)))) = mset (map f_id (filter (due now) (facts_tbl d)))"
    by (simp add: assms(2))
  have "distinct (map f_id (filter (due now) (facts_tbl d)))"
    by (rule distinct_map_filter[OF facts_ok_ids[OF assms(1)]])
  then show "distinct (map f_id (filter (due now) (plan (facts_tbl d))))" using m by (metis mset_eq_imp_distinct_iff)
qed

lemma reap_tbl:
  assumes "facts_ok d (facts_tbl d)" and "run (reap now plan) fs d = (Inr r, d')"
    and "\<And>t. mset (plan t) = mset t"
  shows "facts_tbl d' = map (reaped now) (facts_tbl d)"
proof -
  let ?ids = "map f_id (filter (due now) (plan (facts_tbl d)))"
  have run: "exec (reap_body now plan) d r d'"
    using run_in_tx_Inr[OF well_behaved_reap_body] assms(2) unfolding reap_def by blast
  have ids: "distinct (map f_id (facts_tbl d))" using assms(1) by (rule facts_ok_ids)
  have set_ids: "set ?ids = f_id ` {f \<in> set (facts_tbl d). due now f}"
    using mset_eq_setD[OF reap_ids(1)[OF assms(1,3)]] by simp
  have "facts_tbl d' = map (\<lambda>f. if f_id f \<in> set ?ids then row_status now StatusExpired f else f) (facts_tbl d)"
    using reap_body_exec[OF run] expire_all_tbl(1)[OF reap_ids(2)[OF assms(1,3)]] by simp
  also have "\<dots> = map (reaped now) (facts_tbl d)"
  proof (rule map_cong[OF refl])
    fix f assume f: "f \<in> set (facts_tbl d)"
    have "f_id f \<in> set ?ids \<longleftrightarrow> due now f"
      using f distinct_map_inj[OF ids] unfolding set_ids by auto
    then show "(if f_id f \<in> set ?ids then row_status now StatusExpired f else f) = reaped now f"
      by (simp add: reaped_def)
  qed
  finally show ?thesis .
qed

text \<open>
  C28. A reap pass that commits has expired exactly the active facts whose validity has passed, each with
  one audit event and a new version, and touched nothing else; it reports how many, and how many of
  the facts still active fall due within a day. A second pass at the same instant finds nothing to do.
\<close>

theorem reap_exact:
  assumes "facts_ok d (facts_tbl d)" and "run (reap now plan) fs d = (Inr r, d')"
    and "\<And>t. mset (plan t) = mset t" and "\<And>t. mset (plan' t) = mset t"
  shows "facts_tbl d' = map (reaped now) (facts_tbl d) \<and>
    (\<exists>due_ids. mset due_ids = mset (map f_id (filter (due now) (facts_tbl d))) \<and>
       d' = d\<lparr>facts_tbl := facts_tbl d', audit_tbl := audit_tbl d @ map (\<lambda>i. audit_row now (expired_event i)) due_ids\<rparr>) \<and>
    r = \<lparr>rr_expired = length (filter (due now) (facts_tbl d)),
         rr_expiring_soon = length (filter (due_soon now) (facts_tbl d))\<rparr> \<and>
    run (reap now plan') [] d' = (Inr (r\<lparr>rr_expired := 0\<rparr>), d')"
proof -
  let ?ids = "map f_id (filter (due now) (plan (facts_tbl d)))"
  have run: "exec (reap_body now plan) d r d'"
    using run_in_tx_Inr[OF well_behaved_reap_body] assms(2) unfolding reap_def by blast
  note e = reap_body_exec[OF run]
  note mids = reap_ids(1)[OF assms(1,3), of now] and dist = reap_ids(2)[OF assms(1,3), of now]
  have tbl: "facts_tbl d' = map (reaped now) (facts_tbl d)" by (rule reap_tbl[OF assms(1-3)])
  have d': "d' = d\<lparr>facts_tbl := facts_tbl d', audit_tbl := audit_tbl d @ map (\<lambda>i. audit_row now (expired_event i)) ?ids\<rparr>"
    using e expire_all_tbl(2-5)[OF dist, of now d] by (intro db.equality) simp_all
  have n: "length (filter P (plan t)) = length (filter P t)" "length (filter P (plan' t)) = length (filter P t)" for P t
    by (metis assms(3) mset_filter size_mset) (metis assms(4) mset_filter size_mset)
  have soon: "length (filter (due_soon now) (map (reaped now) t)) = length (filter (due_soon now) t)" for t
    by (induction t) (auto simp: reaped_def due_def due_soon_def split: option.splits)
  have "filter (due now) (facts_tbl d') = []"
    unfolding tbl by (auto simp: filter_empty_conv reaped_def)
  then have none: "filter (due now) (plan' (facts_tbl d')) = []" using n(2)[of "due now" "facts_tbl d'"] by simp
  have r: "r = \<lparr>rr_expired = length (filter (due now) (facts_tbl d)),
         rr_expiring_soon = length (filter (due_soon now) (facts_tbl d))\<rparr>"
    using e n(1)[of "due now" "facts_tbl d"] soon[of "facts_tbl d"] tbl by simp
  have "run (reap now plan') [] d' = (Inr (r\<lparr>rr_expired := 0\<rparr>), d')"
    by (simp add: reap_def reap_body_def sql_run none r) (use soon[of "facts_tbl d"] in \<open>simp add: tbl filter_map\<close>)
  with tbl d' mids r show ?thesis by blast
qed

definition stale_db :: db where
  "stale_db = sample_db [(sample_fact 7 1 ''use go'' StatusActive [] None)\<lparr>f_valid_to := Some 10\<rparr>,
     (sample_fact 8 2 ''use js'' StatusActive [] None)] []"

lemma stale_db_ok: "facts_ok stale_db (facts_tbl stale_db)"
  by (simp add: stale_db_def sample_eval)

theorem reap_exact_witness:
  "\<exists>d' r. run (reap 20 rev) [] stale_db = (Inr r, d') \<and> rr_expired r = 1 \<and>
     map f_status (facts_tbl d') = [StatusExpired, StatusActive]"
proof -
  let ?d = "expire_one 20 7 stale_db"
  have ok: "facts_ok stale_db (tbl_upd f_id 7 (row_status 20 StatusExpired) (facts_tbl stale_db))"
    by (simp add: stale_db_def sample_eval tbl_upd_def)
  have f: "map f_id (filter (due 20) (rev (facts_tbl stale_db))) = [7]"
    by (simp add: stale_db_def due_def)
  have "exec (reap_body 20 rev) stale_db
      \<lparr>rr_expired = 1, rr_expiring_soon = length (filter (due_soon 20) (facts_tbl ?d))\<rparr> ?d"
    unfolding reap_body_def using ok
    by (simp add: sql_exec sql_safe f update_facts_id_Inr expire_one_def)
  then have r: "run (reap 20 rev) [] stale_db =
      (Inr \<lparr>rr_expired = 1, rr_expiring_soon = length (filter (due_soon 20) (facts_tbl ?d))\<rparr>, ?d)"
    unfolding reap_def by (rule run_in_tx_clean)
  have "facts_tbl ?d = map (reaped 20) (facts_tbl stale_db)"
    using reap_exact[OF stale_db_ok r, of rev] by simp
  then have "map f_status (facts_tbl ?d) = [StatusExpired, StatusActive]"
    by (simp add: stale_db_def reaped_def due_def)
  with r show ?thesis by auto
qed

end
