(* ===== verification/Governance.thy ===== *)
theory Governance
  imports Promotion_Effects Reaper
begin

text \<open>
  The invariant that ties promotions to facts. A promotion is paired with its fact: the state of the one
  and the status of the other move together, approvals come from others than the proposer, an approved
  promotion explains how its fact came to be active, and a recorded conflict is a fact that has been
  active. Each operation keeps it; the lemmas on \<open>calm\<close> changes do most of the work.
\<close>

section \<open>The invariant\<close>

definition separated :: "promotion \<Rightarrow> bool" where
  "separated p \<longleftrightarrow> (\<forall>r \<in> set (p_reviews p). r_decision r = DecisionApprove \<longrightarrow> r_reviewer r \<noteq> p_proposer p)"

text \<open>How a fact may have become active: by enough reviewers, all of them recorded, or by an engine.\<close>

definition approved_by_people :: "promotion \<Rightarrow> fact_row \<Rightarrow> bool" where
  "approved_by_people p f \<longleftrightarrow> has_enough_approvals p \<and> f_approved_by f = approvers p"

definition approved_by_engine :: "promotion \<Rightarrow> fact_row \<Rightarrow> bool" where
  "approved_by_engine p f \<longleftrightarrow> p_reviews p = [] \<and> f_approved_by f = [] \<and> ''auto:true'' \<in> set (f_tags f)"

definition state_matches :: "promotion \<Rightarrow> fact_row \<Rightarrow> bool" where
  "state_matches p f \<longleftrightarrow>
     (case p_state p of
        StatePending \<Rightarrow> f_status f = StatusProposed
      | StateChangesRequested \<Rightarrow> f_status f = StatusProposed
      | StateInReview \<Rightarrow> f_status f = StatusProposed \<or> f_status f = StatusInReview
      | StateRejected \<Rightarrow> f_status f = StatusRejected
      | StateApproved \<Rightarrow> was_active (f_status f) \<and> (approved_by_people p f \<or> approved_by_engine p f))"

definition conflict_ok :: "db \<Rightarrow> promotion \<Rightarrow> fact_row \<Rightarrow> bool" where
  "conflict_ok d p f \<longleftrightarrow>
     (\<forall>c. p_conflict_with p = Some c \<longrightarrow> c \<noteq> p_fact_id p \<and>
       (\<exists>g. fact_at d c = Some g \<and> was_active (f_status g) \<and>
          f_namespace_id g = f_namespace_id f \<and> f_canonical_key g = f_canonical_key f))"

definition paired :: "db \<Rightarrow> promotion \<Rightarrow> bool" where
  "paired d p \<longleftrightarrow>
     (\<exists>f. fact_at d (p_fact_id p) = Some f \<and> f_namespace_id f = p_target_namespace_id p \<and>
        1 \<le> p_required_approvals p \<and> separated p \<and> state_matches p f \<and> conflict_ok d p f)"

definition governed :: "db \<Rightarrow> bool" where
  "governed d \<longleftrightarrow> schema_ok d \<and> keys_derived d \<and>
     (\<forall>i p. promotion_at d i = Some p \<longrightarrow> paired d p) \<and>
     distinct (map p_fact_id (promotions_tbl d)) \<and>
     set (map f_id (facts_tbl d)) \<subseteq> set (map p_fact_id (promotions_tbl d))"

lemma governed_schema: "governed d \<Longrightarrow> schema_ok d"
  by (simp add: governed_def)

lemma governed_empty: "governed empty_db"
  by (simp add: governed_def schema_ok_empty) (simp add: empty_db_def keys_derived_def tbl_get_def)

section \<open>Calm changes\<close>

definition keeps_place :: "fact_row \<Rightarrow> fact_row \<Rightarrow> bool" where
  "keeps_place f g \<longleftrightarrow> f_namespace_id g = f_namespace_id f \<and> f_canonical_key g = f_canonical_key f \<and>
     (was_active (f_status f) \<longrightarrow> was_active (f_status g))"

definition calm :: "fact_row \<Rightarrow> fact_row \<Rightarrow> bool" where
  "calm f g \<longleftrightarrow> keeps_place f g \<and> (f_status g = f_status f \<or> was_active (f_status f)) \<and>
     f_approved_by g = f_approved_by f \<and> set (f_tags f) \<subseteq> set (f_tags g)"

text \<open>A change that is calm on every fact but one, which at least keeps its place.\<close>

definition calm_but :: "uuid option \<Rightarrow> db \<Rightarrow> db \<Rightarrow> bool" where
  "calm_but x d d' \<longleftrightarrow>
     (\<forall>i f. fact_at d i = Some f \<longrightarrow>
        (\<exists>g. fact_at d' i = Some g \<and> keeps_place f g \<and> (Some i \<noteq> x \<longrightarrow> calm f g)))"

lemma keeps_place_refl [simp]: "keeps_place f f"
  by (simp add: keeps_place_def)

lemma calm_refl [simp]: "calm f f"
  by (simp add: calm_def)

lemma keeps_place_trans: "keeps_place f g \<Longrightarrow> keeps_place g h \<Longrightarrow> keeps_place f h"
  by (simp add: keeps_place_def)

lemma calm_trans: "calm f g \<Longrightarrow> calm g h \<Longrightarrow> calm f h"
  by (auto simp: calm_def keeps_place_def)

lemma calm_but_refl [simp]: "calm_but x d d"
  by (auto simp: calm_but_def)

lemma calm_but_trans: "calm_but x d d' \<Longrightarrow> calm_but x d' d'' \<Longrightarrow> calm_but x d d''"
  unfolding calm_but_def by (meson calm_trans keeps_place_trans)

lemma calm_but_weaken: "calm_but None d d' \<Longrightarrow> calm_but x d d'"
  unfolding calm_but_def by simp blast

lemma calm_but_same [simp]:
  "calm_but x d (log_event a d)" "calm_but x d (upd_promotion i w d)" "calm_but x d (ins_promotion q d)"
  by (auto simp: calm_but_def)

lemma calm_but_upd:
  assumes "\<And>f. f_id (u f) = f_id f"
    and "\<And>f. fact_at d i = Some f \<Longrightarrow> keeps_place f (u f) \<and> (Some i \<noteq> x \<longrightarrow> calm f (u f))"
  shows "calm_but x d (upd_fact i u d)"
  using assms(2) by (auto simp: calm_but_def tbl_get_upd[of f_id u, OF assms(1)])

lemma calm_but_ins: "fact_at d (f_id f) = None \<Longrightarrow> calm_but x d (ins_fact f d)"
  by (auto simp: calm_but_def tbl_get_ins)

lemma calm_rows [simp]:
  "calm f (row_embed v f)" "calm f (row_supersedes now n f)"
  "was_active (f_status f) \<Longrightarrow> calm f (row_superseded now n f)"
  "f_status f = StatusActive \<Longrightarrow> calm f (row_status now StatusRevoked f)"
  "f_status f = StatusActive \<Longrightarrow> calm f (row_status now StatusExpired f)"
  by (auto simp: calm_def keeps_place_def was_active_def)

lemma calm_keeps: "calm f g \<Longrightarrow> keeps_place f g"
  by (simp add: calm_def)

lemma calm_embed: "calm_but x d (embed_effect sv i d)"
  by (auto simp: embed_effect_def intro!: calm_but_upd intro: calm_keeps split: option.split)

lemma calm_supersede:
  assumes "\<And>f. fact_at d c = Some f \<Longrightarrow> was_active (f_status f)"
  shows "calm_but x d (supersede_effect now c n d)"
  unfolding supersede_effect_def
  using assms by (intro calm_but_trans[OF calm_but_upd calm_but_upd]) (auto intro: calm_keeps)

lemma conflict_calm:
  assumes "\<And>c f. p_conflict_with p = Some c \<Longrightarrow> fact_at d c = Some f \<Longrightarrow> was_active (f_status f)"
  shows "calm_but x d (conflict_effect now who p d)"
proof (cases "p_conflict_with p")
  case None
  then show ?thesis by (simp add: conflict_effect_def)
next
  case (Some c)
  then show ?thesis
    using calm_but_trans[OF calm_supersede[of c d] calm_but_same(1)] assms by (simp add: conflict_effect_def)
qed

section \<open>Pairs under calm changes\<close>

lemma state_matches_calm:
  assumes "state_matches p f" and "calm f g"
  shows "state_matches p g"
proof (cases "was_active (f_status f)")
  case True
  then have "p_state p = StateApproved"
    using assms(1) by (cases "p_state p") (auto simp: state_matches_def was_active_def)
  moreover have "was_active (f_status g)" using True assms(2) by (simp add: calm_def keeps_place_def)
  moreover have "f_approved_by g = f_approved_by f" "set (f_tags f) \<subseteq> set (f_tags g)"
    using assms(2) by (simp_all add: calm_def)
  ultimately show ?thesis
    using assms(1) by (auto simp: state_matches_def approved_by_people_def approved_by_engine_def)
next
  case False
  then have "f_status g = f_status f" using assms(2) by (simp add: calm_def)
  with False assms(1) show ?thesis by (cases "p_state p") (simp_all add: state_matches_def)
qed

lemma conflict_ok_calm:
  assumes "conflict_ok d p f" and "calm_but x d d'" and "keeps_place f g"
  shows "conflict_ok d' p g"
  unfolding conflict_ok_def
proof (intro allI impI)
  fix c assume c: "p_conflict_with p = Some c"
  then obtain h where h: "c \<noteq> p_fact_id p" "fact_at d c = Some h" "was_active (f_status h)"
    "f_namespace_id h = f_namespace_id f" "f_canonical_key h = f_canonical_key f"
    using assms(1) by (auto simp: conflict_ok_def)
  obtain k where "fact_at d' c = Some k" "keeps_place h k" using assms(2) h(2) unfolding calm_but_def by blast
  then show "c \<noteq> p_fact_id p \<and> (\<exists>g'. fact_at d' c = Some g' \<and> was_active (f_status g') \<and>
      f_namespace_id g' = f_namespace_id g \<and> f_canonical_key g' = f_canonical_key g)"
    using h assms(3) by (auto simp: keeps_place_def)
qed

lemma paired_calm:
  assumes "paired d p" and "calm_but x d d'" and "x \<noteq> Some (p_fact_id p)"
  shows "paired d' p"
proof -
  obtain f where f: "fact_at d (p_fact_id p) = Some f" "f_namespace_id f = p_target_namespace_id p"
    "1 \<le> p_required_approvals p" "separated p" "state_matches p f" "conflict_ok d p f"
    using assms(1) by (auto simp: paired_def)
  obtain g where g: "fact_at d' (p_fact_id p) = Some g" "calm f g"
    using assms(2,3) f(1) unfolding calm_but_def by metis
  have "f_namespace_id g = p_target_namespace_id p" using f(2) g(2) by (simp add: calm_def keeps_place_def)
  moreover have "state_matches p g" using f(5) g(2) by (rule state_matches_calm)
  moreover have "conflict_ok d' p g"
    using f(6) assms(2) calm_keeps[OF g(2)] by (rule conflict_ok_calm)
  ultimately show ?thesis using f(3,4) g(1) by (auto simp: paired_def)
qed

lemma paired_cong:
  "p_fact_id q = p_fact_id p \<Longrightarrow> p_target_namespace_id q = p_target_namespace_id p \<Longrightarrow> p_state q = p_state p \<Longrightarrow>
   p_required_approvals q = p_required_approvals p \<Longrightarrow> p_reviews q = p_reviews p \<Longrightarrow> p_proposer q = p_proposer p \<Longrightarrow>
   p_conflict_with q = p_conflict_with p \<Longrightarrow> paired d q = paired d p"
  by (simp add: paired_def separated_def state_matches_def conflict_ok_def approved_by_people_def
      approved_by_engine_def has_enough_approvals_def approval_count_def distinct_approvers_def approvers_def
      split: promo_state.split)

section \<open>Keeping the invariant\<close>

text \<open>A change that leaves the promotions alone and is calm keeps the invariant.\<close>

lemma governed_calm:
  assumes "governed d" and "evolves d d'" and "calm_but None d d'"
    and "promotions_tbl d' = promotions_tbl d" and "map f_id (facts_tbl d') = map f_id (facts_tbl d)"
  shows "governed d'"
  using assms paired_calm[OF _ assms(3)]
  by (auto simp: governed_def evolves_def simp flip: set_map)

text \<open>A change of one promotion and its fact, calm on everything else.\<close>

lemma governed_one:
  assumes g: "governed d" and "evolves d d'" and p: "promotion_at d i = Some p"
    and "calm_but (Some (p_fact_id p)) d d'"
    and prom: "promotions_tbl d' = tbl_upd p_id i u (promotions_tbl d)" and u: "promotion_keyed u"
    and "map f_id (facts_tbl d') = map f_id (facts_tbl d)"
    and this_one: "paired d' (u p)"
  shows "governed d'"
proof -
  have pid: "p_id (u q) = p_id q" "p_fact_id (u q) = p_fact_id q" for q using u by (simp_all add: promotion_keyed_def)
  have fids: "map p_fact_id (promotions_tbl d') = map p_fact_id (promotions_tbl d)"
    unfolding prom tbl_upd_def by (induction "promotions_tbl d") (auto simp: pid)
  have "map p_fact_id (tbl_upd p_id i u t) = map p_fact_id t" for t
    unfolding tbl_upd_def by (induction t) (auto simp: pid)
  then have fids: "map p_fact_id (promotions_tbl d') = map p_fact_id (promotions_tbl d)" unfolding prom .
  have "paired d' q" if "promotion_at d' j = Some q" for j q
  proof (cases "j = i")
    case True
    then show ?thesis using that p this_one by (simp add: prom tbl_get_upd[of p_id u, OF pid(1)])
  next
    case False
    then have q: "promotion_at d j = Some q" using that by (simp add: prom tbl_get_upd[of p_id u, OF pid(1)])
    have "p_fact_id q \<noteq> p_fact_id p"
    proof
      assume same: "p_fact_id q = p_fact_id p"
      have "distinct (map p_fact_id (promotions_tbl d))" using g by (simp add: governed_def)
      then have "q = p" using same tbl_get_Some[OF q] tbl_get_Some[OF p] by (auto dest: distinct_map_inj)
      then show False using False tbl_get_Some[OF q] tbl_get_Some[OF p] by simp
    qed
    moreover have "paired d q" using g q by (simp add: governed_def)
    ultimately show ?thesis using paired_calm[OF _ assms(4)] by simp
  qed
  moreover have "schema_ok d'" "keys_derived d'" using g assms(2) by (simp_all add: governed_def evolves_def)
  ultimately show ?thesis
    using g assms(7) unfolding governed_def fids by simp
qed

lemma map_id_upd_fact:
  "(\<And>f. f_id (u f) = f_id f) \<Longrightarrow> map f_id (facts_tbl (upd_fact i u d)) = map f_id (facts_tbl d)"
  by (simp add: map_key_upd)

lemma map_id_effects [simp]:
  "map f_id (facts_tbl (embed_effect sv i d)) = map f_id (facts_tbl d)"
  "map f_id (facts_tbl (supersede_effect now c n d)) = map f_id (facts_tbl d)"
  "map f_id (facts_tbl (conflict_effect now who p d)) = map f_id (facts_tbl d)"
  by (simp_all add: embed_effect_def supersede_effect_def conflict_effect_def map_key_upd split: option.split)

end
