(* ===== verification/Preservation.thy ===== *)
theory Preservation
  imports Governance
begin

text \<open>Each operation of the service keeps the governance invariant.\<close>

section \<open>Facts behind a change\<close>

lemma governed_paired: "governed d \<Longrightarrow> promotion_at d i = Some p \<Longrightarrow> paired d p"
  by (simp add: governed_def)

lemma embed_effect_at:
  assumes "fact_at d j = Some f"
  shows "\<exists>g. fact_at (embed_effect sv i d) j = Some g \<and> bare g = bare f"
  using embed_effect_bare[of j sv i d] assms by (cases "fact_at (embed_effect sv i d) j") auto

lemma bare_eqD:
  assumes "bare g = bare f"
  shows "f_id g = f_id f" "f_status g = f_status f" "f_namespace_id g = f_namespace_id f"
    "f_canonical_key g = f_canonical_key f" "f_approved_by g = f_approved_by f" "f_tags g = f_tags f"
    "f_supersedes_id g = f_supersedes_id f" "f_superseded_by_id g = f_superseded_by_id f" "f_version g = f_version f"
  using assms bare_sel[of f] bare_sel[of g] by metis+

lemma conflict_effect_at_new:
  assumes "conflict_ok d p f" and "fact_at d (p_fact_id p) = Some f"
  shows "fact_at (conflict_effect now who p d) (p_fact_id p) =
    Some (case p_conflict_with p of None \<Rightarrow> f | Some c \<Rightarrow> row_supersedes now c f)"
  using assms by (auto simp: conflict_effect_at supersede_effect_at Let_def conflict_ok_def split: option.split)

lemma conflict_effect_calm:
  assumes "conflict_ok d p f"
  shows "calm_but x d (conflict_effect now who p d)"
  by (rule conflict_calm) (use assms in \<open>auto simp: conflict_ok_def\<close>)

lemma not_yet_active:
  "state_matches p f \<Longrightarrow> p_state p \<noteq> StateApproved \<Longrightarrow> \<not> was_active (f_status f)"
  by (cases "p_state p") (auto simp: state_matches_def was_active_def)

section \<open>Propose\<close>

text \<open>The conflict a proposal records: a fact of its key that has been active.\<close>

definition known_conflict :: "propose_input \<Rightarrow> uuid option \<Rightarrow> db \<Rightarrow> bool" where
  "known_conflict inp c d \<longleftrightarrow>
     (\<forall>i. c = Some i \<longrightarrow> (\<exists>g. fact_at d i = Some g \<and> was_active (f_status g) \<and> f_namespace_id g = in_target inp \<and>
        f_canonical_key g = canonical_key (in_subject inp)))"

lemma known_conflicting:
  assumes "schema_ok d"
  shows "known_conflict inp (conflicting inp d) d"
  unfolding known_conflict_def
proof (intro allI impI)
  fix i assume "conflicting inp d = Some i"
  then obtain h where h: "active_by_key (in_target inp) (canonical_key (in_subject inp)) d = Some h" "f_id h = i"
    by (auto simp: conflicting_def)
  then have h': "h \<in> set (facts_tbl d)" "f_namespace_id h = in_target inp"
    "f_canonical_key h = canonical_key (in_subject inp)" "f_status h = StatusActive"
    by (auto simp: active_by_key_def dest: find_SomeD)
  have "facts_ok d (facts_tbl d)" using assms by (simp add: schema_ok_def)
  then have "fact_at d i = Some h" using tbl_get_in[OF facts_ok_ids h'(1)] h(2) by simp
  then show "\<exists>g. fact_at d i = Some g \<and> was_active (f_status g) \<and> f_namespace_id g = in_target inp \<and>
        f_canonical_key g = canonical_key (in_subject inp)"
    using h' by (auto simp: was_active_def)
qed

lemma governed_propose_effect:
  assumes g: "governed d" and fits: "propose_fits_with now nf np inp req c d" and known: "known_conflict inp c d" and req: "1 \<le> req"
  shows "governed (propose_effect_with now nf np inp req c d)"
proof -
  let ?q = "pending_with now nf np inp req c" and ?f = "draft_row now nf inp"
  let ?d = "propose_effect_with now nf np inp req c d"
  note ids = propose_fresh_ids[OF fits]
  have ev: "evolves d ?d" by (rule evolves_propose[OF fits])
  have calm: "calm_but None d ?d"
    unfolding propose_effect_with_def Let_def
    by (rule calm_but_trans[OF calm_but_trans[OF calm_but_ins calm_but_same(3)] calm_but_same(1)]) (simp add: ids(1))
  have "promotions_ok d (promotions_tbl d)" using governed_schema[OF g] by (simp add: schema_ok_def)
  then have refs: "p_fact_id p \<in> set (map f_id (facts_tbl d))" if "p \<in> set (promotions_tbl d)" for p
    using that by (auto simp: promotions_ok_def list_all_iff)
  then have new: "nf \<notin> p_fact_id ` set (promotions_tbl d)" using ids(1) by (auto simp: tbl_get_None)
  have "conflict_ok ?d ?q ?f"
    unfolding conflict_ok_def
  proof (intro allI impI)
    fix i assume "p_conflict_with ?q = Some i"
    then obtain g where h: "fact_at d i = Some g" "was_active (f_status g)" "f_namespace_id g = in_target inp"
        "f_canonical_key g = canonical_key (in_subject inp)"
      using known by (auto simp: known_conflict_def)
    then have "i \<noteq> nf" using ids(1) by auto
    moreover have "fact_at ?d i = Some g" using h(1) by (simp add: tbl_get_ins)
    ultimately show "i \<noteq> p_fact_id ?q \<and> (\<exists>g. fact_at ?d i = Some g \<and> was_active (f_status g) \<and>
        f_namespace_id g = f_namespace_id ?f \<and> f_canonical_key g = f_canonical_key ?f)"
      using h by auto
  qed
  then have this_one: "paired ?d ?q"
    using ids(3) req by (auto simp: paired_def separated_def state_matches_def)
  have "paired ?d p" if "promotion_at ?d i = Some p" for i p
  proof (cases "promotion_at d i")
    case None
    then show ?thesis using that this_one by (auto simp: tbl_get_ins split: if_splits)
  next
    case (Some q)
    then have "p = q" using that by (simp add: tbl_get_ins)
    with Some show ?thesis using paired_calm[OF governed_paired[OF g Some] calm] by simp
  qed
  moreover have "schema_ok ?d" "keys_derived ?d" using g ev by (simp_all add: governed_def evolves_def)
  moreover have "distinct (map p_fact_id (promotions_tbl ?d))"
    using g new by (simp add: governed_def map_key_ins)
  moreover have "set (map f_id (facts_tbl ?d)) \<subseteq> set (map p_fact_id (promotions_tbl ?d))"
    using g by (auto simp: governed_def tbl_ins_def)
  ultimately show ?thesis by (simp add: governed_def)
qed

lemma governed_auto:
  assumes g: "governed d" and fits: "auto_fits sv now p ap d" and at: "promotion_at d (p_id p) = Some p"
    and pending: "p_state p = StatePending" and fresh: "p_reviews p = []"
    and f: "fact_at d (p_fact_id p) = Some f" and none: "f_approved_by f = []"
  shows "governed (auto_effect sv now p ap v d)"
proof -
  define who where "who = ''engine:'' @ ap_engine ap"
  let ?d1 = "conflict_effect now who p d"
  let ?d2 = "upd_fact (p_fact_id p) (row_activate_auto now) ?d1"
  let ?d3 = "embed_effect sv (p_fact_id p) ?d2"
  let ?u = "row_reviewed now StateApproved (p_reviews p)"
  let ?d = "auto_effect sv now p ap v d"
  let ?x = "Some (p_fact_id p)"
  have eff: "?d = log_event (audit_row now (auto_promoted_event ap v (p_fact_id p))) (upd_promotion (p_id p) ?u ?d3)"
    unfolding auto_effect_def who_def ..
  have pr: "paired d p" using governed_paired[OF g at] .
  then have c: "conflict_ok d p f" "state_matches p f" "f_namespace_id f = p_target_namespace_id p"
    "1 \<le> p_required_approvals p" "separated p"
    using f by (auto simp: paired_def)
  have na: "\<not> was_active (f_status f)" using not_yet_active[OF c(2)] pending by simp
  let ?f1 = "case p_conflict_with p of None \<Rightarrow> f | Some c \<Rightarrow> row_supersedes now c f"
  have f1: "fact_at ?d1 (p_fact_id p) = Some ?f1" by (rule conflict_effect_at_new[OF c(1) f])
  have f1s: "f_status ?f1 = f_status f" "f_approved_by ?f1 = []" "f_namespace_id ?f1 = f_namespace_id f"
    "f_canonical_key ?f1 = f_canonical_key f"
    using none by (simp_all split: option.split)
  have f2: "fact_at ?d2 (p_fact_id p) = Some (row_activate_auto now ?f1)" by (simp add: tbl_get_upd f1)
  obtain h where h: "fact_at ?d3 (p_fact_id p) = Some h" "bare h = bare (row_activate_auto now ?f1)"
    using embed_effect_at[OF f2] by blast
  note hs = bare_eqD[OF h(2)]
  have calm2: "calm_but ?x ?d1 ?d2"
    by (rule calm_but_upd) (use f1 f1s na in \<open>auto simp: keeps_place_def was_active_def\<close>)
  have calm: "calm_but ?x d ?d"
    unfolding eff
    by (rule calm_but_trans[OF calm_but_trans[OF calm_but_trans[OF calm_but_trans[OF conflict_effect_calm[OF c(1)] calm2]
          calm_embed] calm_but_same(2)] calm_but_same(1)])
  have kp: "keeps_place f h" using hs f1s na by (simp add: keeps_place_def)
  have "conflict_ok ?d p h" by (rule conflict_ok_calm[OF c(1) calm kp])
  then have "conflict_ok ?d (?u p) h" by (simp add: conflict_ok_def)
  moreover have "fact_at ?d (p_fact_id p) = Some h" using h(1) by (simp add: eff)
  moreover have "state_matches (?u p) h"
    using hs f1s fresh by (simp add: state_matches_def was_active_def approved_by_engine_def)
  moreover have "f_namespace_id h = p_target_namespace_id p" using hs f1s c(3) by simp
  moreover have "separated (?u p)" using fresh by (simp add: separated_def)
  ultimately have this_one: "paired ?d (?u p)" using c(4) by (auto simp: paired_def)
  show ?thesis
  proof (rule governed_one[where u = ?u, OF g evolves_auto[OF fits at] at calm _ _ _ this_one])
    show "promotions_tbl ?d = tbl_upd p_id (p_id p) ?u (promotions_tbl d)" by (simp add: eff)
    show "map f_id (facts_tbl ?d) = map f_id (facts_tbl d)" by (simp add: eff map_key_upd)
  qed simp_all
qed

lemma governed_propose_rest:
  assumes "governed d" and "exec (propose_rest sv now nf np inp req apo c) d r d'" and "known_conflict inp c d" and "1 \<le> req"
  shows "governed d'"
proof -
  let ?q = "pending_with now nf np inp req c" and ?d = "propose_effect_with now nf np inp req c d"
  have f: "propose_fits_with now nf np inp req c d" using assms(2) by (simp add: exec_propose_rest)
  note ids = propose_fresh_ids[OF f]
  have one: "governed ?d" by (rule governed_propose_effect[OF assms(1) f assms(3,4)])
  show ?thesis
  proof (cases "auto_decision sv apo inp")
    case None
    then show ?thesis using assms(2) one by (simp add: exec_propose_rest Let_def)
  next
    case (Some av)
    obtain ap v where av: "av = (ap, v)" by fastforce
    then have "auto_fits sv now ?q ap ?d" "d' = auto_effect sv now ?q ap v ?d"
      using assms(2) Some by (simp_all add: exec_propose_rest Let_def)
    then show ?thesis using governed_auto[OF one, of sv now ?q ap] ids(3,4) by simp
  qed
qed

lemma governed_propose_tx:
  "governed d \<Longrightarrow> exec (propose_tx sv now nf np inp req apo) d r d' \<Longrightarrow> 1 \<le> req \<Longrightarrow> governed d'"
  unfolding exec_propose_conflict
  by (rule governed_propose_rest[OF _ _ known_conflicting[OF governed_schema]])

section \<open>Approve\<close>

lemma separated_decided:
  assumes "separated p" and "who \<noteq> p_proposer p"
  shows "separated (decided wall who c p)"
  using assms by (auto simp: separated_def add_approval_def)

lemma approvers_cong: "p_reviews q = p_reviews p \<Longrightarrow> p_proposer q = p_proposer p \<Longrightarrow> approvers q = approvers p"
  by (simp add: approvers_def)

lemma enough_cong: "p_reviews q = p_reviews p \<Longrightarrow> p_proposer q = p_proposer p \<Longrightarrow>
    p_required_approvals q = p_required_approvals p \<Longrightarrow> has_enough_approvals q = has_enough_approvals p"
  by (simp add: has_enough_approvals_def approval_count_def distinct_approvers_def)

lemma governed_approve_body:
  assumes g: "governed d" and e: "exec (approve_body sv now wall i who c) d r d'"
  shows "governed d'"
proof -
  obtain p where p: "promotion_at d i = Some p" "reviewable p" "who \<noteq> p_proposer p" "r = decided wall who c p" and
    eff: "(if has_enough_approvals r
         then activate_fits sv now r who d \<and>
              promotions_ok (activate_effect sv now r who d) (promotions_tbl d) \<and>
              d' = reviewed_effect now r (approved_event who r) (activate_effect sv now r who d)
         else promotions_ok d (promotions_tbl d) \<and> d' = reviewed_effect now r (approved_event who r) d)"
    using e unfolding exec_approve_body by blast
  have i: "p_id p = i" using tbl_get_Some[OF p(1)] by simp
  obtain f where f: "fact_at d (p_fact_id p) = Some f" "f_namespace_id f = p_target_namespace_id p"
    "1 \<le> p_required_approvals p" "separated p" "state_matches p f" "conflict_ok d p f"
    using governed_paired[OF g p(1)] by (auto simp: paired_def)
  have na: "\<not> was_active (f_status f)" using not_yet_active[OF f(5)] p(2) by (auto simp: reviewable_def)
  have sep: "separated r" using separated_decided[OF f(4) p(3)] p(4) by simp
  let ?u = "row_reviewed now (p_state r) (p_reviews r)" and ?x = "Some (p_fact_id p)"
  have ev: "evolves d d'" by (rule approve_body_evolves[OF e])
  have rs: "p_fact_id r = p_fact_id p" "p_proposer r = p_proposer p" "p_conflict_with r = p_conflict_with p"
    "p_required_approvals r = p_required_approvals p" "p_id r = i"
    by (simp_all add: p(4) i)
  have su: "separated (?u p)" using sep rs by (simp add: separated_def)
  show ?thesis
  proof (cases "has_enough_approvals r")
    case True
    let ?d1 = "conflict_effect now who r d"
    let ?d2 = "upd_fact (p_fact_id p) (row_activate now (approvers r)) ?d1"
    let ?d3 = "embed_effect sv (p_fact_id p) ?d2"
    have d': "d' = reviewed_effect now r (approved_event who r) (activate_effect sv now r who d)"
      using eff True by simp
    have act: "activate_effect sv now r who d = log_event (audit_row now (activated_event who (p_fact_id p))) ?d3"
      by (simp add: activate_effect_def rs)
    have cr: "conflict_ok d r f" using f(6) rs by (simp add: conflict_ok_def)
    let ?f1 = "case p_conflict_with r of None \<Rightarrow> f | Some c \<Rightarrow> row_supersedes now c f"
    have f1: "fact_at ?d1 (p_fact_id p) = Some ?f1"
      using conflict_effect_at_new[OF cr, of now who] f(1) rs(1) by simp
    have f1s: "f_status ?f1 = f_status f" "f_namespace_id ?f1 = f_namespace_id f"
      "f_canonical_key ?f1 = f_canonical_key f"
      by (simp_all split: option.split)
    have f2: "fact_at ?d2 (p_fact_id p) = Some (row_activate now (approvers r) ?f1)" by (simp add: tbl_get_upd f1)
    obtain h where h: "fact_at ?d3 (p_fact_id p) = Some h" "bare h = bare (row_activate now (approvers r) ?f1)"
      using embed_effect_at[OF f2] by blast
    note hs = bare_eqD[OF h(2)]
    have calm2: "calm_but ?x ?d1 ?d2"
      by (rule calm_but_upd) (use f1 f1s na in \<open>auto simp: keeps_place_def was_active_def\<close>)
    have calm: "calm_but ?x d d'"
      unfolding d' act reviewed_effect_def
      by (rule calm_but_trans[OF calm_but_trans[OF calm_but_trans[OF calm_but_trans[OF
            calm_but_trans[OF conflict_effect_calm[OF cr] calm2] calm_embed] calm_but_same(1)] calm_but_same(2)] calm_but_same(1)])
    have kp: "keeps_place f h" using hs f1s na by (simp add: keeps_place_def)
    have "conflict_ok d' p h" by (rule conflict_ok_calm[OF f(6) calm kp])
    then have "conflict_ok d' (?u p) h" by (simp add: conflict_ok_def)
    moreover have "fact_at d' (p_fact_id p) = Some h" using h(1) by (simp add: d' act reviewed_effect_def)
    moreover have "state_matches (?u p) h"
    proof -
      have "p_state r = StateApproved" using True p(4) by (simp add: decided_state)
      moreover have "has_enough_approvals (?u p)" using True enough_cong[of "?u p" r] rs by simp
      moreover have "approvers (?u p) = approvers r" using approvers_cong[of "?u p" r] rs by simp
      ultimately show ?thesis
        using hs by (simp add: state_matches_def was_active_def approved_by_people_def)
    qed
    moreover have "f_namespace_id h = p_target_namespace_id p" using hs f1s f(2) by simp
    ultimately have this_one: "paired d' (?u p)" using f(3) su by (auto simp: paired_def)
    show ?thesis
    proof (rule governed_one[where u = ?u, OF g ev p(1) calm _ _ _ this_one])
      show "promotions_tbl d' = tbl_upd p_id i ?u (promotions_tbl d)" by (simp add: d' reviewed_effect_def rs)
      show "map f_id (facts_tbl d') = map f_id (facts_tbl d)" by (simp add: d' act reviewed_effect_def map_key_upd)
    qed simp
  next
    case False
    have d': "d' = reviewed_effect now r (approved_event who r) d" using eff False by simp
    have st: "p_state r = StateInReview" using False p(4) by (simp add: decided_state)
    have calm: "calm_but ?x d d'"
      unfolding d' reviewed_effect_def by (rule calm_but_trans[OF calm_but_same(2) calm_but_same(1)])
    have "fact_at d' (p_fact_id p) = Some f" using f(1) by (simp add: d' reviewed_effect_def)
    moreover have "conflict_ok d' (?u p) f"
      using conflict_ok_calm[OF f(6) calm keeps_place_refl] by (simp add: conflict_ok_def)
    moreover have "state_matches (?u p) f"
      using f(5) p(2) st by (auto simp: state_matches_def reviewable_def)
    ultimately have this_one: "paired d' (?u p)" using f(2,3) su by (auto simp: paired_def)
    show ?thesis
    proof (rule governed_one[where u = ?u, OF g ev p(1) calm _ _ _ this_one])
      show "promotions_tbl d' = tbl_upd p_id i ?u (promotions_tbl d)" by (simp add: d' reviewed_effect_def rs)
      show "map f_id (facts_tbl d') = map f_id (facts_tbl d)" by (simp add: d' reviewed_effect_def)
    qed simp
  qed
qed

section \<open>Review, submit, withdraw\<close>

definition bounce_pair :: "promo_state \<Rightarrow> status \<Rightarrow> bool" where
  "bounce_pair st s \<longleftrightarrow> (st, s) \<in> {(StateRejected, StatusRejected), (StateChangesRequested, StatusProposed),
     (StateInReview, StatusInReview)}"

lemma governed_bounced:
  assumes g: "governed d" and p: "promotion_at d i = Some p" and open': "p_state p \<noteq> StateApproved" "p_state p \<noteq> StateRejected"
    and q: "p_id q = i" "p_fact_id q = p_fact_id p" "p_proposer q = p_proposer p" "prefix (p_reviews p) (p_reviews q)"
    and sep: "separated p \<Longrightarrow> separated q" and pair: "bounce_pair (p_state q) to"
    and fits: "bounce_fits now q to d"
  shows "governed (bounced_effect now q to ev d)"
proof -
  let ?d = "bounced_effect now q to ev d"
  let ?u = "row_reviewed now (p_state q) (p_reviews q)" and ?x = "Some (p_fact_id p)"
  obtain f where f: "fact_at d (p_fact_id p) = Some f" "f_namespace_id f = p_target_namespace_id p"
    "1 \<le> p_required_approvals p" "separated p" "state_matches p f" "conflict_ok d p f"
    using governed_paired[OF g p] by (auto simp: paired_def)
  have na: "\<not> was_active (f_status f)" using not_yet_active[OF f(5)] open'(1) by simp
  have evo: "evolves d ?d" by (rule evolves_bounced[OF fits, of p]) (use p q in simp_all)
  have calm1: "calm_but ?x (upd_promotion i ?u d) (upd_fact (p_fact_id p) (row_status now to) (upd_promotion i ?u d))"
    by (rule calm_but_upd) (use f na in \<open>auto simp: keeps_place_def\<close>)
  have calm: "calm_but ?x d ?d"
    unfolding bounced_effect_def q
    by (rule calm_but_trans[OF calm_but_trans[OF calm_but_same(2) calm1] calm_but_same(1)])
  have at: "fact_at ?d (p_fact_id p) = Some (row_status now to f)"
    using f(1) q by (simp add: bounced_effect_def tbl_get_upd)
  have "keeps_place f (row_status now to f)" using na by (simp add: keeps_place_def)
  then have "conflict_ok ?d (?u p) (row_status now to f)"
    using conflict_ok_calm[OF f(6) calm] by (simp add: conflict_ok_def)
  moreover have "state_matches (?u p) (row_status now to f)"
    using pair by (auto simp: state_matches_def bounce_pair_def)
  moreover have "separated (?u p)" using sep[OF f(4)] q by (simp add: separated_def)
  ultimately have this_one: "paired ?d (?u p)" using at f(2,3) by (auto simp: paired_def)
  show ?thesis
  proof (rule governed_one[where u = ?u, OF g evo p calm _ _ _ this_one])
    show "promotions_tbl ?d = tbl_upd p_id i ?u (promotions_tbl d)" by (simp add: bounced_effect_def q)
    show "map f_id (facts_tbl ?d) = map f_id (facts_tbl d)" by (simp add: bounced_effect_def map_key_upd)
  qed simp
qed

lemma governed_review_body:
  assumes g: "governed d" and "exec (review_body now wall i who dec c to fact_to act) d r d'"
    and "dec \<noteq> DecisionApprove" and "bounce_pair to fact_to"
  shows "governed d'"
proof -
  obtain p where p: "promotion_at d i = Some p" "reviewable p" "r = with_review wall who dec c to p"
    "bounce_fits now r fact_to d" "d' = bounced_effect now r fact_to (promotion_event who act i to []) d"
    using assms(2) unfolding exec_review_body by blast
  have "governed (bounced_effect now r fact_to (promotion_event who act i to []) d)"
    by (rule governed_bounced[OF g p(1) _ _ _ _ _ _ _ _ p(4)])
      (use p(2,3) tbl_get_Some[OF p(1)] assms(3,4) in \<open>auto simp: reviewable_def separated_def\<close>)
  then show ?thesis unfolding p(5) .
qed

lemma governed_transition_body:
  assumes g: "governed d" and "exec (transition_body now i who mutate fact_to act) d r d'"
    and mut: "\<And>p q. mutate p = Inr q \<Longrightarrow> (p_state p = StatePending \<or> p_state p = StateChangesRequested) \<and>
      q = p\<lparr>p_state := to\<rparr>"
    and "bounce_pair to fact_to"
  shows "governed d'"
proof -
  have m: "\<And>p q. mutate p = Inr q \<Longrightarrow> p_id q = p_id p" using mut by force
  obtain p where p: "promotion_at d i = Some p" "mutate p = Inr r" "bounce_fits now r fact_to d"
    "d' = bounced_effect now r fact_to (promotion_event who act i (p_state r) []) d"
    using assms(2) exec_transition_body[OF m] by blast
  have "governed (bounced_effect now r fact_to (promotion_event who act i (p_state r) []) d)"
    by (rule governed_bounced[OF g p(1) _ _ _ _ _ _ _ _ p(3)])
      (use mut[OF p(2)] tbl_get_Some[OF p(1)] assms(4) in \<open>auto simp: separated_def\<close>)
  then show ?thesis unfolding p(4) .
qed

end
