(* ===== verification/System.thy ===== *)
theory System
  imports Preservation
begin

text \<open>
  The service as a transition system. An operation is one unit of work against the store; a step runs
  one, under any pattern of faults, and leaves the store it commits or, on an error, the store it found.
  Operations of different callers interleave in any order. A request that is more than one unit of work
  (propose reads the policy first, request-changes edits the statement after its gate) is the sequence
  of its units, so what holds of every reachable store holds between them too.
\<close>

section \<open>Operations\<close>

datatype op =
    OpPropose timestamp uuid uuid propose_input int "auto_promote option"
  | OpApprove timestamp timestamp uuid principal_id string
  | OpReject timestamp timestamp uuid principal_id string
  | OpRequestChanges timestamp timestamp uuid principal_id string
  | OpEditStatement timestamp uuid string
  | OpSubmit timestamp uuid principal_id
  | OpWithdraw timestamp uuid principal_id
  | OpRevoke timestamp uuid int principal_id
  | OpReap timestamp "fact_row list \<Rightarrow> fact_row list"
  | OpEmbed uuid vec
  | OpCreateNamespace timestamp uuid namespace
  | OpUpdatePolicy uuid policy
  | OpGrant principal_id uuid string
  | OpRevokeGrant principal_id uuid string

definition discard :: "('db, 'a) sql \<Rightarrow> ('db, unit) sql" where
  "discard m = bind_sql m (\<lambda>_. return_sql ())"

fun op_run :: "service \<Rightarrow> op \<Rightarrow> bool list \<Rightarrow> db \<Rightarrow> db" where
  "op_run sv (OpPropose now nf np inp req apo) fs d = snd (run (in_tx (propose_tx sv now nf np inp req apo)) fs d)"
| "op_run sv (OpApprove now wall i who c) fs d = snd (run (approve sv now wall i who c) fs d)"
| "op_run sv (OpReject now wall i who c) fs d = snd (run (reject now wall i who c) fs d)"
| "op_run sv (OpRequestChanges now wall i who c) fs d = snd (run (request_changes now wall i who c []) fs d)"
| "op_run sv (OpEditStatement now i s) fs d = snd (run (on_pool (update_statement now i s)) fs d)"
| "op_run sv (OpSubmit now i who) fs d = snd (run (submit now i who) fs d)"
| "op_run sv (OpWithdraw now i who) fs d = snd (run (withdraw now i who) fs d)"
| "op_run sv (OpRevoke now i v who) fs d = snd (run (revoke_fact now i v who) fs d)"
| "op_run sv (OpReap now plan) fs d = snd (run (reap now plan) fs d)"
| "op_run sv (OpEmbed i v) fs d = snd (run (on_pool (set_embedding i v)) fs d)"
| "op_run sv (OpCreateNamespace now new ns) fs d = snd (run (create_namespace now new ns) fs d)"
| "op_run sv (OpUpdatePolicy i p) fs d = snd (run (update_policy i p) fs d)"
| "op_run sv (OpGrant who ns role) fs d = snd (run (grant who ns role) fs d)"
| "op_run sv (OpRevokeGrant who ns role) fs d = snd (run (revoke_grant who ns role) fs d)"

text \<open>What \<^verbatim>\<open>Propose\<close> guarantees of the transaction it opens, and a query plan of its rows.\<close>

fun op_ok :: "op \<Rightarrow> bool" where
  "op_ok (OpPropose now nf np inp req apo) \<longleftrightarrow> subject_valid (in_subject inp) \<and> 1 \<le> req"
| "op_ok _ \<longleftrightarrow> True"

text \<open>A plan only reorders: the reaper's is applied to a list of rows and gives a permutation of it.\<close>

inductive sys_step :: "service \<Rightarrow> db \<Rightarrow> op \<Rightarrow> db \<Rightarrow> bool" for sv where
  step: "op_ok x \<Longrightarrow> (\<And>now plan t. x = OpReap now plan \<Longrightarrow> mset (plan t) = mset t) \<Longrightarrow>
         sys_step sv d x (op_run sv x fs d)"

inductive reachable :: "service \<Rightarrow> db \<Rightarrow> bool" for sv where
  init: "reachable sv empty_db"
| next_op: "reachable sv d \<Longrightarrow> sys_step sv d x d' \<Longrightarrow> reachable sv d'"

section \<open>A step leaves the store or commits a clean run\<close>

inductive_cases sys_stepE: "sys_step sv d x d'"

lemma in_tx_snd:
  assumes "well_behaved m" and "\<And>a. exec m d a d' \<Longrightarrow> P d'" and "d' = snd (run (in_tx m) fs d)" and "P d"
  shows "P d'"
proof -
  obtain r where "run (in_tx m) fs d = (r, d')" using assms(3) by (cases "run (in_tx m) fs d") simp
  then show ?thesis by (rule run_in_tx_cases[OF assms(1)]) (use assms in auto)
qed

lemma on_pool_stmt_snd: "snd (run (on_pool (stmt f)) fs d) = d \<or> (\<exists>a. f d = Inr (a, snd (run (on_pool (stmt f)) fs d)))"
  by (cases "f d") (auto simp: run_def on_pool_def stmt_def split: prod.split bool.split)

lemma bind_return_snd:
  assumes "\<And>a s. store (snd (k a s)) = store s"
  shows "snd (run (bind_sql m k) fs d) = snd (run m fs d)"
  using assms by (auto simp: run_def bind_sql_def split: prod.split sum.split) (metis snd_conv)+

section \<open>Namespaces and memberships evolve\<close>

lemma evolves_namespaces:
  assumes "namespaces_ok rows" and "rows_kept namespace_fixed nr_id (namespaces_tbl d) rows"
    and "set (map nr_id (namespaces_tbl d)) \<subseteq> set (map nr_id rows)"
  shows "evolves d (d\<lparr>namespaces_tbl := rows\<rparr>)"
proof -
  let ?d = "d\<lparr>namespaces_tbl := rows\<rparr>"
  have "facts_ok d t \<Longrightarrow> facts_ok ?d t" "promotions_ok d ps \<Longrightarrow> promotions_ok ?d ps"
    "memberships_ok d ms \<Longrightarrow> memberships_ok ?d ms" for t ps ms
    using assms(3) by (auto simp: facts_ok_def promotions_ok_def memberships_ok_def list_all_iff)
  then show ?thesis
    using assms(1,2) by (simp add: evolves_def schema_ok_def keys_derived_def rows_kept_refl)
qed

lemma evolves_memberships:
  assumes "memberships_ok d ms"
  shows "evolves d (d\<lparr>memberships_tbl := ms\<rparr>)"
proof -
  let ?d = "d\<lparr>memberships_tbl := ms\<rparr>"
  have "facts_ok ?d = facts_ok d" "promotions_ok ?d = promotions_ok d" "memberships_ok ?d = memberships_ok d"
    by (simp_all add: facts_ok_def promotions_ok_def memberships_ok_def fun_eq_iff)
  then show ?thesis using assms by (simp add: evolves_def schema_ok_def keys_derived_def rows_kept_refl)
qed

lemma create_namespace_snd: "snd (run (create_namespace now new ns) fs d) = d \<or>
    (\<exists>r. namespaces_ok (tbl_ins r (namespaces_tbl d)) \<and>
       snd (run (create_namespace now new ns) fs d) = d\<lparr>namespaces_tbl := tbl_ins r (namespaces_tbl d)\<rparr>)"
proof -
  define ns' where "ns' = (if is_zero (n_policy ns) then ns\<lparr>n_policy := default_policy (n_kind ns)\<rparr> else ns)"
  show ?thesis
  proof (cases "marshal_policy (n_policy ns')")
    case (Inl e)
    then show ?thesis by (simp add: create_namespace_def Let_def ns'_def[symmetric] run_def fail_sql_def)
  next
    case (Inr js)
    let ?r = "\<lparr>nr_id = new, nr_name = n_name ns', nr_kind = n_kind ns', nr_parent_id = n_parent_id ns',
        nr_policy = js, nr_created_at = now\<rparr>"
    have "snd (run (create_namespace now new ns) fs d) =
        snd (run (on_pool (stmt (\<lambda>d. put_namespaces (tbl_ins ?r (namespaces_tbl d)) d))) fs d)"
      unfolding create_namespace_def Let_def ns'_def[symmetric] Inr sum.case
      by (rule bind_return_snd) (simp add: return_sql_def)
    then show ?thesis
      using on_pool_stmt_snd[of "\<lambda>d. put_namespaces (tbl_ins ?r (namespaces_tbl d)) d" fs d]
      by (auto simp: put_namespaces_Inr)
  qed
qed

lemma update_policy_snd: "snd (run (update_policy i p) fs d) = d \<or>
    (\<exists>js. let rows = tbl_upd nr_id i (\<lambda>n. n\<lparr>nr_policy := js\<rparr>) (namespaces_tbl d)
      in namespaces_ok rows \<and> snd (run (update_policy i p) fs d) = d\<lparr>namespaces_tbl := rows\<rparr>)"
proof (cases "marshal_policy p")
  case (Inl e)
  then show ?thesis by (simp add: update_policy_def run_def fail_sql_def)
next
  case (Inr js)
  let ?rows = "\<lambda>d. tbl_upd nr_id i (\<lambda>n. n\<lparr>nr_policy := js\<rparr>) (namespaces_tbl d)"
  let ?f = "\<lambda>d. (case put_namespaces (?rows d) d of
                 Inl e \<Rightarrow> Inl e
               | Inr (_, d') \<Rightarrow> Inr (length (filter (\<lambda>n. nr_id n = i) (namespaces_tbl d)), d'))"
  have "snd (run (update_policy i p) fs d) = snd (run (on_pool (stmt ?f)) fs d)"
    unfolding update_policy_def Inr sum.case
    by (rule bind_return_snd) (simp add: return_sql_def fail_sql_def)
  then show ?thesis
    using on_pool_stmt_snd[of ?f fs d]
    by (auto simp: put_namespaces_def Let_def split: if_splits)
qed

lemma namespace_step:
  assumes "x = OpCreateNamespace now new ns \<or> x = OpUpdatePolicy i p"
  shows "evolves d (op_run sv x fs d) \<and> facts_tbl (op_run sv x fs d) = facts_tbl d \<and>
    promotions_tbl (op_run sv x fs d) = promotions_tbl d \<and> audit_tbl (op_run sv x fs d) = audit_tbl d"
  using assms
proof
  assume x: "x = OpCreateNamespace now new ns"
  have "evolves d (d\<lparr>namespaces_tbl := tbl_ins r (namespaces_tbl d)\<rparr>)"
    if "namespaces_ok (tbl_ins r (namespaces_tbl d))" for r
  proof (rule evolves_namespaces[OF that])
    show "rows_kept namespace_fixed nr_id (namespaces_tbl d) (tbl_ins r (namespaces_tbl d))"
      by (rule rows_kept_ins) simp
  qed (auto simp: tbl_ins_def)
  then show ?thesis using create_namespace_snd[of now new ns fs d] by (auto simp: x)
next
  assume x: "x = OpUpdatePolicy i p"
  let ?rows = "\<lambda>js. tbl_upd nr_id i (\<lambda>n. n\<lparr>nr_policy := js\<rparr>) (namespaces_tbl d)"
  have ids: "map nr_id (?rows js) = map nr_id (namespaces_tbl d)" for js by (rule map_key_upd) simp
  have "evolves d (d\<lparr>namespaces_tbl := ?rows js\<rparr>)" if "namespaces_ok (?rows js)" for js
  proof (rule evolves_namespaces[OF that])
    show "rows_kept namespace_fixed nr_id (namespaces_tbl d) (?rows js)"
      by (rule rows_kept_upd) (simp_all add: namespace_fixed_def)
  qed (simp only: ids order_refl)
  then show ?thesis using update_policy_snd[of i p fs d] by (auto simp: x Let_def)
qed

lemma membership_step:
  assumes "x = OpGrant who ns role \<or> x = OpRevokeGrant who ns role"
  shows "evolves d (op_run sv x fs d) \<and> facts_tbl (op_run sv x fs d) = facts_tbl d \<and>
    promotions_tbl (op_run sv x fs d) = promotions_tbl d \<and> audit_tbl (op_run sv x fs d) = audit_tbl d"
proof -
  have "op_run sv x fs d = d \<or> (\<exists>ms. memberships_ok d ms \<and> op_run sv x fs d = d\<lparr>memberships_tbl := ms\<rparr>)"
    using assms
  proof
    assume x: "x = OpGrant who ns role"
    let ?f = "\<lambda>d. let m = \<lparr>m_principal = who, m_namespace_id = ns, m_role = role\<rparr>
        in if m \<in> set (memberships_tbl d) then Inr ((), d) else put_memberships (memberships_tbl d @ [m]) d"
    show ?thesis
      using on_pool_stmt_snd[of ?f fs d]
      by (auto simp: x grant_def run_def fail_sql_def Let_def put_memberships_Inr split: if_splits)
  next
    assume x: "x = OpRevokeGrant who ns role"
    show ?thesis
      using on_pool_stmt_snd[of "\<lambda>d. put_memberships
       (filter (\<lambda>m. \<not> (m_principal m = who \<and> m_namespace_id m = ns \<and> m_role m = role)) (memberships_tbl d)) d" fs d]
      by (auto simp: x revoke_grant_def put_memberships_Inr)
  qed
  then show ?thesis using evolves_memberships by auto
qed

lemma governed_same_rows:
  assumes "governed d" and "evolves d d'" and "facts_tbl d' = facts_tbl d" and "promotions_tbl d' = promotions_tbl d"
  shows "governed d'"
  by (rule governed_calm[OF assms(1,2) _ assms(4)]) (auto simp: calm_but_def assms(3))

section \<open>Every step keeps the invariant\<close>

lemma governed_expire:
  assumes "governed d" and "fact_at d i = Some f" and "was_active (f_status f)"
    and ok: "facts_ok d (tbl_upd f_id i (row_status now StatusExpired) (facts_tbl d))"
  shows "governed (expire_one now i d)"
proof (rule governed_calm[OF assms(1)])
  show "evolves d (expire_one now i d)"
    unfolding expire_one_def by (rule evolves_trans[OF evolves_upd_fact[OF ok] evolves_log]) simp
  show "calm_but None d (expire_one now i d)"
    unfolding expire_one_def
    by (rule calm_but_trans[OF calm_but_upd calm_but_same(1)])
      (use assms(2,3) in \<open>auto simp: calm_def keeps_place_def was_active_def\<close>)
qed (simp_all add: expire_one_def map_key_upd)

lemma governed_reap_loop:
  "exec (reap_loop now is) d a d' \<Longrightarrow> governed d \<Longrightarrow>
   (\<And>i. i \<in> set is \<Longrightarrow> \<exists>f. fact_at d i = Some f \<and> was_active (f_status f)) \<Longrightarrow> governed d'"
proof (induction "is" arbitrary: d)
  case Nil
  then show ?case by (simp add: sql_exec)
next
  case (Cons i "is")
  then have ok: "facts_ok d (tbl_upd f_id i (row_status now StatusExpired) (facts_tbl d))" and
    rest: "exec (reap_loop now is) (expire_one now i d) a d'"
    by (auto simp: sql_exec sql_safe update_facts_id_Inr expire_one_def)
  obtain f where f: "fact_at d i = Some f" "was_active (f_status f)" using Cons.prems(3)[of i] by auto
  have "governed (expire_one now i d)" by (rule governed_expire[OF Cons.prems(2) f ok])
  moreover have "\<exists>f. fact_at (expire_one now i d) j = Some f \<and> was_active (f_status f)" if "j \<in> set is" for j
    using Cons.prems(3)[of j] that by (auto simp: expire_one_def tbl_get_upd was_active_def)
  ultimately show ?case using Cons.IH[OF rest] by simp
qed

lemma governed_reap_body:
  assumes "governed d" and "exec (reap_body now plan) d r d'" and "mset (plan (facts_tbl d)) = mset (facts_tbl d)"
  shows "governed d'"
proof -
  let ?ids = "map f_id (filter (due now) (plan (facts_tbl d)))"
  have l: "exec (reap_loop now ?ids) d () d'"
    using assms(2) by (auto simp: reap_body_def sql_exec sql_safe)
  have ok: "distinct (map f_id (facts_tbl d))"
    using governed_schema[OF assms(1)] by (simp add: schema_ok_def facts_ok_def)
  have "\<exists>f. fact_at d i = Some f \<and> was_active (f_status f)" if i: "i \<in> set ?ids" for i
  proof -
    obtain f where "f \<in> set (plan (facts_tbl d))" "due now f" "f_id f = i" using i by auto
    moreover have "set (plan (facts_tbl d)) = set (facts_tbl d)" using assms(3) by (rule mset_eq_setD)
    ultimately show ?thesis using tbl_get_in[OF ok, of f] by (auto simp: due_def was_active_def)
  qed
  then show ?thesis using governed_reap_loop[OF l assms(1)] by blast
qed

lemma governed_revoke_body: "governed d \<Longrightarrow> exec (revoke_body now i v who) d a d' \<Longrightarrow> governed d'"
proof -
  assume g: "governed d" and e: "exec (revoke_body now i v who) d a d'"
  note ev = revoke_body_evolves[OF e]
  obtain f where f: "fact_at d i = Some f" "f_status f = StatusActive"
    using e by (auto simp: exec_revoke_body revocable_def split: option.splits)
  obtain ev1 where d': "d' = log_event ev1 (upd_fact i (row_status now StatusRevoked) d)"
    using e by (auto simp: exec_revoke_body)
  show "governed d'"
  proof (rule governed_calm[OF g ev])
    show "calm_but None d d'"
      unfolding d' by (rule calm_but_trans[OF calm_but_upd calm_but_same(1)]) (use f in \<open>auto intro: calm_keeps\<close>)
  qed (simp_all add: d' map_key_upd)
qed

lemma governed_embed:
  assumes "governed d"
  shows "governed (snd (run (on_pool (set_embedding i v)) fs d))"
proof -
  let ?d = "snd (run (on_pool (set_embedding i v)) fs d)"
  consider "?d = d" | "facts_ok d (tbl_upd f_id i (row_embed v) (facts_tbl d))" "?d = upd_fact i (row_embed v) d"
    using on_pool_stmt_snd[of "update_facts (\<lambda>f. f_id f = i) (row_embed v)" fs d]
    by (auto simp: set_embedding_def update_facts_id_Inr)
  then show ?thesis
  proof cases
    case 2
    have "governed (upd_fact i (row_embed v) d)"
      by (rule governed_calm[OF assms evolves_upd_fact[OF 2(1)] calm_but_upd])
        (auto simp: map_key_upd intro: calm_keeps)
    with 2 show ?thesis by simp
  qed (use assms in simp)
qed

lemma governed_edit:
  assumes "governed d"
  shows "governed (snd (run (on_pool (update_statement now i s)) fs d))"
proof -
  let ?d = "snd (run (on_pool (update_statement now i s)) fs d)"
  consider "?d = d" | "promotions_ok d (promotions_tbl d)" "?d = upd_promotion i (row_statement now s) d"
    using on_pool_stmt_snd[of "update_promotions i (row_statement now s)" fs d]
    by (auto simp: update_statement_def update_promotions_Inr)
  then show ?thesis
  proof cases
    case 2
    have ev: "evolves d ?d" unfolding 2(2) by (rule evolves_upd_promotion_at[OF 2(1)]) simp_all
    show ?thesis
    proof (cases "promotion_at d i")
      case None
      then have "tbl_upd p_id i (row_statement now s) (promotions_tbl d) = promotions_tbl d"
        by (auto simp: tbl_upd_def tbl_get_None intro!: map_idI)
      then show ?thesis using assms by (simp add: 2(2) upd_promotion_def)
    next
      case (Some p)
      have "paired d (row_statement now s p)"
        using governed_paired[OF assms Some] paired_cong[of "row_statement now s p" p] by simp
      then have "paired ?d (row_statement now s p)" unfolding 2(2) by (simp add: paired_def conflict_ok_def)
      then show ?thesis
        using governed_one[where u = "row_statement now s", OF assms ev Some] by (simp add: 2(2))
    qed
  qed (use assms in simp)
qed

lemma request_changes_no_edit: "snd (run (request_changes now wall i who c []) fs d) =
    snd (run (in_tx (review_body now wall i who DecisionRequestChanges c StateChangesRequested
        StatusProposed ''promotion.changes_requested'')) fs d)"
  unfolding request_changes_def by (rule bind_return_snd) (simp add: return_sql_def)

lemma governed_submit:
  "governed d \<Longrightarrow> exec (transition_body now i who (submit_mutate who) StatusInReview act) d r d' \<Longrightarrow> governed d'"
  by (erule (1) governed_transition_body[where to = StateInReview]) (auto simp: mutate_Inr bounce_pair_def)

lemma governed_withdraw:
  "governed d \<Longrightarrow> exec (transition_body now i who (withdraw_mutate who) StatusRejected act) d r d' \<Longrightarrow> governed d'"
  by (erule (1) governed_transition_body[where to = StateRejected]) (auto simp: mutate_Inr bounce_pair_def)

lemma governed_step:
  assumes g: "governed d" and st: "sys_step sv d x d'"
  shows "governed d'"
proof -
  obtain fs where d': "d' = op_run sv x fs d" and ok: "op_ok x" and
    plan: "\<And>now plan t. x = OpReap now plan \<Longrightarrow> mset (plan t) = mset t"
    using st by (auto elim: sys_stepE)
  show ?thesis
  proof (cases x)
    case (OpPropose now nf np inp req apo)
    show ?thesis
      by (rule in_tx_snd[of "propose_tx sv now nf np inp req apo" d d' governed fs])
        (use g ok in \<open>auto simp: d' OpPropose intro: governed_propose_tx sql_safe\<close>)
  next
    case (OpApprove now wall i who c)
    show ?thesis
      by (rule in_tx_snd[of "approve_body sv now wall i who c" d d' governed fs])
        (use g in \<open>auto simp: d' OpApprove approve_def intro: governed_approve_body sql_safe\<close>)
  next
    case (OpReject now wall i who c)
    show ?thesis
      by (rule in_tx_snd[of "review_body now wall i who DecisionReject c StateRejected StatusRejected ''promotion.rejected''"
            d d' governed fs])
        (use g governed_review_body in \<open>auto simp: d' OpReject reject_def bounce_pair_def intro: sql_safe\<close>)
  next
    case (OpRequestChanges now wall i who c)
    show ?thesis
      by (rule in_tx_snd[of "review_body now wall i who DecisionRequestChanges c StateChangesRequested
            StatusProposed ''promotion.changes_requested''" d d' governed fs])
        (use g governed_review_body in
          \<open>auto simp: d' OpRequestChanges request_changes_no_edit bounce_pair_def intro: sql_safe\<close>)
  next
    case (OpEditStatement now i s)
    then show ?thesis using governed_edit[OF g] by (simp add: d')
  next
    case (OpSubmit now i who)
    show ?thesis
      by (rule in_tx_snd[of "transition_body now i who (submit_mutate who) StatusInReview ''promotion.submitted''"
            d d' governed fs])
        (use g in \<open>auto simp: d' OpSubmit submit_def intro: governed_submit sql_safe\<close>)
  next
    case (OpWithdraw now i who)
    show ?thesis
      by (rule in_tx_snd[of "transition_body now i who (withdraw_mutate who) StatusRejected ''promotion.withdrawn''"
            d d' governed fs])
        (use g in \<open>auto simp: d' OpWithdraw withdraw_def intro: governed_withdraw sql_safe\<close>)
  next
    case (OpRevoke now i v who)
    show ?thesis
      by (rule in_tx_snd[of "revoke_body now i v who" d d' governed fs])
        (use g in \<open>auto simp: d' OpRevoke revoke_fact_def intro: governed_revoke_body sql_safe\<close>)
  next
    case (OpReap now plan)
    show ?thesis
      by (rule in_tx_snd[of "reap_body now plan" d d' governed fs])
        (use g plan OpReap in \<open>auto simp: d' reap_def intro: governed_reap_body sql_safe\<close>)
  next
    case (OpEmbed i v)
    then show ?thesis using governed_embed[OF g] by (simp add: d')
  next
    case (OpCreateNamespace now new ns)
    then show ?thesis using governed_same_rows[OF g] namespace_step d' by blast
  next
    case (OpUpdatePolicy i p)
    then show ?thesis using governed_same_rows[OF g] namespace_step d' by blast
  next
    case (OpGrant who ns role)
    then show ?thesis using governed_same_rows[OF g] membership_step d' by blast
  next
    case (OpRevokeGrant who ns role)
    then show ?thesis using governed_same_rows[OF g] membership_step d' by blast
  qed
qed

lemma reachable_governed: "reachable sv d \<Longrightarrow> governed d"
  by (induction rule: reachable.induct) (auto intro: governed_empty governed_step)

end
