(* ===== verification/Progress.thy ===== *)
theory Progress
  imports System
begin

text \<open>
  How stores progress: which moves a step makes a fact's status take, compared with the lifecycle table,
  and that a decided promotion is final. Together with \<open>evolves\<close> this is a preorder every step respects,
  so it relates any store to any later one.
\<close>

section \<open>Moves\<close>

definition code_move :: "status \<Rightarrow> status \<Rightarrow> bool" where
  "code_move s s' \<longleftrightarrow> life_reach s s' \<or> s \<in> {StatusRevoked, StatusExpired} \<and> s' = StatusSuperseded"

definition fact_moves :: "db \<Rightarrow> db \<Rightarrow> bool" where
  "fact_moves d d' \<longleftrightarrow>
     (\<forall>i f. fact_at d i = Some f \<longrightarrow> (\<exists>g. fact_at d' i = Some g \<and> code_move (f_status f) (f_status g)))"

definition final :: "promotion \<Rightarrow> promotion \<Rightarrow> bool" where
  "final p q \<longleftrightarrow>
     (p_state p = StateApproved \<or> p_state p = StateRejected \<longrightarrow> p_state q = p_state p \<and> p_reviews q = p_reviews p)"

definition progress :: "db \<Rightarrow> db \<Rightarrow> bool" where
  "progress d d' \<longleftrightarrow> evolves d d' \<and> fact_moves d d' \<and> rows_kept final p_id (promotions_tbl d) (promotions_tbl d')"

lemma life_reach_refl [simp]: "life_reach s s"
  by (simp add: life_reach_def)

lemma code_move_refl [simp]: "code_move s s"
  by (simp add: code_move_def)

lemma life_reach_steps:
  "life_reach StatusProposed StatusInReview" "life_reach StatusInReview StatusProposed"
  "life_reach StatusProposed StatusActive" "life_reach StatusInReview StatusActive"
  "life_reach StatusProposed StatusRejected" "life_reach StatusInReview StatusRejected"
  "life_reach StatusActive StatusSuperseded" "life_reach StatusActive StatusRevoked"
  "life_reach StatusActive StatusExpired"
proof -
  have s: "life_step StatusProposed StatusInReview" "life_step StatusInReview StatusProposed"
    "life_step StatusInReview StatusActive" "life_step StatusProposed StatusRejected"
    "life_step StatusInReview StatusRejected" "life_step StatusActive StatusSuperseded"
    "life_step StatusActive StatusRevoked" "life_step StatusActive StatusExpired"
    by (simp_all add: life_step_iff)
  then show "life_reach StatusProposed StatusInReview" "life_reach StatusInReview StatusProposed"
    "life_reach StatusInReview StatusActive" "life_reach StatusProposed StatusRejected"
    "life_reach StatusInReview StatusRejected" "life_reach StatusActive StatusSuperseded"
    "life_reach StatusActive StatusRevoked" "life_reach StatusActive StatusExpired"
    unfolding life_reach_def by auto
  show "life_reach StatusProposed StatusActive"
    unfolding life_reach_def using s(1,3) by (auto intro: converse_rtranclp_into_rtranclp)
qed

lemma code_move_steps [simp]:
  "code_move StatusProposed StatusInReview" "code_move StatusInReview StatusProposed"
  "code_move StatusProposed StatusActive" "code_move StatusInReview StatusActive"
  "code_move StatusProposed StatusRejected" "code_move StatusInReview StatusRejected"
  "code_move StatusActive StatusRevoked" "code_move StatusActive StatusExpired"
  "was_active s \<Longrightarrow> code_move s StatusSuperseded"
  using life_reach_steps by (auto simp: code_move_def was_active_def)

lemma life_reach_trans: "life_reach a b \<Longrightarrow> life_reach b c \<Longrightarrow> life_reach a c"
  unfolding life_reach_def by simp

lemma life_reach_from_was: "life_reach s s' \<Longrightarrow> s' \<in> {StatusRevoked, StatusExpired} \<Longrightarrow> s' \<noteq> s \<Longrightarrow> life_reach s StatusActive"
proof -
  assume a: "life_reach s s'" "s' \<in> {StatusRevoked, StatusExpired}" "s' \<noteq> s"
  then have "\<not> is_terminal s" using life_reach_terminal by blast
  then show ?thesis using life_reach_steps by (cases s) auto
qed

lemma code_move_trans:
  assumes "code_move a b" and "code_move b c"
  shows "code_move a c"
proof (cases "life_reach b c")
  case reach: True
  show ?thesis
  proof (cases "life_reach a b")
    case True
    then show ?thesis using reach by (auto simp: code_move_def intro: life_reach_trans)
  next
    case False
    then have ab: "a \<in> {StatusRevoked, StatusExpired}" "b = StatusSuperseded" using assms(1) by (auto simp: code_move_def)
    then have "c = b" using reach life_reach_terminal[of b c] by simp
    then show ?thesis using assms(1) by simp
  qed
next
  case False
  then have bc: "b \<in> {StatusRevoked, StatusExpired}" "c = StatusSuperseded" using assms(2) by (auto simp: code_move_def)
  then have ab: "life_reach a b" using assms(1) by (auto simp: code_move_def)
  show ?thesis
  proof (cases "a = b")
    case True
    then show ?thesis using assms(2) by simp
  next
    case False
    then have "life_reach a StatusActive" using life_reach_from_was[OF ab bc(1)] by simp
    then have "life_reach a c" using life_reach_steps(7) bc(2) life_reach_trans by blast
    then show ?thesis by (simp add: code_move_def)
  qed
qed

lemma fact_moves_refl [simp]: "fact_moves d d"
  by (auto simp: fact_moves_def)

lemma fact_moves_trans: "fact_moves d d' \<Longrightarrow> fact_moves d' d'' \<Longrightarrow> fact_moves d d''"
  unfolding fact_moves_def by (meson code_move_trans)

lemma final_refl [simp]: "final p p"
  by (simp add: final_def)

lemma final_trans: "final p q \<Longrightarrow> final q r \<Longrightarrow> final p r"
  by (auto simp: final_def)

lemma progress_refl [simp]: "progress d d"
  by (simp add: progress_def rows_kept_refl)

lemma progress_trans: "progress d d' \<Longrightarrow> progress d' d'' \<Longrightarrow> progress d d''"
  unfolding progress_def
  by (auto intro: evolves_trans fact_moves_trans rows_kept_trans[where R = final, OF final_trans])

section \<open>Moves of the effects\<close>

lemma fact_moves_same: "facts_tbl d' = facts_tbl d \<Longrightarrow> fact_moves d d'"
  by (auto simp: fact_moves_def)

lemma fact_moves_upd:
  assumes "\<And>f. f_id (u f) = f_id f" and "\<And>f. fact_at d i = Some f \<Longrightarrow> code_move (f_status f) (f_status (u f))"
  shows "fact_moves d (upd_fact i u d)"
  using assms(2) by (auto simp: fact_moves_def tbl_get_upd[of f_id u, OF assms(1)])

lemma fact_moves_ins: "fact_moves d (ins_fact f d)"
  by (auto simp: fact_moves_def tbl_get_ins)

lemma fact_moves_embed: "fact_moves d (embed_effect sv i d)"
  by (auto simp: embed_effect_def intro: fact_moves_upd split: option.split)

lemma fact_moves_conflict:
  assumes "conflict_ok d p f"
  shows "fact_moves d (conflict_effect now who p d)"
proof (cases "p_conflict_with p")
  case None
  then show ?thesis by (simp add: conflict_effect_def)
next
  case (Some c)
  have "fact_moves d (supersede_effect now c (p_fact_id p) d)"
    unfolding supersede_effect_def
    by (rule fact_moves_trans[OF fact_moves_upd fact_moves_upd])
      (use assms Some in \<open>auto simp: conflict_ok_def\<close>)
  then show ?thesis
    using Some by (simp add: conflict_effect_def fact_moves_def)
qed

lemma fact_moves_activated:
  assumes "governed d" and "promotion_at d i = Some p" and "p_state p \<noteq> StateApproved" and "p_state p \<noteq> StateRejected"
    and q: "p_fact_id q = p_fact_id p" "p_conflict_with q = p_conflict_with p"
    and u: "\<And>f. f_id (u f) = f_id f" "\<And>f. f_status (u f) = StatusActive"
  shows "fact_moves d (embed_effect sv (p_fact_id q) (upd_fact (p_fact_id q) u (conflict_effect now who q d)))"
proof -
  obtain f where f: "fact_at d (p_fact_id p) = Some f" "state_matches p f" "conflict_ok d p f"
    using governed_paired[OF assms(1,2)] by (auto simp: paired_def)
  have cq: "conflict_ok d q f" using f(3) q by (simp add: conflict_ok_def)
  have st: "f_status f = StatusProposed \<or> f_status f = StatusInReview"
    using f(2) assms(3,4) by (cases "p_state p") (auto simp: state_matches_def)
  have at: "fact_at (conflict_effect now who q d) (p_fact_id q) =
      Some (case p_conflict_with q of None \<Rightarrow> f | Some c \<Rightarrow> row_supersedes now c f)"
    using conflict_effect_at_new[OF cq, of now who] f(1) q(1) by simp
  have "fact_moves (conflict_effect now who q d) (upd_fact (p_fact_id q) u (conflict_effect now who q d))"
    by (rule fact_moves_upd[OF u(1)]) (use at st u(2) in \<open>auto split: option.splits\<close>)
  then show ?thesis
    by (meson fact_moves_trans fact_moves_conflict[OF cq] fact_moves_embed)
qed

lemma rows_kept_final_upd:
  assumes "promotion_keyed u" and "\<And>p. promotion_at d i = Some p \<Longrightarrow> final p (u p)"
  shows "rows_kept final p_id (promotions_tbl d) (tbl_upd p_id i u (promotions_tbl d))"
proof -
  have id: "p_id (u p) = p_id p" for p using assms(1) by (simp add: promotion_keyed_def)
  show ?thesis using assms(2) by (auto simp: rows_kept_def tbl_get_upd[of p_id u, OF id])
qed

lemma final_open: "p_state p \<noteq> StateApproved \<Longrightarrow> p_state p \<noteq> StateRejected \<Longrightarrow> final p q"
  by (simp add: final_def)

section \<open>Every operation progresses\<close>

lemma progress_propose_rest:
  assumes g: "governed d" and e: "exec (propose_rest sv now nf np inp req apo c) d r d'" and k: "known_conflict inp c d" and "1 \<le> req"
  shows "progress d d'"
proof -
  have fits: "propose_fits_with now nf np inp req c d" using e by (simp add: exec_propose_rest)
  let ?q = "pending_with now nf np inp req c" and ?d = "propose_effect_with now nf np inp req c d"
  note ids = propose_fresh_ids[OF fits]
  have "fact_moves d ?d"
    using fact_moves_ins[of d "draft_row now nf inp"] by (simp add: propose_effect_with_def Let_def fact_moves_def)
  moreover have "rows_kept final p_id (promotions_tbl d) (promotions_tbl ?d)"
    by (simp add: rows_kept_ins)
  moreover note ev = evolves_propose[OF fits]
  ultimately have one: "progress d ?d" by (simp add: progress_def)
  show ?thesis
  proof (cases "auto_decision sv apo inp")
    case None
    then show ?thesis using e one by (simp add: exec_propose_rest Let_def)
  next
    case (Some av)
    obtain ap v where av: "av = (ap, v)" by fastforce
    then have af: "auto_fits sv now ?q ap ?d" and d': "d' = auto_effect sv now ?q ap v ?d"
      using e Some by (simp_all add: exec_propose_rest Let_def)
    have gd: "governed ?d" by (rule governed_propose_effect[OF g fits k assms(4)])
    have "fact_moves ?d d'"
      using fact_moves_activated[OF gd ids(4), of ?q "row_activate_auto now" sv now "''engine:'' @ ap_engine ap"]
      by (simp add: d' auto_effect_def fact_moves_def)
    moreover have "rows_kept final p_id (promotions_tbl ?d) (promotions_tbl d')"
      using rows_kept_final_upd[of "row_reviewed now StateApproved []" np ?d] ids(4)
      by (simp add: d' auto_effect_def final_open)
    moreover have "evolves ?d d'"
      unfolding d' by (rule evolves_auto[OF af, of ?q]) (use ids(4) in simp_all)
    ultimately have "progress ?d d'" by (simp add: progress_def)
    with one show ?thesis by (rule progress_trans)
  qed
qed

lemma progress_propose_tx:
  "governed d \<Longrightarrow> exec (propose_tx sv now nf np inp req apo) d r d' \<Longrightarrow> 1 \<le> req \<Longrightarrow> progress d d'"
  unfolding exec_propose_conflict
  by (rule progress_propose_rest[OF _ _ known_conflicting[OF governed_schema]])

lemma progress_approve_body:
  assumes g: "governed d" and e: "exec (approve_body sv now wall i who c) d r d'"
  shows "progress d d'"
proof -
  obtain p where p: "promotion_at d i = Some p" "reviewable p" "r = decided wall who c p" and
    eff: "(if has_enough_approvals r
         then d' = reviewed_effect now r (approved_event who r) (activate_effect sv now r who d)
         else d' = reviewed_effect now r (approved_event who r) d)"
    using e unfolding exec_approve_body by (auto split: if_splits)
  have open': "p_state p \<noteq> StateApproved" "p_state p \<noteq> StateRejected" using p(2) by (auto simp: reviewable_def)
  have i: "p_id r = i" using tbl_get_Some[OF p(1)] p(3) by simp
  have "fact_moves d d'"
    using eff fact_moves_activated[OF g p(1) open', of r "row_activate now (approvers r)" sv now who] p(3)
    by (auto simp: reviewed_effect_def activate_effect_def fact_moves_def split: if_splits)
  moreover have "promotions_tbl d' = tbl_upd p_id i (row_reviewed now (p_state r) (p_reviews r)) (promotions_tbl d)"
    using eff i by (auto simp: reviewed_effect_def split: if_splits)
  then have "rows_kept final p_id (promotions_tbl d) (promotions_tbl d')"
    using rows_kept_final_upd[of "row_reviewed now (p_state r) (p_reviews r)" i d] p(1) open' by (simp add: final_open)
  ultimately show ?thesis using approve_body_evolves[OF e] by (simp add: progress_def)
qed

lemma progress_bounced:
  assumes g: "governed d" and p: "promotion_at d i = Some p" and open': "p_state p \<noteq> StateApproved" "p_state p \<noteq> StateRejected"
    and q: "p_id q = i" "p_fact_id q = p_fact_id p" "prefix (p_reviews p) (p_reviews q)"
    and to: "bounce_pair (p_state q) to" and fits: "bounce_fits now q to d"
  shows "progress d (bounced_effect now q to ev d)"
proof -
  obtain f where f: "fact_at d (p_fact_id p) = Some f" "state_matches p f"
    using governed_paired[OF g p] by (auto simp: paired_def)
  have st: "f_status f = StatusProposed \<or> f_status f = StatusInReview"
    using f(2) open' by (cases "p_state p") (auto simp: state_matches_def)
  have "fact_moves d (upd_fact (p_fact_id p) (row_status now to) d)"
    by (rule fact_moves_upd) (use f(1) st to in \<open>auto simp: bounce_pair_def\<close>)
  then have "fact_moves d (bounced_effect now q to ev d)"
    by (simp add: bounced_effect_def fact_moves_def q(2))
  moreover have "rows_kept final p_id (promotions_tbl d) (promotions_tbl (bounced_effect now q to ev d))"
    using rows_kept_final_upd[of "row_reviewed now (p_state q) (p_reviews q)" i d] p open' q(1)
    by (simp add: bounced_effect_def final_open)
  moreover have "evolves d (bounced_effect now q to ev d)"
    by (rule evolves_bounced[OF fits, of p]) (use p q in simp_all)
  ultimately show ?thesis by (simp add: progress_def)
qed

lemma progress_review_body:
  assumes "governed d" and "exec (review_body now wall i who dec c to fact_to act) d r d'" and "bounce_pair to fact_to"
  shows "progress d d'"
proof -
  obtain p where p: "promotion_at d i = Some p" "reviewable p" "r = with_review wall who dec c to p"
    "bounce_fits now r fact_to d" "d' = bounced_effect now r fact_to (promotion_event who act i to []) d"
    using assms(2) unfolding exec_review_body by blast
  show ?thesis
    unfolding p(5) by (rule progress_bounced[OF assms(1) p(1)])
      (use p tbl_get_Some[OF p(1)] assms(3) in \<open>auto simp: reviewable_def\<close>)
qed

lemma progress_transition_body:
  assumes "governed d" and "exec (transition_body now i who mutate fact_to act) d r d'"
    and mut: "\<And>p q. mutate p = Inr q \<Longrightarrow> (p_state p = StatePending \<or> p_state p = StateChangesRequested) \<and>
      q = p\<lparr>p_state := to\<rparr>"
    and "bounce_pair to fact_to"
  shows "progress d d'"
proof -
  have m: "\<And>p q. mutate p = Inr q \<Longrightarrow> p_id q = p_id p" using mut by force
  obtain p where p: "promotion_at d i = Some p" "mutate p = Inr r" "bounce_fits now r fact_to d"
    "d' = bounced_effect now r fact_to (promotion_event who act i (p_state r) []) d"
    using assms(2) exec_transition_body[OF m] by blast
  show ?thesis
    unfolding p(4) by (rule progress_bounced[OF assms(1) p(1)])
      (use mut[OF p(2)] tbl_get_Some[OF p(1)] p(3) assms(4) in auto)
qed

lemma progress_submit:
  "governed d \<Longrightarrow> exec (transition_body now i who (submit_mutate who) StatusInReview act) d r d' \<Longrightarrow> progress d d'"
  by (erule (1) progress_transition_body[where to = StateInReview]) (auto simp: mutate_Inr bounce_pair_def)

lemma progress_withdraw:
  "governed d \<Longrightarrow> exec (transition_body now i who (withdraw_mutate who) StatusRejected act) d r d' \<Longrightarrow> progress d d'"
  by (erule (1) progress_transition_body[where to = StateRejected]) (auto simp: mutate_Inr bounce_pair_def)

lemma progress_revoke_body: "exec (revoke_body now i v who) d a d' \<Longrightarrow> progress d d'"
proof -
  assume e: "exec (revoke_body now i v who) d a d'"
  have "fact_moves d (upd_fact i (row_status now StatusRevoked) d)"
    by (rule fact_moves_upd) (use e in \<open>auto simp: exec_revoke_body revocable_def\<close>)
  then have "fact_moves d d'" using e by (auto simp: exec_revoke_body fact_moves_def)
  moreover have "promotions_tbl d' = promotions_tbl d" using e by (auto simp: exec_revoke_body)
  ultimately show ?thesis using revoke_body_evolves[OF e] by (simp add: progress_def rows_kept_refl)
qed

lemma progress_reap_body:
  assumes "governed d" and e: "exec (reap_body now plan) d r d'" and pl: "mset (plan (facts_tbl d)) = mset (facts_tbl d)"
  shows "progress d d'"
proof -
  let ?ids = "map f_id (filter (due now) (plan (facts_tbl d)))"
  have ids: "distinct (map f_id (facts_tbl d))"
    using governed_schema[OF assms(1)] by (simp add: schema_ok_def facts_ok_def)
  have "mset ?ids = mset (map f_id (filter (due now) (facts_tbl d)))" by (simp add: pl)
  then have dist: "distinct ?ids" using distinct_map_filter[OF ids] by (metis mset_eq_imp_distinct_iff)
  note re = reap_body_exec[OF e]
  have tbl: "facts_tbl d' = map (\<lambda>f. if f_id f \<in> set ?ids then row_status now StatusExpired f else f) (facts_tbl d)"
    "promotions_tbl d' = promotions_tbl d"
    using re expire_all_tbl[OF dist] by simp_all
  have setp: "set (plan (facts_tbl d)) = set (facts_tbl d)" using pl by (rule mset_eq_setD)
  have "fact_moves d d'"
    unfolding fact_moves_def
  proof (intro allI impI)
    fix i f assume f: "fact_at d i = Some f"
    note fs = tbl_get_Some[OF f]
    let ?g = "if f_id f \<in> set ?ids then row_status now StatusExpired f else f"
    have "?g \<in> set (facts_tbl d')" unfolding tbl(1) using fs by auto
    moreover have "distinct (map f_id (facts_tbl d'))"
      unfolding tbl(1) using ids by (simp add: comp_def if_distrib[of f_id] cong: if_cong)
    ultimately have "fact_at d' (f_id ?g) = Some ?g" by (rule tbl_get_in[rotated])
    moreover have "f_id ?g = i" using fs by simp
    moreover have "code_move (f_status f) (f_status ?g)"
    proof (cases "f_id f \<in> set ?ids")
      case True
      then obtain h where h: "h \<in> set (facts_tbl d)" "due now h" "f_id h = f_id f" using setp by auto
      then have "h = f" using ids fs by (auto dest: distinct_map_inj)
      then have "f_status f = StatusActive" using h(2) by (simp add: due_def)
      with True show ?thesis by simp
    qed simp
    ultimately show "\<exists>g. fact_at d' i = Some g \<and> code_move (f_status f) (f_status g)" by auto
  qed
  moreover have "evolves d d'" using re by blast
  ultimately show ?thesis by (simp add: progress_def rows_kept_refl tbl(2))
qed

lemma progress_same: "evolves d d' \<Longrightarrow> facts_tbl d' = facts_tbl d \<Longrightarrow> promotions_tbl d' = promotions_tbl d \<Longrightarrow> progress d d'"
  by (simp add: progress_def fact_moves_same rows_kept_refl)

lemma progress_embed: "progress d (snd (run (on_pool (set_embedding i v)) fs d))"
proof -
  let ?d = "snd (run (on_pool (set_embedding i v)) fs d)"
  consider "?d = d" | "facts_ok d (tbl_upd f_id i (row_embed v) (facts_tbl d))" "?d = upd_fact i (row_embed v) d"
    using on_pool_stmt_snd[of "update_facts (\<lambda>f. f_id f = i) (row_embed v)" fs d]
    by (auto simp: set_embedding_def update_facts_id_Inr)
  then show ?thesis
  proof cases
    case 2
    then show ?thesis by (simp add: progress_def evolves_upd_fact fact_moves_upd rows_kept_refl)
  qed simp
qed

lemma progress_edit: "progress d (snd (run (on_pool (update_statement now i s)) fs d))"
proof -
  let ?d = "snd (run (on_pool (update_statement now i s)) fs d)"
  consider "?d = d" | "promotions_ok d (promotions_tbl d)" "?d = upd_promotion i (row_statement now s) d"
    using on_pool_stmt_snd[of "update_promotions i (row_statement now s)" fs d]
    by (auto simp: update_statement_def update_promotions_Inr)
  then show ?thesis
  proof cases
    case 2
    have "final p (row_statement now s p)" for p by (simp add: final_def)
    then show ?thesis
      using 2 evolves_upd_promotion_at[OF 2(1), of "row_statement now s" i]
      by (simp add: progress_def fact_moves_same rows_kept_final_upd)
  qed simp
qed

lemma progress_step:
  assumes g: "governed d" and st: "sys_step sv d x d'"
  shows "progress d d'"
proof -
  obtain fs where d': "d' = op_run sv x fs d" and ok: "op_ok x" and
    plan: "\<And>now plan t. x = OpReap now plan \<Longrightarrow> mset (plan t) = mset t"
    using st by (auto elim: sys_stepE)
  show ?thesis
  proof (cases x)
    case (OpPropose now nf np inp req apo)
    show ?thesis
      by (rule in_tx_snd[of "propose_tx sv now nf np inp req apo" d d' "progress d" fs])
        (use g ok in \<open>auto simp: d' OpPropose intro: progress_propose_tx sql_safe\<close>)
  next
    case (OpApprove now wall i who c)
    show ?thesis
      by (rule in_tx_snd[of "approve_body sv now wall i who c" d d' "progress d" fs])
        (use g in \<open>auto simp: d' OpApprove approve_def intro: progress_approve_body sql_safe\<close>)
  next
    case (OpReject now wall i who c)
    show ?thesis
      by (rule in_tx_snd[of "review_body now wall i who DecisionReject c StateRejected StatusRejected ''promotion.rejected''"
            d d' "progress d" fs])
        (use progress_review_body[OF g] in \<open>auto simp: d' OpReject reject_def bounce_pair_def intro: sql_safe\<close>)
  next
    case (OpRequestChanges now wall i who c)
    show ?thesis
      by (rule in_tx_snd[of "review_body now wall i who DecisionRequestChanges c StateChangesRequested
            StatusProposed ''promotion.changes_requested''" d d' "progress d" fs])
        (use progress_review_body[OF g] in
          \<open>auto simp: d' OpRequestChanges request_changes_no_edit bounce_pair_def intro: sql_safe\<close>)
  next
    case (OpEditStatement now i s)
    then show ?thesis using progress_edit by (simp add: d')
  next
    case (OpSubmit now i who)
    show ?thesis
      by (rule in_tx_snd[of "transition_body now i who (submit_mutate who) StatusInReview ''promotion.submitted''"
            d d' "progress d" fs])
        (use g in \<open>auto simp: d' OpSubmit submit_def intro: progress_submit sql_safe\<close>)
  next
    case (OpWithdraw now i who)
    show ?thesis
      by (rule in_tx_snd[of "transition_body now i who (withdraw_mutate who) StatusRejected ''promotion.withdrawn''"
            d d' "progress d" fs])
        (use g in \<open>auto simp: d' OpWithdraw withdraw_def intro: progress_withdraw sql_safe\<close>)
  next
    case (OpRevoke now i v who)
    show ?thesis
      by (rule in_tx_snd[of "revoke_body now i v who" d d' "progress d" fs])
        (auto simp: d' OpRevoke revoke_fact_def intro: progress_revoke_body sql_safe)
  next
    case (OpReap now plan)
    show ?thesis
      by (rule in_tx_snd[of "reap_body now plan" d d' "progress d" fs])
        (use g plan OpReap in \<open>auto simp: d' reap_def intro: progress_reap_body sql_safe\<close>)
  next
    case (OpEmbed i v)
    then show ?thesis using progress_embed by (simp add: d')
  next
    case (OpCreateNamespace now new ns)
    then show ?thesis using progress_same namespace_step d' by blast
  next
    case (OpUpdatePolicy i p)
    then show ?thesis using progress_same namespace_step d' by blast
  next
    case (OpGrant who ns role)
    then show ?thesis using progress_same membership_step d' by blast
  next
    case (OpRevokeGrant who ns role)
    then show ?thesis using progress_same membership_step d' by blast
  qed
qed

inductive later :: "service \<Rightarrow> db \<Rightarrow> db \<Rightarrow> bool" for sv where
  now_store: "later sv d d"
| after_op: "later sv d d' \<Longrightarrow> sys_step sv d' x d'' \<Longrightarrow> later sv d d''"

lemma later_governed: "later sv d d' \<Longrightarrow> governed d \<Longrightarrow> governed d'"
  by (induction rule: later.induct) (auto intro: governed_step)

lemma later_progress: "later sv d d' \<Longrightarrow> governed d \<Longrightarrow> progress d d'"
proof (induction rule: later.induct)
  case (after_op d d' x d'')
  then show ?case using progress_step later_governed progress_trans by blast
qed simp

end
