(* ===== verification/Scenario.thy ===== *)
theory Scenario
  imports Progress
begin

text \<open>
  A concrete history of the service, used where a property is applied: a namespace is created, a fact is
  proposed and approved, a second fact about the same subject is proposed against it, the first fact is
  revoked, and the second is approved.
\<close>

section \<open>Stepping through clean runs\<close>

lemma propose_op:
  assumes "propose_fits now nf np inp req d" and "auto_decision sv apo inp = None"
  shows "op_run sv (OpPropose now nf np inp req apo) [] d = propose_effect now nf np inp req d"
proof -
  have "exec (propose_tx sv now nf np inp req apo) d (pending_row now nf np inp req d) (propose_effect now nf np inp req d)"
    using assms by (simp add: exec_propose_tx Let_def)
  then show ?thesis by (simp add: run_in_tx_clean)
qed

lemma approve_op: "exec (approve_body sv now wall i who c) d r d' \<Longrightarrow> op_run sv (OpApprove now wall i who c) [] d = d'"
  by (simp add: approve_def run_in_tx_clean)

lemma revoke_op: "exec (revoke_body now i v who) d () d' \<Longrightarrow> op_run sv (OpRevoke now i v who) [] d = d'"
  by (simp add: revoke_fact_def run_in_tx_clean)

lemma reach_op:
  assumes "reachable sv d" and "op_ok x" and "\<And>now plan. x \<noteq> OpReap now plan" and "op_run sv x [] d = d'"
  shows "reachable sv d'"
proof -
  have "sys_step sv d x (op_run sv x [] d)"
    by (rule sys_step.step) (use assms(2,3) in auto)
  then show ?thesis using next_op[OF assms(1)] assms(4) by simp
qed

section \<open>The history\<close>

definition plain_service :: service where
  "plain_service = \<lparr>sv_engines = None, sv_embedder = None\<rparr>"

definition web_ns :: namespace where
  "web_ns = \<lparr>n_id = 0, n_name = ''web'', n_kind = ''project'', n_parent_id = None, n_policy = zero_policy, n_created_at = 0\<rparr>"

definition web_row :: ns_row where
  "web_row = \<lparr>nr_id = 1, nr_name = ''web'', nr_kind = ''project'', nr_parent_id = None,
     nr_policy = JObj [(''required_approvals'', JNum 1)], nr_created_at = 1\<rparr>"

definition proposal :: "string \<Rightarrow> propose_input" where
  "proposal stm = \<lparr>in_target = 1, in_statement = stm, in_subject = sample_subject, in_memory_ids = [],
     in_provenance = \<lparr>origin_actor = [], origin_session = [], derived_from = [], rationale = []\<rparr>,
     in_tags = [], in_metadata = [], in_proposer = ''ann'', in_idempotency_key = [],
     in_origin_type = [], in_source_kind = [], in_actor_type = []\<rparr>"

definition key0 :: string where
  "key0 = canonical_key sample_subject"

definition db_ns :: db where
  "db_ns = empty_db\<lparr>namespaces_tbl := [web_row]\<rparr>"

definition db_proposed :: db where
  "db_proposed = propose_effect 2 10 20 (proposal ''use go'') 1 db_ns"

definition db_active :: db where
  "db_active = snd (run (approve plain_service 3 3 20 ''bob'' []) [] db_proposed)"

definition db_conflict :: db where
  "db_conflict = propose_effect 4 11 21 (proposal ''use js'') 1 db_active"

definition db_revoked :: db where
  "db_revoked = snd (run (revoke_fact 5 10 2 ''bob'') [] db_conflict)"

definition db_replaced :: db where
  "db_replaced = snd (run (approve plain_service 6 6 21 ''bob'' []) [] db_revoked)"

lemma sample_subject_valid: "subject_valid sample_subject"
  by (simp add: subject_valid_def sample_subject_def trim_eval)

lemma no_auto [simp]: "auto_decision plain_service apo inp = None"
  by (simp add: auto_decision_def plain_service_def)

lemma no_embedding [simp]: "embed_effect plain_service i d = d" "embed_fits plain_service i d"
  by (simp_all add: embed_effect_def embed_fits_def embedding_for_def plain_service_def split: option.split)

lemma proposal_sel [simp]:
  "in_target (proposal s) = 1" "in_subject (proposal s) = sample_subject" "in_proposer (proposal s) = ''ann''"
  "in_idempotency_key (proposal s) = []" "in_tags (proposal s) = []"
  by (simp_all add: proposal_def)

lemma db_ns_reachable: "reachable plain_service db_ns"
proof (rule reach_op[OF reachable.init, of "OpCreateNamespace 1 1 web_ns"])
  show "op_run plain_service (OpCreateNamespace 1 1 web_ns) [] empty_db = db_ns"
    by (simp add: create_namespace_def web_ns_def is_zero_def zero_policy_def default_policy_def marshal_policy_def
        sql_run put_namespaces_def namespaces_ok_def empty_db_def tbl_ins_def kinds_def refers_def db_ns_def web_row_def)
qed simp_all

lemma db_ns_sel [simp]:
  "facts_tbl db_ns = []" "promotions_tbl db_ns = []" "map nr_id (namespaces_tbl db_ns) = [1]" "audit_tbl db_ns = []"
  by (simp_all add: db_ns_def empty_db_def web_row_def)

lemma db_ns_ids: "nr_id ` set (namespaces_tbl db_ns) = {1}"
  by (simp add: db_ns_def web_row_def)

lemmas fits_eval = propose_fits_with_def facts_ok_def promotions_ok_def active_keys_def idem_keys_def refers_def
  int4_max_def int4_min_def tbl_ins_def conflicting_def active_by_key_def embedding_dims_def

definition row_a :: fact_row where
  "row_a = draft_row 2 10 (proposal ''use go'')"

definition row_b :: fact_row where
  "row_b = draft_row 4 11 (proposal ''use js'')"

lemma rows_sel [simp]:
  "f_id row_a = 10" "f_status row_a = StatusProposed" "f_namespace_id row_a = 1" "f_canonical_key row_a = key0"
  "f_version row_a = 1" "f_supersedes_id row_a = None" "f_superseded_by_id row_a = None" "f_embedding row_a = None"
  "f_id row_b = 11" "f_status row_b = StatusProposed" "f_namespace_id row_b = 1" "f_canonical_key row_b = key0"
  "f_version row_b = 1" "f_supersedes_id row_b = None" "f_superseded_by_id row_b = None" "f_embedding row_b = None"
  by (simp_all add: row_a_def row_b_def key0_def)

definition promo_a :: promotion where
  "promo_a = pending_row 2 10 20 (proposal ''use go'') 1 db_ns"

lemma promo_a_sel [simp]:
  "p_id promo_a = 20" "p_fact_id promo_a = 10" "p_state promo_a = StatePending" "p_reviews promo_a = []"
  "p_proposer promo_a = ''ann''" "p_required_approvals promo_a = 1" "p_conflict_with promo_a = None"
  "p_target_namespace_id promo_a = 1" "p_idempotency_key promo_a = None"
  by (simp_all add: promo_a_def conflicting_def active_by_key_def)

lemma db_proposed_sel [simp]:
  "facts_tbl db_proposed = [row_a]" "promotions_tbl db_proposed = [promo_a]"
  "namespaces_tbl db_proposed = namespaces_tbl db_ns"
  by (simp_all add: db_proposed_def tbl_ins_def row_a_def promo_a_def)

lemma db_proposed_reachable: "reachable plain_service db_proposed"
proof (rule reach_op[OF db_ns_reachable, of "OpPropose 2 10 20 (proposal ''use go'') 1 None"])
  have "propose_fits 2 10 20 (proposal ''use go'') 1 db_ns"
    by (simp add: fits_eval db_ns_ids)
  then show "op_run plain_service (OpPropose 2 10 20 (proposal ''use go'') 1 None) [] db_ns = db_proposed"
    by (simp only: propose_op no_auto db_proposed_def)
qed (simp_all add: sample_subject_valid)

section \<open>The first approval\<close>

definition bob_review :: "timestamp \<Rightarrow> review" where
  "bob_review t = \<lparr>r_reviewer = ''bob'', r_decision = DecisionApprove, r_comment = [], r_at = t\<rparr>"

lemma decided_bob:
  assumes "p_reviews p = []" and "p_proposer p = ''ann''" and "p_required_approvals p = 1"
  shows "decided t ''bob'' [] p = p\<lparr>p_reviews := [bob_review t], p_state := StateApproved\<rparr> \<and>
    has_enough_approvals (p\<lparr>p_reviews := [bob_review t], p_state := StateApproved\<rparr>) \<and>
    approvers (p\<lparr>p_reviews := [bob_review t], p_state := StateApproved\<rparr>) = [''bob'']"
proof -
  have a: "add_approval t ''bob'' [] p = p\<lparr>p_reviews := [bob_review t]\<rparr>"
    using assms by (simp add: add_approval_def already_approved_by_def bob_review_def)
  have "has_enough_approvals (p\<lparr>p_reviews := [bob_review t]\<rparr>)"
    using assms by (simp add: has_enough_approvals_def approval_count_def distinct_approvers_def bob_review_def)
  moreover have "approvers (p\<lparr>p_reviews := [bob_review t], p_state := StateApproved\<rparr>) = [''bob'']"
    using assms by (simp add: approvers_def bob_review_def)
  ultimately show ?thesis by (simp add: decided_def Let_def a approver_congs)
qed

definition done_a :: promotion where
  "done_a = promo_a\<lparr>p_reviews := [bob_review 3], p_state := StateApproved\<rparr>"

lemma done_a_sel [simp]:
  "p_id done_a = 20" "p_fact_id done_a = 10" "p_state done_a = StateApproved" "p_reviews done_a = [bob_review 3]"
  "p_conflict_with done_a = None"
  by (simp_all add: done_a_def)

lemmas decided_a = decided_bob[of promo_a 3, simplified, folded done_a_def]

lemma exec_approve_a:
  "exec (approve_body plain_service 3 3 20 ''bob'' []) db_proposed done_a
     (reviewed_effect 3 done_a (approved_event ''bob'' done_a) (activate_effect plain_service 3 done_a ''bob'' db_proposed))"
proof -
  have ap: "approvers done_a = [''bob'']" "has_enough_approvals done_a" "decided 3 ''bob'' [] promo_a = done_a"
    using decided_a by simp_all
  have at: "promotion_at db_proposed 20 = Some promo_a" "reviewable promo_a"
    by (simp_all add: tbl_get_def reviewable_def)
  have "activate_fits plain_service 3 done_a ''bob'' db_proposed"
    by (simp add: activate_fits_def Let_def conflict_effect_def conflict_fits_def fits_eval tbl_upd_def tbl_get_def db_ns_ids)
  moreover have "promotions_ok (activate_effect plain_service 3 done_a ''bob'' db_proposed) (promotions_tbl db_proposed)"
    by (simp add: activate_effect_def conflict_effect_def fits_eval tbl_upd_def db_ns_ids)
  ultimately show ?thesis unfolding exec_approve_body using ap at by auto
qed

definition active_a :: fact_row where
  "active_a = row_activate 3 [''bob''] row_a"

lemma active_a_sel [simp]:
  "f_id active_a = 10" "f_status active_a = StatusActive" "f_namespace_id active_a = 1" "f_canonical_key active_a = key0"
  "f_version active_a = 2" "f_supersedes_id active_a = None" "f_superseded_by_id active_a = None"
  "f_embedding active_a = None" "f_approved_by active_a = [''bob'']"
  by (simp_all add: active_a_def)

definition final_a :: promotion where
  "final_a = row_reviewed 3 StateApproved [bob_review 3] promo_a"

lemma final_a_sel [simp]:
  "p_id final_a = 20" "p_fact_id final_a = 10" "p_state final_a = StateApproved" "p_reviews final_a = [bob_review 3]"
  "p_proposer final_a = ''ann''" "p_target_namespace_id final_a = 1" "p_conflict_with final_a = None"
  "p_required_approvals final_a = 1" "p_idempotency_key final_a = None"
  by (simp_all add: final_a_def)

lemma db_active_sel [simp]:
  "facts_tbl db_active = [active_a]" "promotions_tbl db_active = [final_a]"
  "namespaces_tbl db_active = namespaces_tbl db_ns"
proof -
  have d: "db_active = reviewed_effect 3 done_a (approved_event ''bob'' done_a)
      (activate_effect plain_service 3 done_a ''bob'' db_proposed)"
    using run_in_tx_clean[OF exec_approve_a] by (simp add: db_active_def approve_def)
  have ap: "approvers done_a = [''bob'']" using decided_a by simp
  show "facts_tbl db_active = [active_a]" "promotions_tbl db_active = [final_a]"
    "namespaces_tbl db_active = namespaces_tbl db_ns"
    by (simp_all add: d reviewed_effect_def activate_effect_def conflict_effect_def tbl_upd_def ap active_a_def final_a_def)
qed

lemma db_active_reachable: "reachable plain_service db_active"
  by (rule reach_op[OF db_proposed_reachable, of "OpApprove 3 3 20 ''bob'' []"]) (simp_all add: db_active_def)

section \<open>The second proposal, a revocation, and the second approval\<close>

definition promo_b :: promotion where
  "promo_b = pending_row 4 11 21 (proposal ''use js'') 1 db_active"

lemma promo_b_sel [simp]:
  "p_id promo_b = 21" "p_fact_id promo_b = 11" "p_state promo_b = StatePending" "p_reviews promo_b = []"
  "p_proposer promo_b = ''ann''" "p_required_approvals promo_b = 1" "p_conflict_with promo_b = Some 10"
  "p_target_namespace_id promo_b = 1" "p_idempotency_key promo_b = None"
  by (simp_all add: promo_b_def conflicting_def active_by_key_def key0_def)

lemma db_conflict_sel [simp]:
  "facts_tbl db_conflict = [active_a, row_b]" "promotions_tbl db_conflict = [final_a, promo_b]"
  "namespaces_tbl db_conflict = namespaces_tbl db_ns"
  by (simp_all add: db_conflict_def tbl_ins_def row_b_def promo_b_def)

lemma db_conflict_reachable: "reachable plain_service db_conflict"
proof (rule reach_op[OF db_active_reachable, of "OpPropose 4 11 21 (proposal ''use js'') 1 None"])
  have "propose_fits 4 11 21 (proposal ''use js'') 1 db_active"
    by (simp add: fits_eval db_ns_ids key0_def)
  then show "op_run plain_service (OpPropose 4 11 21 (proposal ''use js'') 1 None) [] db_active = db_conflict"
    by (simp only: propose_op no_auto db_conflict_def)
qed (simp_all add: sample_subject_valid)

definition revoked_a :: fact_row where
  "revoked_a = row_status 5 StatusRevoked active_a"

lemma revoked_a_sel [simp]:
  "f_id revoked_a = 10" "f_status revoked_a = StatusRevoked" "f_namespace_id revoked_a = 1"
  "f_canonical_key revoked_a = key0" "f_version revoked_a = 3" "f_supersedes_id revoked_a = None"
  "f_superseded_by_id revoked_a = None" "f_embedding revoked_a = None"
  by (simp_all add: revoked_a_def)

lemma db_revoked_sel [simp]:
  "facts_tbl db_revoked = [revoked_a, row_b]" "promotions_tbl db_revoked = [final_a, promo_b]"
  "namespaces_tbl db_revoked = namespaces_tbl db_ns"
proof -
  have "revocable db_conflict 10 2" by (simp add: revocable_def tbl_get_def)
  moreover have "facts_ok db_conflict (tbl_upd f_id 10 (row_status 5 StatusRevoked) (facts_tbl db_conflict))"
    by (simp add: fits_eval tbl_upd_def db_ns_ids)
  ultimately obtain e where "exec (revoke_body 5 10 2 ''bob'') db_conflict ()
      (log_event e (upd_fact 10 (row_status 5 StatusRevoked) db_conflict))"
    unfolding exec_revoke_body by (auto simp: int4_min_def int4_max_def)
  then have d: "db_revoked = log_event e (upd_fact 10 (row_status 5 StatusRevoked) db_conflict)"
    by (simp add: db_revoked_def revoke_fact_def run_in_tx_clean)
  show "facts_tbl db_revoked = [revoked_a, row_b]" "promotions_tbl db_revoked = [final_a, promo_b]"
    "namespaces_tbl db_revoked = namespaces_tbl db_ns"
    by (simp_all add: d tbl_upd_def revoked_a_def)
qed

lemma db_revoked_reachable: "reachable plain_service db_revoked"
  by (rule reach_op[OF db_conflict_reachable, of "OpRevoke 5 10 2 ''bob''"]) (simp_all add: db_revoked_def)

definition done_b :: promotion where
  "done_b = promo_b\<lparr>p_reviews := [bob_review 6], p_state := StateApproved\<rparr>"

lemma done_b_sel [simp]:
  "p_id done_b = 21" "p_fact_id done_b = 11" "p_state done_b = StateApproved" "p_reviews done_b = [bob_review 6]"
  "p_conflict_with done_b = Some 10"
  by (simp_all add: done_b_def)

lemmas decided_b = decided_bob[of promo_b 6, simplified, folded done_b_def]

lemmas activation_eval = activate_fits_def activate_effect_def Let_def conflict_effect_def conflict_fits_def
  supersede_fits_def supersede_effect_def tbl_upd_def tbl_get_def

lemma exec_approve_b:
  "exec (approve_body plain_service 6 6 21 ''bob'' []) db_revoked done_b
     (reviewed_effect 6 done_b (approved_event ''bob'' done_b) (activate_effect plain_service 6 done_b ''bob'' db_revoked))"
proof -
  have ap: "approvers done_b = [''bob'']" "has_enough_approvals done_b" "decided 6 ''bob'' [] promo_b = done_b"
    using decided_b by simp_all
  have at: "promotion_at db_revoked 21 = Some promo_b" "reviewable promo_b"
    by (simp_all add: tbl_get_def reviewable_def)
  have "activate_fits plain_service 6 done_b ''bob'' db_revoked"
    by (simp add: activation_eval fits_eval db_ns_ids)
  moreover have "promotions_ok (activate_effect plain_service 6 done_b ''bob'' db_revoked) (promotions_tbl db_revoked)"
    by (simp add: activation_eval fits_eval db_ns_ids)
  ultimately show ?thesis unfolding exec_approve_body using ap at by auto
qed

lemma db_replaced_facts:
  "facts_tbl db_replaced =
     [row_superseded 6 11 revoked_a, row_activate 6 [''bob''] (row_supersedes 6 10 row_b)]"
proof -
  have d: "db_replaced = reviewed_effect 6 done_b (approved_event ''bob'' done_b)
      (activate_effect plain_service 6 done_b ''bob'' db_revoked)"
    using run_in_tx_clean[OF exec_approve_b] by (simp add: db_replaced_def approve_def)
  have ap: "approvers done_b = [''bob'']" using decided_b by simp
  show ?thesis by (simp add: d reviewed_effect_def activation_eval ap)
qed

lemma db_replaced_reachable: "reachable plain_service db_replaced"
  by (rule reach_op[OF db_revoked_reachable, of "OpApprove 6 6 21 ''bob'' []"]) (simp_all add: db_replaced_def)

end
