(* ===== verification/Guarantees.thy ===== *)
theory Guarantees
  imports Scenario
begin

text \<open>
  The guarantees of the governance workflow, over every store the service can reach: how promotions and
  facts pair up, who approved what, what later steps can change, and what each request answers.
\<close>

section \<open>Requests are sequences of units\<close>

lemma reachable_later: "later sv d d' \<Longrightarrow> reachable sv d \<Longrightarrow> reachable sv d'"
  by (induction rule: later.induct) (auto intro: reachable.intros)

lemma later_one: "sys_step sv d x d' \<Longrightarrow> later sv d d'"
  using after_op[OF now_store] .

lemma later_later: "later sv d' d'' \<Longrightarrow> later sv d d' \<Longrightarrow> later sv d d''"
  by (induction rule: later.induct) (auto intro: after_op)

lemma get_namespace_units: "all_or_nothing (get_namespace i)" "read_only (get_namespace i)"
proof -
  have "all_or_nothing (of_sum r)" "read_only (of_sum r)" for r :: "error + 'a"
    by (simp_all add: of_sum_def sql_safe split: sum.split)
  then show "all_or_nothing (get_namespace i)" "read_only (get_namespace i)"
    unfolding get_namespace_def by (auto intro!: sql_safe)
qed

lemma find_idem_units:
  "all_or_nothing (absent_on ErrPromotionNotFound (on_pool (find_by_idempotency_key who key)))"
  "read_only (absent_on ErrPromotionNotFound (on_pool (find_by_idempotency_key who key)))"
  unfolding find_by_idempotency_key_def by (auto intro!: sql_safe)

lemma propose_fresh_step:
  assumes "subject_valid (in_subject inp)"
  shows "snd (run (propose_fresh sv now nf np inp) fs d) = d \<or>
    (\<exists>x. sys_step sv d x (snd (run (propose_fresh sv now nf np inp) fs d)))"
proof -
  let ?k = "\<lambda>ns. in_tx (propose_tx sv now nf np inp
        (clamp_required (required_approvals (n_policy ns))) (pol_auto_promote (n_policy ns)))"
  have e: "propose_fresh sv now nf np inp = bind_sql (get_namespace (in_target inp)) ?k"
    by (simp add: propose_fresh_def)
  show ?thesis
    unfolding e
  proof (rule run_bind_read[OF get_namespace_units, of "in_target inp" ?k fs d], goal_cases)
    case (1 e)
    then show ?case by simp
  next
    case (2 ns fs')
    let ?x = "OpPropose now nf np inp (clamp_required (required_approvals (n_policy ns))) (pol_auto_promote (n_policy ns))"
    have "sys_step sv d ?x (op_run sv ?x fs' d)"
      by (rule sys_step.step) (use assms in \<open>auto simp: clamp_required_def\<close>)
    then show ?case using 2 by auto
  qed
qed

lemma propose_step: "snd (run (propose sv now nf np inp) fs d) = d \<or>
    (\<exists>x. sys_step sv d x (snd (run (propose sv now nf np inp) fs d)))"
proof (cases "subject_valid (in_subject inp)")
  case False
  then show ?thesis by (simp add: propose_def run_def fail_sql_def)
next
  case valid: True
  show ?thesis
  proof (cases "in_idempotency_key inp = []")
    case True
    then show ?thesis using propose_fresh_step[OF valid] valid by (simp add: propose_def)
  next
    case False
    let ?k = "\<lambda>existing. case existing of Some p \<Rightarrow> return_sql p | None \<Rightarrow> propose_fresh sv now nf np inp"
    have e: "propose sv now nf np inp = bind_sql (absent_on ErrPromotionNotFound
          (on_pool (find_by_idempotency_key (in_proposer inp) (in_idempotency_key inp)))) ?k"
      using valid False by (simp add: propose_def)
    show ?thesis
      unfolding e
    proof (rule run_bind_read[OF find_idem_units, of "in_proposer inp" "in_idempotency_key inp" ?k fs d], goal_cases)
      case (1 e)
      then show ?case by simp
    next
      case (2 ex fs')
      then show ?case
        using propose_fresh_step[OF valid, of sv now nf np fs' d]
        by (cases ex) (auto simp: run_def return_sql_def)
    qed
  qed
qed

section \<open>Pairs and approvals\<close>

text \<open>
  C3. In every reachable store, every promotion is paired with its fact: pending and changes-requested go
  with a proposed fact, in-review with a proposed or in-review one, rejected with a rejected one and
  approved with a fact that has been active; no approval is by the proposer; at least one approval is
  required; and a recorded conflict is another fact of the same namespace and key that has been active.
\<close>

theorem promotion_pairing:
  assumes "reachable sv d" and "promotion_at d i = Some p"
  shows "\<exists>f. fact_at d (p_fact_id p) = Some f \<and> f_namespace_id f = p_target_namespace_id p \<and>
    1 \<le> p_required_approvals p \<and> separated p \<and> state_matches p f \<and> conflict_ok d p f"
  using governed_paired[OF reachable_governed[OF assms(1)] assms(2)] by (simp add: paired_def)

theorem promotion_pairing_witness:
  "\<exists>f. fact_at db_conflict 11 = Some f \<and> f_status f = StatusProposed \<and> conflict_ok db_conflict promo_b f"
proof -
  have "promotion_at db_conflict 21 = Some promo_b" by (simp add: tbl_get_def)
  from promotion_pairing[OF db_conflict_reachable this] show ?thesis by (auto simp: state_matches_def)
qed

lemma active_has_promotion:
  assumes "governed d" and f: "fact_at d j = Some f" and "was_active (f_status f)"
  shows "\<exists>p \<in> set (promotions_tbl d). p_fact_id p = j \<and> p_state p = StateApproved \<and> state_matches p f \<and>
    separated p \<and> 1 \<le> p_required_approvals p"
proof -
  have fj: "f \<in> set (facts_tbl d)" "f_id f = j" using tbl_get_Some[OF f] by simp_all
  then obtain p where p: "p \<in> set (promotions_tbl d)" "p_fact_id p = j"
    using assms(1) by (fastforce simp: governed_def)
  have "distinct (map p_id (promotions_tbl d))"
    using governed_schema[OF assms(1)] by (simp add: schema_ok_def promotions_ok_def)
  then have "promotion_at d (p_id p) = Some p" using p(1) by (rule tbl_get_in)
  from governed_paired[OF assms(1) this] have m: "state_matches p f" "separated p" "1 \<le> p_required_approvals p"
    using f p(2) by (auto simp: paired_def)
  then have "p_state p = StateApproved" using not_yet_active[OF m(1)] assms(3) by blast
  with p m show ?thesis by blast
qed

text \<open>
  C1. No fact becomes active without governance: a fact that is or has been active has an approved
  promotion, and either at least the required number of distinct people other than the proposer
  approved it, exactly the people recorded on the fact, or an engine did, which leaves no reviews, no
  recorded approver and the tag \<open>auto:true\<close>.
\<close>

theorem active_fact_governed:
  assumes "reachable sv d" and "fact_at d j = Some f" and "was_active (f_status f)"
  shows "\<exists>p \<in> set (promotions_tbl d). p_fact_id p = j \<and> p_state p = StateApproved \<and>
    (distinct (f_approved_by f) \<and> set (f_approved_by f) = distinct_approvers p \<and>
       p_proposer p \<notin> set (f_approved_by f) \<and> 1 \<le> p_required_approvals p \<and>
       p_required_approvals p \<le> int (length (f_approved_by f)) \<or>
     p_reviews p = [] \<and> f_approved_by f = [] \<and> ''auto:true'' \<in> set (f_tags f))"
proof -
  obtain p where p: "p \<in> set (promotions_tbl d)" "p_fact_id p = j" "p_state p = StateApproved" "state_matches p f"
    "1 \<le> p_required_approvals p"
    using active_has_promotion[OF reachable_governed[OF assms(1)] assms(2,3)] by blast
  then have "approved_by_people p f \<or> approved_by_engine p f" by (simp add: state_matches_def)
  then show ?thesis
  proof
    assume "approved_by_people p f"
    then have "distinct (f_approved_by f) \<and> set (f_approved_by f) = distinct_approvers p \<and>
       p_proposer p \<notin> set (f_approved_by f) \<and> 1 \<le> p_required_approvals p \<and>
       p_required_approvals p \<le> int (length (f_approved_by f))"
      using p(5) proposer_not_approver distinct_approvers_list length_approvers
      by (simp add: approved_by_people_def set_approvers has_enough_approvals_def)
    with p show ?thesis by blast
  next
    assume "approved_by_engine p f"
    with p show ?thesis by (auto simp: approved_by_engine_def)
  qed
qed

theorem active_fact_governed_witness:
  "\<exists>p \<in> set (promotions_tbl db_active). p_fact_id p = 10 \<and> p_state p = StateApproved"
proof -
  have "fact_at db_active 10 = Some active_a" by (simp add: tbl_get_def)
  moreover have "was_active (f_status active_a)" by (simp add: was_active_def)
  ultimately show ?thesis using active_fact_governed[OF db_active_reachable] by blast
qed

text \<open>
  C2. A namespace has at most one active fact for a subject: in every reachable store, two active facts
  of one namespace whose subjects spell the same key are one fact.
\<close>

theorem one_active_per_subject:
  assumes "reachable sv d" and "f \<in> set (facts_tbl d)" and "g \<in> set (facts_tbl d)"
    and "f_status f = StatusActive" and "f_status g = StatusActive"
    and "f_namespace_id f = f_namespace_id g" and "same_subject (f_subject f) (f_subject g)"
  shows "f = g"
proof -
  have g: "governed d" by (rule reachable_governed[OF assms(1)])
  have "f_canonical_key f = canonical_key (f_subject f)" "f_canonical_key g = canonical_key (f_subject g)"
    using g assms(2,3) by (simp_all add: governed_def keys_derived_def list_all_iff)
  then have "f_canonical_key f = f_canonical_key g" using same_subject_key[OF assms(7)] by simp
  moreover have "distinct (active_keys (facts_tbl d))"
    using governed_schema[OF g] by (simp add: schema_ok_def facts_ok_def)
  ultimately show ?thesis using active_unique assms(2-6) by blast
qed

theorem one_active_per_subject_witness: "active_a = hd (facts_tbl db_active)"
  by (rule one_active_per_subject[OF db_active_reachable]) (simp_all add: same_subject_def)

section \<open>What later steps can change\<close>

text \<open>
  C5. History is append-only: from a reachable store to any later one, the audit trail and the reviews of
  every promotion only grow at their end; no fact, promotion or namespace disappears; a fact keeps its
  identity, namespace, statement, subject, key, author, provenance and validity limit, its version never
  decreases and its tags are never removed; a promotion keeps its fact, target, proposer, required
  approvals, conflict and idempotency key.
\<close>

theorem history_append_only:
  assumes "reachable sv d" and "later sv d d'"
  shows "prefix (audit_tbl d) (audit_tbl d') \<and>
    rows_kept fact_fixed f_id (facts_tbl d) (facts_tbl d') \<and>
    rows_kept promotion_fixed p_id (promotions_tbl d) (promotions_tbl d') \<and>
    rows_kept namespace_fixed nr_id (namespaces_tbl d) (namespaces_tbl d')"
  using later_progress[OF assms(2) reachable_governed[OF assms(1)]] by (simp add: progress_def evolves_def)

lemma step_replaced: "sys_step plain_service db_revoked (OpApprove 6 6 21 ''bob'' []) db_replaced"
proof -
  have "sys_step plain_service db_revoked (OpApprove 6 6 21 ''bob'' [])
      (op_run plain_service (OpApprove 6 6 21 ''bob'' []) [] db_revoked)"
    by (rule sys_step.step) auto
  then show ?thesis by (simp add: db_replaced_def)
qed

theorem history_append_only_witness: "prefix (audit_tbl db_revoked) (audit_tbl db_replaced)"
  using history_append_only[OF db_revoked_reachable later_one[OF step_replaced]] by blast

text \<open>
  C4. The status of a fact only moves along the lifecycle table: along any number of steps the new status
  is reached from the old by legal transitions, with the one exception that a revoked or expired fact
  can become superseded. So a fact that has been active never is a candidate again, a rejected fact
  stays rejected, and an approved or rejected promotion keeps its state and its reviews.
\<close>

theorem lifecycle_respected:
  assumes "reachable sv d" and "later sv d d'" and "fact_at d i = Some f"
  shows "\<exists>g. fact_at d' i = Some g \<and>
    (life_reach (f_status f) (f_status g) \<or>
     f_status f \<in> {StatusRevoked, StatusExpired} \<and> f_status g = StatusSuperseded) \<and>
    (was_active (f_status f) \<longrightarrow> was_active (f_status g)) \<and>
    (f_status f = StatusRejected \<longrightarrow> f_status g = StatusRejected) \<and>
    rows_kept final p_id (promotions_tbl d) (promotions_tbl d')"
proof -
  have pr: "progress d d'" by (rule later_progress[OF assms(2) reachable_governed[OF assms(1)]])
  then obtain g where g: "fact_at d' i = Some g" "code_move (f_status f) (f_status g)"
    using assms(3) by (auto simp: progress_def fact_moves_def)
  moreover have "was_active (f_status f) \<Longrightarrow> was_active (f_status g)"
    using g(2) life_reach_was_active by (auto simp: code_move_def was_active_def)
  moreover have "f_status f = StatusRejected \<Longrightarrow> f_status g = StatusRejected"
    using g(2) life_reach_terminal[of StatusRejected] by (auto simp: code_move_def)
  moreover have "rows_kept final p_id (promotions_tbl d) (promotions_tbl d')" using pr by (simp add: progress_def)
  ultimately show ?thesis by (auto simp: code_move_def)
qed

theorem lifecycle_respected_witness:
  "\<exists>g. fact_at db_replaced 10 = Some g \<and> f_status revoked_a = StatusRevoked \<and> f_status g = StatusSuperseded \<and>
     was_active (f_status g)"
proof -
  have a: "fact_at db_revoked 10 = Some revoked_a" by (simp add: tbl_get_def)
  have w: "was_active (f_status revoked_a)" by (simp add: was_active_def)
  obtain g where "fact_at db_replaced 10 = Some g" "was_active (f_status g)"
    using lifecycle_respected[OF db_revoked_reachable later_one[OF step_replaced] a] w by blast
  then show ?thesis by (auto simp: db_replaced_facts tbl_get_def)
qed

text \<open>
  The exception is real: a revoked fact, from which the table lets nothing go, becomes superseded when a
  promotion that recorded it as its conflict is approved.
\<close>

lemma revoked_becomes_superseded:
  "reachable plain_service db_revoked \<and> sys_step plain_service db_revoked (OpApprove 6 6 21 ''bob'' []) db_replaced \<and>
   map f_status (facts_tbl db_revoked) = [StatusRevoked, StatusProposed] \<and>
   map f_status (facts_tbl db_replaced) = [StatusSuperseded, StatusActive] \<and>
   (\<forall>t. can_transition StatusRevoked t = None)"
proof -
  have "can_transition StatusRevoked t = None" for t
    by (cases "can_transition StatusRevoked t") (auto simp: can_transition_cases)
  then show ?thesis using db_revoked_reachable step_replaced by (simp add: db_replaced_facts)
qed

end
