(* ===== verification/Approvals.thy ===== *)
theory Approvals
  imports Guarantees
begin

text \<open>
  What the review requests answer and what they leave behind: \<^verbatim>\<open>Approve\<close> on every branch, the activation
  and supersession a quorum commits, the two situations in which a quorum can never activate, and the
  proposer's own requests. Every statement holds for any pattern of faults unless it says otherwise.
\<close>

section \<open>Lookups after an activation\<close>

lemma approve_cases:
  assumes "run (approve sv now wall i who c) fs d = (r, d')"
  obtains (failed) e where "r = Inl e" and "d' = d"
    | (committed) q where "r = Inr q" and "exec (approve_body sv now wall i who c) d q d'"
  using run_in_tx_cases[OF well_behaved_approve_body] assms unfolding approve_def by metis

lemma embed_effect_other: "j \<noteq> i \<Longrightarrow> fact_at (embed_effect sv i d) j = fact_at d j"
  by (auto simp: embed_effect_def tbl_get_upd split: option.split)

lemma activate_effect_other:
  assumes "j \<noteq> p_fact_id p" and "Some j \<noteq> p_conflict_with p"
  shows "fact_at (activate_effect sv now p who d) j = fact_at d j"
  using assms
  by (auto simp: activate_effect_def embed_effect_other tbl_get_upd conflict_effect_at supersede_effect_at Let_def
      split: option.split)

lemma reviewed_effect_sel [simp]:
  "facts_tbl (reviewed_effect now p e d) = facts_tbl d"
  "audit_tbl (reviewed_effect now p e d) = audit_tbl d @ [audit_row now e]"
  by (simp_all add: reviewed_effect_def)

lemma bare_eq_sel:
  assumes "bare f = bare g"
  shows "f_status f = f_status g" "f_approved_by f = f_approved_by g" "f_supersedes_id f = f_supersedes_id g"
    "f_superseded_by_id f = f_superseded_by_id g" "f_namespace_id f = f_namespace_id g"
    "f_canonical_key f = f_canonical_key g" "f_version f = f_version g"
  using assms bare_sel by metis+

lemma bare_at:
  assumes "map_option bare (fact_at d j) = map_option bare (Some g)"
  obtains f where "fact_at d j = Some f" and "bare f = bare g"
  using assms by auto

lemma activate_effect_audit:
  "audit_tbl (activate_effect sv now p who d) = audit_tbl d @
     (case p_conflict_with p of None \<Rightarrow> [] | Some k \<Rightarrow> [audit_row now (superseded_event who k (p_fact_id p))]) @
     [audit_row now (activated_event who (p_fact_id p))]"
  by (simp add: activate_effect_def conflict_effect_def split: option.split)

lemma conflict_target_present:
  "fact_at d j = Some f \<Longrightarrow> \<exists>g. fact_at (conflict_effect now who p d) j = Some g \<and>
     f_namespace_id g = f_namespace_id f \<and> f_canonical_key g = f_canonical_key f \<and>
     f_subject g = f_subject f \<and> f_statement g = f_statement f \<and>
     (\<forall>k. p_conflict_with p = Some k \<and> j = p_fact_id p \<longrightarrow> f_supersedes_id g = Some k)"
  by (auto simp: conflict_effect_at supersede_effect_at Let_def row_superseded_def row_supersedes_def split: option.split)

lemma committed_approval:
  assumes "exec (approve_body sv now wall i who c) d q d'" and "p_state q = StateApproved"
  obtains p where "promotion_at d i = Some p" and "q = decided wall who c p"
    and "activate_fits sv now q who d"
    and "d' = reviewed_effect now q (approved_event who q) (activate_effect sv now q who d)"
proof -
  obtain p where p: "promotion_at d i = Some p" "q = decided wall who c p" and
    eff: "if has_enough_approvals q
         then activate_fits sv now q who d \<and>
              promotions_ok (activate_effect sv now q who d) (promotions_tbl d) \<and>
              d' = reviewed_effect now q (approved_event who q) (activate_effect sv now q who d)
         else promotions_ok d (promotions_tbl d) \<and> d' = reviewed_effect now q (approved_event who q) d"
    using assms(1) unfolding exec_approve_body by blast
  moreover have "has_enough_approvals q"
    using assms(2) p(2) by (auto simp: decided_state split: if_splits)
  ultimately show ?thesis using that by simp
qed

section \<open>Approve\<close>

text \<open>
  C17. \<^verbatim>\<open>Approve\<close> answers as documented: an error leaves the store as it was; a success was on a promotion
  in review or pending, by someone else than its proposer, adds the reviewer to the distinct approvers at
  most once, approves the promotion exactly when these reach the snapshotted requirement, and otherwise
  leaves it in review with every fact untouched.
\<close>

theorem approve_outcome:
  assumes "run (approve sv now wall i who c) fs d = (r, d')"
  shows "case r of
      Inl e \<Rightarrow> d' = d
    | Inr q \<Rightarrow> (\<exists>p. promotion_at d i = Some p \<and> (p_state p = StateInReview \<or> p_state p = StatePending) \<and>
        who \<noteq> p_proposer p \<and>
        p_reviews q = (if already_approved_by p who then p_reviews p
           else p_reviews p @ [\<lparr>r_reviewer = who, r_decision = DecisionApprove, r_comment = c, r_at = wall\<rparr>]) \<and>
        promotion_at d' i = Some (row_reviewed now (p_state q) (p_reviews q) p) \<and>
        (if p_required_approvals p \<le> int (card (insert who (distinct_approvers p)))
         then p_state q = StateApproved
         else p_state q = StateInReview \<and> facts_tbl d' = facts_tbl d))"
  using assms
proof (cases rule: approve_cases)
  case (committed q)
  then obtain p where p: "promotion_at d i = Some p" "reviewable p" "who \<noteq> p_proposer p" and q: "q = decided wall who c p" and
    eff: "if has_enough_approvals q
         then activate_fits sv now q who d \<and>
              promotions_ok (activate_effect sv now q who d) (promotions_tbl d) \<and>
              d' = reviewed_effect now q (approved_event who q) (activate_effect sv now q who d)
         else promotions_ok d (promotions_tbl d) \<and> d' = reviewed_effect now q (approved_event who q) d"
    unfolding exec_approve_body by blast
  have n: "has_enough_approvals q \<longleftrightarrow> p_required_approvals p \<le> int (card (insert who (distinct_approvers p)))"
    using decided_approvers[OF p(3)] by (simp add: q has_enough_approvals_def approval_count_def)
  have rv: "p_reviews q = (if already_approved_by p who then p_reviews p
      else p_reviews p @ [\<lparr>r_reviewer = who, r_decision = DecisionApprove, r_comment = c, r_at = wall\<rparr>])"
    by (simp add: q add_approval_def)
  have "p_id q = i" using q tbl_get_Some[OF p(1)] by simp
  then have "promotion_at d' i = Some (row_reviewed now (p_state q) (p_reviews q) p)"
    using eff p(1) by (auto simp: reviewed_effect_def tbl_get_upd split: if_splits)
  moreover have "p_state q = (if has_enough_approvals q then StateApproved else StateInReview)"
    using q by (simp add: decided_state)
  moreover have "\<not> has_enough_approvals q \<Longrightarrow> facts_tbl d' = facts_tbl d" using eff by simp
  ultimately show ?thesis
    using p n rv committed(1) by (auto simp: reviewable_def)
qed simp
lemma run_approve_a: "run (approve plain_service 3 3 20 ''bob'' []) [] db_proposed = (Inr done_a, db_active)"
  using run_in_tx_clean[OF exec_approve_a] by (simp add: db_active_def approve_def)

lemma run_approve_b: "run (approve plain_service 6 6 21 ''bob'' []) [] db_revoked = (Inr done_b, db_replaced)"
  using run_in_tx_clean[OF exec_approve_b] by (simp add: db_replaced_def approve_def)

theorem approve_outcome_witness: "p_state done_a = StateApproved \<and> promotion_at db_active 20 = Some final_a"
proof -
  have "promotion_at db_proposed 20 = Some promo_a" by (simp add: tbl_get_def)
  then show ?thesis using approve_outcome[OF run_approve_a] by (auto simp: final_a_def)
qed

text \<open>
  The gates of \<^verbatim>\<open>Approve\<close>, when nothing fails: an unknown promotion, a promotion not under review and
  the proposer's own approval each get their own error, in this order, whatever the policy, and write
  nothing.
\<close>

lemma approve_gates:
  "(promotion_at d i = None \<longrightarrow> run (approve sv now wall i who c) [] d = (Inl ErrPromotionNotFound, d)) \<and>
   (\<forall>p. promotion_at d i = Some p \<longrightarrow>
      (p_state p \<notin> {StateInReview, StatePending} \<longrightarrow> run (approve sv now wall i who c) [] d = (Inl ErrInvalidState, d)) \<and>
      (p_state p \<in> {StateInReview, StatePending} \<and> who = p_proposer p \<longrightarrow>
         run (approve sv now wall i who c) [] d = (Inl ErrSelfApproval, d)))"
  by (simp add: run_def approve_def approve_body_def get_promotion_def sql_run)

lemma approve_gates_witness:
  "run (approve plain_service 3 3 20 ''ann'' []) [] db_proposed = (Inl ErrSelfApproval, db_proposed) \<and>
   run (approve plain_service 9 9 20 ''bob'' []) [] db_active = (Inl ErrInvalidState, db_active)"
proof
  have "promotion_at db_proposed 20 = Some promo_a" by (simp add: tbl_get_def)
  then show "run (approve plain_service 3 3 20 ''ann'' []) [] db_proposed = (Inl ErrSelfApproval, db_proposed)"
    using approve_gates[of 20 db_proposed plain_service 3 3 "''ann''" "[]"] by simp
  have "promotion_at db_active 20 = Some final_a" by (simp add: tbl_get_def)
  then show "run (approve plain_service 9 9 20 ''bob'' []) [] db_active = (Inl ErrInvalidState, db_active)"
    using approve_gates[of 20 db_active plain_service 9 9 "''bob''" "[]"] by simp
qed

section \<open>What a quorum commits\<close>

text \<open>The fact and its conflict after a committed activation.\<close>

lemma activated_fact:
  assumes "activate_fits sv now q who d"
  obtains f where "fact_at (activate_effect sv now q who d) (p_fact_id q) = Some f" and "f_status f = StatusActive"
    and "f_approved_by f = approvers q" and "\<forall>k. p_conflict_with q = Some k \<longrightarrow> f_supersedes_id f = Some k"
proof -
  let ?i = "p_fact_id q"
  obtain g where g: "fact_at (conflict_effect now who q d) ?i = Some g"
    using assms by (auto simp: activate_fits_def Let_def)
  have k: "\<forall>k. p_conflict_with q = Some k \<longrightarrow> f_supersedes_id g = Some k"
  proof (intro allI impI)
    fix k assume k: "p_conflict_with q = Some k"
    have "\<exists>h. g = row_supersedes now k h"
      using g k by (auto simp: conflict_effect_at supersede_effect_at Let_def)
    then show "f_supersedes_id g = Some k" by auto
  qed
  have "map_option bare (fact_at (activate_effect sv now q who d) ?i) =
      map_option bare (Some (row_activate now (approvers q) g))"
    by (simp add: activate_effect_at g)
  then obtain f where "fact_at (activate_effect sv now q who d) ?i = Some f" "bare f = bare (row_activate now (approvers q) g)"
    by (rule bare_at)
  then show ?thesis using that[of f] bare_eq_sel[of f] k by auto
qed

lemma superseded_fact:
  assumes "fact_at d k = Some g" and "p_conflict_with q = Some k" and "k \<noteq> p_fact_id q"
  shows "fact_at (activate_effect sv now q who d) k = Some (row_superseded now (p_fact_id q) g)"
  using assms
  by (auto simp: activate_effect_def embed_effect_other tbl_get_upd conflict_effect_at supersede_effect_at Let_def)

text \<open>
  C18. A quorum activates and supersedes in one transaction: when \<^verbatim>\<open>Approve\<close> answers with an approved
  promotion of a reachable store, its fact is active with the distinct approvers in order of approval, a
  recorded conflict is superseded and the two facts point to each other, every other fact is exactly
  what it was, and the audit trail has grown by the supersession, the activation and the approval.
\<close>

theorem quorum_activates:
  assumes "reachable sv d" and "run (approve sv now wall i who c) fs d = (Inr q, d')" and "p_state q = StateApproved"
  shows "(\<exists>f. fact_at d' (p_fact_id q) = Some f \<and> f_status f = StatusActive \<and> f_approved_by f = approvers q \<and>
       (\<forall>k. p_conflict_with q = Some k \<longrightarrow> f_supersedes_id f = Some k \<and>
          (\<exists>g. fact_at d' k = Some g \<and> f_status g = StatusSuperseded \<and> f_superseded_by_id g = Some (p_fact_id q)))) \<and>
     (\<forall>j. j \<noteq> p_fact_id q \<longrightarrow> p_conflict_with q \<noteq> Some j \<longrightarrow> fact_at d' j = fact_at d j) \<and>
     audit_tbl d' = audit_tbl d @
       (case p_conflict_with q of None \<Rightarrow> [] | Some k \<Rightarrow> [audit_row now (superseded_event who k (p_fact_id q))]) @
       [audit_row now (activated_event who (p_fact_id q)), audit_row now (approved_event who q)]"
  using assms(2)
proof (cases rule: approve_cases)
  case (committed q')
  then obtain p where p: "promotion_at d i = Some p" "q = decided wall who c p" "activate_fits sv now q who d"
      "d' = reviewed_effect now q (approved_event who q) (activate_effect sv now q who d)"
    using committed_approval[of sv now wall i who c d q d'] assms(3) by auto
  have conf: "\<exists>g. fact_at d k = Some g \<and> k \<noteq> p_fact_id q" if "p_conflict_with q = Some k" for k
    using governed_paired[OF reachable_governed[OF assms(1)] p(1)] that p(2) by (auto simp: paired_def conflict_ok_def)
  obtain f where f: "fact_at (activate_effect sv now q who d) (p_fact_id q) = Some f" "f_status f = StatusActive"
      "f_approved_by f = approvers q" "\<forall>k. p_conflict_with q = Some k \<longrightarrow> f_supersedes_id f = Some k"
    by (rule activated_fact[OF p(3)])
  have g: "\<exists>g. fact_at d' k = Some g \<and> f_status g = StatusSuperseded \<and> f_superseded_by_id g = Some (p_fact_id q)"
    if k: "p_conflict_with q = Some k" for k
  proof -
    obtain g where "fact_at d k = Some g" "k \<noteq> p_fact_id q" using conf[OF k] by blast
    then show ?thesis using superseded_fact[OF _ k] p(4) by auto
  qed
  have "fact_at d' j = fact_at d j" if "j \<noteq> p_fact_id q" "p_conflict_with q \<noteq> Some j" for j
    using activate_effect_other[of j q] that by (auto simp: p(4))
  moreover have "fact_at d' (p_fact_id q) = Some f" using f(1) by (simp add: p(4))
  ultimately show ?thesis
    using f g by (auto simp: p(4) activate_effect_audit)
qed simp

theorem quorum_activates_witness:
  "\<exists>f g. fact_at db_replaced 11 = Some f \<and> f_status f = StatusActive \<and> f_supersedes_id f = Some 10 \<and>
     fact_at db_replaced 10 = Some g \<and> f_superseded_by_id g = Some 11"
  using quorum_activates[OF db_revoked_reachable run_approve_b] by auto

section \<open>A quorum that cannot activate\<close>

lemma active_clash:
  assumes "governed d" and "fact_at d i = Some f" and "fact_at d j = Some g" and "i \<noteq> j"
    and "f_status f = StatusActive" and "f_status g = StatusActive"
    and "f_namespace_id f = f_namespace_id g"
  shows "f_canonical_key f \<noteq> f_canonical_key g"
proof
  assume k: "f_canonical_key f = f_canonical_key g"
  have "distinct (active_keys (facts_tbl d))"
    using governed_schema[OF assms(1)] by (simp add: schema_ok_def facts_ok_def)
  then have "f = g"
    using active_unique tbl_get_Some[OF assms(2)] tbl_get_Some[OF assms(3)] assms(5-7) k by blast
  then show False using tbl_get_Some[OF assms(2)] tbl_get_Some[OF assms(3)] assms(4) by simp
qed

text \<open>
  C23. A proposal whose recorded conflict is out of date can never be approved: while another fact, not the
  recorded conflict, is active under the key of the promotion's fact, no approval by anyone approves the
  promotion. Either the reviews do not reach the requirement or \<^verbatim>\<open>Approve\<close> answers with an error and the
  store is unchanged.
\<close>

theorem stale_conflict_blocks:
  assumes "reachable sv d" and "promotion_at d i = Some p" and "fact_at d (p_fact_id p) = Some f"
    and "fact_at d j = Some g" and "f_status g = StatusActive" and "f_namespace_id g = f_namespace_id f"
    and "f_canonical_key g = f_canonical_key f" and "j \<noteq> p_fact_id p" and "p_conflict_with p \<noteq> Some j"
    and "run (approve sv now wall i who c) fs d = (r, d')"
  shows "case r of Inl e \<Rightarrow> d' = d | Inr q \<Rightarrow> p_state q = StateInReview"
  using assms(10)
proof (cases rule: approve_cases)
  case (committed q)
  have "p_state q \<noteq> StateApproved"
  proof
    assume "p_state q = StateApproved"
    then obtain q0 where q: "promotion_at d i = Some q0" "q = decided wall who c q0" "activate_fits sv now q who d"
      "d' = reviewed_effect now q (approved_event who q) (activate_effect sv now q who d)"
      using committed_approval[OF committed(2)] by metis
    then have ids: "p_fact_id q = p_fact_id p" "p_conflict_with q = p_conflict_with p" using assms(2) by simp_all
    have "sys_step sv d (OpApprove now wall i who c) (op_run sv (OpApprove now wall i who c) fs d)"
      by (rule sys_step.step) auto
    then have "reachable sv d'" using assms(10) assms(1) by (auto intro: reachable.next_op)
    then have gov: "governed d'" by (rule reachable_governed)
    obtain h where h: "fact_at (activate_effect sv now q who d) (p_fact_id q) = Some h" "f_status h = StatusActive"
      by (rule activated_fact[OF q(3)])
    have "rows_kept fact_fixed f_id (facts_tbl d) (facts_tbl d')"
      using approve_body_evolves[OF committed(2)] by (simp add: evolves_def)
    then have fx: "fact_fixed f h"
      using assms(3) h(1) ids by (fastforce simp: rows_kept_def q(4))
    have j: "fact_at d' j = Some g"
      using activate_effect_other[of j q] assms(4,8,9) ids by (auto simp: q(4))
    have "fact_at d' (p_fact_id p) = Some h" using h(1) ids by (simp add: q(4))
    from active_clash[OF gov j this assms(8) assms(5) h(2)] show False
      using assms(6,7) fx by (simp add: fact_fixed_def)
  qed
  then show ?thesis using committed by (auto simp: exec_approve_body decided_state)
qed simp

text \<open>The situation: two proposals for one subject while nothing is active, then the first is approved.\<close>

definition db_rivals :: db where
  "db_rivals = propose_effect 4 11 21 (proposal ''use js'') 1 db_proposed"

definition promo_r :: promotion where
  "promo_r = pending_row 4 11 21 (proposal ''use js'') 1 db_proposed"

definition db_stuck :: db where
  "db_stuck = snd (run (approve plain_service 3 3 20 ''bob'' []) [] db_rivals)"

lemma promo_r_sel [simp]:
  "p_id promo_r = 21" "p_fact_id promo_r = 11" "p_conflict_with promo_r = None" "p_state promo_r = StatePending"
  "p_target_namespace_id promo_r = 1" "p_idempotency_key promo_r = None" "p_proposer promo_r = ''ann''"
  "p_required_approvals promo_r = 1"
  by (simp_all add: promo_r_def conflicting_def active_by_key_def)

lemma db_rivals_sel [simp]:
  "facts_tbl db_rivals = [row_a, row_b]" "promotions_tbl db_rivals = [promo_a, promo_r]"
  "namespaces_tbl db_rivals = namespaces_tbl db_ns"
  by (simp_all add: db_rivals_def tbl_ins_def row_b_def promo_r_def)

lemma db_rivals_reachable: "reachable plain_service db_rivals"
proof (rule reach_op[OF db_proposed_reachable, of "OpPropose 4 11 21 (proposal ''use js'') 1 None"])
  have "propose_fits 4 11 21 (proposal ''use js'') 1 db_proposed"
    by (simp add: fits_eval db_ns_ids)
  then show "op_run plain_service (OpPropose 4 11 21 (proposal ''use js'') 1 None) [] db_proposed = db_rivals"
    by (simp only: propose_op no_auto db_rivals_def)
qed (simp_all add: sample_subject_valid)

lemma db_stuck_reachable: "reachable plain_service db_stuck"
  by (rule reach_op[OF db_rivals_reachable, of "OpApprove 3 3 20 ''bob'' []"]) (simp_all add: db_stuck_def)

lemma db_stuck_sel: "facts_tbl db_stuck = [active_a, row_b]" "promotions_tbl db_stuck = [final_a, promo_r]"
proof -
  have ap: "approvers done_a = [''bob'']" "has_enough_approvals done_a" "decided 3 ''bob'' [] promo_a = done_a"
    using decided_a by simp_all
  have at: "promotion_at db_rivals 20 = Some promo_a" "reviewable promo_a"
    by (simp_all add: tbl_get_def reviewable_def)
  have "activate_fits plain_service 3 done_a ''bob'' db_rivals"
    by (simp add: activation_eval fits_eval db_ns_ids)
  moreover have "promotions_ok (activate_effect plain_service 3 done_a ''bob'' db_rivals) (promotions_tbl db_rivals)"
    by (simp add: activation_eval fits_eval db_ns_ids)
  ultimately have "exec (approve_body plain_service 3 3 20 ''bob'' []) db_rivals done_a
     (reviewed_effect 3 done_a (approved_event ''bob'' done_a) (activate_effect plain_service 3 done_a ''bob'' db_rivals))"
    unfolding exec_approve_body using ap at by auto
  then have d: "db_stuck = reviewed_effect 3 done_a (approved_event ''bob'' done_a)
      (activate_effect plain_service 3 done_a ''bob'' db_rivals)"
    by (simp add: db_stuck_def approve_def run_in_tx_clean)
  show "facts_tbl db_stuck = [active_a, row_b]" "promotions_tbl db_stuck = [final_a, promo_r]"
    by (simp_all add: d reviewed_effect_def activation_eval ap active_a_def final_a_def)
qed

theorem stale_conflict_blocks_witness:
  "\<forall>fs. case run (approve plain_service 6 6 21 ''bob'' []) fs db_stuck of
     (Inl e, d') \<Rightarrow> d' = db_stuck | (Inr q, d') \<Rightarrow> p_state q = StateInReview"
proof
  fix fs
  have "promotion_at db_stuck 21 = Some promo_r" "fact_at db_stuck (p_fact_id promo_r) = Some row_b"
    "fact_at db_stuck 10 = Some active_a"
    by (simp_all add: db_stuck_sel tbl_get_def)
  note at = this
  show "case run (approve plain_service 6 6 21 ''bob'' []) fs db_stuck of
     (Inl e, d') \<Rightarrow> d' = db_stuck | (Inr q, d') \<Rightarrow> p_state q = StateInReview"
  proof (cases "run (approve plain_service 6 6 21 ''bob'' []) fs db_stuck")
    case (Pair r d')
    have "case r of Inl e \<Rightarrow> d' = db_stuck | Inr q \<Rightarrow> p_state q = StateInReview"
      by (rule stale_conflict_blocks[OF db_stuck_reachable at _ _ _ _ _ Pair]) simp_all
    with Pair show ?thesis by (auto split: sum.splits)
  qed
qed

text \<open>
  C24. The embedder can block an activation: when it answers with a vector of another width than the column,
  the refused \<^verbatim>\<open>UPDATE\<close> aborts the transaction and no approval by anyone activates the fact.
\<close>

theorem wrong_dims_block:
  assumes "promotion_at d i = Some p" and "fact_at d (p_fact_id p) = Some f" and "sv_embedder sv = Some em"
    and "em (embed_text (f_subject f) (f_statement f)) = Inr v" and "length v \<noteq> embedding_dims"
    and "run (approve sv now wall i who c) fs d = (r, d')"
  shows "case r of Inl e \<Rightarrow> d' = d | Inr q \<Rightarrow> p_state q = StateInReview"
  using assms(6)
proof (cases rule: approve_cases)
  case (committed q)
  have "p_state q \<noteq> StateApproved"
  proof
    assume "p_state q = StateApproved"
    then obtain q0 where "promotion_at d i = Some q0" "q = decided wall who c q0" "activate_fits sv now q who d"
      using committed_approval[OF committed(2)] by metis
    then have q: "p_fact_id q = p_fact_id p" "activate_fits sv now q who d" using assms(1) by simp_all
    obtain g where g: "fact_at (conflict_effect now who q d) (p_fact_id p) = Some g"
        "f_subject g = f_subject f" "f_statement g = f_statement f"
      using conflict_target_present[OF assms(2), of now who q] by auto
    let ?d = "upd_fact (p_fact_id p) (row_activate now (approvers q)) (conflict_effect now who q d)"
    let ?h = "row_activate now (approvers q) g"
    have h: "fact_at ?d (p_fact_id p) = Some ?h" using g(1) by (simp add: tbl_get_upd)
    have "embedding_for sv ?h = Some v"
      using assms(3,4) g(2,3) by (simp add: embedding_for_def row_activate_def)
    then have "facts_ok ?d (tbl_upd f_id (p_fact_id p) (row_embed v) (facts_tbl ?d))"
      using q h by (simp add: activate_fits_def Let_def embed_fits_def)
    moreover have "row_embed v ?h \<in> set (tbl_upd f_id (p_fact_id p) (row_embed v) (facts_tbl ?d))"
      using tbl_get_Some[OF h] by (force simp: tbl_upd_def)
    ultimately show False using assms(5) by (auto simp: facts_ok_def list_all_iff row_embed_def)
  qed
  then show ?thesis using committed by (auto simp: exec_approve_body decided_state)
qed simp

theorem wrong_dims_block_witness:
  "\<forall>fs. case run (approve \<lparr>sv_engines = None, sv_embedder = Some (\<lambda>_. Inr [1])\<rparr> 3 3 20 ''bob'' []) fs db_proposed of
     (Inl e, d') \<Rightarrow> d' = db_proposed | (Inr q, d') \<Rightarrow> p_state q = StateInReview"
proof
  fix fs
  have "promotion_at db_proposed 20 = Some promo_a" "fact_at db_proposed (p_fact_id promo_a) = Some row_a"
    by (simp_all add: tbl_get_def)
  note at = this
  show "case run (approve \<lparr>sv_engines = None, sv_embedder = Some (\<lambda>_. Inr [1])\<rparr> 3 3 20 ''bob'' []) fs db_proposed of
     (Inl e, d') \<Rightarrow> d' = db_proposed | (Inr q, d') \<Rightarrow> p_state q = StateInReview"
  proof (cases "run (approve \<lparr>sv_engines = None, sv_embedder = Some (\<lambda>_. Inr [1])\<rparr> 3 3 20 ''bob'' []) fs db_proposed")
    case (Pair r d')
    have "case r of Inl e \<Rightarrow> d' = db_proposed | Inr q \<Rightarrow> p_state q = StateInReview"
      by (rule wrong_dims_block[OF at _ _ _ Pair, of "\<lambda>_. Inr [1]" "[1]"]) (simp_all add: embedding_dims_def)
    with Pair show ?thesis by (auto split: sum.splits)
  qed
qed

section \<open>The proposer's requests and the other verdicts\<close>

lemma bounced_at:
  assumes "promotion_at d (p_id q) = Some p" and "bounce_fits now q st d"
  obtains f where "fact_at d (p_fact_id q) = Some f"
    and "fact_at (bounced_effect now q st e d) (p_fact_id q) = Some (row_status now st f)"
    and "promotion_at (bounced_effect now q st e d) (p_id q) = Some (row_reviewed now (p_state q) (p_reviews q) p)"
    and "\<forall>j. j \<noteq> p_fact_id q \<longrightarrow> fact_at (bounced_effect now q st e d) j = fact_at d j"
    and "audit_tbl (bounced_effect now q st e d) = audit_tbl d @ [audit_row now e]"
  using assms that by (auto simp: bounce_fits_def bounced_effect_def tbl_get_upd)

lemma exec_proposer_request:
  assumes "m = submit_mutate who \<or> m = withdraw_mutate who"
    and "exec (transition_body now i who m st act) d q d'"
  obtains p where "promotion_at d i = Some p" and "m p = Inr q" and "bounce_fits now q st d" and "p_id q = i"
    and "d' = bounced_effect now q st (promotion_event who act i (p_state q) []) d"
proof -
  have id: "p_id q' = p_id p'" if "m p' = Inr q'" for p' q' using assms(1) that by (auto simp: mutate_Inr)
  obtain p where p: "promotion_at d i = Some p" "m p = Inr q" "bounce_fits now q st d"
     "d' = bounced_effect now q st (promotion_event who act i (p_state q) []) d"
    using assms(2) exec_transition_body[of m, OF id] by blast
  moreover have "p_id q = i" using id[OF p(2)] tbl_get_Some[OF p(1)] by simp
  ultimately show ?thesis using that by blast
qed

text \<open>
  The store after a request of the proposer: the promotion and its fact have moved, with a new version and new
  times, one audit event is added, and every other row of every table is the one it was.
\<close>

definition moved :: "timestamp \<Rightarrow> uuid \<Rightarrow> principal_id \<Rightarrow> promo_state \<Rightarrow> status \<Rightarrow> string \<Rightarrow> db \<Rightarrow> db \<Rightarrow> bool" where
  "moved now i who st fact_to act d d' \<longleftrightarrow>
     (\<exists>p f. promotion_at d i = Some p \<and> p_proposer p = who \<and>
        (p_state p = StatePending \<or> p_state p = StateChangesRequested) \<and>
        promotion_at d' i = Some (p\<lparr>p_state := st, p_updated_at := now\<rparr>) \<and>
        fact_at d (p_fact_id p) = Some f \<and>
        fact_at d' (p_fact_id p) = Some (f\<lparr>f_status := fact_to, f_version := f_version f + 1, f_updated_at := now\<rparr>) \<and>
        map f_id (facts_tbl d') = map f_id (facts_tbl d) \<and> map p_id (promotions_tbl d') = map p_id (promotions_tbl d) \<and>
        filter (\<lambda>g. f_id g \<noteq> p_fact_id p) (facts_tbl d') = filter (\<lambda>g. f_id g \<noteq> p_fact_id p) (facts_tbl d) \<and>
        filter (\<lambda>r. p_id r \<noteq> i) (promotions_tbl d') = filter (\<lambda>r. p_id r \<noteq> i) (promotions_tbl d) \<and>
        namespaces_tbl d' = namespaces_tbl d \<and> memberships_tbl d' = memberships_tbl d \<and>
        audit_tbl d' = audit_tbl d @ [audit_row now (promotion_event who act i st [])])"

lemma filter_upd: "(\<And>r. key (g r) = key r) \<Longrightarrow> filter (\<lambda>r. key r \<noteq> k) (tbl_upd key k g t) = filter (\<lambda>r. key r \<noteq> k) t"
  by (induction t) (auto simp: tbl_upd_def)

lemma keys_upd: "(\<And>r. key (g r) = key r) \<Longrightarrow> map key (tbl_upd key k g t) = map key t"
  by (induction t) (auto simp: tbl_upd_def)

lemma bounced_rest:
  fixes now q st e d
  defines "d' \<equiv> bounced_effect now q st e d"
  shows "map f_id (facts_tbl d') = map f_id (facts_tbl d)" "map p_id (promotions_tbl d') = map p_id (promotions_tbl d)"
    "filter (\<lambda>g. f_id g \<noteq> p_fact_id q) (facts_tbl d') = filter (\<lambda>g. f_id g \<noteq> p_fact_id q) (facts_tbl d)"
    "filter (\<lambda>r. p_id r \<noteq> p_id q) (promotions_tbl d') = filter (\<lambda>r. p_id r \<noteq> p_id q) (promotions_tbl d)"
    "namespaces_tbl d' = namespaces_tbl d" "memberships_tbl d' = memberships_tbl d"
  by (simp_all add: d'_def bounced_effect_def filter_upd keys_upd)

lemma transition_moved:
  assumes mu: "mu = submit_mutate who \<and> st = StateInReview \<or> mu = withdraw_mutate who \<and> st = StateRejected"
  shows "case run (in_tx (transition_body now i who mu fact_to act)) fs d of
     (Inl e, d') \<Rightarrow> d' = d | (Inr q, d') \<Rightarrow> p_state q = st \<and> moved now i who st fact_to act d d'"
proof (cases "run (in_tx (transition_body now i who mu fact_to act)) fs d")
  case (Pair r d')
  then show ?thesis
  proof (cases rule: run_in_tx_cases[OF well_behaved_transition_body Pair])
    case (2 q)
    obtain p where p: "promotion_at d i = Some p" "mu p = Inr q" "bounce_fits now q fact_to d" "p_id q = i"
      "d' = bounced_effect now q fact_to (promotion_event who act i (p_state q) []) d"
      using exec_proposer_request[OF _ 2(2)] mu by blast
    have q: "q = p\<lparr>p_state := st\<rparr>" "p_proposer p = who" "p_state p = StatePending \<or> p_state p = StateChangesRequested"
      using mu p(2) by (auto simp: mutate_Inr)
    have at: "promotion_at d (p_id q) = Some p" using p by simp
    obtain f where "fact_at d (p_fact_id q) = Some f" "fact_at d' (p_fact_id q) = Some (row_status now fact_to f)"
      "promotion_at d' (p_id q) = Some (row_reviewed now (p_state q) (p_reviews q) p)"
      "\<forall>j. j \<noteq> p_fact_id q \<longrightarrow> fact_at d' j = fact_at d j"
      "audit_tbl d' = audit_tbl d @ [audit_row now (promotion_event who act i (p_state q) [])]"
      unfolding p(5) by (rule bounced_at[OF at p(3)]) blast
    moreover note bounced_rest[where now = now and q = q and st = fact_to and d = d and
        e = "promotion_event who act i (p_state q) []", folded p(5)]
    ultimately show ?thesis using Pair 2(1) p(1,4) q by (simp add: moved_def row_status_def row_reviewed_def)
  qed simp
qed

text \<open>
  C26. Submitting and withdrawing belong to the proposer: when either succeeds, the caller is the promotion's
  proposer and the promotion was pending or sent back; submitting moves it and its fact into review,
  withdrawing rejects both, one audit event is added, and no other row of any table changes. An error changes
  nothing.
\<close>

theorem proposer_requests:
  "(case run (submit now i who) fs d of
      (Inl e, d') \<Rightarrow> d' = d
    | (Inr q, d') \<Rightarrow> p_state q = StateInReview \<and>
        moved now i who StateInReview StatusInReview ''promotion.submitted'' d d') \<and>
   (case run (withdraw now i who) fs d of
      (Inl e, d') \<Rightarrow> d' = d
    | (Inr q, d') \<Rightarrow> p_state q = StateRejected \<and>
        moved now i who StateRejected StatusRejected ''promotion.withdrawn'' d d')"
  unfolding submit_def withdraw_def by (intro conjI transition_moved) simp_all

lemma run_bind_tx:
  assumes "well_behaved m" and "run (bind_sql (in_tx m) k) fs d = (r, d')"
  obtains (failed) e where "r = Inl e" and "d' = d"
    | (committed) a d1 fs' where "exec m d a d1" and "run (k a) fs' d1 = (r, d')"
proof -
  let ?s = "\<lparr>store = d, aborted = False, faults = fs\<rparr>"
  obtain x s1 where s1: "in_tx m ?s = (x, s1)" by fastforce
  have live: "\<not> aborted s1"
    using all_or_nothing_in_tx[OF assms(1)] s1 by (auto simp: all_or_nothing_def dest: spec[of _ ?s])
  have rn: "run (in_tx m) fs d = (x, store s1)" using s1 by (simp add: run_def)
  show ?thesis
  proof (cases x)
    case (Inl e)
    have "store s1 = d"
      using all_or_nothing_error[OF all_or_nothing_in_tx[OF assms(1)]] rn Inl by blast
    then show ?thesis using failed[of e] s1 assms(2) Inl by (simp add: run_def bind_sql_def)
  next
    case (Inr a)
    then have "exec m d a (store s1)" using run_in_tx_Inr[OF assms(1)] rn by simp
    moreover have "s1 = \<lparr>store = store s1, aborted = False, faults = faults s1\<rparr>" using live by simp
    then have "run (k a) (faults s1) (store s1) = (r, d')"
      using assms(2) s1 Inr by (simp add: run_def bind_sql_def)
    ultimately show ?thesis by (rule committed)
  qed
qed

lemma run_attempt_stmt:
  "fst (run (bind_sql (attempt (on_pool (stmt f))) (\<lambda>_. return_sql q)) fs d) = Inr q"
  "snd (run (bind_sql (attempt (on_pool (stmt f))) (\<lambda>_. return_sql q)) fs d) = d \<or>
   (\<exists>a. f d = Inr (a, snd (run (bind_sql (attempt (on_pool (stmt f))) (\<lambda>_. return_sql q)) fs d)))"
  by (cases "pop_fault fs"; cases "fst (pop_fault fs)"; cases "f d";
      simp add: run_def bind_sql_def attempt_def on_pool_def stmt_def return_sql_def split: prod.split)+

lemma run_edit_statement:
  "snd (run (bind_sql (attempt (on_pool (update_statement now i s))) (\<lambda>_. return_sql q)) fs d)
     \<in> {d, upd_promotion i (row_statement now s) d} \<and>
   fst (run (bind_sql (attempt (on_pool (update_statement now i s))) (\<lambda>_. return_sql q)) fs d) = Inr q"
  using run_attempt_stmt[of "update_promotions i (row_statement now s)" q fs d]
  unfolding update_statement_def
  by (auto simp: update_promotions_def put_promotions_def upd_promotion_def split: sum.splits if_splits)

text \<open>
  Requesting changes never touches the fact's statement: whatever the request suggests and whatever fails,
  every fact keeps its statement and subject, and on success the promotion carries the suggestion in its
  answer. The suggestion reaches at most the promotion's own copy of the statement.
\<close>

lemma request_changes_keeps_statement:
  assumes "run (request_changes now wall i who c suggested) fs d = (r, d')" and "fact_at d j = Some f"
  shows "\<exists>g. fact_at d' j = Some g \<and> f_statement g = f_statement f \<and> f_subject g = f_subject f \<and>
    (case r of Inl e \<Rightarrow> d' = d
     | Inr q \<Rightarrow> p_state q = StateChangesRequested \<and>
         (suggested \<noteq> [] \<longrightarrow> p_proposed_statement q = suggested) \<and>
         (\<exists>p. promotion_at d i = Some p \<and> (p_fact_id p = j \<longrightarrow> f_status g = StatusProposed)))"
proof (cases rule: run_bind_tx[OF well_behaved_review_body assms(1)[unfolded request_changes_def]])
  case (2 q d1 fs')
  obtain p where p: "promotion_at d i = Some p" and
    q: "q = with_review wall who DecisionRequestChanges c StateChangesRequested p" "bounce_fits now q StatusProposed d" and
    d1: "d1 = bounced_effect now q StatusProposed (promotion_event who ''promotion.changes_requested'' i StateChangesRequested []) d"
    using 2(1) unfolding exec_review_body by blast
  have "promotion_at d (p_id q) = Some p" using p q(1) tbl_get_Some[OF p] by simp
  then obtain g where "fact_at d (p_fact_id q) = Some g" "fact_at d1 (p_fact_id q) = Some (row_status now StatusProposed g)"
    "\<forall>j. j \<noteq> p_fact_id q \<longrightarrow> fact_at d1 j = fact_at d j"
    unfolding d1 by (rule bounced_at[OF _ q(2)]) blast
  moreover have "p_fact_id q = p_fact_id p" by (simp add: q(1))
  ultimately have at: "fact_at d1 j = (if j = p_fact_id p then Some (row_status now StatusProposed f) else Some f)"
    using assms(2) by auto
  have "fact_at d' j = fact_at d1 j \<and> (\<exists>q'. r = Inr q' \<and> p_state q' = StateChangesRequested \<and>
      (suggested \<noteq> [] \<longrightarrow> p_proposed_statement q' = suggested))"
  proof (cases "suggested = []")
    case True
    then show ?thesis using 2(2) q(1) by (auto simp: run_def return_sql_def)
  next
    case False
    then show ?thesis
      using 2(2) run_edit_statement[of now i suggested "q\<lparr>p_proposed_statement := suggested\<rparr>" fs' d1] q(1)
      by auto
  qed
  then show ?thesis using at p by (auto simp: row_status_def)
qed (use assms(2) in auto)

lemma run_bind_exec: "exec m d a d1 \<Longrightarrow> run (bind_sql m k) [] d = run (k a) [] d1"
  by (simp add: exec_def run_def bind_sql_def)

lemma review_applies:
  assumes "promotion_at d i = Some p" and "reviewable p" and "bounce_fits now (with_review wall who dec c to p) st d"
  shows "exec (review_body now wall i who dec c to st act) d (with_review wall who dec c to p)
    (bounced_effect now (with_review wall who dec c to p) st (promotion_event who act i to []) d)"
  using assms unfolding exec_review_body by blast

lemma request_changes_keeps_statement_applied:
  "\<exists>q d' g. run (request_changes 3 3 20 ''bob'' [] ''use zig'') [] db_proposed = (Inr q, d') \<and>
     p_proposed_statement q = ''use zig'' \<and> fact_at d' 10 = Some g \<and> f_statement g = ''use go''"
proof -
  let ?q = "with_review 3 ''bob'' DecisionRequestChanges [] StateChangesRequested promo_a"
  have at: "promotion_at db_proposed 20 = Some promo_a" "fact_at db_proposed 10 = Some row_a"
    by (simp_all add: tbl_get_def)
  have "bounce_fits 3 ?q StatusProposed db_proposed"
    by (simp add: bounce_fits_def fits_eval tbl_upd_def tbl_get_def db_ns_ids)
  from review_applies[OF at(1) _ this] obtain d1 where
    e: "exec (review_body 3 3 20 ''bob'' DecisionRequestChanges [] StateChangesRequested StatusProposed
       ''promotion.changes_requested'') db_proposed ?q d1"
    by (auto simp: reviewable_def)
  let ?k = "bind_sql (attempt (on_pool (update_statement 3 20 ''use zig''))) (\<lambda>_. return_sql (?q\<lparr>p_proposed_statement := ''use zig''\<rparr>))"
  have "run (request_changes 3 3 20 ''bob'' [] ''use zig'') [] db_proposed = run ?k [] d1"
    unfolding request_changes_def by (subst run_bind_exec[OF exec_in_tx[OF well_behaved_review_body, THEN iffD2, OF e]]) simp
  moreover have "fst (run ?k [] d1) = Inr (?q\<lparr>p_proposed_statement := ''use zig''\<rparr>)" by (rule run_edit_statement[THEN conjunct2])
  ultimately obtain q d' where r: "run (request_changes 3 3 20 ''bob'' [] ''use zig'') [] db_proposed = (Inr q, d')"
    by (metis prod.collapse)
  have "f_statement row_a = ''use go''" by (simp add: row_a_def draft_row_def draft_fact_def proposal_def fact_to_row_def new_fact_def fact.defs)
  then show ?thesis using request_changes_keeps_statement[OF r at(2)] r by auto
qed

end
