(* ===== verification/Proposals.thy ===== *)
theory Proposals
  imports Approvals
begin

text \<open>
  What \<^verbatim>\<open>Propose\<close> answers and commits: the proposed fact and its pending promotion, the conflict it
  records, the automatic promotion by a pinned engine, and the idempotent replay; and, over all write
  requests, that an error leaves the store as it was.
\<close>

section \<open>The cases of a proposal\<close>

lemma propose_fresh_cases:
  assumes "run (propose_fresh sv now nf np inp) fs d = (r, d')"
  obtains (failed) e where "r = Inl e" and "d' = d"
    | (committed) ns q where "run (get_namespace (in_target inp)) [] d = (Inr ns, d)" and "r = Inr q"
        and "exec (propose_tx sv now nf np inp (clamp_required (required_approvals (n_policy ns)))
               (pol_auto_promote (n_policy ns))) d q d'"
proof -
  let ?k = "\<lambda>ns. in_tx (propose_tx sv now nf np inp
        (clamp_required (required_approvals (n_policy ns))) (pol_auto_promote (n_policy ns)))"
  have e: "propose_fresh sv now nf np inp = bind_sql (get_namespace (in_target inp)) ?k"
    by (simp add: propose_fresh_def)
  show ?thesis
  proof (rule run_bind_read[OF get_namespace_units, of "in_target inp" ?k fs d], goal_cases)
    case (1 x)
    then show ?case using failed[of x] assms e by simp
  next
    case (2 ns fs')
    then have k: "run (?k ns) fs' d = (r, d')" using assms e by simp
    show ?case
      by (rule run_in_tx_cases[OF well_behaved_propose_tx k]) (use that 2(1) in blast)+
  qed
qed

lemma propose_cases:
  assumes "run (propose sv now nf np inp) fs d = (r, d')"
  obtains (failed) e where "r = Inl e" and "d' = d"
    | (replayed) q where "in_idempotency_key inp \<noteq> []" and "idem_match (in_proposer inp) (in_idempotency_key inp) d = Some q"
        and "r = Inr q" and "d' = d"
    | (committed) ns q where "subject_valid (in_subject inp)"
        and "in_idempotency_key inp \<noteq> [] \<Longrightarrow> idem_match (in_proposer inp) (in_idempotency_key inp) d = None"
        and "run (get_namespace (in_target inp)) [] d = (Inr ns, d)" and "r = Inr q"
        and "exec (propose_tx sv now nf np inp (clamp_required (required_approvals (n_policy ns)))
               (pol_auto_promote (n_policy ns))) d q d'"
proof (cases "subject_valid (in_subject inp)")
  case False
  then show ?thesis using assms failed[of ErrInvalidSubject] by (simp add: propose_def run_def fail_sql_def)
next
  case valid: True
  show ?thesis
  proof (cases "in_idempotency_key inp = []")
    case True
    then have "run (propose_fresh sv now nf np inp) fs d = (r, d')" using assms valid by (simp add: propose_def)
    then show ?thesis
      by (cases rule: propose_fresh_cases) (use failed committed valid True in blast)+
  next
    case False
    let ?k = "\<lambda>existing. case existing of Some p \<Rightarrow> return_sql p | None \<Rightarrow> propose_fresh sv now nf np inp"
    let ?m = "absent_on ErrPromotionNotFound
          (on_pool (find_by_idempotency_key (in_proposer inp) (in_idempotency_key inp)))"
    have e: "run (bind_sql ?m ?k) fs d = (r, d')" using assms valid False by (simp add: propose_def)
    show ?thesis
    proof (rule run_bind_read[OF find_idem_units, of "in_proposer inp" "in_idempotency_key inp" ?k fs d], goal_cases)
      case (1 x)
      then show ?case using failed[of x] e by simp
    next
      case (2 ex fs')
      have ex: "ex = idem_match (in_proposer inp) (in_idempotency_key inp) d"
        using 2(1) by (auto simp: run_def find_by_idempotency_key_def sql_run split: option.splits)
      show ?case
      proof (cases ex)
        case None
        then have "run (propose_fresh sv now nf np inp) fs' d = (r, d')" using e 2(2) by simp
        then show ?thesis
          by (cases rule: propose_fresh_cases) (use failed committed valid ex None in metis)+
      next
        case (Some q)
        then have "r = Inr q" "d' = d" using e 2(2) by (auto simp: run_def return_sql_def)
        then show ?thesis using replayed False ex Some by metis
      qed
    qed
  qed
qed
lemma committed_proposal:
  assumes "exec (propose_tx sv now nf np inp req apo) d q d'"
  shows "propose_fits now nf np inp req d"
    and "case auto_decision sv apo inp of
        None \<Rightarrow> q = pending_row now nf np inp req d \<and> d' = propose_effect now nf np inp req d
      | Some (ap, v) \<Rightarrow> auto_fits sv now (pending_row now nf np inp req d) ap (propose_effect now nf np inp req d) \<and>
          q = (pending_row now nf np inp req d)\<lparr>p_state := StateApproved\<rparr> \<and>
          d' = auto_effect sv now (pending_row now nf np inp req d) ap v (propose_effect now nf np inp req d)"
  using assms by (simp_all add: exec_propose_tx Let_def)

lemma propose_effect_at:
  assumes "propose_fits now nf np inp req d"
  shows "fact_at (propose_effect now nf np inp req d) j = (if j = nf then Some (draft_row now nf inp) else fact_at d j)"
proof (cases "j = nf")
  case True
  then show ?thesis using propose_fresh_ids(3)[OF assms] by simp
next
  case False
  then show ?thesis by (auto simp: tbl_get_ins split: option.split)
qed

lemma auto_effect_fact:
  assumes "fact_at d (p_fact_id p) = Some f"
  obtains g where "fact_at (auto_effect sv now p ap v d) (p_fact_id p) = Some g" and "f_status g = StatusActive"
    and "''auto:true'' \<in> set (f_tags g)" and "f_approved_by g = f_approved_by f"
proof -
  let ?c = "conflict_effect now (''engine:'' @ ap_engine ap) p d"
  let ?u = "upd_fact (p_fact_id p) (row_activate_auto now) ?c"
  have "\<exists>h. fact_at ?c (p_fact_id p) = Some h \<and> f_approved_by h = f_approved_by f"
    using assms by (auto simp: conflict_effect_at supersede_effect_at Let_def split: option.split)
  then obtain h where h: "fact_at ?c (p_fact_id p) = Some h" "f_approved_by h = f_approved_by f" by blast
  have "map_option bare (fact_at (embed_effect sv (p_fact_id p) ?u) (p_fact_id p)) = map_option bare (Some (row_activate_auto now h))"
    unfolding embed_effect_bare using h(1) by (simp add: tbl_get_upd)
  then obtain g where g: "fact_at (embed_effect sv (p_fact_id p) ?u) (p_fact_id p) = Some g" "bare g = bare (row_activate_auto now h)"
    by (rule bare_at)
  have "f_tags g = f_tags (row_activate_auto now h)" using g(2) bare_sel(6) by metis
  then show ?thesis
    using that[of g] g bare_eq_sel[OF g(2)] h(2)
    by (simp add: auto_effect_def row_activate_auto_def auto_tags_def)
qed

section \<open>Propose\<close>

text \<open>
  C19. \<^verbatim>\<open>Propose\<close> answers as documented: an error leaves the store as it was; a success is either the replay
  of an earlier promotion of this proposer with this idempotency key, which writes nothing, or a new
  promotion and a new fact under the subject's canonical key, requiring at least one approval, with the
  active fact of that key, if any, as its conflict. Without a positive automatic decision the promotion
  is pending, the fact proposed, and no other fact changes.
\<close>

theorem propose_outcome:
  assumes "run (propose sv now nf np inp) fs d = (r, d')"
  shows "case r of
      Inl e \<Rightarrow> d' = d
    | Inr q \<Rightarrow>
        in_idempotency_key inp \<noteq> [] \<and> idem_match (in_proposer inp) (in_idempotency_key inp) d = Some q \<and> d' = d \<or>
        subject_valid (in_subject inp) \<and> p_id q = np \<and> p_fact_id q = nf \<and> fact_at d nf = None \<and> promotion_at d np = None \<and>
        p_proposer q = in_proposer inp \<and> 1 \<le> p_required_approvals q \<and>
        p_conflict_with q = map_option f_id (active_by_key (in_target inp) (canonical_key (in_subject inp)) d) \<and>
        (\<exists>f. fact_at d' nf = Some f \<and> f_namespace_id f = in_target inp \<and> f_canonical_key f = canonical_key (in_subject inp) \<and>
           (p_state q = StatePending \<and> f_status f = StatusProposed \<and> promotion_at d' np = Some q \<and>
              (\<forall>j. j \<noteq> nf \<longrightarrow> fact_at d' j = fact_at d j) \<or>
            p_state q = StateApproved \<and> f_status f = StatusActive))"
  using assms
proof (cases rule: propose_cases)
  case (committed ns q)
  let ?req = "clamp_required (required_approvals (n_policy ns))"
  let ?p = "pending_row now nf np inp ?req d" and ?e = "propose_effect now nf np inp ?req d"
  note fits = committed_proposal(1)[OF committed(5)] and eff = committed_proposal(2)[OF committed(5)]
  note ids = propose_fresh_ids[OF fits]
  have "1 \<le> ?req" by (simp add: clamp_required_def)
  then have q: "p_id q = np" "p_fact_id q = nf" "p_proposer q = in_proposer inp" "1 \<le> p_required_approvals q"
    "p_conflict_with q = map_option f_id (active_by_key (in_target inp) (canonical_key (in_subject inp)) d)"
    using eff by (auto simp: conflicting_def split: option.splits)
  have "\<exists>f. fact_at d' nf = Some f \<and> f_namespace_id f = in_target inp \<and> f_canonical_key f = canonical_key (in_subject inp) \<and>
           (p_state q = StatePending \<and> f_status f = StatusProposed \<and> promotion_at d' np = Some q \<and>
              (\<forall>j. j \<noteq> nf \<longrightarrow> fact_at d' j = fact_at d j) \<or>
            p_state q = StateApproved \<and> f_status f = StatusActive)"
  proof (cases "auto_decision sv (pol_auto_promote (n_policy ns)) inp")
    case None
    then show ?thesis using eff ids propose_effect_at[OF fits] by auto
  next
    case (Some av)
    then obtain ap v where av: "q = ?p\<lparr>p_state := StateApproved\<rparr>" "d' = auto_effect sv now ?p ap v ?e"
        "auto_fits sv now ?p ap ?e"
      using eff by (cases av) auto
    have at: "fact_at ?e (p_fact_id ?p) = Some (draft_row now nf inp)" using ids(3) by simp
    obtain g where g: "fact_at d' nf = Some g" "f_status g = StatusActive"
      using auto_effect_fact[OF at, of sv now ap v] av(2) by auto
    have "rows_kept fact_fixed f_id (facts_tbl ?e) (facts_tbl d')"
      using evolves_auto[OF av(3), of ?p v] ids(4) av(2) by (simp add: evolves_def)
    then have "fact_fixed (draft_row now nf inp) g" using ids(3) g(1) by (fastforce simp: rows_kept_def)
    then show ?thesis using g av(1) by (auto simp: fact_fixed_def)
  qed
  then show ?thesis using committed q ids(1,2) by simp
qed simp_all

lemma exec_get_web: "exec (get_namespace 1) db_ns (web_ns\<lparr>n_id := 1, n_created_at := 1, n_policy := default_policy ''project''\<rparr>) db_ns"
  by (simp add: exec_def get_namespace_def sql_run tbl_get_def db_ns_def web_row_def scan_ns_def field_def member_def
      of_sum_def web_ns_def default_policy_def zero_policy_def int_min_def int_max_def)

lemma run_propose_clean:
  assumes "exec (get_namespace (in_target inp)) d ns d" and "subject_valid (in_subject inp)"
    and "in_idempotency_key inp \<noteq> [] \<Longrightarrow> idem_match (in_proposer inp) (in_idempotency_key inp) d = None"
    and "exec (propose_tx sv now nf np inp (clamp_required (required_approvals (n_policy ns)))
       (pol_auto_promote (n_policy ns))) d q d'"
  shows "run (propose sv now nf np inp) [] d = (Inr q, d')"
proof -
  have f: "run (propose_fresh sv now nf np inp) [] d = (Inr q, d')"
    unfolding propose_fresh_def run_bind_exec[OF assms(1)] by (rule run_in_tx_clean[OF assms(4)])
  show ?thesis
  proof (cases "in_idempotency_key inp = []")
    case False
    let ?m = "absent_on ErrPromotionNotFound
          (on_pool (find_by_idempotency_key (in_proposer inp) (in_idempotency_key inp)))"
    have m: "exec ?m d None d"
      using assms(3)[OF False] by (simp add: exec_def find_by_idempotency_key_def sql_run)
    show ?thesis using assms(2) False f by (simp add: propose_def run_bind_exec[OF m])
  qed (use assms(2) f in \<open>simp add: propose_def\<close>)
qed

lemma run_propose_a: "run (propose plain_service 2 10 20 (proposal ''use go'')) [] db_ns = (Inr promo_a, db_proposed)"
proof (rule run_propose_clean)
  show "exec (get_namespace (in_target (proposal ''use go''))) db_ns
      (web_ns\<lparr>n_id := 1, n_created_at := 1, n_policy := default_policy ''project''\<rparr>) db_ns"
    using exec_get_web by simp
  have "propose_fits 2 10 20 (proposal ''use go'') 1 db_ns"
    by (simp add: fits_eval db_ns_ids)
  then show "exec (propose_tx plain_service 2 10 20 (proposal ''use go'')
      (clamp_required (required_approvals (n_policy (web_ns\<lparr>n_id := 1, n_created_at := 1, n_policy := default_policy ''project''\<rparr>))))
      (pol_auto_promote (n_policy (web_ns\<lparr>n_id := 1, n_created_at := 1, n_policy := default_policy ''project''\<rparr>))))
      db_ns promo_a db_proposed"
    by (simp add: exec_propose_tx Let_def default_policy_def clamp_required_def promo_a_def db_proposed_def)
qed (simp_all add: sample_subject_valid)

theorem propose_outcome_witness:
  "p_state promo_a = StatePending \<and> (\<exists>f. fact_at db_proposed 10 = Some f \<and> f_canonical_key f = canonical_key sample_subject)"
  using propose_outcome[OF run_propose_a] by auto

text \<open>
  C20. A promotion without people is an engine's: when \<^verbatim>\<open>Propose\<close> answers with an approved promotion that is
  not a replay, the service has engines, the namespace's policy pins one of them, the engine promoted
  exactly this proposal without an error, the fact is active with the tag \<open>auto:true\<close> and no recorded
  approver, and the last audit event names \<open>engine:\<close> and the engine's id as its principal.
\<close>

theorem auto_promotion_attributed:
  assumes "run (propose sv now nf np inp) fs d = (Inr q, d')" and "p_state q = StateApproved"
    and "in_idempotency_key inp = [] \<or> idem_match (in_proposer inp) (in_idempotency_key inp) d = None"
  shows "\<exists>ns reg ap v f. run (get_namespace (in_target inp)) [] d = (Inr ns, d) \<and>
    sv_engines sv = Some reg \<and> pol_auto_promote (n_policy ns) = Some ap \<and> reg (ap_engine ap) \<noteq> None \<and>
    registry_evaluate reg (ap_engine ap) (candidate_of inp) (ap_rules ap) = (v, None) \<and> v_auto_promote v \<and>
    fact_at d' nf = Some f \<and> f_status f = StatusActive \<and> ''auto:true'' \<in> set (f_tags f) \<and> f_approved_by f = [] \<and>
    last (audit_tbl d') = audit_row now (auto_promoted_event ap v nf) \<and>
    a_principal (last (audit_tbl d')) = ''engine:'' @ ap_engine ap"
  using assms(1)
proof (cases rule: propose_cases)
  case (committed ns q')
  let ?req = "clamp_required (required_approvals (n_policy ns))"
  let ?p = "pending_row now nf np inp ?req d" and ?e = "propose_effect now nf np inp ?req d"
  note fits = committed_proposal(1)[OF committed(5)] and eff = committed_proposal(2)[OF committed(5)]
  note ids = propose_fresh_ids[OF fits]
  have "auto_decision sv (pol_auto_promote (n_policy ns)) inp \<noteq> None"
    using eff assms(2) committed(4) by (cases "auto_decision sv (pol_auto_promote (n_policy ns)) inp") simp_all
  then obtain ap v where av: "auto_decision sv (pol_auto_promote (n_policy ns)) inp = Some (ap, v)" by auto
  then obtain reg where reg: "sv_engines sv = Some reg" "pol_auto_promote (n_policy ns) = Some ap"
      "registry_evaluate reg (ap_engine ap) (candidate_of inp) (ap_rules ap) = (v, None)" "v_auto_promote v"
    by (auto simp: auto_decision_def split: option.splits prod.splits if_splits)
  have r: "reg (ap_engine ap) \<noteq> None"
    using reg(3,4) by (auto simp: registry_evaluate_def registry_get_def split: option.splits)
  have d': "d' = auto_effect sv now ?p ap v ?e" using eff av by simp
  have at: "fact_at ?e (p_fact_id ?p) = Some (draft_row now nf inp)" using ids(3) by simp
  obtain g where "fact_at d' nf = Some g" "f_status g = StatusActive" "''auto:true'' \<in> set (f_tags g)" "f_approved_by g = []"
    using auto_effect_fact[OF at, of sv now ap v] d' by auto
  moreover have "last (audit_tbl d') = audit_row now (auto_promoted_event ap v nf)"
    by (simp add: d' auto_effect_def)
  ultimately show ?thesis
    using committed(3) reg r by (auto simp: audit_row_def auto_promoted_event_def)
qed (use assms(3) in auto)

text \<open>A namespace whose policy pins \<^verbatim>\<open>simple/v1\<close> with a rule for human actors, and a proposal by one.\<close>

definition human_json :: json where
  "human_json = JObj [(''rules'', JArr [JObj [(''all'', JArr [JObj
     [(''field'', JStr ''actor.type''), (''op'', JStr ''eq''), (''value'', JStr ''human'')]])]])]"

definition auto_ns :: namespace where
  "auto_ns = \<lparr>n_id = 1, n_name = ''web'', n_kind = ''team'', n_parent_id = None,
     n_policy = \<lparr>required_approvals = 1, allowed_proposers = None,
       pol_auto_promote = Some \<lparr>ap_engine = ''simple/v1'', ap_rules = RawJson human_json\<rparr>\<rparr>, n_created_at = 1\<rparr>"

definition db_auto :: db where
  "db_auto = empty_db\<lparr>namespaces_tbl := [\<lparr>nr_id = 1, nr_name = ''web'', nr_kind = ''team'', nr_parent_id = None,
     nr_policy = JObj [(''required_approvals'', JNum 1), (''auto_promote'', JObj
       [(''engine'', JStr ''simple/v1''), (''rules'', human_json)])], nr_created_at = 1\<rparr>]\<rparr>"

definition engine_service :: service where
  "engine_service = \<lparr>sv_engines = Some the_registry, sv_embedder = None\<rparr>"

definition human_proposal :: propose_input where
  "human_proposal = (proposal ''use go'')\<lparr>in_actor_type := ''human''\<rparr>"

lemma human_proposal_sel [simp]:
  "in_target human_proposal = 1" "in_subject human_proposal = sample_subject" "in_proposer human_proposal = ''ann''"
  "in_idempotency_key human_proposal = []" "in_tags human_proposal = []"
  by (simp_all add: human_proposal_def)

lemma db_auto_sel [simp]:
  "facts_tbl db_auto = []" "promotions_tbl db_auto = []" "map nr_id (namespaces_tbl db_auto) = [1]"
  "nr_id ` set (namespaces_tbl db_auto) = {1}"
  by (simp_all add: db_auto_def empty_db_def)

lemma equal_fold_engine [simp]: "\<not> equal_fold ''engine'' ''rules''" "\<not> equal_fold ''rules'' ''engine''"
  by (simp_all add: equal_fold_def to_lower_def lower_byte_def)

lemma exec_get_auto: "exec (get_namespace 1) db_auto auto_ns db_auto"
  by (simp add: exec_def get_namespace_def sql_run tbl_get_def db_auto_def empty_db_def scan_ns_def field_def member_def
      of_sum_def auto_ns_def int_min_def int_max_def zero_policy_def human_json_def)

lemma candidate_human: "candidate_of human_proposal = human_candidate"
  by (simp add: candidate_of_def human_proposal_def proposal_def human_candidate_def)

lemma auto_decision_human:
  "\<exists>v. auto_decision engine_service (pol_auto_promote (n_policy auto_ns)) human_proposal =
    Some (\<lparr>ap_engine = ''simple/v1'', ap_rules = RawJson human_json\<rparr>, v)"
proof -
  have "RawJson human_json = human_rules" by (simp add: human_rules_def human_json_def)
  then show ?thesis
    by (simp add: auto_decision_def engine_service_def auto_ns_def registry_evaluate_def registry_get_def
        simple_engine_def candidate_human human_rules_verdict)
qed

lemma embed_engine [simp]: "embed_effect engine_service i d = d" "embed_fits engine_service i d"
  by (simp_all add: embed_effect_def embed_fits_def embedding_for_def engine_service_def split: option.split)

lemma run_propose_human:
  "\<exists>q d'. run (propose engine_service 2 10 20 human_proposal) [] db_auto = (Inr q, d') \<and> p_state q = StateApproved"
proof -
  let ?ap = "\<lparr>ap_engine = ''simple/v1'', ap_rules = RawJson human_json\<rparr>"
  let ?p = "pending_row 2 10 20 human_proposal 1 db_auto" and ?e = "propose_effect 2 10 20 human_proposal 1 db_auto"
  obtain v where v: "auto_decision engine_service (pol_auto_promote (n_policy auto_ns)) human_proposal = Some (?ap, v)"
    using auto_decision_human by blast
  have req: "clamp_required (required_approvals (n_policy auto_ns)) = 1" by (simp add: auto_ns_def clamp_required_def)
  have "propose_fits 2 10 20 human_proposal 1 db_auto" by (simp add: fits_eval)
  moreover have "auto_fits engine_service 2 ?p ?ap ?e"
    by (simp add: auto_fits_def Let_def conflict_effect_def conflict_fits_def fits_eval tbl_upd_def)
  ultimately have "exec (propose_tx engine_service 2 10 20 human_proposal (clamp_required (required_approvals (n_policy auto_ns)))
      (pol_auto_promote (n_policy auto_ns))) db_auto (?p\<lparr>p_state := StateApproved\<rparr>) (auto_effect engine_service 2 ?p ?ap v ?e)"
    by (simp add: exec_propose_tx Let_def req v)
  then have "run (propose engine_service 2 10 20 human_proposal) [] db_auto =
      (Inr (?p\<lparr>p_state := StateApproved\<rparr>), auto_effect engine_service 2 ?p ?ap v ?e)"
    by (intro run_propose_clean[of _ _ auto_ns]) (simp_all add: exec_get_auto[simplified] sample_subject_valid)
  then show ?thesis by simp
qed

theorem auto_promotion_attributed_witness:
  "\<exists>q d' f. run (propose engine_service 2 10 20 human_proposal) [] db_auto = (Inr q, d') \<and>
     fact_at d' 10 = Some f \<and> f_status f = StatusActive \<and> ''auto:true'' \<in> set (f_tags f)"
proof -
  obtain q d' where r: "run (propose engine_service 2 10 20 human_proposal) [] db_auto = (Inr q, d')" "p_state q = StateApproved"
    using run_propose_human by blast
  show ?thesis using auto_promotion_attributed[OF r] r(1) by auto
qed

section \<open>Idempotent replay\<close>

lemma idem_match_Some:
  assumes "idem_match who key d = Some q"
  shows "q \<in> set (promotions_tbl d)" "p_proposer q = who" "p_idempotency_key q = Some key"
  using find_SomeD[OF assms[unfolded idem_match_def]] by simp_all

lemma idem_unique:
  assumes "distinct (idem_keys t)" and "p \<in> set t" and "q \<in> set t" and "p_idempotency_key p = Some k"
    and "p_idempotency_key q = Some k" and "p_proposer p = p_proposer q"
  shows "p = q"
proof -
  let ?h = "\<lambda>p. (p_proposer p, the (p_idempotency_key p))"
  have "inj_on ?h (set (filter (\<lambda>p. p_idempotency_key p \<noteq> None) t))"
    using assms(1) by (simp add: idem_keys_def distinct_map)
  from inj_onD[OF this, of p q] show ?thesis using assms(2-6) by simp
qed

lemma idem_match_iff:
  assumes "governed d" and "p \<in> set (promotions_tbl d)" and "p_idempotency_key p = Some key"
  shows "idem_match (p_proposer p) key d = Some p"
proof -
  obtain q where q: "idem_match (p_proposer p) key d = Some q"
    using assms(2,3) by (cases "idem_match (p_proposer p) key d") (auto simp: idem_match_def find_None_iff)
  have "distinct (idem_keys (promotions_tbl d))"
    using governed_schema[OF assms(1)] by (simp add: schema_ok_def promotions_ok_def)
  then have "q = p" using idem_unique idem_match_Some[OF q] assms(2,3) by blast
  with q show ?thesis by simp
qed

text \<open>The promotion a proposal with a key answers with is stored under that key.\<close>

lemma proposed_keyed:
  assumes "reachable sv d" and "run (propose sv now nf np inp) fs d = (Inr q, d')" and "in_idempotency_key inp \<noteq> []"
  obtains p where "governed d'" and "p \<in> set (promotions_tbl d')" and "p_id p = p_id q"
    and "p_proposer p = in_proposer inp" and "p_idempotency_key p = Some (in_idempotency_key inp)"
  using assms(2)
proof (cases rule: propose_cases)
  case (replayed q')
  then show ?thesis using that idem_match_Some[OF replayed(2)] reachable_governed[OF assms(1)] by simp
next
  case (committed ns q')
  let ?req = "clamp_required (required_approvals (n_policy ns))"
  let ?p = "pending_row now nf np inp ?req d"
  have "snd (run (propose sv now nf np inp) fs d) = d \<or>
    (\<exists>x. sys_step sv d x (snd (run (propose sv now nf np inp) fs d)))" by (rule propose_step)
  then have "governed d'" using assms(2) reachable_governed[OF assms(1)] governed_step by auto
  moreover note eff = committed_proposal(2)[OF committed(5)] and ids = propose_fresh_ids[OF committed_proposal(1)[OF committed(5)]]
  have "\<exists>p. promotion_at d' np = Some p \<and> p_proposer p = in_proposer inp \<and> p_idempotency_key p = Some (in_idempotency_key inp) \<and> p_id q = np"
    using eff ids(4) committed(4) assms(3)
    by (cases "auto_decision sv (pol_auto_promote (n_policy ns)) inp") (auto simp: auto_effect_def tbl_get_upd)
  then obtain p where "promotion_at d' np = Some p" "p_proposer p = in_proposer inp"
    "p_idempotency_key p = Some (in_idempotency_key inp)" "p_id q = np" by blast
  moreover from this have "p \<in> set (promotions_tbl d')" "p_id p = np" using tbl_get_Some by fastforce+
  ultimately show ?thesis using that by simp
qed simp

text \<open>
  C21. Proposing is idempotent on the proposer and the key: once a proposal with a key has answered with a
  promotion, then however the store evolves, any further proposal by the same proposer with the same key,
  whatever else it asks for and whatever fails, writes nothing; it can only answer with that promotion,
  in its present state, and does so when its subject is valid and nothing fails.
\<close>

theorem propose_replay:
  assumes "reachable sv d" and "run (propose sv now nf np inp) fs d = (Inr q, d')" and "in_idempotency_key inp \<noteq> []"
    and "later sv d' d''" and "in_proposer inp' = in_proposer inp" and "in_idempotency_key inp' = in_idempotency_key inp"
  shows "(\<forall>fs'. case run (propose sv now' nf' np' inp') fs' d'' of
       (Inl e, d3) \<Rightarrow> d3 = d'' | (Inr q', d3) \<Rightarrow> d3 = d'' \<and> p_id q' = p_id q \<and> promotion_at d'' (p_id q) = Some q') \<and>
    (subject_valid (in_subject inp') \<longrightarrow> (\<exists>q'. run (propose sv now' nf' np' inp') [] d'' = (Inr q', d'')))"
proof -
  obtain p where p: "governed d'" "p \<in> set (promotions_tbl d')" "p_id p = p_id q" "p_proposer p = in_proposer inp"
    "p_idempotency_key p = Some (in_idempotency_key inp)"
    by (rule proposed_keyed[OF assms(1-3)])
  have g: "governed d''" by (rule later_governed[OF assms(4) p(1)])
  have dist: "distinct (map p_id (promotions_tbl x))" if "governed x" for x
    using governed_schema[OF that] by (simp add: schema_ok_def promotions_ok_def)
  have "promotion_at d' (p_id p) = Some p" by (rule tbl_get_in[OF dist[OF p(1)] p(2)])
  moreover have "rows_kept promotion_fixed p_id (promotions_tbl d') (promotions_tbl d'')"
    using later_progress[OF assms(4) p(1)] by (simp add: progress_def evolves_def)
  ultimately obtain r where r: "promotion_at d'' (p_id p) = Some r" "promotion_fixed p r"
    unfolding rows_kept_def by blast
  then have rr: "r \<in> set (promotions_tbl d'')" "p_id r = p_id q" "p_proposer r = in_proposer inp'"
    "p_idempotency_key r = Some (in_idempotency_key inp')"
    using p(3-5) assms(5,6) tbl_get_Some[OF r(1)] by (auto simp: promotion_fixed_def)
  have m: "idem_match (in_proposer inp') (in_idempotency_key inp') d'' = Some r"
    using idem_match_iff[OF g rr(1,4)] rr(3) by simp
  have k: "in_idempotency_key inp' \<noteq> []" using assms(3,6) by simp
  have "case run (propose sv now' nf' np' inp') fs' d'' of
       (Inl e, d3) \<Rightarrow> d3 = d'' | (Inr q', d3) \<Rightarrow> d3 = d'' \<and> p_id q' = p_id q \<and> promotion_at d'' (p_id q) = Some q'" for fs'
  proof (cases "run (propose sv now' nf' np' inp') fs' d''")
    case (Pair x d3)
    have "case x of Inl e \<Rightarrow> d3 = d'' | Inr q' \<Rightarrow> d3 = d'' \<and> q' = r"
      using Pair by (cases rule: propose_cases) (simp_all add: m k)
    then show ?thesis using Pair r(1) p(3) rr(2) by (auto split: sum.splits)
  qed
  moreover have "run (propose sv now' nf' np' inp') [] d'' = (Inr r, d'')" if "subject_valid (in_subject inp')"
    using that k m by (simp add: propose_def run_def find_by_idempotency_key_def sql_run)
  ultimately show ?thesis by blast
qed

definition keyed :: propose_input where
  "keyed = (proposal ''use go'')\<lparr>in_idempotency_key := ''k1''\<rparr>"

lemma keyed_sel [simp]:
  "in_target keyed = 1" "in_subject keyed = sample_subject" "in_proposer keyed = ''ann''"
  "in_idempotency_key keyed = ''k1''" "in_tags keyed = []"
  by (simp_all add: keyed_def)

lemma run_propose_keyed: "\<exists>q d'. run (propose plain_service 2 10 20 keyed) [] db_ns = (Inr q, d') \<and> p_id q = 20"
proof -
  let ?ns = "web_ns\<lparr>n_id := 1, n_created_at := 1, n_policy := default_policy ''project''\<rparr>"
  let ?p = "pending_row 2 10 20 keyed 1 db_ns" and ?e = "propose_effect 2 10 20 keyed 1 db_ns"
  have "propose_fits 2 10 20 keyed 1 db_ns" by (simp add: fits_eval db_ns_ids)
  then have "exec (propose_tx plain_service 2 10 20 keyed (clamp_required (required_approvals (n_policy ?ns)))
      (pol_auto_promote (n_policy ?ns))) db_ns ?p ?e"
    by (simp add: exec_propose_tx Let_def default_policy_def clamp_required_def)
  then have "run (propose plain_service 2 10 20 keyed) [] db_ns = (Inr ?p, ?e)"
    by (intro run_propose_clean[of _ _ ?ns]) (use exec_get_web in \<open>simp_all add: sample_subject_valid idem_match_def\<close>)
  then show ?thesis by simp
qed

theorem propose_replay_witness:
  "\<exists>d'. case run (propose plain_service 9 30 40 (keyed\<lparr>in_statement := ''use js''\<rparr>)) [] d' of
     (Inl e, d3) \<Rightarrow> d3 = d' | (Inr q', d3) \<Rightarrow> d3 = d' \<and> p_id q' = 20"
proof -
  obtain q d' where r: "run (propose plain_service 2 10 20 keyed) [] db_ns = (Inr q, d')" "p_id q = 20"
    using run_propose_keyed by blast
  have k: "in_idempotency_key keyed \<noteq> []" by simp
  have "case run (propose plain_service 9 30 40 (keyed\<lparr>in_statement := ''use js''\<rparr>)) [] d' of
      (Inl e, d3) \<Rightarrow> d3 = d' | (Inr q', d3) \<Rightarrow> d3 = d' \<and> p_id q' = p_id q \<and> promotion_at d' (p_id q) = Some q'"
    by (rule propose_replay[THEN conjunct1, THEN spec, OF db_ns_reachable r(1) k now_store]) simp_all
  then show ?thesis using r(2) by (intro exI[of _ d']) (auto split: sum.splits prod.splits)
qed

section \<open>Atomicity\<close>

definition atomic :: "('db, 'a) sql \<Rightarrow> bool" where
  "atomic m \<longleftrightarrow> (\<forall>fs d e d'. run m fs d = (Inl e, d') \<longrightarrow> d' = d)"

lemma atomic_unit: "all_or_nothing m \<Longrightarrow> atomic m"
  unfolding atomic_def by (intro allI impI) (rule all_or_nothing_error)

lemma atomic_propose: "atomic (propose sv now nf np inp)"
  unfolding atomic_def
proof (intro allI impI)
  fix fs d e d' assume "run (propose sv now nf np inp) fs d = (Inl e, d')"
  then show "d' = d" by (cases rule: propose_cases) simp_all
qed

lemma atomic_request_changes: "atomic (request_changes now wall i who c suggested)"
  unfolding atomic_def
proof (intro allI impI)
  fix fs d e d' assume r: "run (request_changes now wall i who c suggested) fs d = (Inl e, d')"
  show "d' = d"
  proof (cases rule: run_bind_tx[OF well_behaved_review_body r[unfolded request_changes_def]])
    case (2 q d1 fs')
    then have "suggested \<noteq> []" by (auto simp: run_def return_sql_def)
    then have "run (bind_sql (attempt (on_pool (update_statement now i suggested)))
        (\<lambda>_. return_sql (q\<lparr>p_proposed_statement := suggested\<rparr>))) fs' d1 = (Inl e, d')"
      using 2(2) by simp
    then have False
      using run_edit_statement[THEN conjunct2, of now i suggested "q\<lparr>p_proposed_statement := suggested\<rparr>" fs' d1]
      by (simp del: fst_conv) simp
    then show ?thesis ..
  qed simp
qed

lemma atomic_then_return: "all_or_nothing m \<Longrightarrow> atomic (bind_sql m (\<lambda>a. return_sql (f a)))"
  unfolding atomic_def
proof (intro allI impI)
  fix fs d e d' assume m: "all_or_nothing m" and r: "run (bind_sql m (\<lambda>a. return_sql (f a))) fs d = (Inl e, d')"
  obtain x d1 where x: "run m fs d = (x, d1)" by fastforce
  show "d' = d"
  proof (cases x)
    case (Inl e')
    then have "d1 = d" using all_or_nothing_error[OF m] x by blast
    then show ?thesis using x r Inl by (auto simp: run_def bind_sql_def split: prod.splits)
  next
    case (Inr a)
    then show ?thesis using x r by (auto simp: run_def bind_sql_def return_sql_def split: prod.splits)
  qed
qed

lemma marshal_sum_units: "atomic (case r of Inl e \<Rightarrow> fail_sql e | Inr js \<Rightarrow> f js)" if "\<And>js. atomic (f js)"
  using that by (cases r) (simp_all add: atomic_def run_def fail_sql_def)

lemma atomic_create_namespace: "atomic (create_namespace now new ns)"
  unfolding create_namespace_def Let_def
  by (intro marshal_sum_units atomic_then_return all_or_nothing_on_pool_stmt)

lemma run_on_pool_stmt:
  "run (bind_sql (on_pool (stmt f)) k) fs d = (r, d') \<Longrightarrow>
    (\<exists>e. r = Inl e \<and> d' = d) \<or> (\<exists>a d1 fs'. f d = Inr (a, d1) \<and> run (k a) fs' d1 = (r, d'))"
proof -
  assume r: "run (bind_sql (on_pool (stmt f)) k) fs d = (r, d')"
  obtain x s1 where x: "on_pool (stmt f) \<lparr>store = d, aborted = False, faults = fs\<rparr> = (x, s1)" by fastforce
  then have c: "(\<exists>e. x = Inl e \<and> store s1 = d) \<or>
      (\<exists>a d1 fs'. x = Inr a \<and> f d = Inr (a, d1) \<and> s1 = \<lparr>store = d1, aborted = False, faults = fs'\<rparr>)"
    by (cases "pop_fault fs"; cases "fst (pop_fault fs)"; cases "f d")
      (auto simp: on_pool_def stmt_def split: prod.splits)
  from c show ?thesis
  proof
    assume "\<exists>e. x = Inl e \<and> store s1 = d"
    then show ?thesis using r x by (auto simp: run_def bind_sql_def)
  next
    assume "\<exists>a d1 fs'. x = Inr a \<and> f d = Inr (a, d1) \<and> s1 = \<lparr>store = d1, aborted = False, faults = fs'\<rparr>"
    then obtain a d1 fs' where "x = Inr a" "f d = Inr (a, d1)" "s1 = \<lparr>store = d1, aborted = False, faults = fs'\<rparr>" by blast
    moreover from this have "run (k a) fs' d1 = (r, d')" using r x by (simp add: run_def bind_sql_def)
    ultimately show ?thesis by blast
  qed
qed

lemma tbl_upd_missing: "length (filter (\<lambda>r. key r = i) t) = 0 \<Longrightarrow> tbl_upd key i u t = t"
  by (auto simp: tbl_upd_def filter_empty_conv intro: map_idI)

lemma atomic_update_policy: "atomic (update_policy i p)"
  unfolding update_policy_def
proof (rule marshal_sum_units, unfold atomic_def, intro allI impI, goal_cases)
  case (1 js fs d e d')
  from run_on_pool_stmt[OF this] show ?case
  proof
    assume "\<exists>x. Inl e = Inl x \<and> d' = d"
    then show ?thesis by simp
  next
    assume "\<exists>a d1 fs'. (case put_namespaces (tbl_upd nr_id i (\<lambda>n. n\<lparr>nr_policy := js\<rparr>) (namespaces_tbl d)) d of
         Inl e \<Rightarrow> Inl e | Inr (_, d') \<Rightarrow> Inr (length (filter (\<lambda>n. nr_id n = i) (namespaces_tbl d)), d')) = Inr (a, d1) \<and>
       run (if a = 0 then fail_sql ErrNamespaceNotFound else return_sql ()) fs' d1 = (Inl e, d')"
    then show ?thesis
      by (auto simp: put_namespaces_def run_def fail_sql_def return_sql_def tbl_upd_missing split: if_splits)
  qed
qed

lemma atomic_grant: "atomic (grant who ns role)"
  unfolding grant_def by (cases "valid_role role") (simp_all add: atomic_unit all_or_nothing_on_pool_stmt all_or_nothing_fail)

text \<open>
  Every write request is atomic: whenever it answers with an error, under any pattern of faults, the
  store is exactly the one it found. This covers the requests of the workflow, of the fact
  service and the reaper, and of the namespace and membership registries.
\<close>

lemma write_requests_atomic:
  "atomic (propose sv now nf np inp) \<and> atomic (approve sv now wall i who c) \<and> atomic (reject now wall i who c) \<and>
   atomic (request_changes now wall i who c suggested) \<and> atomic (submit now i who) \<and> atomic (withdraw now i who) \<and>
   atomic (revoke_fact now i v who) \<and> atomic (reap now plan) \<and>
   atomic (create_namespace now nf ns) \<and> atomic (update_policy i pol) \<and> atomic (grant who i role) \<and>
   atomic (revoke_grant who i role)"
  unfolding approve_def reject_def submit_def withdraw_def revoke_fact_def reap_def revoke_grant_def
  by (intro conjI atomic_propose atomic_request_changes atomic_create_namespace atomic_update_policy atomic_grant
      atomic_unit all_or_nothing_in_tx all_or_nothing_on_pool_stmt sql_safe)

end
