(* ===== verification/Endpoints.thy ===== *)
theory Endpoints
  imports Handlers Proposals
begin

text \<open>
  What the HTTP layer guarantees whatever the request and whatever fails: every request is answered; an
  unauthenticated one reaches nothing; the reading endpoints change nothing and disclose only namespaces
  the caller can read; a change needs the permission the endpoint asks for.
\<close>

section \<open>The outcome of a handler\<close>

text \<open>The handler ends with a response, and the response and the store it leaves satisfy \<open>P\<close>.\<close>

definition ensures :: "db \<Rightarrow> (response \<Rightarrow> db \<Rightarrow> bool) \<Rightarrow> (db, response) sql \<Rightarrow> bool" where
  "ensures d P m \<longleftrightarrow> (\<forall>fs. \<exists>r d'. run m fs d = (Inr r, d') \<and> P r d')"

named_theorems outcome
  \<comment> \<open>rules that compute the outcome of a handler along its code\<close>

lemma ensures_return [outcome]: "P r d \<Longrightarrow> ensures d P (return_sql r)"
  by (simp add: ensures_def run_def return_sql_def)

lemma ensures_guard [outcome]:
  assumes "\<And>r. g = Inl r \<Longrightarrow> P r d" and "\<And>a. g = Inr a \<Longrightarrow> ensures d P (k a)"
  shows "ensures d P (guard_sql g k)"
  using assms by (cases g) (simp_all add: guard_sql_def ensures_return)

lemma run_try_read:
  assumes "all_or_nothing m" and "read_only m"
  obtains (failed) e where "run (try_sql m on_error k) fs d = (Inr (on_error e), d)"
    | (went_on) a fs' where "run m [] d = (Inr a, d)" and "run (try_sql m on_error k) fs d = run (k a) fs' d"
proof -
  let ?s = "\<lparr>store = d, aborted = False, faults = fs\<rparr>"
  obtain r s1 where m: "m ?s = (r, s1)" by fastforce
  have s1: "store s1 = d" "\<not> aborted s1"
    using assms m by (auto simp: read_only_def all_or_nothing_def dest: spec[of _ ?s])
  show ?thesis
  proof (cases r)
    case (Inl e)
    then have "run (try_sql m on_error k) fs d = (Inr (on_error e), d)"
      using m s1 by (simp add: run_def try_sql_def bind_sql_def attempt_def return_sql_def)
    then show ?thesis by (rule failed)
  next
    case (Inr a)
    have "s1 = \<lparr>store = d, aborted = False, faults = faults s1\<rparr>" using s1 by (cases s1) simp
    then have "run (try_sql m on_error k) fs d = run (k a) (faults s1) d"
      using m Inr by (simp add: run_def try_sql_def bind_sql_def attempt_def)
    moreover have "run m fs d = (Inr a, d)" using m Inr s1(1) by (simp add: run_def)
    then have "run m [] d = (Inr a, d)" by (rule all_or_nothing_success[OF assms(1)])
    ultimately show ?thesis using went_on by blast
  qed
qed

lemma ensures_read:
  assumes "all_or_nothing m" and "read_only m" and "\<And>e. P (on_error e) d"
    and "\<And>a. run m [] d = (Inr a, d) \<Longrightarrow> ensures d P (k a)"
  shows "ensures d P (try_sql m on_error k)"
  unfolding ensures_def
proof
  fix fs
  show "\<exists>r d'. run (try_sql m on_error k) fs d = (Inr r, d') \<and> P r d'"
  proof (cases rule: run_try_read[OF assms(1,2), of on_error k fs d])
    case (1 e)
    then show ?thesis using assms(3) by simp
  next
    case (2 a fs')
    then show ?thesis using assms(4)[OF 2(1)] by (simp add: ensures_def)
  qed
qed

lemma run_try_return:
  "run (try_sql m on_error (\<lambda>a. return_sql (k a))) fs d =
     (case run m fs d of (r, d') \<Rightarrow> (Inr (case r of Inl e \<Rightarrow> on_error e | Inr a \<Rightarrow> k a), d'))"
  by (simp add: run_def try_sql_def bind_sql_def attempt_def return_sql_def split: prod.split sum.split)

lemma ensures_unit:
  assumes "\<And>fs r d'. run m fs d = (r, d') \<Longrightarrow> P (case r of Inl e \<Rightarrow> on_error e | Inr a \<Rightarrow> k a) d'"
  shows "ensures d P (try_sql m on_error (\<lambda>a. return_sql (k a)))"
  using assms by (auto simp: ensures_def run_try_return split: prod.split)

text \<open>The reads the handlers issue.\<close>

lemma list_facts_read_only: "read_only (on_pool (list_facts plan dist q))"
  by (auto simp: read_only_def on_pool_def list_facts_def stmt_def Let_def split: prod.splits bool.splits if_splits)

lemma of_sum_unit [sql_safe]: "all_or_nothing (of_sum r)" "read_only (of_sum r)"
  by (cases r; simp add: of_sum_def; intro sql_safe)+

lemma handler_reads [outcome]:
  "all_or_nothing (resolve_principal p)" "read_only (resolve_principal p)"
  "all_or_nothing list_namespaces" "read_only list_namespaces"
  "all_or_nothing (get_namespace i)" "read_only (get_namespace i)"
  "all_or_nothing (list_members i)" "read_only (list_members i)"
  "all_or_nothing (list_promotions plan ns st who)" "read_only (list_promotions plan ns st who)"
  "all_or_nothing (get_promotion_pool i)" "read_only (get_promotion_pool i)"
  "all_or_nothing (on_pool (list_facts fplan dist q))" "read_only (on_pool (list_facts fplan dist q))"
  "all_or_nothing (on_pool (get_fact i))" "read_only (on_pool (get_fact i))"
  "all_or_nothing (history eplan i)" "read_only (history eplan i)"
  "all_or_nothing (resolve_context cplan mem now cq)" "read_only (resolve_context cplan mem now cq)"
  "all_or_nothing (on_pool (query f))" "read_only (on_pool (query f))"
proof -
  show "all_or_nothing (resolve_principal p)" "read_only (resolve_principal p)"
    unfolding resolve_principal_def by (intro sql_safe)+
  show "all_or_nothing list_namespaces" "read_only list_namespaces"
    unfolding list_namespaces_def by (intro sql_safe of_sum_unit)+
  show "all_or_nothing (get_namespace i)" "read_only (get_namespace i)"
    unfolding get_namespace_def by (intro sql_safe of_sum_unit)+
  show "all_or_nothing (list_members i)" "read_only (list_members i)"
    unfolding list_members_def by (intro sql_safe)+
  show "all_or_nothing (list_promotions plan ns st who)" "read_only (list_promotions plan ns st who)"
    unfolding list_promotions_def by (intro sql_safe)+
  show "all_or_nothing (get_promotion_pool i)" "read_only (get_promotion_pool i)"
    unfolding get_promotion_pool_def get_promotion_def by (intro sql_safe)+
  show "all_or_nothing (on_pool (list_facts fplan dist q))"
    unfolding list_facts_def by (intro sql_safe)
  show "all_or_nothing (on_pool (get_fact i))" "read_only (on_pool (get_fact i))"
    unfolding get_fact_def by (intro sql_safe)+
  show "all_or_nothing (history eplan i)" "read_only (history eplan i)"
    unfolding history_def by (intro sql_safe)+
  show "all_or_nothing (resolve_context cplan mem now cq)" "read_only (resolve_context cplan mem now cq)"
    by (cases "cq_namespaces cq = []"; simp add: resolve_context_def; intro sql_safe)+
  show "all_or_nothing (on_pool (query f))" "read_only (on_pool (query f))" by (intro sql_safe)+
qed (rule list_facts_read_only)

lemmas ensures_reads [outcome] = ensures_read[OF handler_reads(1,2)] ensures_read[OF handler_reads(3,4)]
  ensures_read[OF handler_reads(5,6)] ensures_read[OF handler_reads(7,8)] ensures_read[OF handler_reads(9,10)]
  ensures_read[OF handler_reads(11,12)] ensures_read[OF handler_reads(13,14)] ensures_read[OF handler_reads(15,16)]
  ensures_read[OF handler_reads(17,18)] ensures_read[OF handler_reads(19,20)] ensures_read[OF handler_reads(21,22)]

section \<open>Reading\<close>

fun reads :: "endpoint \<Rightarrow> bool" where
  "reads EpListNamespaces = True" | "reads EpGetNamespace = True" | "reads EpListMembers = True"
| "reads EpListPromotions = True" | "reads EpGetPromotion = True" | "reads EpListFacts = True"
| "reads EpGetFact = True" | "reads EpGetFactHistory = True" | "reads EpGetContext = True"
| "reads _ = False"

text \<open>The namespaces an answer to the request discloses something of.\<close>

fun discloses :: "server \<Rightarrow> params \<Rightarrow> db \<Rightarrow> payload \<Rightarrow> uuid set" where
  "discloses s ps d (PNamespace n) = {n_id n}"
| "discloses s ps d (PNamespaces ns) = n_id ` set ns"
| "discloses s ps d (PMembers ms) = set_option (srv_parse_uuid s (url_param ps ''id''))"
| "discloses s ps d (PPromotion p) = {p_target_namespace_id p}"
| "discloses s ps d (PPromotions pl) = p_target_namespace_id ` set pl"
| "discloses s ps d (PFact f) = {f_namespace_id f}"
| "discloses s ps d (PFacts fs) = f_namespace_id ` set fs"
| "discloses s ps d (PEvents es) =
     (case srv_parse_uuid s (url_param ps ''id'') of None \<Rightarrow> {} | Some i \<Rightarrow> f_namespace_id ` set_option (fact_at d i))"
| "discloses s ps d (PItems its) = (\<Union>it \<in> set its. set_option (it_namespace_id it))"
| "discloses s ps d _ = {}"

definition scoped :: "server \<Rightarrow> params \<Rightarrow> db \<Rightarrow> entitlements \<Rightarrow> response \<Rightarrow> db \<Rightarrow> bool" where
  "scoped s ps d ent r d' \<longleftrightarrow> d' = d \<and> discloses s ps d (rs_body r) \<subseteq> Collect (ent_can_read ent)"

lemma scoped_error [simp]: "scoped s ps d ent (write_error n msg) d"
  by (simp add: scoped_def write_error_def write_json_def)

lemma scoped_json [simp]:
  "scoped s ps d ent (write_json n b) d \<longleftrightarrow> discloses s ps d b \<subseteq> Collect (ent_can_read ent)"
  "scoped s ps d ent (r\<lparr>rs_etag := e\<rparr>) d = scoped s ps d ent r d"
  by (simp_all add: scoped_def write_json_def)

lemma authorize_read: "authorize (Some (p, ent)) ns ''read_facts'' = Inr a \<Longrightarrow> ent_can_read ent ns"
  by (simp add: authorize_def split: if_splits)

lemma authorize_denied: "authorize (Some (p, ent)) ns a = Inl r \<Longrightarrow> r = write_error 403 ''forbidden''"
  by (auto simp: authorize_def split: if_splits)

lemma parse_id_Inl: "parse_id s ps = Inl r \<Longrightarrow> r = write_error 400 ''invalid id''"
  by (auto simp: parse_id_def split: option.splits)

lemma parse_id_Inr: "parse_id s ps = Inr i \<longleftrightarrow> srv_parse_uuid s (url_param ps ''id'') = Some i"
  by (simp add: parse_id_def split: option.split)

lemma namespace_filter_Inr: "namespace_filter s ent v = Inr (Some i) \<Longrightarrow> ent_can_read ent i"
  by (auto simp: namespace_filter_def split: if_splits option.splits)

lemma namespace_filter_Inl: "namespace_filter s ent v = Inl r \<Longrightarrow> \<exists>n msg. r = write_error n msg"
  by (auto simp: namespace_filter_def split: if_splits option.splits)

lemma narrowed_Inl: "narrowed s raw readable = Inl r \<Longrightarrow> \<exists>n msg. r = write_error n msg"
  by (auto simp: narrowed_def split: if_splits option.splits)

lemma narrowed_Inr: "narrowed s raw readable = Inr ids \<Longrightarrow> set ids \<subseteq> set readable"
  by (auto simp: narrowed_def split: if_splits option.splits)

text \<open>What the reads return.\<close>

lemma get_namespace_id: "run (get_namespace i) [] d = (Inr n, d') \<Longrightarrow> n_id n = i"
  by (auto simp: get_namespace_def sql_run of_sum_def scan_ns_def tbl_get_def split: sum.splits option.splits dest: find_SomeD)

lemma get_fact_pool_row: "run (on_pool (get_fact i)) [] d = (Inr f, d') \<Longrightarrow> \<exists>row. fact_at d i = Some row \<and> f = fact.truncate row"
  by (auto simp: get_fact_def sql_run fetch_def stmt_def split: option.splits)

lemma get_promotion_pool_row: "run (get_promotion_pool i) [] d = (Inr p, d') \<Longrightarrow> promotion_at d i = Some p"
  by (auto simp: get_promotion_pool_def get_promotion_def sql_run split: option.splits)

lemma listed_facts_in_scope:
  assumes "run (on_pool (list_facts plan dist q)) [] d = (Inr fs, d')" and "lf_namespaces q = Some scope"
  shows "f_namespace_id ` set fs \<subseteq> set scope"
proof -
  let ?rows = "filter (list_where q) (plan (facts_tbl d))"
  have "fs = map fact.truncate (limited (lf_limit q) (list_order dist q ?rows))"
    using assms(1) by (auto simp: list_facts_def sql_run Let_def split: if_splits)
  moreover have "set (list_order dist q ?rows) \<subseteq> set ?rows" by (auto simp: list_order_def split: option.splits)
  ultimately have "f_namespace_id ` set fs \<subseteq> f_namespace_id ` set ?rows"
    using set_limited by (fastforce simp: fact.truncate_def)
  also have "\<dots> \<subseteq> set scope" using assms(2) by (auto simp: list_where_def opt_holds_def)
  finally show ?thesis .
qed

lemma context_items_in_scope:
  assumes "run (resolve_context plan mem now q) [] d = (Inr items, d')" and "\<And>xs. mset (plan xs) = mset xs"
  shows "(\<Union>it \<in> set items. set_option (it_namespace_id it)) \<subseteq> set (cq_namespaces q)"
proof -
  have l: "set xs \<subseteq> A \<Longrightarrow> set (apply_limit xs n) \<subseteq> A" for xs :: "item list" and A n
    by (rule order_trans[OF set_apply_limit])
  have m: "set (maybe_merge_memories mem q fs) \<subseteq> set fs \<union> range memory_item" for fs
  proof (cases "cq_include_memories q \<and> mem \<noteq> None")
    case False
    then show ?thesis by (auto simp: maybe_merge_memories_def intro!: l split: option.split)
  next
    case True
    then obtain ms where "mem = Some ms" by blast
    with True show ?thesis
      by (cases "ms_list ms (cq_actor_id q) (cq_limit q)") (auto simp: maybe_merge_memories_def intro!: l)
  qed
  have "it_namespace_id it = None \<or> (\<exists>ns \<in> set (cq_namespaces q). it_namespace_id it = Some ns)" if "it \<in> set items" for it
  proof (cases "it \<in> range memory_item")
    case True
    then show ?thesis by (auto simp: memory_item_def)
  next
    case False
    then have "it \<in> set (ctx_facts plan now q d)" using that m resolve_context_Inr[OF assms(1)] by blast
    then obtain f n where "(f, n) \<in> set (plan (ctx_join now q d))" "it = fact_item f"
      by (auto simp: ctx_facts_def split: if_splits elim!: resolved_facts_item)
    then show ?thesis using mset_eq_setD[OF assms(2)] by (auto simp: ctx_join_iff ctx_where_def fact_item_def)
  qed
  then show ?thesis by fastforce
qed

text \<open>An order is a permutation.\<close>

definition plans_ok :: "world \<Rightarrow> bool" where
  "plans_ok w \<longleftrightarrow> (\<forall>xs. mset (w_ids w xs) = mset xs) \<and> (\<forall>xs. mset (w_facts w xs) = mset xs) \<and>
     (\<forall>xs. mset (w_context w xs) = mset xs) \<and> (\<forall>xs. mset (w_promotions w xs) = mset xs) \<and>
     (\<forall>xs. mset (w_events w xs) = mset xs)"

lemma readable_can_read:
  "plans_ok w \<Longrightarrow> set (readable_namespaces (w_ids w) ent) \<subseteq> Collect (ent_can_read ent)"
  using mset_eq_setD[of "w_ids w (ent_readable ent)" "ent_readable ent"]
  by (auto simp: plans_ok_def readable_namespaces_def ent_can_read_def)

lemma scoped_reads_of_namespaces:
  "ensures d (scoped s ps d ent) (h_list_namespaces (Some (p, ent)))"
  "ensures d (scoped s ps d ent) (h_get_namespace s ps (Some (p, ent)))"
  "ensures d (scoped s ps d ent) (h_list_members s ps (Some (p, ent)))"
proof -
  show "ensures d (scoped s ps d ent) (h_list_namespaces (Some (p, ent)))"
    unfolding h_list_namespaces_def
    by (intro outcome) (auto simp: can_read_from_def)
  show "ensures d (scoped s ps d ent) (h_get_namespace s ps (Some (p, ent)))"
    unfolding h_get_namespace_def
    by (intro outcome) (auto dest!: get_namespace_id authorize_read authorize_denied parse_id_Inl)
  show "ensures d (scoped s ps d ent) (h_list_members s ps (Some (p, ent)))"
    unfolding h_list_members_def split_def
    by (intro outcome) (auto simp: parse_id_Inr
        dest!: authorize_read authorize_denied parse_id_Inl)
qed

lemma scoped_reads_of_promotions:
  "ensures d (scoped s ps d ent) (h_list_promotions s w rq (Some (p, ent)))"
  "ensures d (scoped s ps d ent) (h_get_promotion s ps (Some (p, ent)))"
proof -
  show "ensures d (scoped s ps d ent) (h_list_promotions s w rq (Some (p, ent)))"
    unfolding h_list_promotions_def Let_def
    by (intro outcome) (auto simp: entitlements_from_def
        dest!: namespace_filter_Inl)
  show "ensures d (scoped s ps d ent) (h_get_promotion s ps (Some (p, ent)))"
    unfolding h_get_promotion_def
    by (intro outcome) (auto dest!: authorize_read authorize_denied parse_id_Inl)
qed

lemma scoped_reads_of_facts:
  assumes "plans_ok w"
  shows "ensures d (scoped s ps d ent) (h_list_facts s w rq (Some (p, ent)))"
    "ensures d (scoped s ps d ent) (h_get_fact s ps (Some (p, ent)))"
    "ensures d (scoped s ps d ent) (h_get_fact_history s w ps (Some (p, ent)))"
proof -
  show "ensures d (scoped s ps d ent) (h_get_fact s ps (Some (p, ent)))"
    unfolding h_get_fact_def with_fact_def
    by (intro outcome) (auto dest!: authorize_read authorize_denied parse_id_Inl)
  show "ensures d (scoped s ps d ent) (h_get_fact_history s w ps (Some (p, ent)))"
    unfolding h_get_fact_history_def with_fact_def
    by (intro outcome) (auto simp: parse_id_Inr
        fact.truncate_def dest!: authorize_read authorize_denied parse_id_Inl get_fact_pool_row)
  have scope: "set (case ns of None \<Rightarrow> readable_namespaces (w_ids w) ent | Some i \<Rightarrow> [i]) \<subseteq> Collect (ent_can_read ent)"
    if "namespace_filter s ent v = Inr ns" for ns v
    using that readable_can_read[OF assms, of ent] namespace_filter_Inr by (auto split: option.split)
  show "ensures d (scoped s ps d ent) (h_list_facts s w rq (Some (p, ent)))"
    unfolding h_list_facts_def Let_def split_def
  proof (intro outcome, goal_cases)
    case (4 e ns fs)
    then have "f_namespace_id ` set fs \<subseteq> set (case ns of None \<Rightarrow> readable_namespaces (w_ids w) e | Some i \<Rightarrow> [i])"
      by (intro listed_facts_in_scope[OF 4(3)]) simp
    moreover have e: "e = ent" using 4(1) by (simp add: entitlements_from_def)
    ultimately show ?case using scope[OF 4(2)[unfolded e]] by auto
  qed (auto simp: entitlements_from_def dest!: namespace_filter_Inl)
qed

lemma scoped_read_of_context:
  assumes "plans_ok w"
  shows "ensures d (scoped s ps d ent) (h_get_context s w rq (Some (p, ent)))"
  unfolding h_get_context_def Let_def
proof (intro outcome, goal_cases)
  case (4 e ids items)
  have "(\<Union>it \<in> set items. set_option (it_namespace_id it)) \<subseteq> set ids"
    using context_items_in_scope[OF 4(3)] assms by (simp add: plans_ok_def)
  moreover have "e = ent" using 4(1) by (simp add: entitlements_from_def)
  ultimately show ?case
    using narrowed_Inr[OF 4(2)] readable_can_read[OF assms, of ent] by auto
qed (auto simp: entitlements_from_def dest!: narrowed_Inl)

lemma scoped_reads:
  assumes "reads ep" and "plans_ok w"
  shows "ensures d (scoped s ps d ent) (handle s w rq ps ep (Some (p, ent)))"
  using assms(1)
  by (cases ep) (simp_all add: scoped_reads_of_namespaces scoped_reads_of_promotions scoped_reads_of_facts[OF assms(2)]
      scoped_read_of_context[OF assms(2)])

lemma run_serve:
  assumes "srv_router s routes rq = Inr (ep, ps)" and "\<not> public ep" and "srv_auth s rq = Inr p"
  obtains (failed) "run (serve s w rq) fs d = (Inr (write_error 500 ''entitlement resolution failed''), d)"
    | (resolved) ent fs' where "run (resolve_principal p) [] d = (Inr ent, d)"
        "run (serve s w rq) fs d = run (handle s w rq ps ep (Some (p, ent))) fs' d"
proof -
  have "serve s w rq = try_sql (resolve_principal p) (\<lambda>_. write_error 500 ''entitlement resolution failed'')
          (\<lambda>ent. handle s w rq ps ep (Some (p, ent)))"
    using assms by (simp add: serve_def authn_def)
  then show ?thesis
    using run_try_read[OF handler_reads(1,2)[of p], of "\<lambda>_. write_error 500 ''entitlement resolution failed''"
        "\<lambda>ent. handle s w rq ps ep (Some (p, ent))" fs d] that by metis
qed

section \<open>Entitlements of the request\<close>

lemma resolved_read:
  assumes "schema_ok d" and "run (resolve_principal p) [] d = (Inr ent, d)" and "\<not> pr_platform_admin p"
  shows "Collect (ent_can_read ent) = (parent_of (namespaces_tbl d))\<^sup>* `` member_of (pr_id p) d"
proof -
  have "ent_principal ent = p" "ent_readable ent = resolve_rows (pr_id p) d"
    using assms(2) unfolding resolve_run by auto
  then show ?thesis using assms(3) resolve_readable[OF assms(1), of "pr_id p"] by (auto simp: ent_can_read_def)
qed

text \<open>A caller holds an action in a namespace by a role granted there, or as a platform admin anywhere.\<close>

definition holds :: "db \<Rightarrow> principal \<Rightarrow> uuid \<Rightarrow> string \<Rightarrow> bool" where
  "holds d p ns a \<longleftrightarrow> pr_platform_admin p \<or> (\<exists>r \<in> direct_roles (pr_id p) ns d. can r a)"

lemma resolved_can:
  assumes "run (resolve_principal p) [] d = (Inr ent, d)"
  shows "ent_can ent ns a \<longleftrightarrow> holds d p ns a"
proof -
  have e: "ent_principal ent = p" "ent_direct ent = (\<lambda>ns. map snd (filter (\<lambda>g. fst g = ns)
      (map (\<lambda>m. (m_namespace_id m, m_role m)) (filter (\<lambda>m. m_principal m = pr_id p) (memberships_tbl d)))))"
    using assms unfolding resolve_run by auto
  have "set (ent_direct ent ns) = direct_roles (pr_id p) ns d"
    unfolding e(2) by (force simp: direct_roles_iff)
  then show ?thesis by (simp add: ent_can_def e(1) can_any_iff holds_def)
qed

lemma authorize_write:
  assumes "authorize (Some (p, ent)) ns a = Inr x" and "a \<noteq> ''read_facts''"
    and "run (resolve_principal p) [] d = (Inr ent, d)"
  shows "holds d p ns a"
  using assms by (simp add: authorize_def resolved_can[OF assms(3)] split: if_splits)

section \<open>Changing\<close>

text \<open>The permission each changing endpoint needs, in the store the request finds.\<close>

fun permits :: "server \<Rightarrow> request \<Rightarrow> params \<Rightarrow> db \<Rightarrow> principal \<Rightarrow> endpoint \<Rightarrow> bool" where
  "permits s rq ps d p EpCreateNamespace = pr_platform_admin p"
| "permits s rq ps d p EpPatchNamespacePolicy =
     (\<exists>i. parse_id s ps = Inr i \<and> holds d p i ''manage_members_policy'')"
| "permits s rq ps d p EpAddMember = (\<exists>i. parse_id s ps = Inr i \<and> holds d p i ''manage_members_policy'')"
| "permits s rq ps d p EpRemoveMember = (\<exists>i. parse_id s ps = Inr i \<and> holds d p i ''manage_members_policy'')"
| "permits s rq ps d p EpCreatePromotion =
     (\<exists>req. decode_body (decode_propose (srv_parse_uuid s)) ''invalid json'' (rq_body rq) = Inr req \<and>
        holds d p (in_target req) ''propose_promotion'')"
| "permits s rq ps d p (EpPromotionAction a) =
     (\<exists>i pr. parse_id s ps = Inr i \<and> promotion_at d i = Some pr \<and>
        (if a = ''submit'' \<or> a = ''withdraw'' then p_proposer pr = pr_id p
         else holds d p (p_target_namespace_id pr) ''approve_reject''))"
| "permits s rq ps d p EpRevokeFact =
     (\<exists>i f. parse_id s ps = Inr i \<and> fact_at d i = Some f \<and> holds d p (f_namespace_id f) ''revoke_fact'')"
| "permits s rq ps d p _ = False"

definition changed_by :: "db \<Rightarrow> bool \<Rightarrow> response \<Rightarrow> db \<Rightarrow> bool" where
  "changed_by d Q r d' \<longleftrightarrow> d' = d \<or> Q"

lemma changed_by_same [simp]: "changed_by d Q r d"
  by (simp add: changed_by_def)

lemma ensures_changed: "ensures d (\<lambda>r d'. True) m \<Longrightarrow> Q \<Longrightarrow> ensures d (changed_by d Q) m"
  by (simp add: ensures_def changed_by_def)

lemma ensures_answer [outcome]: "ensures d (\<lambda>r d'. True) (try_sql m on_error (\<lambda>a. return_sql (k a)))"
  by (rule ensures_unit) simp

lemma run_transition:
  assumes "\<And>p q. mutate p = Inr q \<Longrightarrow> p_id q = p_id p \<and> p_proposer p = who"
    and "run (in_tx (transition_body now i who mutate fact_to act)) fs d = (r, d')"
  shows "d' = d \<or> (\<exists>p. promotion_at d i = Some p \<and> p_proposer p = who)"
proof (rule run_in_tx_cases[OF well_behaved_transition_body assms(2)])
  fix a assume "exec (transition_body now i who mutate fact_to act) d a d'"
  then show ?thesis
    using exec_transition_body[of mutate] assms(1) by blast
qed simp

lemma run_action_proposer:
  assumes "a = ''submit'' \<or> a = ''withdraw''" and "run (run_action s w a i who body) fs d = (r, d')"
  shows "d' = d \<or> (\<exists>p. promotion_at d i = Some p \<and> p_proposer p = who)"
proof -
  have "p_id q = p_id p \<and> p_proposer p = who" if "submit_mutate who p = Inr q \<or> withdraw_mutate who p = Inr q" for p q
    using that by (auto simp: submit_mutate_def withdraw_mutate_def split: if_splits)
  then have "d' = d \<or> (\<exists>p. promotion_at d i = Some p \<and> p_proposer p = who)"
    if "run (in_tx (transition_body (w_now w) i who m to act)) fs d = (r, d')" "m = submit_mutate who \<or> m = withdraw_mutate who"
    for m to act
    using that(2) by (intro run_transition[OF _ that(1)]) auto
  then show ?thesis
    using assms by (auto simp: run_action_def submit_def withdraw_def)
qed

lemma changes_of_namespaces:
  assumes "run (resolve_principal p) [] d = (Inr ent, d)"
  shows "ensures d (changed_by d (permits s rq ps d p EpCreateNamespace)) (h_create_namespace s w rq (Some (p, ent)))"
    "ensures d (changed_by d (permits s rq ps d p EpPatchNamespacePolicy)) (h_patch_namespace_policy s rq ps (Some (p, ent)))"
    "ensures d (changed_by d (permits s rq ps d p EpAddMember)) (h_add_member s rq ps (Some (p, ent)))"
    "ensures d (changed_by d (permits s rq ps d p EpRemoveMember)) (h_remove_member s rq ps (Some (p, ent)))"
proof -
  show "ensures d (changed_by d (permits s rq ps d p EpCreateNamespace)) (h_create_namespace s w rq (Some (p, ent)))"
    by (auto simp: h_create_namespace_def require_platform_admin_def principal_from_def
        intro!: ensures_return ensures_guard ensures_changed ensures_answer)
  show "ensures d (changed_by d (permits s rq ps d p EpPatchNamespacePolicy)) (h_patch_namespace_policy s rq ps (Some (p, ent)))"
    unfolding h_patch_namespace_policy_def
    by (intro ensures_guard) (auto split: option.split dest: authorize_write[OF _ _ assms]
        intro!: ensures_return ensures_changed ensures_answer)
  show "ensures d (changed_by d (permits s rq ps d p EpAddMember)) (h_add_member s rq ps (Some (p, ent)))"
    unfolding h_add_member_def
    by (intro ensures_guard) (auto dest: authorize_write[OF _ _ assms]
        intro!: ensures_return ensures_changed ensures_answer)
  show "ensures d (changed_by d (permits s rq ps d p EpRemoveMember)) (h_remove_member s rq ps (Some (p, ent)))"
    unfolding h_remove_member_def Let_def
    by (intro ensures_guard) (auto dest: authorize_write[OF _ _ assms]
        intro!: ensures_return ensures_changed ensures_answer)
qed

lemma changes_of_facts:
  assumes "run (resolve_principal p) [] d = (Inr ent, d)"
  shows "ensures d (changed_by d (permits s rq ps d p EpRevokeFact)) (h_revoke_fact s w rq ps (Some (p, ent)))"
  unfolding h_revoke_fact_def with_fact_def Let_def
  by (intro outcome) (auto split: option.split dest!: get_fact_pool_row dest: authorize_write[OF _ _ assms]
      simp: fact.truncate_def intro!: ensures_return ensures_changed ensures_answer)

lemma changes_of_promotions:
  assumes "run (resolve_principal p) [] d = (Inr ent, d)"
  shows "ensures d (changed_by d (permits s rq ps d p EpCreatePromotion)) (h_create_promotion s w rq (Some (p, ent)))"
    "ensures d (changed_by d (permits s rq ps d p (EpPromotionAction a))) (h_promotion_action s w a rq ps (Some (p, ent)))"
proof -
  show "ensures d (changed_by d (permits s rq ps d p EpCreatePromotion)) (h_create_promotion s w rq (Some (p, ent)))"
    unfolding h_create_promotion_def
    by (intro ensures_guard) (auto dest: authorize_write[OF _ _ assms]
        intro!: ensures_return ensures_changed ensures_answer)
  show "ensures d (changed_by d (permits s rq ps d p (EpPromotionAction a))) (h_promotion_action s w a rq ps (Some (p, ent)))"
    unfolding h_promotion_action_def
  proof (intro outcome, goal_cases)
    case (4 i pr u)
    note pr = get_promotion_pool_row[OF 4(2)]
    consider "a = ''submit'' \<or> a = ''withdraw''" | "a \<in> set [''approve'', ''reject'', ''request-changes'']"
      | "a \<notin> set [''submit'', ''withdraw'', ''approve'', ''reject'', ''request-changes'']" by auto
    then show ?case
    proof cases
      case 1
      show ?thesis
        by (rule ensures_unit, drule run_action_proposer[OF 1])
          (use 1 4(1) in \<open>auto simp: changed_by_def principal_from_def\<close>)
    next
      case m: 2
      have "map_sum id (\<lambda>_. ()) (authorize (Some (p, ent)) (p_target_namespace_id pr) ''approve_reject'') = Inr u"
        using 4(3) unfolding if_P[OF m] .
      then have "holds d p (p_target_namespace_id pr) ''approve_reject''"
        using authorize_write[OF _ _ assms]
        by (cases "authorize (Some (p, ent)) (p_target_namespace_id pr) ''approve_reject''") auto
      then show ?thesis using m 4(1) pr by (intro ensures_changed ensures_answer) auto
    next
      case 3
      then have "run_action s w a i who body = return_sql zero_promotion" for who body
        by (simp add: run_action_def)
      then show ?thesis by (intro ensures_unit) (simp add: run_def return_sql_def changed_by_def)
    qed
  qed auto
qed

lemma changes_permitted:
  assumes "run (resolve_principal p) [] d = (Inr ent, d)" and "plans_ok w"
  shows "ensures d (changed_by d (permits s rq ps d p ep)) (handle s w rq ps ep (Some (p, ent)))"
proof (cases "reads ep")
  case True
  have "\<exists>r. run (handle s w rq ps ep (Some (p, ent))) fs d = (Inr r, d)" for fs
    using scoped_reads[OF True assms(2), of d s ps ent rq p] by (auto simp: ensures_def scoped_def)
  then show ?thesis by (simp add: ensures_def) (metis changed_by_same)
next
  case False
  have "ensures d (changed_by d False) (handle s w rq ps EpReadyz (Some (p, ent)))"
    "ensures d (changed_by d False) (handle s w rq ps EpAddMemory (Some (p, ent)))"
    by (auto simp: h_add_memory_def Let_def split: option.split
        intro!: ensures_return ensures_guard ensures_read[OF handler_reads(21,22)])
  with False show ?thesis
    by (cases ep) (simp_all only: reads.simps not_True_eq_False handle.simps changes_of_namespaces[OF assms(1)] permits.simps(8-)
        changes_of_facts[OF assms(1)] changes_of_promotions[OF assms(1)] ensures_return changed_by_same)
qed

section \<open>Errors\<close>

definition error_clean :: "db \<Rightarrow> response \<Rightarrow> db \<Rightarrow> bool" where
  "error_clean d r d' \<longleftrightarrow> (\<not> (200 \<le> rs_status r \<and> rs_status r < 300) \<longrightarrow> d' = d)"

lemma error_clean_same [simp]: "error_clean d r d"
  by (simp add: error_clean_def)

lemma ensures_atomic:
  assumes "atomic m" and "\<And>a. 200 \<le> rs_status (k a) \<and> rs_status (k a) < 300"
  shows "ensures d (error_clean d) (try_sql m on_error (\<lambda>a. return_sql (k a)))"
  using assms by (intro ensures_unit) (auto simp: error_clean_def atomic_def split: sum.split)

lemma json_status [simp]: "rs_status (write_json n b) = n" "rs_status (write_error n msg) = n"
  by (simp_all add: write_json_def write_error_def)

lemma run_action_atomic: "atomic (run_action s w a i who body)"
  using write_requests_atomic by (simp add: run_action_def atomic_def run_def return_sql_def)

lemma errors_clean: "ensures d (error_clean d) (handle s w rq ps ep ctx)"
proof -
  note atomics = write_requests_atomic
  note intros = ensures_return ensures_guard ensures_reads ensures_atomic
  show ?thesis
  proof (cases ep)
    case EpCreateNamespace
    then show ?thesis
      using atomics by (auto simp: h_create_namespace_def split: option.split intro!: intros)
  next
    case EpPatchNamespacePolicy
    then show ?thesis
      using atomics by (auto simp: h_patch_namespace_policy_def split: option.split intro!: intros)
  next
    case EpAddMember
    then show ?thesis using atomics by (auto simp: h_add_member_def intro!: intros)
  next
    case EpRemoveMember
    then show ?thesis using atomics by (auto simp: h_remove_member_def Let_def intro!: intros)
  next
    case EpCreatePromotion
    then show ?thesis using atomics by (auto simp: h_create_promotion_def intro!: intros)
  next
    case EpPromotionAction
    then show ?thesis by (auto simp: h_promotion_action_def run_action_atomic intro!: intros)
  next
    case EpRevokeFact
    then show ?thesis
      using atomics by (auto simp: h_revoke_fact_def with_fact_def Let_def split: option.split intro!: intros)
  qed (auto simp: h_list_namespaces_def h_get_namespace_def h_list_members_def h_list_promotions_def h_get_promotion_def
      h_list_facts_def h_get_fact_def h_get_fact_history_def with_fact_def h_get_context_def h_add_memory_def Let_def
      atomic_unit handler_reads split: option.split prod.split intro!: intros)
qed

section \<open>Requests\<close>

lemma serve_changes:
  assumes "srv_router s routes rq = Inr (ep, ps)" and "plans_ok w"
  shows "\<exists>r d'. run (serve s w rq) fs d = (Inr r, d') \<and>
    (d' = d \<or> (\<exists>p. srv_auth s rq = Inr p \<and> permits s rq ps d p ep))"
proof (cases "public ep")
  case True
  then have "serve s w rq = handle s w rq ps ep None" using assms(1) by (simp add: serve_def)
  moreover have "ensures d (changed_by d False) (handle s w rq ps ep None)"
    using True by (auto simp: public_def intro!: ensures_return ensures_read[OF handler_reads(21,22)])
  ultimately show ?thesis unfolding ensures_def changed_by_def by metis
next
  case False
  show ?thesis
  proof (cases "srv_auth s rq")
    case (Inl e)
    then show ?thesis
      using assms(1) False by (cases e) (simp_all add: serve_def authn_def run_def return_sql_def)
  next
    case (Inr p)
    show ?thesis
    proof (cases rule: run_serve[OF assms(1) False Inr, of w fs d])
      case (2 ent fs')
      then show ?thesis
        using changes_permitted[OF 2(1) assms(2), of s rq ps ep] Inr unfolding ensures_def changed_by_def by metis
    qed simp
  qed
qed

lemma serve_error_clean:
  assumes "run (serve s w rq) fs d = (Inr r, d')" and "\<not> (200 \<le> rs_status r \<and> rs_status r < 300)"
  shows "d' = d"
proof (cases "srv_router s routes rq")
  case (Inl r')
  then show ?thesis using assms(1) by (simp add: serve_def run_def return_sql_def)
next
  case (Inr route)
  obtain ep ps where route: "route = (ep, ps)" by fastforce
  note clean = errors_clean[of d s w rq ps ep, unfolded ensures_def error_clean_def]
  show ?thesis
  proof (cases "public ep")
    case True
    then have "run (handle s w rq ps ep None) fs d = (Inr r, d')" using assms(1) Inr route by (simp add: serve_def)
    then show ?thesis using clean[of None] assms(2) by (metis Pair_inject Inr_inject)
  next
    case False
    show ?thesis
    proof (cases "srv_auth s rq")
      case (Inl e)
      then show ?thesis
        using assms(1) Inr route False by (cases e) (simp_all add: serve_def authn_def run_def return_sql_def)
    next
      case p: (Inr p)
      show ?thesis
      proof (cases rule: run_serve[OF Inr[unfolded route] False p, of w fs d])
        case 1
        then show ?thesis using assms(1) by simp
      next
        case (2 ent fs')
        then show ?thesis using clean[of "Some (p, ent)"] assms by (metis Pair_inject Inr_inject)
      qed
    qed
  qed
qed

section \<open>Properties\<close>

text \<open>
  C11. No request changes the store without the permission its endpoint asks for: every request is answered,
  whatever fails, and if the store has changed then the request authenticated as a principal who, in the
  store it found, is a platform admin (registry), manages the namespace (policy, members), may propose in
  the target, may review in the promotion's namespace or proposed the promotion, or may revoke in the
  fact's namespace.
\<close>

theorem writes_permitted:
  assumes "srv_router s routes rq = Inr (ep, ps)" and "plans_ok w"
  shows "\<exists>r d'. run (serve s w rq) fs d = (Inr r, d') \<and>
    (d' = d \<or> (\<exists>p. srv_auth s rq = Inr p \<and> permits s rq ps d p ep))"
  using assms by (rule serve_changes)

text \<open>
  C12. The reading endpoints change nothing and leak nothing: for a caller who is no platform admin, the answer
  of a listing, a lookup, a history, a member list or a context query discloses only namespaces the
  caller is a member of or that lie above one of those.
\<close>

theorem reads_scoped:
  assumes "srv_router s routes rq = Inr (ep, ps)" and "reads ep" and "plans_ok w"
    and "srv_auth s rq = Inr p" and "\<not> pr_platform_admin p" and "schema_ok d"
  shows "\<exists>r. run (serve s w rq) fs d = (Inr r, d) \<and>
    discloses s ps d (rs_body r) \<subseteq> (parent_of (namespaces_tbl d))\<^sup>* `` member_of (pr_id p) d"
proof -
  have np: "\<not> public ep" using assms(2) by (auto simp: public_def)
  show ?thesis
  proof (cases rule: run_serve[OF assms(1) np assms(4), of w fs d])
    case 1
    then show ?thesis by (simp add: write_error_def write_json_def)
  next
    case (2 ent fs')
    then show ?thesis
      using scoped_reads[OF assms(2,3), of d s ps ent rq p] resolved_read[OF assms(6) 2(1) assms(5)]
      unfolding ensures_def scoped_def by metis
  qed
qed

text \<open>
  C13. An error answer means that nothing was written: whatever the request and whatever statement fails, unless
  the status is a success (2xx) the store is the one the request found.
\<close>

theorem errors_write_nothing:
  assumes "run (serve s w rq) fs d = (Inr r, d')" and "\<not> (200 \<le> rs_status r \<and> rs_status r < 300)"
  shows "d' = d"
  using assms by (rule serve_error_clean)

section \<open>Evaluated\<close>

text \<open>A router that matches segment by segment, as \<^verbatim>\<open>chi\<close> does for these patterns.\<close>

fun match_segments :: "string list \<Rightarrow> string list \<Rightarrow> params option" where
  "match_segments [] [] = Some Map.empty"
| "match_segments (p # ps) (x # xs) =
     (if has_prefix p ''{'' then map_option (\<lambda>m. m(butlast (tl p) \<mapsto> x)) (match_segments ps xs)
      else if p = x then match_segments ps xs else None)"
| "match_segments _ _ = None"

fun segment_router :: "route list \<Rightarrow> request \<Rightarrow> response + endpoint \<times> params" where
  "segment_router [] rq = Inl (write_error 404 ''not found'')"
| "segment_router ((verb, pattern, ep) # rs) rq =
     (case match_segments (split_on CHR ''/'' pattern) ([] # rq_path rq) of
        Some ps \<Rightarrow> if verb = rq_method rq then Inr (ep, ps) else segment_router rs rq
      | None \<Rightarrow> segment_router rs rq)"

definition sample_server :: server where
  "sample_server = new_server header_authenticator segment_router (\<lambda>t. if t = ''10'' then Some 10 else None)"

definition sample_world :: world where
  "sample_world = \<lparr>w_now = 9, w_wall = 9, w_new_fact = 20, w_new_promotion = 21, w_new_namespace = 22, w_ids = (\<lambda>xs. xs),
     w_facts = (\<lambda>xs. xs), w_context = (\<lambda>xs. xs), w_promotions = (\<lambda>xs. xs), w_events = (\<lambda>xs. xs), w_dist = (\<lambda>_ _. 0)\<rparr>"

definition fact_request :: "string \<Rightarrow> string \<Rightarrow> request" where
  "fact_request verb who = \<lparr>rq_method = verb, rq_path = [''v1'', ''facts'', ''10''], rq_query = [],
     rq_headers = [(''X-Baseline-Principal'', who), (''If-Match'', ''1'')], rq_body = RawEmpty\<rparr>"

definition one_fact :: db where
  "one_fact = sample_db [sample_fact 10 1 ''tabs'' StatusActive [] None] []"

lemma sample_plans: "plans_ok sample_world"
  by (simp add: plans_ok_def sample_world_def)

lemma route_facts:
  "srv_router sample_server routes (fact_request ''PATCH'' who) = Inr (EpRevokeFact, [''id'' \<mapsto> ''10''])"
  "srv_router sample_server routes (fact_request ''GET'' who) = Inr (EpGetFact, [''id'' \<mapsto> ''10''])"
  by (simp_all add: sample_server_def new_server_def new_with_memory_def routes_def fact_request_def has_prefix_def)

lemma auth_sample:
  "srv_auth sample_server (fact_request verb ''eve'') = Inr \<lparr>pr_id = ''eve'', pr_platform_admin = False\<rparr>"
  "srv_auth sample_server (fact_request verb ''rev'') = Inr \<lparr>pr_id = ''rev'', pr_platform_admin = False\<rparr>"
  by (simp_all add: sample_server_def new_server_def new_with_memory_def header_authenticator_def fact_request_def
      header_get_def equal_fold_def to_lower_def lower_byte_def trim_eval Let_def)

lemma sample_server_uuid: "srv_parse_uuid sample_server = (\<lambda>t. if t = ''10'' then Some 10 else None)"
  by (simp add: sample_server_def new_server_def new_with_memory_def)

lemma run_sample:
  assumes "srv_auth sample_server rq = Inr p" and "srv_router sample_server routes rq = Inr (ep, ps)" and "\<not> public ep"
  shows "run (serve sample_server w rq) [] d =
    run (handle sample_server w rq ps ep (Some (p, \<lparr>ent_principal = p,
      ent_direct = (\<lambda>ns. map snd (filter (\<lambda>g. fst g = ns)
        (map (\<lambda>m. (m_namespace_id m, m_role m)) (filter (\<lambda>m. m_principal m = pr_id p) (memberships_tbl d))))),
      ent_readable = resolve_rows (pr_id p) d\<rparr>))) [] d"
  using assms by (simp add: serve_def authn_def try_sql_def resolve_principal_def sql_run)

lemma public_revoke: "\<not> public EpRevokeFact"
  by (simp add: public_def)

lemma run_try_exec:
  "exec m d a d' \<Longrightarrow> run (try_sql m on_error k) [] d = run (k a) [] d'"
  by (simp add: exec_def run_def try_sql_def bind_sql_def attempt_def)

text \<open>A reviewer of the namespace revokes the fact; someone else is refused.\<close>

lemma serve_revoke:
  "run (serve sample_server sample_world (fact_request ''PATCH'' ''eve'')) [] one_fact
     = (Inr (write_error 403 ''forbidden''), one_fact)"
  "\<exists>d'. run (serve sample_server sample_world (fact_request ''PATCH'' ''rev'')) [] one_fact
     = (Inr (write_json 200 (PStatus ''revoked'')), d') \<and> map f_status (facts_tbl d') = [StatusRevoked]"
proof -
  have row: "fact_at one_fact 10 = Some (sample_fact 10 1 ''tabs'' StatusActive [] None)"
    by (simp add: one_fact_def tbl_get_def)
  have fact: "exec (on_pool (get_fact 10)) one_fact (fact.truncate (sample_fact 10 1 ''tabs'' StatusActive [] None)) one_fact"
    by (simp add: exec_def on_pool_def get_fact_def sql_run row)
  have ns: "f_namespace_id (fact.truncate (sample_fact 10 1 ''tabs'' StatusActive [] None)) = 1"
    by (simp add: fact.truncate_def)
  have members: "memberships_tbl one_fact = [\<lparr>m_principal = ''rev'', m_namespace_id = 1, m_role = ''reviewer''\<rparr>]"
    by (simp add: one_fact_def sample_db_def)
  have clock: "w_now sample_world = 9" by (simp add: sample_world_def)
  have i: "parse_id sample_server [''id'' \<mapsto> ''10''] = Inr 10"
    by (simp add: parse_id_def url_param_def sample_server_uuid)
  have handler: "run (handle sample_server sample_world rq [''id'' \<mapsto> ''10''] EpRevokeFact ctx) [] one_fact =
      run (guard_sql (authorize ctx 1 ''revoke_fact'') (\<lambda>_.
        let if_match = header_get rq ''If-Match'' in
        if if_match = [] then return_sql (write_error 428 ''If-Match (version) required'')
        else case atoi if_match of
          None \<Rightarrow> return_sql (write_error 400 ''invalid If-Match'')
        | Some version \<Rightarrow>
            try_sql (revoke_fact 9 10 version (pr_id (principal_from ctx)))
              (\<lambda>e. if e = ErrVersionConflict then write_error 409 ''stale version''
                   else if e = ErrFactNotFound then write_error 404 ''not found''
                   else write_json 409 (PErrorOf [] e))
              (\<lambda>_. return_sql (write_json 200 (PStatus ''revoked''))))) [] one_fact" for rq ctx
    unfolding handle.simps h_revoke_fact_def with_fact_def i guard_sql_def[of "Inr 10"] sum.case
    by (subst run_try_exec[OF fact]) (simp only: ns clock)
  show "run (serve sample_server sample_world (fact_request ''PATCH'' ''eve'')) [] one_fact
     = (Inr (write_error 403 ''forbidden''), one_fact)"
    unfolding run_sample[OF auth_sample(1) route_facts(1) public_revoke] handler
    by (simp add: members authorize_def ent_can_def guard_sql_def run_def return_sql_def)
  have done_: "\<exists>d'. run (revoke_fact 9 10 1 ''rev'') [] one_fact = (Inr (), d') \<and> map f_status (facts_tbl d') = [StatusRevoked]"
  proof -
    have "schema_ok one_fact" "int4_min \<le> 1" "1 < int4_max" by (simp_all add: one_fact_def sample_eval sample_fact_def)
    from revoke_run[OF this, of 9 10 "''rev''"]
    have "run (revoke_fact 9 10 1 ''rev'') [] one_fact = (Inr (), revoked_store 9 10 ''rev'' one_fact)"
      by (simp add: revoke_answer_def row)
    moreover have "facts_tbl (revoked_store 9 10 ''rev'' one_fact) =
        [row_status 9 StatusRevoked (sample_fact 10 1 ''tabs'' StatusActive [] None)]"
      by (simp add: revoked_store_def one_fact_def tbl_upd_def)
    then have "map f_status (facts_tbl (revoked_store 9 10 ''rev'' one_fact)) = [StatusRevoked]" by simp
    ultimately show ?thesis by (intro exI conjI)
  qed
  have version: "atoi (header_get (fact_request ''PATCH'' ''rev'') ''If-Match'') = Some 1"
      "header_get (fact_request ''PATCH'' ''rev'') ''If-Match'' \<noteq> []"
  proof -
    have "header_get (fact_request ''PATCH'' ''rev'') ''If-Match'' = ''1''"
      by (simp add: fact_request_def header_get_def equal_fold_def to_lower_def lower_byte_def)
    then show "atoi (header_get (fact_request ''PATCH'' ''rev'') ''If-Match'') = Some 1"
        "header_get (fact_request ''PATCH'' ''rev'') ''If-Match'' \<noteq> []"
      by (simp_all add: atoi_def has_prefix_def is_digit_def int_min_def int_max_def)
  qed
  show "\<exists>d'. run (serve sample_server sample_world (fact_request ''PATCH'' ''rev'')) [] one_fact
     = (Inr (write_json 200 (PStatus ''revoked'')), d') \<and> map f_status (facts_tbl d') = [StatusRevoked]"
    unfolding run_sample[OF auth_sample(2) route_facts(1) public_revoke] handler
    using done_ by (auto simp: members authorize_def ent_can_def can_def min_role_def rank_def guard_sql_def Let_def
        version run_try_return principal_from_def)
qed

theorem writes_permitted_witness:
  "permits sample_server (fact_request ''PATCH'' ''rev'') [''id'' \<mapsto> ''10''] one_fact
     \<lparr>pr_id = ''rev'', pr_platform_admin = False\<rparr> EpRevokeFact"
proof -
  obtain d' where d': "run (serve sample_server sample_world (fact_request ''PATCH'' ''rev'')) [] one_fact
     = (Inr (write_json 200 (PStatus ''revoked'')), d')" "map f_status (facts_tbl d') = [StatusRevoked]"
    using serve_revoke(2) by (elim exE conjE)
  have "map f_status (facts_tbl one_fact) = [StatusActive]" by (simp add: one_fact_def)
  with d'(2) have "d' \<noteq> one_fact" by (metis list.inject status.distinct)
  then show ?thesis
    using writes_permitted[OF route_facts(1) sample_plans, of "''rev''" "[]" one_fact, unfolded d'(1) auth_sample(2)]
    by (simp del: permits.simps)
qed

theorem reads_scoped_witness:
  "\<exists>r. run (serve sample_server sample_world (fact_request ''GET'' ''rev'')) [] one_fact = (Inr r, one_fact) \<and>
     discloses sample_server [''id'' \<mapsto> ''10''] one_fact (rs_body r)
       \<subseteq> (parent_of (namespaces_tbl one_fact))\<^sup>* `` member_of ''rev'' one_fact"
proof -
  have "schema_ok one_fact" by (simp add: one_fact_def sample_eval sample_fact_def)
  from reads_scoped[OF route_facts(2) _ sample_plans auth_sample(2) _ this, of "[]"] show ?thesis by simp
qed

theorem errors_write_nothing_witness:
  "run (serve sample_server sample_world (fact_request ''PATCH'' ''eve'')) [] one_fact
     = (Inr (write_error 403 ''forbidden''), one_fact) \<and> one_fact = one_fact"
  using errors_write_nothing[OF serve_revoke(1)] serve_revoke(1) by simp

text \<open>
  What the source does not check: \<^verbatim>\<open>actor_id\<close> is free, so a caller with no entitlement at all is given the
  personal memories of any actor named in the query.
\<close>

lemma covered_Nil [simp]: "covered [] m = False"
  by (simp add: covered_def split: option.split json.split)

lemma context_any_actor:
  assumes "query_get rq ''actor_id'' = actor" and "actor \<noteq> []" and "query_get rq ''include_memories'' = ''true''"
    and "query_get rq ''namespaces'' = []" and "ent_readable ent = []" and "w_ids w [] = []"
    and "ms_list (srv_mem s) actor (atoi_value (query_get rq ''limit'')) = Inr mems"
  shows "run (h_get_context s w rq (Some (p, ent))) fs d =
    (Inr (write_json 200 (PItems (apply_limit (map memory_item mems) (atoi_value (query_get rq ''limit''))))), d)"
  using assms
  by (simp add: h_get_context_def guard_sql_def entitlements_from_def narrowed_def readable_namespaces_def Let_def
      run_try_return resolve_context_def maybe_merge_memories_def)
    (simp add: run_def return_sql_def)

end
