(* ===== verification/Mcp_Bridge.thy ===== *)
theory Mcp_Bridge
  imports Endpoints
begin

text \<open>
  The tool bridge (\<^verbatim>\<open>internal/mcpbridge\<close>): each tool builds one REST request, stamped with the bridge's
  principal, and hands it to the same handler the HTTP listener serves. The transport and the decoding of
  a tool's arguments into its input struct are the SDK's; a result keeps the value whose encoding is the
  text of the source's result.
\<close>

section \<open>Tools and results\<close>

record get_context_in =
  gc_actor_id :: string
  gc_namespaces :: string
  gc_include_memories :: bool
  gc_limit :: int
  gc_tags :: string

record search_facts_in =
  sf_query :: string
  sf_namespace :: string
  sf_status :: string
  sf_tag :: string
  sf_tags :: string
  sf_limit :: int

record propose_fact_in =
  pf_target_namespace :: string
  pf_proposed_statement :: string
  pf_subject :: "(string \<times> json) list option"
  pf_candidate_memory_ids :: "string list option"
  pf_tags :: "string list option"

record review_promotion_in =
  rp_promotion_id :: string
  rp_action :: string
  rp_comment :: string
  rp_suggested_statement :: string

datatype tool =
    GetContext get_context_in
  | SearchFacts search_facts_in
  | ListNamespaces
  | ProposeFact propose_fact_in
  | SubmitPromotion string
  | ListMyPromotions string
  | ReviewPromotion review_promotion_in
  | SaveMemory string string

fun tool_name :: "tool \<Rightarrow> string" where
  "tool_name (GetContext _) = ''get_context''"
| "tool_name (SearchFacts _) = ''search_facts''"
| "tool_name ListNamespaces = ''list_namespaces''"
| "tool_name (ProposeFact _) = ''propose_fact''"
| "tool_name (SubmitPromotion _) = ''submit_promotion''"
| "tool_name (ListMyPromotions _) = ''list_my_promotions''"
| "tool_name (ReviewPromotion _) = ''review_promotion''"
| "tool_name (SaveMemory _ _) = ''save_memory''"

text \<open>The tools \<^verbatim>\<open>Server\<close> registers, in its order.\<close>

definition registered_tools :: "string list" where
  "registered_tools = [''get_context'', ''search_facts'', ''list_namespaces'', ''propose_fact'', ''submit_promotion'',
     ''list_my_promotions'', ''review_promotion'', ''save_memory'']"

lemma tools_registered: "distinct registered_tools \<and> (\<forall>n. n \<in> set registered_tools \<longleftrightarrow> (\<exists>t. tool_name t = n))"
proof
  show "distinct registered_tools" by (simp add: registered_tools_def)
  have "tool_name t \<in> set registered_tools" for t by (cases t) (simp_all add: registered_tools_def)
  moreover have "\<exists>t. tool_name t = n" if "n \<in> set registered_tools" for n
  proof -
    have "list_all (\<lambda>n. \<exists>t. tool_name t = n) registered_tools"
      unfolding registered_tools_def list.pred_inject
      by (intro conjI list.pred_inject(1); rule exI, rule tool_name.simps)
    then show ?thesis using that by (simp add: list_all_iff)
  qed
  ultimately show "\<forall>n. n \<in> set registered_tools \<longleftrightarrow> (\<exists>t. tool_name t = n)" by metis
qed

datatype tool_result =
    ToolText payload
  | ToolInvalid string
  | ToolStatus request nat payload

fun is_error :: "tool_result \<Rightarrow> bool" where
  "is_error (ToolText _) = False"
| "is_error _ = True"

section \<open>Requests\<close>

definition principal_header :: string where
  "principal_header = ''X-Baseline-Principal''"

definition bridge_request :: "principal_id \<Rightarrow> string \<Rightarrow> string list \<Rightarrow> (string \<times> string) list \<Rightarrow> json option \<Rightarrow> request" where
  "bridge_request who verb path qs body =
     \<lparr>rq_method = verb, rq_path = ''v1'' # path, rq_query = qs,
      rq_headers = (principal_header, who)
        # (case body of None \<Rightarrow> [] | Some j \<Rightarrow> [(''Content-Type'', ''application/json'')]),
      rq_body = (case body of None \<Rightarrow> RawEmpty | Some j \<Rightarrow> RawJson j)\<rparr>"

text \<open>\<^verbatim>\<open>if v != "" { q.Set(k, v) }\<close>\<close>

definition set_if :: "string \<Rightarrow> string \<Rightarrow> (string \<times> string) list" where
  "set_if k v = (if v = [] then [] else [(k, v)])"

definition set_limit :: "int \<Rightarrow> (string \<times> string) list" where
  "set_limit n = (if n > 0 then [(''limit'', show_int n)] else [])"

text \<open>A nil slice or map is encoded as \<^verbatim>\<open>null\<close>.\<close>

definition json_strings :: "string list option \<Rightarrow> json" where
  "json_strings x = (case x of None \<Rightarrow> JNull | Some ss \<Rightarrow> JArr (map JStr ss))"

definition propose_body :: "propose_fact_in \<Rightarrow> json" where
  "propose_body i =
     JObj [(''target_namespace'', JStr (pf_target_namespace i)), (''proposed_statement'', JStr (pf_proposed_statement i)),
       (''subject'', case pf_subject i of None \<Rightarrow> JNull | Some ms \<Rightarrow> JObj ms),
       (''candidate_memory_ids'', json_strings (pf_candidate_memory_ids i)), (''tags'', json_strings (pf_tags i))]"

definition review_request_body :: "review_promotion_in \<Rightarrow> json" where
  "review_request_body i =
     JObj ([(''comment'', JStr (rp_comment i))]
       @ (if rp_suggested_statement i \<noteq> [] then [(''suggested_statement'', JStr (rp_suggested_statement i))] else []))"

definition memory_type :: "string \<Rightarrow> string" where
  "memory_type t = (if t = [] then ''semantic'' else t)"

definition save_body :: "string \<Rightarrow> string \<Rightarrow> json" where
  "save_body content mtype =
     JObj [(''content'', JStr content), (''metadata'', JObj [(''type'', JStr mtype)]), (''infer'', JBool False)]"

text \<open>The request of a tool, or the message with which its arguments are refused.\<close>

fun tool_request :: "principal_id \<Rightarrow> tool \<Rightarrow> string + request" where
  "tool_request who (GetContext i) =
     Inr (bridge_request who ''GET'' [''context'']
       (set_if ''actor_id'' (gc_actor_id i) @ set_if ''namespaces'' (gc_namespaces i)
        @ (if gc_include_memories i then [(''include_memories'', ''true'')] else [])
        @ set_if ''tags'' (gc_tags i) @ set_limit (gc_limit i)) None)"
| "tool_request who (SearchFacts i) =
     Inr (bridge_request who ''GET'' [''facts'']
       (set_if ''q'' (sf_query i) @ set_if ''namespace'' (sf_namespace i) @ set_if ''status'' (sf_status i)
        @ set_if ''tag'' (sf_tag i) @ set_if ''tags'' (sf_tags i) @ set_limit (sf_limit i)) None)"
| "tool_request who ListNamespaces = Inr (bridge_request who ''GET'' [''namespaces''] [] None)"
| "tool_request who (ProposeFact i) = Inr (bridge_request who ''POST'' [''promotions''] [] (Some (propose_body i)))"
| "tool_request who (SubmitPromotion i) =
     (if i = [] then Inl ''promotion_id is required''
      else Inr (bridge_request who ''POST'' [''promotions'', i, ''submit''] [] None))"
| "tool_request who (ListMyPromotions st) =
     Inr (bridge_request who ''GET'' [''promotions''] ((''proposer'', ''me'') # set_if ''state'' st) None)"
| "tool_request who (ReviewPromotion i) =
     (if rp_action i \<notin> set [''approve'', ''reject'', ''request-changes''] then Inl ''action must be approve|reject|request-changes''
      else Inr (bridge_request who ''POST'' [''promotions'', rp_promotion_id i, rp_action i] [] (Some (review_request_body i))))"
| "tool_request who (SaveMemory content mtype) =
     (if content = [] then Inl ''content is required''
      else if memory_type mtype \<notin> set [''semantic'', ''procedural'', ''episodic'']
      then Inl ''type must be semantic|procedural|episodic''
      else Inr (bridge_request who ''POST'' [''memories''] [] (Some (save_body content (memory_type mtype)))))"

definition bridge_call :: "(request \<Rightarrow> (db, response) sql) \<Rightarrow> request \<Rightarrow> (db, tool_result) sql" where
  "bridge_call handler rq =
     bind_sql (handler rq) (\<lambda>rec.
       return_sql (if rs_status rec < 200 \<or> rs_status rec \<ge> 300 then ToolStatus rq (rs_status rec) (rs_body rec)
                   else ToolText (rs_body rec)))"

definition call_tool :: "(request \<Rightarrow> (db, response) sql) \<Rightarrow> principal_id \<Rightarrow> tool \<Rightarrow> (db, tool_result) sql" where
  "call_tool handler who t =
     (case tool_request who t of
        Inl msg \<Rightarrow> return_sql (ToolInvalid msg)
      | Inr rq \<Rightarrow> bridge_call handler rq)"

text \<open>MCP over HTTP: the principal of the inbound request's header.\<close>

definition http_call_tool :: "(request \<Rightarrow> (db, response) sql) \<Rightarrow> request \<Rightarrow> tool \<Rightarrow> (db, tool_result) sql" where
  "http_call_tool handler r t = call_tool handler (header_get r principal_header) t"

section \<open>Whoever the bridge acts for\<close>

lemma bridge_auth:
  "header_authenticator (bridge_request who verb path qs body) =
     (if trim_space who = [] then Inl Unauthenticated else Inr \<lparr>pr_id = trim_space who, pr_platform_admin = False\<rparr>)"
  by (simp add: header_authenticator_def bridge_request_def header_get_def principal_header_def Let_def split: option.split)
    (simp add: equal_fold_def to_lower_def lower_byte_def)

lemma tool_request_bridge: "tool_request who t = Inr rq \<Longrightarrow> \<exists>verb path qs body. rq = bridge_request who verb path qs body"
  by (cases t) (auto split: if_splits)

lemma run_bridge_call:
  "run (bridge_call handler rq) fs d = (Inr res, d') \<Longrightarrow>
     \<exists>r. run (handler rq) fs d = (Inr r, d') \<and>
       res = (if rs_status r < 200 \<or> rs_status r \<ge> 300 then ToolStatus rq (rs_status r) (rs_body r) else ToolText (rs_body r))"
  by (auto simp: bridge_call_def run_def bind_sql_def return_sql_def split: prod.splits sum.splits)

section \<open>Arguments\<close>

lemma atoi_value_show_int:
  assumes "0 < n" and "n \<le> int_max"
  shows "atoi_value (show_int n) = n"
proof -
  have "int_min \<le> n" using assms(1) by (simp add: int_min_def)
  then show ?thesis
    using assms show_nat_hd[of "nat n"] read_show_nat
    by (auto simp: atoi_value_def show_int_def has_prefix_single Let_def)
qed

lemma set_if_map: "map_of (set_if k v) k' = (if k' = k \<and> v \<noteq> [] then Some v else None)"
  by (simp add: set_if_def)

definition limit_of :: "int \<Rightarrow> int" where
  "limit_of n = (if n > 0 then n else 0)"

lemma limit_read:
  "n \<le> int_max \<Longrightarrow> atoi_value (case map_of (set_limit n) ''limit'' of None \<Rightarrow> [] | Some v \<Rightarrow> v) = limit_of n"
  by (simp add: set_limit_def limit_of_def atoi_value_show_int) (simp add: atoi_value_def has_prefix_def)

lemma set_limit_other: "k \<noteq> ''limit'' \<Longrightarrow> map_of (set_limit n) k = None"
  by (simp add: set_limit_def)

lemma body_keys [simp]:
  "\<not> equal_fold ''comment'' ''suggested_statement''" "\<not> equal_fold ''suggested_statement'' ''comment''"
  by (simp_all add: equal_fold_def to_lower_def lower_byte_def)

lemma review_body_read:
  "decode_comment (RawJson (review_request_body i)) =
     \<lparr>cr_comment = rp_comment i, cr_suggested = rp_suggested_statement i\<rparr>"
  by (simp add: decode_comment_def comment_field_def review_request_body_def member_def)

lemma save_body_read:
  "decode_add_memory (save_body content mtype) =
     Some \<lparr>mr_content = content, mr_actor_id = [], mr_metadata = [(''type'', JStr mtype)], mr_infer = Some False\<rparr>"
  by (simp add: go_map_def decode_add_memory_def save_body_def field_def member_def)
    (simp add: equal_fold_def to_lower_def lower_byte_def)

lemma lower_names [simp]:
  "to_lower ''target_namespace'' = ''target_namespace''" "to_lower ''proposed_statement'' = ''proposed_statement''"
  "to_lower ''subject'' = ''subject''" "to_lower ''candidate_memory_ids'' = ''candidate_memory_ids''"
  "to_lower ''tags'' = ''tags''" "to_lower ''provenance'' = ''provenance''" "to_lower ''metadata'' = ''metadata''"
  "to_lower ''origin_type'' = ''origin_type''" "to_lower ''source_kind'' = ''source_kind''"
  "to_lower ''actor_type'' = ''actor_type''"
  by (simp_all add: to_lower_def lower_byte_def)

lemma as_string_list_json: "as_string_list (json_strings x) = Some (case x of None \<Rightarrow> [] | Some ss \<Rightarrow> ss)"
  by (simp add: json_strings_def as_strings_map split: option.split)

lemma propose_body_read:
  assumes "parse (pf_target_namespace i) = Some ns"
    and "decode_subject (case pf_subject i of None \<Rightarrow> JNull | Some ms \<Rightarrow> JObj ms) = Some sub"
  shows "decode_propose parse (propose_body i) =
    Some (zero_propose\<lparr>in_target := ns, in_statement := pf_proposed_statement i, in_subject := sub,
      in_memory_ids := (case pf_candidate_memory_ids i of None \<Rightarrow> [] | Some ids \<Rightarrow> ids),
      in_tags := (case pf_tags i of None \<Rightarrow> [] | Some ts \<Rightarrow> ts)\<rparr>)"
proof -
  obtain ms where ms: "propose_body i = JObj ms" "rev ms = [(''tags'', json_strings (pf_tags i)),
      (''candidate_memory_ids'', json_strings (pf_candidate_memory_ids i)),
      (''subject'', case pf_subject i of None \<Rightarrow> JNull | Some ms \<Rightarrow> JObj ms),
      (''proposed_statement'', JStr (pf_proposed_statement i)), (''target_namespace'', JStr (pf_target_namespace i))]"
    by (simp add: propose_body_def)
  have "fst ` set ms = fst ` set (rev ms)" by simp
  then have "\<forall>k \<in> fst ` set ms. to_lower k = k" unfolding ms(2) by simp
  then have m: "to_lower n = n \<Longrightarrow> member n ms = map_of (rev ms) n" for n by (rule member_lower[rotated])
  have f: "field (as_uuid parse) 0 ''target_namespace'' ms = Some ns"
    "field as_string [] ''proposed_statement'' ms = Some (pf_proposed_statement i)"
    "field decode_subject (in_subject zero_propose) ''subject'' ms = Some sub"
    "field as_string_list [] ''candidate_memory_ids'' ms = Some (case pf_candidate_memory_ids i of None \<Rightarrow> [] | Some ids \<Rightarrow> ids)"
    "field as_string_list [] ''tags'' ms = Some (case pf_tags i of None \<Rightarrow> [] | Some ts \<Rightarrow> ts)"
    "field decode_provenance (in_provenance zero_propose) ''provenance'' ms = Some (in_provenance zero_propose)"
    "field as_object [] ''metadata'' ms = Some []" "field as_string [] ''origin_type'' ms = Some []"
    "field as_string [] ''source_kind'' ms = Some []" "field as_string [] ''actor_type'' ms = Some []"
    using assms by (simp_all only: field_def m lower_names) (simp_all add: ms(2) as_string_list_json)
  show ?thesis by (simp add: decode_propose_def ms(1) f) (simp add: zero_propose_def)
qed

lemma query_get_bridge: "query_get (bridge_request who verb path qs body) k = (case map_of qs k of None \<Rightarrow> [] | Some v \<Rightarrow> v)"
  by (simp add: query_get_def bridge_request_def)

lemma rq_body_bridge [simp]: "rq_body (bridge_request who verb path qs (Some j)) = RawJson j"
  by (simp add: bridge_request_def)

lemma propose_body_refused:
  assumes "parse (pf_target_namespace i) = None \<or> decode_subject (case pf_subject i of None \<Rightarrow> JNull | Some ms \<Rightarrow> JObj ms) = None"
  shows "decode_propose parse (propose_body i) = None"
proof -
  obtain ms where ms: "propose_body i = JObj ms" "rev ms = [(''tags'', json_strings (pf_tags i)),
      (''candidate_memory_ids'', json_strings (pf_candidate_memory_ids i)),
      (''subject'', case pf_subject i of None \<Rightarrow> JNull | Some ms \<Rightarrow> JObj ms),
      (''proposed_statement'', JStr (pf_proposed_statement i)), (''target_namespace'', JStr (pf_target_namespace i))]"
    by (simp add: propose_body_def)
  have "fst ` set ms = fst ` set (rev ms)" by simp
  then have "\<forall>k \<in> fst ` set ms. to_lower k = k" unfolding ms(2) by simp
  then have m: "to_lower n = n \<Longrightarrow> member n ms = map_of (rev ms) n" for n by (rule member_lower[rotated])
  have "field (as_uuid parse) 0 ''target_namespace'' ms = parse (pf_target_namespace i)"
    "field decode_subject (in_subject zero_propose) ''subject'' ms =
       decode_subject (case pf_subject i of None \<Rightarrow> JNull | Some ms \<Rightarrow> JObj ms)"
    by (simp_all only: field_def m lower_names) (simp_all add: ms(2))
  with assms show ?thesis by (auto simp: decode_propose_def ms(1) split: option.split)
qed

lemma context_query:
  assumes "tool_request who (GetContext g) = Inr rq" and "gc_limit g \<le> int_max"
  shows "map (query_get rq) [''actor_id'', ''namespaces'', ''tags''] = [gc_actor_id g, gc_namespaces g, gc_tags g]"
    and "(query_get rq ''include_memories'' = ''true'') = gc_include_memories g"
    and "atoi_value (query_get rq ''limit'') = limit_of (gc_limit g)"
proof -
  have rq: "rq = bridge_request who ''GET'' [''context'']
       (set_if ''actor_id'' (gc_actor_id g) @ set_if ''namespaces'' (gc_namespaces g)
        @ (if gc_include_memories g then [(''include_memories'', ''true'')] else [])
        @ set_if ''tags'' (gc_tags g) @ set_limit (gc_limit g)) None"
    using assms(1) by (auto split: if_splits)
  show "map (query_get rq) [''actor_id'', ''namespaces'', ''tags''] = [gc_actor_id g, gc_namespaces g, gc_tags g]"
    "(query_get rq ''include_memories'' = ''true'') = gc_include_memories g"
    "atoi_value (query_get rq ''limit'') = limit_of (gc_limit g)"
    using assms(2) by (simp_all add: rq query_get_bridge set_if_map set_limit_other map_add_def limit_read)
qed

lemma search_query:
  assumes "tool_request who (SearchFacts i) = Inr rq" and "sf_limit i \<le> int_max"
  shows "map (query_get rq) [''q'', ''namespace'', ''status'', ''tag'', ''tags''] =
      [sf_query i, sf_namespace i, sf_status i, sf_tag i, sf_tags i]"
    and "atoi_value (query_get rq ''limit'') = limit_of (sf_limit i)"
proof -
  have rq: "rq = bridge_request who ''GET'' [''facts'']
       (set_if ''q'' (sf_query i) @ set_if ''namespace'' (sf_namespace i) @ set_if ''status'' (sf_status i)
        @ set_if ''tag'' (sf_tag i) @ set_if ''tags'' (sf_tags i) @ set_limit (sf_limit i)) None"
    using assms(1) by simp
  show "map (query_get rq) [''q'', ''namespace'', ''status'', ''tag'', ''tags''] =
      [sf_query i, sf_namespace i, sf_status i, sf_tag i, sf_tags i]"
    "atoi_value (query_get rq ''limit'') = limit_of (sf_limit i)"
    using assms(2) by (simp_all add: rq query_get_bridge set_if_map set_limit_other map_add_def limit_read)
qed

lemma promotions_query:
  assumes "tool_request who (ListMyPromotions st) = Inr rq"
  shows "map (query_get rq) [''proposer'', ''state'', ''namespace''] = [''me'', st, []]"
proof -
  have rq: "rq = bridge_request who ''GET'' [''promotions''] ((''proposer'', ''me'') # set_if ''state'' st) None"
    using assms by simp
  show ?thesis by (simp add: rq query_get_bridge set_if_map)
qed

lemma tool_bodies:
  "tool_request who (ProposeFact pf) = Inr rq \<Longrightarrow> rq_body rq = RawJson (propose_body pf)"
  "tool_request who (ReviewPromotion rv) = Inr rq \<Longrightarrow> rq_body rq = RawJson (review_request_body rv)"
  "tool_request who (SaveMemory content mtype) = Inr rq \<Longrightarrow> rq_body rq = RawJson (save_body content (memory_type mtype))"
  by (auto split: if_splits)

lemma decode_proposal_body:
  "decode_body (decode_propose parse) msg (RawJson (propose_body i)) =
     (case (parse (pf_target_namespace i), decode_subject (case pf_subject i of None \<Rightarrow> JNull | Some ms \<Rightarrow> JObj ms)) of
        (Some ns, Some sub) \<Rightarrow>
          Inr (zero_propose\<lparr>in_target := ns, in_statement := pf_proposed_statement i, in_subject := sub,
            in_memory_ids := (case pf_candidate_memory_ids i of None \<Rightarrow> [] | Some ids \<Rightarrow> ids),
            in_tags := (case pf_tags i of None \<Rightarrow> [] | Some ts \<Rightarrow> ts)\<rparr>)
      | _ \<Rightarrow> Inl (write_error 400 msg))"
proof -
  let ?sub = "decode_subject (case pf_subject i of None \<Rightarrow> JNull | Some ms \<Rightarrow> JObj ms)"
  consider "parse (pf_target_namespace i) = None" | "?sub = None"
    | ns sub where "parse (pf_target_namespace i) = Some ns" "?sub = Some sub" by blast
  then show ?thesis
  proof cases
    case 1
    then show ?thesis using propose_body_refused[of parse i] by (simp add: decode_body_def)
  next
    case 2
    then show ?thesis using propose_body_refused[of parse i] by (cases "parse (pf_target_namespace i)") (simp_all add: decode_body_def)
  next
    case 3
    then show ?thesis using propose_body_read[of parse i, OF 3] by (simp add: decode_body_def)
  qed
qed

section \<open>Where the requests go\<close>

text \<open>The arguments a tool accepts, the endpoint it stands for, and the parameter in the path of its request.\<close>

fun usable :: "tool \<Rightarrow> bool" where
  "usable (SubmitPromotion i) \<longleftrightarrow> i \<noteq> []"
| "usable (ReviewPromotion i) \<longleftrightarrow> rp_action i \<in> {''approve'', ''reject'', ''request-changes''}"
| "usable (SaveMemory content mtype) \<longleftrightarrow> content \<noteq> [] \<and> mtype \<in> {[], ''semantic'', ''procedural'', ''episodic''}"
| "usable _ \<longleftrightarrow> True"

fun tool_endpoint :: "tool \<Rightarrow> endpoint" where
  "tool_endpoint (GetContext _) = EpGetContext"
| "tool_endpoint (SearchFacts _) = EpListFacts"
| "tool_endpoint ListNamespaces = EpListNamespaces"
| "tool_endpoint (ProposeFact _) = EpCreatePromotion"
| "tool_endpoint (SubmitPromotion _) = EpPromotionAction ''submit''"
| "tool_endpoint (ListMyPromotions _) = EpListPromotions"
| "tool_endpoint (ReviewPromotion i) = EpPromotionAction (rp_action i)"
| "tool_endpoint (SaveMemory _ _) = EpAddMemory"

fun tool_params :: "tool \<Rightarrow> params" where
  "tool_params (SubmitPromotion i) = [''id'' \<mapsto> i]"
| "tool_params (ReviewPromotion i) = [''id'' \<mapsto> rp_promotion_id i]"
| "tool_params _ = Map.empty"

lemma tool_request_usable: "(\<exists>rq. tool_request who t = Inr rq) \<longleftrightarrow> usable t"
  by (cases t) (auto simp: memory_type_def)

text \<open>
  What \<^verbatim>\<open>chi\<close> documents of a route: a request with its method and a path that fits its pattern, a placeholder
  taking one segment that is not empty, is served by it; a pattern mounted with a trailing slash also without.
\<close>

definition pattern_path :: "string \<Rightarrow> string list" where
  "pattern_path pattern = filter (\<lambda>seg. seg \<noteq> []) (split_on CHR ''/'' pattern)"

definition serves_routes :: "server \<Rightarrow> bool" where
  "serves_routes s \<longleftrightarrow> (\<forall>verb pattern ep rq ps. (verb, pattern, ep) \<in> set routes \<longrightarrow> rq_method rq = verb \<longrightarrow>
     [] \<notin> set (rq_path rq) \<longrightarrow> match_segments (pattern_path pattern) (rq_path rq) = Some ps \<longrightarrow>
     srv_router s routes rq = Inr (ep, ps))"

lemma bridge_routed:
  assumes "serves_routes s" and "(verb, pattern, ep) \<in> set routes" and "[] \<notin> set path"
    and "match_segments (pattern_path pattern) (''v1'' # path) = Some ps"
  shows "srv_router s routes (bridge_request who verb path qs body) = Inr (ep, ps)"
  using assms unfolding serves_routes_def by (auto simp: bridge_request_def)

lemma tool_patterns:
  "(''GET'', ''/v1/context'', EpGetContext) \<in> set routes" "(''GET'', ''/v1/facts/'', EpListFacts) \<in> set routes"
  "(''GET'', ''/v1/namespaces/'', EpListNamespaces) \<in> set routes" "(''POST'', ''/v1/promotions/'', EpCreatePromotion) \<in> set routes"
  "(''GET'', ''/v1/promotions/'', EpListPromotions) \<in> set routes" "(''POST'', ''/v1/memories'', EpAddMemory) \<in> set routes"
  "a \<in> {''submit'', ''approve'', ''reject'', ''request-changes''} \<Longrightarrow>
     (''POST'', ''/v1/promotions/{id}/'' @ a, EpPromotionAction a) \<in> set routes"
  by (auto simp: routes_def)

lemma tool_paths [simp]:
  "pattern_path ''/v1/context'' = [''v1'', ''context'']" "pattern_path ''/v1/facts/'' = [''v1'', ''facts'']"
  "pattern_path ''/v1/namespaces/'' = [''v1'', ''namespaces'']" "pattern_path ''/v1/promotions/'' = [''v1'', ''promotions'']"
  "pattern_path ''/v1/memories'' = [''v1'', ''memories'']"
  "a \<in> {''submit'', ''approve'', ''reject'', ''request-changes''} \<Longrightarrow>
     pattern_path (''/v1/promotions/{id}/'' @ a) = [''v1'', ''promotions'', ''{id}'', a]"
  by (auto simp: pattern_path_def)

lemma action_routed:
  assumes "serves_routes s" and a: "a \<in> {''submit'', ''approve'', ''reject'', ''request-changes''}" and "i \<noteq> []"
  shows "srv_router s routes (bridge_request who ''POST'' [''promotions'', i, a] qs body) = Inr (EpPromotionAction a, [''id'' \<mapsto> i])"
proof (rule bridge_routed[OF assms(1) tool_patterns(7)[OF a]])
  show "[] \<notin> set [''promotions'', i, a]" using assms(2,3) by auto
  have "\<not> has_prefix a ''{''" using a by (auto simp: has_prefix_def)
  then show "match_segments (pattern_path (''/v1/promotions/{id}/'' @ a)) (''v1'' # [''promotions'', i, a]) = Some [''id'' \<mapsto> i]"
    unfolding tool_paths(6)[OF a] by (simp add: has_prefix_def)
qed

lemma tool_routed:
  assumes "serves_routes s" and "tool_request who t = Inr rq" and "[] \<notin> ran (tool_params t)"
  shows "srv_router s routes rq = Inr (tool_endpoint t, tool_params t)"
proof (cases t)
  case (SubmitPromotion i)
  then show ?thesis using assms(2,3) action_routed[OF assms(1), of "''submit''" i] by (auto split: if_splits)
next
  case (ReviewPromotion i)
  then show ?thesis
    using assms(2,3) action_routed[OF assms(1), of "rp_action i" "rp_promotion_id i"] by (auto split: if_splits)
qed (use assms(2) in \<open>auto simp: has_prefix_def split: if_splits intro!: bridge_routed[OF assms(1)] tool_patterns\<close>)

section \<open>Properties\<close>

lemma serve_bridged:
  assumes "srv_auth s = header_authenticator" and "plans_ok w" and "rq = bridge_request who verb path qs body"
  shows "\<exists>r d'. run (serve s w rq) fs d = (Inr r, d') \<and> (d' = d \<or> trim_space who \<noteq> [] \<and> (\<exists>ep ps.
      srv_router s routes rq = Inr (ep, ps) \<and> permits s rq ps d \<lparr>pr_id = trim_space who, pr_platform_admin = False\<rparr> ep))"
proof (cases "srv_router s routes rq")
  case (Inl r)
  then show ?thesis by (simp add: serve_def run_def return_sql_def)
next
  case route: (Inr x)
  obtain ep ps where x: "x = (ep, ps)" by fastforce
  show ?thesis
    using serve_changes[OF route[unfolded x] assms(2), of fs d] bridge_auth[of who verb path qs body] route x
    by (auto simp: assms(1,3) split: if_splits)
qed

text \<open>
  C34. A tool call is answered as the REST request it stands for, and adds no power. A tool whose arguments
  are not usable is refused with a message and nothing happens. For any other the server serves one request,
  which \<^verbatim>\<open>chi\<close> routes to the endpoint of the tool with the promotion's id, and the result is the body of its
  answer, as a text exactly when the status is a success and otherwise as an error with the status. The store
  changes only if the request reaches an endpoint whose permission the bridge's principal holds as an ordinary
  principal, never as a platform admin, and never without a principal; a failed call changes nothing.
\<close>

theorem bridge_confined:
  assumes "srv_auth s = header_authenticator" and "plans_ok w"
  shows "\<exists>res d'. run (call_tool (serve s w) who t) fs d = (Inr res, d') \<and>
    (is_error res \<longrightarrow> d' = d) \<and>
    (case tool_request who t of
       Inl msg \<Rightarrow> \<not> usable t \<and> res = ToolInvalid msg
     | Inr rq \<Rightarrow> usable t \<and>
         (serves_routes s \<and> [] \<notin> ran (tool_params t) \<longrightarrow> srv_router s routes rq = Inr (tool_endpoint t, tool_params t)) \<and>
         (\<exists>r. run (serve s w rq) fs d = (Inr r, d') \<and>
            res = (if 200 \<le> rs_status r \<and> rs_status r < 300 then ToolText (rs_body r)
                   else ToolStatus rq (rs_status r) (rs_body r)))) \<and>
    (d' = d \<or> trim_space who \<noteq> [] \<and> (\<exists>rq ep ps. tool_request who t = Inr rq \<and>
       srv_router s routes rq = Inr (ep, ps) \<and>
       permits s rq ps d \<lparr>pr_id = trim_space who, pr_platform_admin = False\<rparr> ep))"
proof (cases "tool_request who t")
  case (Inl msg)
  then show ?thesis using tool_request_usable[of who t] by (simp add: call_tool_def run_def return_sql_def)
next
  case (Inr rq)
  obtain verb path qs body where rq: "rq = bridge_request who verb path qs body"
    using tool_request_bridge[OF Inr] by blast
  obtain r d' where r: "run (serve s w rq) fs d = (Inr r, d')" "d' = d \<or> trim_space who \<noteq> [] \<and> (\<exists>ep ps.
      srv_router s routes rq = Inr (ep, ps) \<and> permits s rq ps d \<lparr>pr_id = trim_space who, pr_platform_admin = False\<rparr> ep)"
    using serve_bridged[OF assms rq] by blast
  let ?res = "if 200 \<le> rs_status r \<and> rs_status r < 300 then ToolText (rs_body r) else ToolStatus rq (rs_status r) (rs_body r)"
  have "run (call_tool (serve s w) who t) fs d = (Inr ?res, d')"
    using r(1) by (auto simp: call_tool_def Inr bridge_call_def run_def bind_sql_def return_sql_def split: prod.splits)
  moreover have "is_error ?res \<longrightarrow> d' = d" using serve_error_clean[OF r(1)] by auto
  moreover have "usable t" using tool_request_usable[of who t] Inr by blast
  moreover have "serves_routes s \<and> [] \<notin> ran (tool_params t) \<longrightarrow> srv_router s routes rq = Inr (tool_endpoint t, tool_params t)"
    using tool_routed[OF _ Inr] by blast
  ultimately show ?thesis using r Inr by (intro exI[of _ ?res] exI[of _ d'] conjI) (assumption | auto)+
qed

text \<open>
  C35. What a tool is given is what the handler reads. Every usable tool becomes a request, and each of its
  arguments survives the encoding into a path, a query or a body and the handler's decoding of it, an absent
  one as the handler's default; a proposal whose namespace is no id or whose subject is malformed is
  refused by the handler, not altered.
\<close>

fun tool_limit :: "tool \<Rightarrow> int" where
  "tool_limit (GetContext g) = gc_limit g"
| "tool_limit (SearchFacts i) = sf_limit i"
| "tool_limit _ = 0"


text \<open>A router as \<^verbatim>\<open>chi\<close> documents it: the first route whose method and pattern fit.\<close>

fun mounted_router :: "route list \<Rightarrow> request \<Rightarrow> response + endpoint \<times> params" where
  "mounted_router [] rq = Inl (write_error 404 ''not found'')"
| "mounted_router ((verb, pattern, ep) # rs) rq =
     (case match_segments (pattern_path pattern) (rq_path rq) of
        Some ps \<Rightarrow> if verb = rq_method rq then Inr (ep, ps) else mounted_router rs rq
      | None \<Rightarrow> mounted_router rs rq)"

definition mounted_server :: server where
  "mounted_server = new_server header_authenticator mounted_router (\<lambda>t. if t = ''10'' then Some 10 else None)"

lemma match_placeholder [simp]:
  "match_segments (p # ps) xs = Some m \<longleftrightarrow> (\<exists>x ys. xs = x # ys \<and>
     (if has_prefix p ''{'' then \<exists>m'. match_segments ps ys = Some m' \<and> m = m'(butlast (tl p) \<mapsto> x)
      else p = x \<and> match_segments ps ys = Some m))"
  "match_segments [] xs = Some m \<longleftrightarrow> xs = [] \<and> m = Map.empty"
  by (cases xs; auto)+

lemma other_paths [simp]:
  "pattern_path ''/healthz'' = [''healthz'']"
  "pattern_path ''/readyz'' = [''readyz'']"
  "pattern_path ''/v1/namespaces/{id}'' = [''v1'', ''namespaces'', ''{id}'']"
  "pattern_path ''/v1/namespaces/{id}/members'' = [''v1'', ''namespaces'', ''{id}'', ''members'']"
  "pattern_path ''/v1/namespaces/{id}/members/{principal}'' = [''v1'', ''namespaces'', ''{id}'', ''members'', ''{principal}'']"
  "pattern_path ''/v1/promotions/{id}'' = [''v1'', ''promotions'', ''{id}'']"
  "pattern_path ''/v1/promotions/{id}/submit'' = [''v1'', ''promotions'', ''{id}'', ''submit'']"
  "pattern_path ''/v1/promotions/{id}/approve'' = [''v1'', ''promotions'', ''{id}'', ''approve'']"
  "pattern_path ''/v1/promotions/{id}/reject'' = [''v1'', ''promotions'', ''{id}'', ''reject'']"
  "pattern_path ''/v1/promotions/{id}/request-changes'' = [''v1'', ''promotions'', ''{id}'', ''request-changes'']"
  "pattern_path ''/v1/promotions/{id}/withdraw'' = [''v1'', ''promotions'', ''{id}'', ''withdraw'']"
  "pattern_path ''/v1/facts/{id}'' = [''v1'', ''facts'', ''{id}'']"
  "pattern_path ''/v1/facts/{id}/history'' = [''v1'', ''facts'', ''{id}'', ''history'']"
  by (simp_all add: pattern_path_def)

lemma mounted_serves: "serves_routes mounted_server"
  unfolding serves_routes_def
proof (intro allI impI)
  fix verb pattern ep ps and rq :: request
  assume "(verb, pattern, ep) \<in> set routes" "rq_method rq = verb" "[] \<notin> set (rq_path rq)"
    "match_segments (pattern_path pattern) (rq_path rq) = Some ps"
  then show "srv_router mounted_server routes rq = Inr (ep, ps)"
    unfolding mounted_server_def new_server_def new_with_memory_def routes_def list.set insert_iff empty_iff
    by (elim disjE; clarsimp simp: has_prefix_def)
qed

text \<open>A call without a principal, and arguments of each kind.\<close>

theorem bridge_confined_witness:
  "\<exists>rq. tool_request [] (SubmitPromotion ''10'') = Inr rq \<and>
     srv_router mounted_server routes rq = Inr (EpPromotionAction ''submit'', [''id'' \<mapsto> ''10'']) \<and>
     (\<exists>res r. run (call_tool (serve mounted_server sample_world) [] (SubmitPromotion ''10'')) [] one_fact = (Inr res, one_fact) \<and>
        run (serve mounted_server sample_world rq) [] one_fact = (Inr r, one_fact) \<and>
        res = (if 200 \<le> rs_status r \<and> rs_status r < 300 then ToolText (rs_body r) else ToolStatus rq (rs_status r) (rs_body r)))"
proof -
  have a: "srv_auth mounted_server = header_authenticator"
    by (simp add: mounted_server_def new_server_def new_with_memory_def)
  from bridge_confined[OF a sample_plans, of "[]" "SubmitPromotion ''10''" "[]" one_fact] mounted_serves
  show ?thesis by auto
qed

definition tag_search :: search_facts_in where
  "tag_search = \<lparr>sf_query = ''tabs'', sf_namespace = [], sf_status = ''active'', sf_tag = [], sf_tags = ''go'', sf_limit = 5\<rparr>"

definition approve_call :: review_promotion_in where
  "approve_call = \<lparr>rp_promotion_id = ''20'', rp_action = ''approve'', rp_comment = ''ok'', rp_suggested_statement = []\<rparr>"


end
