(* ===== verification/Metrics.thy ===== *)
theory Metrics
  imports Reaper Promotions_Service
begin

text \<open>
  The named metrics (\<^verbatim>\<open>internal/metrics\<close>): the callback that counts rows when the gauges are read, and the
  approval latency. The meter is the library's; an observation is a name, the namespace label if any, and
  the value. A count that fails is left out; a failing queue depth ends the callback with its error.
\<close>

section \<open>The gauges\<close>

record observation =
  ob_gauge :: string
  ob_namespace :: "uuid option"
  ob_value :: nat

definition scalar :: "(db \<Rightarrow> nat) \<Rightarrow> (db, nat) sql" where
  "scalar f = on_pool (query f)"

definition expiring :: "timestamp \<Rightarrow> fact_row \<Rightarrow> bool" where
  "expiring now f \<longleftrightarrow>
     f_status f = StatusActive \<and> (case f_valid_to f of None \<Rightarrow> False | Some t \<Rightarrow> t \<le> now + day)"

definition open_promotion :: "promotion \<Rightarrow> bool" where
  "open_promotion p \<longleftrightarrow> p_state p = StatePending \<or> p_state p = StateInReview"

definition count_active :: "db \<Rightarrow> nat" where
  "count_active d = length (filter (\<lambda>f. f_status f = StatusActive) (facts_tbl d))"

definition count_expiring :: "timestamp \<Rightarrow> db \<Rightarrow> nat" where
  "count_expiring now d = length (filter (expiring now) (facts_tbl d))"

definition count_conflicts :: "db \<Rightarrow> nat" where
  "count_conflicts d = length (filter (\<lambda>p. open_promotion p \<and> p_conflict_with p \<noteq> None) (promotions_tbl d))"

text \<open>\<^verbatim>\<open>GROUP BY target_namespace_id\<close>: one row for each namespace that occurs, in the order \<open>plan\<close>.\<close>

definition queue_depths :: "(uuid list \<Rightarrow> uuid list) \<Rightarrow> db \<Rightarrow> (uuid \<times> nat) list" where
  "queue_depths plan d =
     (let targets = map p_target_namespace_id (filter open_promotion (promotions_tbl d))
      in map (\<lambda>ns. (ns, count_list targets ns)) (plan (remdups targets)))"

definition observe :: "string \<Rightarrow> (db, nat) sql \<Rightarrow> (db, observation list) sql" where
  "observe gauge m =
     bind_sql (attempt m) (\<lambda>r. case r of
        Inl e \<Rightarrow> return_sql []
      | Inr n \<Rightarrow> return_sql [\<lparr>ob_gauge = gauge, ob_namespace = None, ob_value = n\<rparr>])"

definition observe_queue_depth :: "(uuid list \<Rightarrow> uuid list) \<Rightarrow> (db, observation list \<times> error option) sql" where
  "observe_queue_depth plan =
     bind_sql (attempt (on_pool (query (queue_depths plan)))) (\<lambda>r. case r of
        Inl e \<Rightarrow> return_sql ([], Some e)
      | Inr rows \<Rightarrow> return_sql (map (\<lambda>(ns, n).
          \<lparr>ob_gauge = ''promotion_queue_depth'', ob_namespace = Some ns, ob_value = n\<rparr>) rows, None))"

definition collect :: "timestamp \<Rightarrow> (uuid list \<Rightarrow> uuid list) \<Rightarrow> (db, observation list \<times> error option) sql" where
  "collect now plan =
     bind_sql (observe ''facts_active'' (scalar count_active)) (\<lambda>a.
     bind_sql (observe ''facts_expiring_24h'' (scalar (count_expiring now))) (\<lambda>b.
     bind_sql (observe ''conflicts_open'' (scalar count_conflicts)) (\<lambda>c.
     bind_sql (observe_queue_depth plan) (\<lambda>(q, e).
     return_sql (a @ b @ c @ q, e)))))"

section \<open>The instruments\<close>

datatype metrics_error = InstrumentError string | CallbackError

text \<open>What \<^verbatim>\<open>New\<close> gives: the histogram with what it has recorded, and the gauges its callback observes.\<close>

record metrics =
  mx_latency :: "int list option"
  mx_gauges :: "string list"

text \<open>One instrument of the meter, which may refuse it.\<close>

definition instrument ::
    "(string \<Rightarrow> bool) \<Rightarrow> string \<Rightarrow> (string \<Rightarrow> metrics_error + 'a) \<Rightarrow> metrics_error + 'a" where
  "instrument refused name k = (if refused name then Inl (InstrumentError name) else k name)"

definition new_metrics :: "(string \<Rightarrow> bool) \<Rightarrow> bool \<Rightarrow> bool \<Rightarrow> metrics_error + metrics" where
  "new_metrics refused callback_refused with_pool =
     instrument refused ''approval_latency_seconds'' (\<lambda>_.
       if \<not> with_pool then Inr \<lparr>mx_latency = Some [], mx_gauges = []\<rparr>
       else
         instrument refused ''facts_active'' (\<lambda>active.
         instrument refused ''facts_expiring_24h'' (\<lambda>expiring.
         instrument refused ''conflicts_open'' (\<lambda>conflicts.
         instrument refused ''promotion_queue_depth'' (\<lambda>depth.
           if callback_refused then Inl CallbackError
           else Inr \<lparr>mx_latency = Some [], mx_gauges = [active, expiring, conflicts, depth]\<rparr>)))))"

text \<open>A reading of the gauges: with no pool there are none and nothing is counted.\<close>

definition read_gauges ::
    "metrics \<Rightarrow> timestamp \<Rightarrow> (uuid list \<Rightarrow> uuid list) \<Rightarrow> (db, observation list \<times> error option) sql" where
  "read_gauges mx now plan = (if mx_gauges mx = [] then return_sql ([], None) else collect now plan)"

text \<open>\<^verbatim>\<open>RecordApprovalLatency\<close>: safe on a missing recorder or histogram; the histogram keeps what it is given.\<close>

definition record_approval_latency :: "metrics option \<Rightarrow> int \<Rightarrow> metrics option" where
  "record_approval_latency m seconds =
     (case m of
        None \<Rightarrow> None
      | Some mx \<Rightarrow> (case mx_latency mx of
            None \<Rightarrow> Some mx
          | Some hist \<Rightarrow> Some (mx\<lparr>mx_latency := Some (hist @ [seconds])\<rparr>)))"

text \<open>What \<^verbatim>\<open>Approve\<close> records once it has committed: one duration exactly when the promotion is approved.\<close>

definition record_approval :: "metrics option \<Rightarrow> timestamp \<Rightarrow> error + promotion \<Rightarrow> metrics option" where
  "record_approval m wall r =
     (case approval_latency wall r of None \<Rightarrow> m | Some seconds \<Rightarrow> record_approval_latency m seconds)"

lemma record_approval_once:
  assumes "mx_latency mx = Some hist"
  shows "record_approval (Some mx) wall r = Some (mx\<lparr>mx_latency := Some (hist @
     (case r of Inl e \<Rightarrow> [] | Inr p \<Rightarrow> if p_state p = StateApproved then [wall - p_created_at p] else []))\<rparr>)"
  using assms by (cases r) (simp_all add: record_approval_def approval_latency_def record_approval_latency_def)

section \<open>What is counted\<close>

lemma sum_count_list: "(\<Sum>x \<leftarrow> remdups xs. count_list xs x) = length xs"
proof -
  have "(\<Sum>x \<leftarrow> remdups xs. count_list xs x) = sum (count_list xs) (set xs)"
    by (simp add: sum_list_distinct_conv_sum_set)
  then show ?thesis by (simp add: sum_count_set)
qed

lemma expiring_split:
  "length (filter (expiring now) t) = length (filter (due now) t) + length (filter (due_soon now) t)"
  by (induction t) (auto simp: expiring_def due_def due_soon_def day_def split: option.splits)

lemma observe_total: "\<exists>os s'. observe g (scalar f) s = (Inr os, s') \<and> store s' = store s"
  by (auto simp: observe_def scalar_def on_pool_def query_def stmt_def bind_sql_def attempt_def return_sql_def
      split: prod.split bool.split sum.split)

lemma observe_queue_total: "\<exists>x s'. observe_queue_depth plan s = (Inr x, s') \<and> store s' = store s"
  by (auto simp: observe_queue_depth_def on_pool_def query_def stmt_def bind_sql_def attempt_def return_sql_def
      split: prod.split bool.split sum.split)

lemma collect_total: "\<exists>x. run (collect now plan) fs d = (Inr x, d)"
proof -
  let ?s = "\<lparr>store = d, aborted = False, faults = fs\<rparr>"
  obtain a s1 where 1: "observe ''facts_active'' (scalar count_active) ?s = (Inr a, s1)" "store s1 = d"
    using observe_total[of _ _ ?s] by fastforce
  obtain b s2 where 2: "observe ''facts_expiring_24h'' (scalar (count_expiring now)) s1 = (Inr b, s2)" "store s2 = d"
    using observe_total[of _ _ s1] 1(2) by metis
  obtain c s3 where 3: "observe ''conflicts_open'' (scalar count_conflicts) s2 = (Inr c, s3)" "store s3 = d"
    using observe_total[of _ _ s2] 2(2) by metis
  obtain x s4 where 4: "observe_queue_depth plan s3 = (Inr x, s4)" "store s4 = d"
    using observe_queue_total[of plan s3] 3(2) by metis
  show ?thesis using 1 2 3 4 by (simp add: collect_def run_def bind_sql_def return_sql_def split: prod.split)
qed

text \<open>
  Metrics are all or nothing: they exist exactly when the meter took every instrument, and then each
  reading observes only gauges that were registered.
\<close>

lemma new_metrics_all:
  "(\<exists>mx. new_metrics refused callback_refused True = Inr mx) \<longleftrightarrow>
     \<not> callback_refused \<and> list_all (\<lambda>n. \<not> refused n)
       [''approval_latency_seconds'', ''facts_active'', ''facts_expiring_24h'', ''conflicts_open'', ''promotion_queue_depth'']"
  by (simp add: new_metrics_def instrument_def)

lemma observes_one: "observe g m s = (Inr os, s') \<Longrightarrow> ob_gauge ` set os \<subseteq> {g}"
  by (auto simp: observe_def bind_sql_def attempt_def return_sql_def split: prod.splits sum.splits)

lemma observes_depth:
  "observe_queue_depth plan s = (Inr (os, e), s') \<Longrightarrow> ob_gauge ` set os \<subseteq> {''promotion_queue_depth''}"
  by (auto simp: observe_queue_depth_def bind_sql_def attempt_def return_sql_def split: prod.splits sum.splits)

lemma four_subsets: "A \<subseteq> {a} \<Longrightarrow> B \<subseteq> {b} \<Longrightarrow> C \<subseteq> {c} \<Longrightarrow> D \<subseteq> {e} \<Longrightarrow> A \<union> (B \<union> (C \<union> D)) \<subseteq> set [a, b, c, e]"
  by auto

lemma read_registered:
  assumes "new_metrics refused callback_refused with_pool = Inr mx" and "run (read_gauges mx now plan) fs d = (Inr (os, e), d')"
  shows "ob_gauge ` set os \<subseteq> set (mx_gauges mx)"
proof (cases with_pool)
  case False
  then show ?thesis
    using assms by (auto simp: new_metrics_def instrument_def read_gauges_def run_def return_sql_def split: if_splits)
next
  case True
  then have g: "mx_gauges mx = [''facts_active'', ''facts_expiring_24h'', ''conflicts_open'', ''promotion_queue_depth'']"
    using assms(1) by (auto simp: new_metrics_def instrument_def split: if_splits)
  then obtain a b c q s1 s2 s3 s4 s5 where os: "os = a @ b @ c @ q"
      and o: "observe ''facts_active'' (scalar count_active) s1 = (Inr a, s2)"
        "observe ''facts_expiring_24h'' (scalar (count_expiring now)) s2 = (Inr b, s3)"
        "observe ''conflicts_open'' (scalar count_conflicts) s3 = (Inr c, s4)"
        "observe_queue_depth plan s4 = (Inr (q, e), s5)"
    using assms(2) by (auto simp: read_gauges_def collect_def run_def bind_sql_def return_sql_def split: prod.splits sum.splits)
  show ?thesis unfolding g os set_append image_Un
    by (rule four_subsets[OF observes_one[OF o(1)] observes_one[OF o(2)] observes_one[OF o(3)] observes_depth[OF o(4)]])
qed

text \<open>What the gauges are named for, over the rows of the store: the facts, and the promotions, with a property.\<close>

abbreviation facts_with :: "db \<Rightarrow> (fact_row \<Rightarrow> bool) \<Rightarrow> uuid set" where
  "facts_with d P \<equiv> {i. \<exists>f. fact_at d i = Some f \<and> P f}"

abbreviation promotions_with :: "db \<Rightarrow> (promotion \<Rightarrow> bool) \<Rightarrow> uuid set" where
  "promotions_with d P \<equiv> {i. \<exists>p. promotion_at d i = Some p \<and> P p}"

lemma card_rows:
  assumes "distinct (map key t)"
  shows "card {i. \<exists>r. tbl_get key i t = Some r \<and> P r} = length (filter P t)"
proof -
  have "{i. \<exists>r. tbl_get key i t = Some r \<and> P r} = key ` set (filter P t)"
    using assms by (auto simp: tbl_get_def dest: find_SomeD intro!: find_unique intro: distinct_map_inj)
  also have "card \<dots> = length (filter P t)"
    using distinct_map_filter[OF assms] by (simp only: set_map[symmetric] distinct_card length_map)
  finally show ?thesis .
qed

lemma card_facts: "schema_ok d \<Longrightarrow> card (facts_with d P) = length (filter P (facts_tbl d))"
  by (rule card_rows, rule facts_ok_ids[of d]) (simp add: schema_ok_def)

lemma card_promotions: "schema_ok d \<Longrightarrow> card (promotions_with d P) = length (filter P (promotions_tbl d))"
  by (rule card_rows) (simp add: schema_ok_def promotions_ok_def)

lemma counts:
  assumes "schema_ok d"
  shows "count_active d = card (facts_with d (\<lambda>f. f_status f = StatusActive))"
    and "count_expiring now d = card (facts_with d (\<lambda>f. f_status f = StatusActive \<and> (\<exists>t. f_valid_to f = Some t \<and> t \<le> now + day)))"
    and "count_conflicts d =
      card (promotions_with d (\<lambda>p. p_state p \<in> {StatePending, StateInReview} \<and> p_conflict_with p \<noteq> None))"
proof -
  have "expiring now = (\<lambda>f. f_status f = StatusActive \<and> (\<exists>t. f_valid_to f = Some t \<and> t \<le> now + day))"
    by (auto simp: fun_eq_iff expiring_def split: option.split)
  then show "count_expiring now d = card (facts_with d (\<lambda>f. f_status f = StatusActive \<and> (\<exists>t. f_valid_to f = Some t \<and> t \<le> now + day)))"
    by (simp only: card_facts[OF assms] count_expiring_def)
  show "count_active d = card (facts_with d (\<lambda>f. f_status f = StatusActive))"
    by (simp only: card_facts[OF assms] count_active_def)
  show "count_conflicts d =
      card (promotions_with d (\<lambda>p. p_state p \<in> {StatePending, StateInReview} \<and> p_conflict_with p \<noteq> None))"
    by (simp add: card_promotions[OF assms] count_conflicts_def open_promotion_def)
qed

lemma depths:
  assumes "schema_ok d" and "\<And>xs. mset (plan xs) = mset xs"
  shows "\<exists>nss. distinct nss \<and>
    set nss = p_target_namespace_id ` {p \<in> set (promotions_tbl d). p_state p \<in> {StatePending, StateInReview}} \<and>
    queue_depths plan d = map (\<lambda>ns. (ns, card (promotions_with d
      (\<lambda>p. p_state p \<in> {StatePending, StateInReview} \<and> p_target_namespace_id p = ns)))) nss"
proof (intro exI conjI)
  let ?open = "filter open_promotion (promotions_tbl d)"
  let ?nss = "plan (remdups (map p_target_namespace_id ?open))"
  have m: "mset ?nss = mset (remdups (map p_target_namespace_id ?open))" by (rule assms(2))
  then show "distinct ?nss" using distinct_remdups by (metis mset_eq_imp_distinct_iff)
  show "set ?nss = p_target_namespace_id ` {p \<in> set (promotions_tbl d). p_state p \<in> {StatePending, StateInReview}}"
    using mset_eq_setD[OF m] by (auto simp: open_promotion_def)
  have "count_list (map p_target_namespace_id ?open) ns = card (promotions_with d
      (\<lambda>p. p_state p \<in> {StatePending, StateInReview} \<and> p_target_namespace_id p = ns))" for ns
  proof -
    have "count_list (map key (filter P t)) ns = length (filter (\<lambda>p. P p \<and> key p = ns) t)"
      for t :: "promotion list" and P and key :: "promotion \<Rightarrow> uuid"
      by (induction t) auto
    then show ?thesis by (simp add: card_promotions[OF assms(1)] open_promotion_def)
  qed
  then show "queue_depths plan d = map (\<lambda>ns. (ns, card (promotions_with d
      (\<lambda>p. p_state p \<in> {StatePending, StateInReview} \<and> p_target_namespace_id p = ns)))) ?nss"
    by (simp add: queue_depths_def Let_def)
qed

lemma depths_sum:
  assumes "\<And>xs. mset (plan xs) = mset xs"
  shows "sum_list (map snd (queue_depths plan d)) = length (filter open_promotion (promotions_tbl d))"
proof -
  let ?t = "map p_target_namespace_id (filter open_promotion (promotions_tbl d))"
  have m: "mset (map (count_list ?t) (plan (remdups ?t))) = mset (map (count_list ?t) (remdups ?t))"
    using assms by (simp only: mset_map)
  have "map snd (queue_depths plan d) = map (count_list ?t) (plan (remdups ?t))"
    by (simp add: queue_depths_def Let_def comp_def)
  then have "sum_list (map snd (queue_depths plan d)) = (\<Sum>x \<leftarrow> remdups ?t. count_list ?t x)"
    using m by (simp only: sum_mset_sum_list[symmetric])
  then show ?thesis by (simp only: sum_count_list length_map)
qed

lemma run_collect:
  "run (collect now plan) [] d = (Inr
     (map (\<lambda>(g, n). \<lparr>ob_gauge = g, ob_namespace = None, ob_value = n\<rparr>)
        [(''facts_active'', count_active d), (''facts_expiring_24h'', count_expiring now d),
         (''conflicts_open'', count_conflicts d)]
      @ map (\<lambda>(ns, n). \<lparr>ob_gauge = ''promotion_queue_depth'', ob_namespace = Some ns, ob_value = n\<rparr>) (queue_depths plan d),
      None), d)"
  by (simp add: collect_def observe_def scalar_def observe_queue_depth_def sql_run)

text \<open>A reap pass reports the facts the gauge shows before it: those it expires and those due within a day.\<close>

lemma reap_counts:
  assumes "facts_ok d (facts_tbl d)" and "run (reap now rows) fs d = (Inr r, d')" and "\<And>t. mset (rows t) = mset t"
  shows "count_expiring now d = rr_expired r + rr_expiring_soon r" and "count_expiring now d' = rr_expiring_soon r"
proof -
  have run: "exec (reap_body now rows) d r d'"
    using run_in_tx_Inr[OF well_behaved_reap_body] assms(2) unfolding reap_def by blast
  note tbl = reap_tbl[OF assms]
  have "filter (due now) (facts_tbl d') = []"
    unfolding tbl by (auto simp: filter_empty_conv reaped_def)
  then show "count_expiring now d' = rr_expiring_soon r"
    using reap_body_exec[OF run] by (simp add: count_expiring_def expiring_split)
  have "length (filter (due now) (rows (facts_tbl d))) = length (filter (due now) (facts_tbl d))"
    by (metis assms(3) mset_filter size_mset)
  moreover have "length (filter (due_soon now) (map (reaped now) t)) = length (filter (due_soon now) t)" for t
    by (induction t) (auto simp: reaped_def due_def due_soon_def split: option.splits)
  ultimately show "count_expiring now d = rr_expired r + rr_expiring_soon r"
    using reap_body_exec[OF run] tbl by (simp add: count_expiring_def expiring_split)
qed

text \<open>What a collection with nothing failing reports, in terms of the rows.\<close>

lemma run_collected:
  assumes "schema_ok d" and "\<And>xs. mset (plan xs) = mset xs"
  shows "\<exists>nss depth. run (collect now plan) [] d = (Inr
    (map (\<lambda>(g, n). \<lparr>ob_gauge = g, ob_namespace = None, ob_value = n\<rparr>)
       [(''facts_active'', card (facts_with d (\<lambda>f. f_status f = StatusActive))),
        (''facts_expiring_24h'', card (facts_with d
           (\<lambda>f. f_status f = StatusActive \<and> (\<exists>t. f_valid_to f = Some t \<and> t \<le> now + day)))),
        (''conflicts_open'', card (promotions_with d
           (\<lambda>p. p_state p \<in> {StatePending, StateInReview} \<and> p_conflict_with p \<noteq> None)))]
     @ map (\<lambda>ns. \<lparr>ob_gauge = ''promotion_queue_depth'', ob_namespace = Some ns, ob_value = depth ns\<rparr>) nss, None), d) \<and>
    distinct nss \<and> set nss = p_target_namespace_id ` {p \<in> set (promotions_tbl d). p_state p \<in> {StatePending, StateInReview}} \<and>
    depth = (\<lambda>ns. card (promotions_with d (\<lambda>p. p_state p \<in> {StatePending, StateInReview} \<and> p_target_namespace_id p = ns))) \<and>
    sum_list (map depth nss) = card (promotions_with d (\<lambda>p. p_state p \<in> {StatePending, StateInReview}))"
proof -
  let ?depth = "\<lambda>ns. card (promotions_with d (\<lambda>p. p_state p \<in> {StatePending, StateInReview} \<and> p_target_namespace_id p = ns))"
  obtain nss where n: "distinct nss"
    "set nss = p_target_namespace_id ` {p \<in> set (promotions_tbl d). p_state p \<in> {StatePending, StateInReview}}" and
    q: "queue_depths plan d = map (\<lambda>ns. (ns, ?depth ns)) nss"
    using depths[OF assms] by blast
  have o: "(\<lambda>p. p_state p \<in> {StatePending, StateInReview}) = open_promotion"
    by (simp add: fun_eq_iff open_promotion_def)
  have "card (promotions_with d (\<lambda>p. p_state p \<in> {StatePending, StateInReview})) =
      length (filter open_promotion (promotions_tbl d))"
    unfolding card_promotions[OF assms(1)] o ..
  then have "sum_list (map ?depth nss) = card (promotions_with d (\<lambda>p. p_state p \<in> {StatePending, StateInReview}))"
    using depths_sum[OF assms(2), of d] by (simp only: q map_map comp_def snd_conv)
  with n show ?thesis
    by (intro exI[of _ nss] exI[of _ ?depth] conjI)
      (simp_all only: run_collect counts[OF assms(1)] q list.map map_map comp_def prod.case)
qed

text \<open>
  C36. The metrics count what is there and change nothing. Whatever fails, a collection leaves the store alone;
  with nothing failing it reports how many facts are active, how many active facts are due within a day or
  overdue, how many promotions that are pending or in review have a recorded conflict, and for each namespace
  with such promotions how many it has, which add up to all of them. What a pass of the reaper reports as
  expired and as due within a day adds up to the second gauge as it was before the pass, and the latter is
  the gauge after it.
\<close>

theorem metrics_exact:
  assumes "schema_ok d" and "\<And>xs. mset (plan xs) = mset xs" and "\<And>t. mset (rows t) = mset t"
  shows "(\<exists>x. run (collect now plan) fs d = (Inr x, d)) \<and>
    (\<exists>nss depth. run (collect now plan) [] d = (Inr
       (map (\<lambda>(g, n). \<lparr>ob_gauge = g, ob_namespace = None, ob_value = n\<rparr>)
          [(''facts_active'', card (facts_with d (\<lambda>f. f_status f = StatusActive))),
           (''facts_expiring_24h'', card (facts_with d
              (\<lambda>f. f_status f = StatusActive \<and> (\<exists>t. f_valid_to f = Some t \<and> t \<le> now + day)))),
           (''conflicts_open'', card (promotions_with d
              (\<lambda>p. p_state p \<in> {StatePending, StateInReview} \<and> p_conflict_with p \<noteq> None)))]
        @ map (\<lambda>ns. \<lparr>ob_gauge = ''promotion_queue_depth'', ob_namespace = Some ns, ob_value = depth ns\<rparr>) nss, None), d) \<and>
       distinct nss \<and> set nss = p_target_namespace_id ` {p \<in> set (promotions_tbl d). p_state p \<in> {StatePending, StateInReview}} \<and>
       depth = (\<lambda>ns. card (promotions_with d (\<lambda>p. p_state p \<in> {StatePending, StateInReview} \<and> p_target_namespace_id p = ns))) \<and>
       sum_list (map depth nss) = card (promotions_with d (\<lambda>p. p_state p \<in> {StatePending, StateInReview}))) \<and>
    (run (reap now rows) fs d = (Inr r, d') \<longrightarrow>
       rr_expired r + rr_expiring_soon r = card (facts_with d
         (\<lambda>f. f_status f = StatusActive \<and> (\<exists>t. f_valid_to f = Some t \<and> t \<le> now + day))) \<and>
       rr_expiring_soon r = count_expiring now d')"
proof (intro conjI impI)
  assume r: "run (reap now rows) fs d = (Inr r, d')"
  have "facts_ok d (facts_tbl d)" using assms(1) by (simp add: schema_ok_def)
  note c = reap_counts[OF this r assms(3)]
  show "rr_expired r + rr_expiring_soon r = card (facts_with d
      (\<lambda>f. f_status f = StatusActive \<and> (\<exists>t. f_valid_to f = Some t \<and> t \<le> now + day)))"
    using c(1) counts(2)[OF assms(1)] by simp
  show "rr_expiring_soon r = count_expiring now d'" using c(2) by simp
qed (rule collect_total, rule run_collected[OF assms(1,2)])

text \<open>A store with an active fact that is overdue and another that is active for good.\<close>

theorem metrics_exact_witness:
  "\<exists>nss depth. run (collect 20 rev) [] stale_db = (Inr
     ([\<lparr>ob_gauge = ''facts_active'', ob_namespace = None, ob_value = 2\<rparr>,
       \<lparr>ob_gauge = ''facts_expiring_24h'', ob_namespace = None, ob_value = 1\<rparr>,
       \<lparr>ob_gauge = ''conflicts_open'', ob_namespace = None, ob_value = 0\<rparr>]
      @ map (\<lambda>ns. \<lparr>ob_gauge = ''promotion_queue_depth'', ob_namespace = Some ns, ob_value = depth ns\<rparr>) nss, None), stale_db) \<and>
     nss = []"
proof -
  have ok: "schema_ok stale_db" by (simp add: stale_db_def sample_eval)
  have c: "card (facts_with stale_db (\<lambda>f. f_status f = StatusActive)) = 2"
    "card (facts_with stale_db (\<lambda>f. f_status f = StatusActive \<and> (\<exists>t. f_valid_to f = Some t \<and> t \<le> 20 + day))) = 1"
    "card (promotions_with stale_db (\<lambda>p. p_state p \<in> {StatePending, StateInReview} \<and> p_conflict_with p \<noteq> None)) = 0"
    "set (promotions_tbl stale_db) = {}"
    unfolding card_facts[OF ok] card_promotions[OF ok] by (simp_all add: stale_db_def day_def)
  from metrics_exact[OF ok, of rev rev 20 "[]" undefined undefined, THEN conjunct2, THEN conjunct1, unfolded c(1-3)]
  show ?thesis using c(4) by auto
qed

end
