(* ===== verification/Codec.thy ===== *)
theory Codec
  imports Http
begin

text \<open>
  How structured values live in \<^verbatim>\<open>jsonb\<close> columns: the struct tags by which the subject, the provenance, the
  metadata and the reviews are encoded, what PostgreSQL does to a \<^verbatim>\<open>jsonb\<close> value, and the scanning that decodes a
  row. The other theories keep the structured value in the row; here this is justified: what is scanned is
  what was stored, up to the order of the members of an object.
\<close>

section \<open>The column\<close>

text \<open>
  \<^verbatim>\<open>jsonb\<close> keeps the last of several members with one name and orders members by the length of the name,
  then bytewise.
\<close>

definition jsonb_order :: "(string \<times> 'v) list \<Rightarrow> (string \<times> 'v) list" where
  "jsonb_order ms = sort_key (\<lambda>m. length (fst m)) (sort_key fst ms)"

fun jsonb :: "json \<Rightarrow> json" where
  "jsonb (JArr vs) = JArr (map jsonb vs)"
| "jsonb (JObj ms) = JObj (jsonb_order (keep_last (map (\<lambda>(k, v). (k, jsonb v)) ms)))"
| "jsonb v = v"

section \<open>Encoding\<close>

text \<open>\<^verbatim>\<open>omitempty\<close>: a zero value has no member.\<close>

definition omit_empty :: "string \<Rightarrow> string \<Rightarrow> (string \<times> json) list" where
  "omit_empty name s = (if s = [] then [] else [(name, JStr s)])"

definition marshal_subject :: "subject \<Rightarrow> json" where
  "marshal_subject s =
     JObj ((''type'', JStr (s_type s)) # omit_empty ''scope'' (s_scope s)
       @ (if s_qualifiers s = [] then [] else [(''qualifiers'', JObj (map (\<lambda>(k, v). (k, JStr v)) (s_qualifiers s)))]))"

definition marshal_provenance :: "provenance \<Rightarrow> json" where
  "marshal_provenance p =
     JObj (omit_empty ''origin_actor'' (origin_actor p) @ omit_empty ''origin_session'' (origin_session p)
       @ (if derived_from p = [] then [] else [(''derived_from'', JArr (map JStr (derived_from p)))])
       @ omit_empty ''rationale'' (rationale p))"

definition decision_str :: "decision \<Rightarrow> string" where
  "decision_str x = (case x of DecisionApprove \<Rightarrow> ''approve'' | DecisionReject \<Rightarrow> ''reject''
     | DecisionRequestChanges \<Rightarrow> ''request_changes'')"

definition marshal_review :: "(timestamp \<Rightarrow> string) \<Rightarrow> review \<Rightarrow> json" where
  "marshal_review show_time r =
     JObj ([(''reviewer'', JStr (r_reviewer r)), (''decision'', JStr (decision_str (r_decision r)))]
       @ omit_empty ''comment'' (r_comment r) @ [(''at'', JStr (show_time (r_at r)))])"

definition marshal_reviews :: "(timestamp \<Rightarrow> string) \<Rightarrow> review list \<Rightarrow> json" where
  "marshal_reviews show_time rs = JArr (map (marshal_review show_time) rs)"

section \<open>Scanning\<close>

text \<open>
  \<^verbatim>\<open>_ = json.Unmarshal(...)\<close>: the error is dropped, so a value of the wrong type leaves the zero value in its
  place and everything else is read.
\<close>

fun str_of :: "json \<Rightarrow> string" where
  "str_of (JStr s) = s"
| "str_of _ = []"

fun strs_of :: "json \<Rightarrow> string list" where
  "strs_of (JArr vs) = map str_of vs"
| "strs_of _ = []"

fun str_map_of :: "json \<Rightarrow> (string \<times> string) list" where
  "str_map_of (JObj ms) = keep_last (map (\<lambda>(k, v). (k, str_of v)) ms)"
| "str_map_of _ = []"

fun members_of :: "json \<Rightarrow> (string \<times> json) list" where
  "members_of (JObj ms) = ms"
| "members_of _ = []"

definition read_member :: "(json \<Rightarrow> 'a) \<Rightarrow> string \<Rightarrow> json \<Rightarrow> 'a" where
  "read_member dec name j = (case member name (members_of j) of None \<Rightarrow> dec JNull | Some v \<Rightarrow> dec v)"

definition scan_subject :: "json \<Rightarrow> subject" where
  "scan_subject j = \<lparr>s_type = read_member str_of ''type'' j, s_scope = read_member str_of ''scope'' j,
     s_qualifiers = read_member str_map_of ''qualifiers'' j\<rparr>"

definition scan_provenance :: "json \<Rightarrow> provenance" where
  "scan_provenance j = \<lparr>origin_actor = read_member str_of ''origin_actor'' j,
     origin_session = read_member str_of ''origin_session'' j, derived_from = read_member strs_of ''derived_from'' j,
     rationale = read_member str_of ''rationale'' j\<rparr>"

definition scan_metadata :: "json \<Rightarrow> (string \<times> json) list" where
  "scan_metadata j = go_map (members_of j)"

text \<open>\<open>cols\<close> holds the columns that are scanned as they are.\<close>

definition scan_fact :: "fact \<Rightarrow> json \<Rightarrow> json \<Rightarrow> json \<Rightarrow> fact" where
  "scan_fact cols subject prov md =
     cols\<lparr>f_subject := scan_subject subject, f_provenance := scan_provenance prov, f_metadata := scan_metadata md\<rparr>"

definition decision_of :: "string \<Rightarrow> decision option" where
  "decision_of s = map_of [(''approve'', DecisionApprove), (''reject'', DecisionReject),
     (''request_changes'', DecisionRequestChanges)] s"

text \<open>No value stands for a decision the program never writes, or for a time it cannot parse.\<close>

definition scan_review :: "(string \<Rightarrow> timestamp option) \<Rightarrow> json \<Rightarrow> review option" where
  "scan_review parse_time j =
     (case (decision_of (read_member str_of ''decision'' j), parse_time (read_member str_of ''at'' j)) of
        (Some x, Some t) \<Rightarrow> Some \<lparr>r_reviewer = read_member str_of ''reviewer'' j, r_decision = x,
          r_comment = read_member str_of ''comment'' j, r_at = t\<rparr>
      | _ \<Rightarrow> None)"

definition scan_reviews :: "(string \<Rightarrow> timestamp option) \<Rightarrow> json \<Rightarrow> review list option" where
  "scan_reviews parse_time j = (case j of JArr vs \<Rightarrow> those (map (scan_review parse_time) vs) | _ \<Rightarrow> Some [])"

definition scan_promotion :: "(string \<Rightarrow> timestamp option) \<Rightarrow> promotion \<Rightarrow> json option \<Rightarrow> promotion option" where
  "scan_promotion parse_time cols reviews =
     (case reviews of
        None \<Rightarrow> Some (cols\<lparr>p_reviews := []\<rparr>)
      | Some j \<Rightarrow> map_option (\<lambda>rs. cols\<lparr>p_reviews := rs\<rparr>) (scan_reviews parse_time j))"

section \<open>What a column keeps\<close>

lemma mset_jsonb_order [simp]: "mset (jsonb_order ms) = mset ms"
  by (simp add: jsonb_order_def)

lemma set_jsonb_order [simp]: "set (jsonb_order ms) = set ms"
  by (metis mset_jsonb_order set_mset_mset)

lemma distinct_jsonb_order [simp]: "distinct (map fst (jsonb_order ms)) \<longleftrightarrow> distinct (map fst ms)"
  by (rule mset_eq_imp_distinct_iff) (simp only: mset_map mset_jsonb_order)

lemma map_fst_values: "map fst (map (\<lambda>(k, v). (k, f v)) ms) = map fst ms"
  by (induction ms) auto

lemma keep_last_values: "distinct (map fst ms) \<Longrightarrow> keep_last (map (\<lambda>(k, v). (k, f v)) ms) = map (\<lambda>(k, v). (k, f v)) ms"
  by (rule keep_last_id) (simp only: map_fst_values)

lemma map_values_cong:
  "(\<And>k v. (k, v) \<in> set ms \<Longrightarrow> f (k, g v) = f (k, v)) \<Longrightarrow> map f (map (\<lambda>(k, v). (k, g v)) ms) = map f ms"
  by (induction ms) auto

lemma mset_map_order: "map f ys = map f xs \<Longrightarrow> mset (map f (jsonb_order ys)) = mset (map f xs)"
  by (metis mset_jsonb_order mset_map)

lemma inj_on_names:
  assumes "distinct (map fst ms)"
  shows "inj_on fst (set (map (\<lambda>(k, v). (k, g k v)) ms))"
proof -
  have "map fst (map (\<lambda>(k, v). (k, g k v)) ms) = map fst ms" by (induction ms) auto
  then show ?thesis using assms by (metis distinct_map)
qed

lemma map_fixed: "map f xs = xs \<Longrightarrow> x \<in> set xs \<Longrightarrow> f x = x"
  by (induction xs) auto

lemma go_map_fixed:
  assumes "go_map ms = ms"
  shows "distinct (map fst ms)" and "(k, v) \<in> set ms \<Longrightarrow> go_value v = v"
proof -
  show d: "distinct (map fst ms)" using keep_last_distinct assms unfolding go_map_def by metis
  have m: "map (\<lambda>(k, v). (k, go_value v)) ms = ms"
    using assms unfolding go_map_def keep_last_values[OF d] .
  show "go_value v = v" if "(k, v) \<in> set ms"
    using map_fixed[OF m that] by simp
qed

text \<open>Order apart, a column keeps a value: it is printed alike.\<close>

lemma fmt_v_jsonb: "go_value v = v \<Longrightarrow> fmt_v (jsonb v) = fmt_v v"
proof (induction v)
  case (JArr vs)
  then have "go_value v = v" if "v \<in> set vs" for v using that by (auto intro: map_fixed)
  with JArr.IH show ?case by (simp cong: map_cong)
next
  case (JObj ms)
  then have "go_map ms = ms" by (simp add: go_map_def)
  note fixed = go_map_fixed[OF this]
  let ?show = "\<lambda>(k, v). (k, k @ '':'' @ fmt_v v)"
  have "map ?show (map (\<lambda>(k, v). (k, jsonb v)) ms) = map ?show ms"
  proof (rule map_values_cong)
    fix k v assume kv: "(k, v) \<in> set ms"
    have "fmt_v (jsonb v) = fmt_v v" using JObj.IH[OF kv _ fixed(2)[OF kv]] by (simp add: prod_set_simps)
    then show "?show (k, jsonb v) = ?show (k, v)" by simp
  qed
  then have "mset (map ?show (jsonb_order (map (\<lambda>(k, v). (k, jsonb v)) ms))) = mset (map ?show ms)"
    by (rule mset_map_order)
  moreover have "inj_on fst (set (map ?show ms))"
    by (rule inj_on_names[OF fixed(1)])
  ultimately have "sort_key fst (map ?show (jsonb_order (map (\<lambda>(k, v). (k, jsonb v)) ms))) = sort_key fst (map ?show ms)"
    by (intro sort_key_eq_sort_key[symmetric]) simp_all
  then show ?case by (simp add: keep_last_values[OF fixed(1)])
qed simp_all

section \<open>Reading a member back\<close>

text \<open>The names a struct's tags give are distinct and in lower case.\<close>

definition tagged :: "(string \<times> json) list \<Rightarrow> bool" where
  "tagged ms \<longleftrightarrow> distinct (map fst ms) \<and> list_all (\<lambda>k. to_lower k = k) (map fst ms)"

lemma read_jsonb:
  assumes "tagged ms" and "to_lower n = n"
  shows "read_member dec n (jsonb (JObj ms)) = (case map_of ms n of None \<Rightarrow> dec JNull | Some v \<Rightarrow> dec (jsonb v))"
proof -
  let ?vs = "map (\<lambda>(k, v). (k, jsonb v)) ms"
  let ?os = "jsonb_order ?vs"
  have d: "distinct (map fst ?vs)" using assms(1) by (simp only: map_fst_values tagged_def)
  have "fst ` set ?os = set (map fst ?vs)" by (simp only: set_jsonb_order set_map)
  then have "fst ` set ?os = set (map fst ms)" by (simp only: map_fst_values)
  then have low: "\<forall>k \<in> fst ` set ?os. to_lower k = k"
    using assms(1) unfolding tagged_def list_all_iff by (elim conjE) (simp only:)
  have "member n ?os = map_of (rev ?os) n" by (rule member_lower[OF assms(2) low])
  also have "map_of (rev ?os) = map_of ?vs"
    using d by (intro map_of_inject_set[THEN iffD2]) (simp_all only: rev_map[symmetric] distinct_rev distinct_jsonb_order set_rev set_jsonb_order)
  also have "map_of ?vs n = map_option jsonb (map_of ms n)" by (simp add: map_of_map)
  finally show ?thesis
    using keep_last_values[of ms jsonb] assms(1)
    by (simp add: read_member_def tagged_def split: option.split)
qed

lemma lower_tags [simp]:
  "to_lower ''type'' = ''type''" "to_lower ''scope'' = ''scope''" "to_lower ''qualifiers'' = ''qualifiers''"
  "to_lower ''origin_actor'' = ''origin_actor''" "to_lower ''origin_session'' = ''origin_session''"
  "to_lower ''derived_from'' = ''derived_from''" "to_lower ''rationale'' = ''rationale''"
  "to_lower ''reviewer'' = ''reviewer''" "to_lower ''decision'' = ''decision''" "to_lower ''comment'' = ''comment''"
  "to_lower ''at'' = ''at''"
  by (simp_all add: to_lower_def lower_byte_def)

lemma jsonb_str: "jsonb (JStr s) = JStr s"
  by simp

lemma strs_of_stored [simp]: "strs_of (jsonb (JArr (map JStr ss))) = ss"
  by (simp add: comp_def)

lemma provenance_stored: "scan_provenance (jsonb (marshal_provenance p)) = p"
proof -
  define ms where "ms = omit_empty ''origin_actor'' (origin_actor p) @ omit_empty ''origin_session'' (origin_session p)
     @ (if derived_from p = [] then [] else [(''derived_from'', JArr (map JStr (derived_from p)))])
     @ omit_empty ''rationale'' (rationale p)"
  have t: "tagged ms" by (simp add: tagged_def ms_def omit_empty_def)
  have m: "map_of ms ''origin_actor'' = (if origin_actor p = [] then None else Some (JStr (origin_actor p)))"
    "map_of ms ''origin_session'' = (if origin_session p = [] then None else Some (JStr (origin_session p)))"
    "map_of ms ''derived_from'' = (if derived_from p = [] then None else Some (JArr (map JStr (derived_from p))))"
    "map_of ms ''rationale'' = (if rationale p = [] then None else Some (JStr (rationale p)))"
    by (simp_all add: ms_def omit_empty_def)
  have j: "marshal_provenance p = JObj ms" by (simp add: marshal_provenance_def ms_def)
  show ?thesis
    unfolding scan_provenance_def j
    by (cases p) (simp add: read_jsonb[OF t] m jsonb_str del: jsonb.simps)
qed

lemma qualifiers_stored:
  assumes "distinct (map fst qs)"
  shows "mset (str_map_of (jsonb (JObj (map (\<lambda>(k, v). (k, JStr v)) qs)))) = mset qs"
proof -
  let ?js = "map (\<lambda>(k, v). (k, JStr v)) qs"
  have d: "distinct (map fst ?js)" by (simp only: map_fst_values assms)
  have k: "keep_last (map (\<lambda>(k, v). (k, jsonb v)) ?js) = ?js"
    using keep_last_values[OF d, of jsonb] by (simp add: comp_def case_prod_beta)
  have "str_map_of (jsonb (JObj ?js)) = map (\<lambda>(k, v). (k, str_of v)) (jsonb_order ?js)"
    using d by (simp only: jsonb.simps k str_map_of.simps) (rule keep_last_values, simp only: distinct_jsonb_order)
  then have "mset (str_map_of (jsonb (JObj ?js))) = image_mset (\<lambda>(k, v). (k, str_of v)) (mset ?js)"
    by (simp only: mset_map mset_jsonb_order)
  also have "\<dots> = mset (map (\<lambda>(k, v). (k, str_of v)) ?js)" by (simp only: mset_map)
  also have "map (\<lambda>(k, v). (k, str_of v)) ?js = qs" by (induction qs) auto
  finally show ?thesis .
qed

lemma subject_stored:
  assumes "distinct (map fst (s_qualifiers s))"
  shows "s_type (scan_subject (jsonb (marshal_subject s))) = s_type s"
    "s_scope (scan_subject (jsonb (marshal_subject s))) = s_scope s"
    "mset (s_qualifiers (scan_subject (jsonb (marshal_subject s)))) = mset (s_qualifiers s)"
proof -
  let ?qs = "JObj (map (\<lambda>(k, v). (k, JStr v)) (s_qualifiers s))"
  define ms where "ms = (''type'', JStr (s_type s)) # omit_empty ''scope'' (s_scope s)
     @ (if s_qualifiers s = [] then [] else [(''qualifiers'', ?qs)])"
  have t: "tagged ms" by (simp add: tagged_def ms_def omit_empty_def)
  have m: "map_of ms ''type'' = Some (JStr (s_type s))"
    "map_of ms ''scope'' = (if s_scope s = [] then None else Some (JStr (s_scope s)))"
    "map_of ms ''qualifiers'' = (if s_qualifiers s = [] then None else Some ?qs)"
    by (simp_all add: ms_def omit_empty_def)
  have j: "marshal_subject s = JObj ms" by (simp add: marshal_subject_def ms_def)
  show "s_type (scan_subject (jsonb (marshal_subject s))) = s_type s"
    "s_scope (scan_subject (jsonb (marshal_subject s))) = s_scope s"
    by (simp_all add: scan_subject_def j read_jsonb[OF t] m jsonb_str del: jsonb.simps)
  show "mset (s_qualifiers (scan_subject (jsonb (marshal_subject s)))) = mset (s_qualifiers s)"
    using qualifiers_stored[OF assms] by (simp add: scan_subject_def j read_jsonb[OF t] m jsonb_str del: jsonb.simps)
qed

lemma decision_stored: "decision_of (decision_str x) = Some x"
  by (cases x) (simp_all add: decision_of_def decision_str_def)

lemma review_stored:
  assumes "parse_time (show_time (r_at r)) = Some (r_at r)"
  shows "scan_review parse_time (jsonb (marshal_review show_time r)) = Some r"
proof -
  define ms where "ms = [(''reviewer'', JStr (r_reviewer r)), (''decision'', JStr (decision_str (r_decision r)))]
     @ omit_empty ''comment'' (r_comment r) @ [(''at'', JStr (show_time (r_at r)))]"
  have t: "tagged ms" by (simp add: tagged_def ms_def omit_empty_def)
  have m: "map_of ms ''reviewer'' = Some (JStr (r_reviewer r))"
    "map_of ms ''decision'' = Some (JStr (decision_str (r_decision r)))"
    "map_of ms ''comment'' = (if r_comment r = [] then None else Some (JStr (r_comment r)))"
    "map_of ms ''at'' = Some (JStr (show_time (r_at r)))"
    by (simp_all add: ms_def omit_empty_def)
  have j: "marshal_review show_time r = JObj ms" by (simp add: marshal_review_def ms_def)
  have "scan_review parse_time (jsonb (JObj ms)) = Some \<lparr>r_reviewer = r_reviewer r, r_decision = r_decision r,
      r_comment = r_comment r, r_at = r_at r\<rparr>"
    by (simp add: scan_review_def read_jsonb[OF t] m jsonb_str decision_stored assms del: jsonb.simps)
  then show ?thesis by (simp only: j) simp
qed

lemma those_map_Some: "(\<And>x. x \<in> set xs \<Longrightarrow> f x = Some x) \<Longrightarrow> those (map f xs) = Some xs"
  by (induction xs) auto

lemma those_stored: "(\<And>x. x \<in> set xs \<Longrightarrow> f (g x) = Some x) \<Longrightarrow> those (map f (map g xs)) = Some xs"
  using those_map_Some[of xs "f \<circ> g"] by simp

lemma set_keep_last: "set (keep_last ms) \<subseteq> set ms"
  by (induction ms rule: keep_last.induct) auto

lemma map_values_id: "(\<And>k v. (k, v) \<in> set ms \<Longrightarrow> f v = v) \<Longrightarrow> map (\<lambda>(k, v). (k, f v)) ms = ms"
  by (induction ms) auto

text \<open>What a column holds decodes into a map as it is.\<close>

lemma go_value_jsonb: "go_value (jsonb v) = jsonb v"
proof (induction v)
  case (JObj ms)
  let ?os = "jsonb_order (keep_last (map (\<lambda>(k, v). (k, jsonb v)) ms))"
  have d: "distinct (map fst ?os)" by (simp only: distinct_jsonb_order keep_last_distinct)
  have "go_value w = w" if w: "(k, w) \<in> set ?os" for k w
  proof -
    from w have "(k, w) \<in> set (map (\<lambda>(k, v). (k, jsonb v)) ms)"
      using set_keep_last[of "map (\<lambda>(k, v). (k, jsonb v)) ms"] by (simp only: set_jsonb_order) blast
    then obtain v where v: "(k, v) \<in> set ms" "w = jsonb v" by auto
    show ?thesis unfolding v(2) by (rule JObj.IH[OF v(1)]) (simp add: prod_set_simps)
  qed
  then have "map (\<lambda>(k, v). (k, go_value v)) ?os = ?os" by (rule map_values_id)
  then show ?case using keep_last_values[OF d, of go_value] by (simp only: jsonb.simps go_value.simps)
qed simp_all

lemma metadata_stored:
  assumes "go_map md = md"
  shows "map_option fmt_v (map_of (scan_metadata (jsonb (JObj md))) k) = map_option fmt_v (map_of md k)"
proof -
  note fixed = go_map_fixed[OF assms]
  let ?vs = "map (\<lambda>(k, v). (k, jsonb v)) md"
  have "go_value (jsonb (JObj md)) = jsonb (JObj md)" by (rule go_value_jsonb)
  then have "scan_metadata (jsonb (JObj md)) = jsonb_order ?vs"
    by (simp add: scan_metadata_def go_map_def keep_last_values[OF fixed(1)])
  moreover have "map_of (jsonb_order ?vs) = map_of ?vs"
    using fixed(1) by (intro map_of_inject_set[THEN iffD2]) (simp_all only: distinct_jsonb_order map_fst_values set_jsonb_order)
  moreover have "map_of ?vs k = map_option jsonb (map_of md k)" by (simp add: map_of_map)
  ultimately show ?thesis
    using fmt_v_jsonb[OF fixed(2)[OF map_of_SomeD]]
    by (cases "map_of md k") (simp_all del: jsonb.simps)
qed

section \<open>Storage keeps what the program reads\<close>

text \<open>
  C33. What is scanned from a row is what was encoded into it, although PostgreSQL reorders the members of every
  object: the provenance and the reviews exactly, the subject with the same canonical key and the same text for
  the embedder, and each entry of the metadata with the same printed value.
\<close>

theorem storage_roundtrip:
  assumes "distinct (map fst (s_qualifiers (f_subject f)))" and "go_map (f_metadata f) = f_metadata f"
    and "\<And>r. r \<in> set (p_reviews p) \<Longrightarrow> parse_time (show_time (r_at r)) = Some (r_at r)"
  shows "let g = scan_fact f (jsonb (marshal_subject (f_subject f))) (jsonb (marshal_provenance (f_provenance f)))
          (jsonb (JObj (f_metadata f))) in
    canonical_key (f_subject g) = canonical_key (f_subject f) \<and>
    embed_text (f_subject g) (f_statement g) = embed_text (f_subject f) (f_statement f) \<and>
    f_provenance g = f_provenance f \<and>
    (\<forall>k. map_option fmt_v (map_of (f_metadata g) k) = map_option fmt_v (map_of (f_metadata f) k)) \<and>
    scan_promotion parse_time p (Some (jsonb (marshal_reviews show_time (p_reviews p)))) = Some p"
proof -
  let ?s = "f_subject f"
  let ?t = "scan_subject (jsonb (marshal_subject ?s))"
  note stored = subject_stored[OF assms(1)]
  have "mset (map g (s_qualifiers ?t)) = mset (map g (s_qualifiers ?s))" for g :: "string \<times> string \<Rightarrow> 'b"
    using stored(3) by (simp only: mset_map)
  then have "same_subject ?t ?s" unfolding same_subject_def stored(1,2) by blast
  then have "canonical_key ?t = canonical_key ?s" by (rule same_subject_key)
  moreover have "(s_qualifiers ?t \<noteq> []) = (s_qualifiers ?s \<noteq> [])" using stored(3) by (metis mset_zero_iff)
  then have "embed_text ?t st = embed_text ?s st" for st
    unfolding embed_text_def stored(1,2) by (simp only: sort_map_mset[OF stored(3)])
  moreover have "scan_reviews parse_time (jsonb (marshal_reviews show_time (p_reviews p))) = Some (p_reviews p)"
    using those_stored[of "p_reviews p" "scan_review parse_time" "\<lambda>r. jsonb (marshal_review show_time r)"]
      review_stored[where parse_time = parse_time and show_time = show_time] assms(3)
    by (simp add: scan_reviews_def marshal_reviews_def comp_def)
  ultimately show ?thesis
    by (simp add: Let_def scan_fact_def scan_promotion_def provenance_stored metadata_stored[OF assms(2)] del: jsonb.simps)
qed

text \<open>A fact whose members \<^verbatim>\<open>jsonb\<close> reorders, and a review.\<close>

definition stored_fact :: fact where
  "stored_fact = (fact.truncate (sample_fact 10 1 ''tabs'' StatusActive [] None))
     \<lparr>f_subject := \<lparr>s_type = ''lang'', s_scope = ''api'', s_qualifiers = [(''tool'', ''go''), (''os'', ''any'')]\<rparr>,
      f_metadata := [(''score'', JNum 3), (''by'', JStr ''ann'')]\<rparr>"

definition stored_review :: review where
  "stored_review = \<lparr>r_reviewer = ''bob'', r_decision = DecisionApprove, r_comment = [], r_at = 7\<rparr>"

definition stored_promotion :: promotion where
  "stored_promotion = (draft_promotion zero_propose 10 1 None)\<lparr>p_reviews := [stored_review]\<rparr>"

theorem storage_roundtrip_witness:
  "canonical_key (scan_subject (jsonb (marshal_subject (f_subject stored_fact)))) = canonical_key (f_subject stored_fact) \<and>
   scan_promotion (\<lambda>s. if s = ''7'' then Some 7 else None) stored_promotion (Some (jsonb (marshal_reviews show_int [stored_review])))
     = Some stored_promotion"
proof -
  have t: "show_int (r_at stored_review) = ''7''"
    by (simp add: stored_review_def show_int_def show_nat.simps char_of_def bit_0)
  have a: "distinct (map fst (s_qualifiers (f_subject stored_fact)))" "go_map (f_metadata stored_fact) = f_metadata stored_fact"
    by (simp_all add: stored_fact_def go_map_def)
  have p: "p_reviews stored_promotion = [stored_review]" by (simp add: stored_promotion_def)
  have "\<And>r. r \<in> set (p_reviews stored_promotion) \<Longrightarrow> (if show_int (r_at r) = ''7'' then Some 7 else None) = Some (r_at r)"
    by (simp add: p t) (simp add: stored_review_def)
  from storage_roundtrip[where p = stored_promotion and show_time = show_int and parse_time = "\<lambda>s. if s = ''7'' then Some 7 else None", OF a this]
  show ?thesis by (simp add: Let_def scan_fact_def p del: jsonb.simps)
qed

end
