(* ===== verification/Config.thy ===== *)
theory Config
  imports Mcp_Bridge Metrics Codec
begin

text \<open>
  Configuration and wiring: \<^verbatim>\<open>internal/platform/config.go\<close>, the embedding client \<^verbatim>\<open>internal/embed\<close>, and the
  backends \<^verbatim>\<open>cmd/baseline/main.go\<close> builds from it. The environment is a function from names to values, an
  unset variable being empty.
\<close>

section \<open>Configuration\<close>

record config =
  cf_addr :: string
  cf_database_url :: string
  cf_memory_source :: string
  cf_mem0_url :: string
  cf_mem0_api_key :: string
  cf_embedder_url :: string
  cf_embedder_model :: string
  cf_embedder_dims :: int
  cf_oidc_issuer :: string
  cf_oidc_audience :: string

datatype config_error =
    BadEmbedderDims string
  | NoDatabaseUrl
  | NoMem0Url
  | UnknownMemorySource string

type_synonym environment = "string \<Rightarrow> string"

definition env_or :: "environment \<Rightarrow> string \<Rightarrow> string \<Rightarrow> string" where
  "env_or env key dflt = (if env key \<noteq> [] then env key else dflt)"

definition load_config :: "environment \<Rightarrow> config_error + config" where
  "load_config env =
     (let c = \<lparr>cf_addr = env_or env ''BASELINE_ADDR'' '':8080'', cf_database_url = env ''DATABASE_URL'',
               cf_memory_source = to_lower (env_or env ''MEMORY_SOURCE'' ''mem0''),
               cf_mem0_url = env ''MEM0_URL'', cf_mem0_api_key = env ''MEM0_API_KEY'',
               cf_embedder_url = env ''EMBEDDER_URL'',
               cf_embedder_model = env_or env ''EMBEDDER_MODEL'' ''nomic-embed-text'', cf_embedder_dims = 0,
               cf_oidc_issuer = env ''OIDC_ISSUER'', cf_oidc_audience = env ''OIDC_AUDIENCE''\<rparr>
      in case atoi (env_or env ''EMBEDDER_DIMS'' ''768'') of
           None \<Rightarrow> Inl (BadEmbedderDims (env ''EMBEDDER_DIMS''))
         | Some dims \<Rightarrow>
             if dims \<le> 0 then Inl (BadEmbedderDims (env ''EMBEDDER_DIMS''))
             else (let c = c\<lparr>cf_embedder_dims := dims\<rparr> in
               if cf_database_url c = [] then Inl NoDatabaseUrl
               else if cf_memory_source c = ''mem0'' then (if cf_mem0_url c = [] then Inl NoMem0Url else Inr c)
               else if cf_memory_source c \<in> set [''zep'', ''letta'', ''none''] then Inr c
               else Inl (UnknownMemorySource (cf_memory_source c))))"

section \<open>The embedding client\<close>

text \<open>\<open>ec_float32\<close> is the conversion of a JSON number to the bit pattern of a \<^verbatim>\<open>float32\<close>, if it has one.\<close>

record embed_client =
  ec_base_url :: string
  ec_model :: string
  ec_dims :: int
  ec_http :: transport
  ec_float32 :: "json \<Rightarrow> int option"

definition new_embed_client :: "transport \<Rightarrow> (json \<Rightarrow> int option) \<Rightarrow> string \<Rightarrow> string \<Rightarrow> int \<Rightarrow> embed_client" where
  "new_embed_client http float32 base model dims =
     \<lparr>ec_base_url = trim_right_char CHR ''/'' base, ec_model = model, ec_dims = dims, ec_http = http, ec_float32 = float32\<rparr>"

definition as_float32 :: "(json \<Rightarrow> int option) \<Rightarrow> json \<Rightarrow> int option" where
  "as_float32 float32 j = (if j = JNull then Some 0 else float32 j)"

fun decode_embedding :: "(json \<Rightarrow> int option) \<Rightarrow> json \<Rightarrow> vec option" where
  "decode_embedding float32 (JObj ms) =
     (case member ''embedding'' ms of
        None \<Rightarrow> Some []
      | Some JNull \<Rightarrow> Some []
      | Some (JArr js) \<Rightarrow> decode_all (as_float32 float32) js
      | Some _ \<Rightarrow> None)"
| "decode_embedding float32 JNull = Some []"
| "decode_embedding float32 _ = None"

definition embed_request :: "embed_client \<Rightarrow> string \<Rightarrow> http_request" where
  "embed_request c text =
     \<lparr>hq_method = ''POST'', hq_base = ec_base_url c, hq_path = [''api'', ''embeddings''], hq_query = [],
      hq_headers = [(''Content-Type'', ''application/json'')],
      hq_body = Some (JObj [(''model'', JStr (ec_model c)), (''prompt'', JStr text)])\<rparr>"

definition embed :: "embed_client \<Rightarrow> embedder" where
  "embed c text =
     (case ec_http c (embed_request c text) of
        Inl e \<Rightarrow> Inl ErrEmbed
      | Inr (status, body) \<Rightarrow>
          if status \<ge> 300 then Inl ErrEmbed
          else case body of
                 RawJson j \<Rightarrow>
                   (case decode_embedding (ec_float32 c) j of
                      None \<Rightarrow> Inl ErrEmbed
                    | Some v \<Rightarrow> if int (length v) \<noteq> ec_dims c then Inl ErrEmbed else Inr v)
               | _ \<Rightarrow> Inl ErrEmbed)"

section \<open>Wiring\<close>

text \<open>What the process reaches outside: HTTP, the parsing of times and uuids, and the router.\<close>

record outside =
  out_http :: transport
  out_time :: "string \<Rightarrow> timestamp option"
  out_float32 :: "json \<Rightarrow> int option"
  out_router :: "route list \<Rightarrow> request \<Rightarrow> response + endpoint \<times> params"
  out_parse_uuid :: "string \<Rightarrow> uuid option"

definition build_embedder :: "outside \<Rightarrow> config \<Rightarrow> embed_client option" where
  "build_embedder out cfg =
     (if cf_embedder_url cfg = [] then None
      else Some (new_embed_client (out_http out) (out_float32 out) (cf_embedder_url cfg) (cf_embedder_model cfg)
                   (cf_embedder_dims cfg)))"

definition memory_source_of :: "outside \<Rightarrow> config \<Rightarrow> memory_source \<times> memory_writer option" where
  "memory_source_of out cfg =
     (if cf_memory_source cfg = ''mem0''
      then (let m = new_mem0 (out_http out) (out_time out) (cf_mem0_url cfg) (cf_mem0_api_key cfg)
            in (mem0_source m, Some (mem0_add m)))
      else (null_source, None))"

definition build_app :: "outside \<Rightarrow> config \<Rightarrow> server" where
  "build_app out cfg =
     (case memory_source_of out cfg of
        (mem, writer) \<Rightarrow>
          (let app = new_with_memory header_authenticator mem writer (out_router out) (out_parse_uuid out)
           in case build_embedder out cfg of None \<Rightarrow> app | Some c \<Rightarrow> set_embedder (embed c) app))"

lemma build_app_fields:
  "srv_auth (build_app out cfg) = header_authenticator"
  "srv_embedder (build_app out cfg) = map_option embed (build_embedder out cfg)"
  "srv_mem (build_app out cfg) = fst (memory_source_of out cfg)"
  "srv_writer (build_app out cfg) = snd (memory_source_of out cfg)"
  by (simp_all add: build_app_def memory_source_of_def new_with_memory_def set_embedder_def Let_def split: option.split)

lemma loaded_config:
  assumes "load_config env = Inr cfg"
  shows "cf_memory_source cfg = to_lower (env_or env ''MEMORY_SOURCE'' ''mem0'')"
    and "cf_mem0_url cfg = env ''MEM0_URL''" and "cf_mem0_api_key cfg = env ''MEM0_API_KEY''"
    and "cf_embedder_url cfg = env ''EMBEDDER_URL''"
    and "cf_embedder_model cfg = env_or env ''EMBEDDER_MODEL'' ''nomic-embed-text''"
    and "atoi (env_or env ''EMBEDDER_DIMS'' ''768'') = Some (cf_embedder_dims cfg)" and "0 < cf_embedder_dims cfg"
  using assms by (auto simp: load_config_def Let_def split: option.splits if_splits)

section \<open>Properties\<close>

lemma embed_dims: "embed c text = Inr v \<Longrightarrow> int (length v) = ec_dims c"
  by (auto simp: embed_def split: sum.splits prod.splits if_splits raw_json.splits option.splits)

definition acceptable :: "environment \<Rightarrow> bool" where
  "acceptable env \<longleftrightarrow>
     (case atoi (env_or env ''EMBEDDER_DIMS'' ''768'') of None \<Rightarrow> False | Some n \<Rightarrow> 0 < n) \<and>
     env ''DATABASE_URL'' \<noteq> [] \<and>
     (let source = to_lower (env_or env ''MEMORY_SOURCE'' ''mem0'') in
      source \<in> set [''zep'', ''letta'', ''none''] \<or> source = ''mem0'' \<and> env ''MEM0_URL'' \<noteq> [])"

end
