(* ===== verification/Mcp_Cli.thy ===== *)
theory Mcp_Cli
  imports Config
begin

text \<open>
  The command-line client (\<^verbatim>\<open>cmd/baseline-mcp\<close>): splitting the tool from the flags, Go's \<^verbatim>\<open>flag\<close> parsing of
  the flags it declares, the arguments of the tool, one JSON-RPC call and the unwrapping of its answer.
  The text syntax of JSON is the parameter \<open>json_of\<close> and the HTTP client a \<open>text_transport\<close>; what is printed
  is a value of \<open>printed\<close>.
\<close>

section \<open>Splitting\<close>

definition value_flags :: "string list" where
  "value_flags = [''--url'', ''--principal'', ''--token'', ''--json'', ''--arg'',
     ''-url'', ''-principal'', ''-token'', ''-json'', ''-arg'']"

fun split_step :: "bool \<Rightarrow> string \<Rightarrow> string list \<Rightarrow> string list \<Rightarrow> string \<times> string list" where
  "split_step expect tool rest [] = (tool, rest)"
| "split_step expect tool rest (a # argv) =
     (if expect then split_step False tool (rest @ [a]) argv
      else if has_prefix a ''-'' then split_step (a \<in> set value_flags \<and> CHR ''='' \<notin> set a) tool (rest @ [a]) argv
      else if tool = [] then split_step False a rest argv
      else split_step False tool (rest @ [a]) argv)"

definition split_tool_and_flags :: "string list \<Rightarrow> string \<times> string list" where
  "split_tool_and_flags argv = split_step False [] [] argv"

section \<open>Flags\<close>

record cli_flags =
  fl_url :: string
  fl_principal :: string
  fl_token :: string
  fl_json :: string
  fl_raw :: bool
  fl_list_tools :: bool
  fl_args :: "string list"

datatype cli_error =
    BadFlagSyntax string
  | UnknownFlag string
  | BadFlagValue string
  | FlagNeedsArgument string
  | ToolRequired
  | NotJsonObject
  | NotKeyValue string
  | TransportFailed error
  | Unauthorized
  | NoJsonRpcFrame
  | RpcError json
  | EmptyResult
  | ToolReported "json option"

definition default_flags :: "environment \<Rightarrow> cli_flags" where
  "default_flags env =
     \<lparr>fl_url = env_or env ''BASELINE_MCP_URL'' (env_or env ''BASELINE_URL'' ''http://localhost:8080''),
      fl_principal = env ''BASELINE_PRINCIPAL'', fl_token = env ''BASELINE_API_TOKEN'', fl_json = [],
      fl_raw = False, fl_list_tools = False, fl_args = []\<rparr>"

definition parse_bool :: "string \<Rightarrow> bool option" where
  "parse_bool s =
     (if s \<in> set [''1'', ''t'', ''T'', ''TRUE'', ''true'', ''True''] then Some True
      else if s \<in> set [''0'', ''f'', ''F'', ''FALSE'', ''false'', ''False''] then Some False
      else None)"

definition set_value :: "string \<Rightarrow> string \<Rightarrow> cli_flags \<Rightarrow> cli_flags option" where
  "set_value name v f =
     (if name = ''url'' then Some (f\<lparr>fl_url := v\<rparr>)
      else if name = ''principal'' then Some (f\<lparr>fl_principal := v\<rparr>)
      else if name = ''token'' then Some (f\<lparr>fl_token := v\<rparr>)
      else if name = ''json'' then Some (f\<lparr>fl_json := v\<rparr>)
      else if name = ''arg'' then Some (f\<lparr>fl_args := fl_args f @ [v]\<rparr>)
      else None)"

definition set_bool :: "string \<Rightarrow> bool \<Rightarrow> cli_flags \<Rightarrow> cli_flags option" where
  "set_bool name b f =
     (if name = ''raw'' then Some (f\<lparr>fl_raw := b\<rparr>)
      else if name = ''list-tools'' then Some (f\<lparr>fl_list_tools := b\<rparr>)
      else None)"

text \<open>\<^verbatim>\<open>flag.FlagSet.Parse\<close>: it stops at the first argument that is no flag, or after \<^verbatim>\<open>--\<close>.\<close>

definition flag_name :: "string \<Rightarrow> string" where
  "flag_name s = (if has_prefix s ''--'' then drop 2 s else drop 1 s)"

definition split_value :: "string \<Rightarrow> string \<times> string option" where
  "split_value name =
     (case cut CHR ''='' name of None \<Rightarrow> (name, None) | Some (n, v) \<Rightarrow> (n, Some v))"

fun parse_flags :: "string list \<Rightarrow> cli_flags \<Rightarrow> cli_error + cli_flags" where
  "parse_flags [] f = Inr f"
| "parse_flags (s # args) f =
     (if length s < 2 \<or> \<not> has_prefix s ''-'' then Inr f
      else if s = ''--'' then Inr f
      else if flag_name s = [] \<or> hd (flag_name s) = CHR ''-'' \<or> hd (flag_name s) = CHR ''='' then Inl (BadFlagSyntax s)
      else case split_value (flag_name s) of
        (name, value) \<Rightarrow>
          if set_bool name True f \<noteq> None then
            (case (case value of None \<Rightarrow> Some True | Some v \<Rightarrow> parse_bool v) of
               None \<Rightarrow> Inl (BadFlagValue s)
             | Some b \<Rightarrow> parse_flags args (the (set_bool name b f)))
          else if set_value name [] f = None then Inl (UnknownFlag s)
          else case value of
            Some v \<Rightarrow> parse_flags args (the (set_value name v f))
          | None \<Rightarrow>
              (case args of
                 [] \<Rightarrow> Inl (FlagNeedsArgument s)
               | v # args' \<Rightarrow> parse_flags args' (the (set_value name v f))))"

section \<open>Arguments\<close>

text \<open>\<^verbatim>\<open>json.Unmarshal\<close> into an \<^verbatim>\<open>any\<close>.\<close>

definition unmarshal_any :: "(string \<Rightarrow> json option) \<Rightarrow> string \<Rightarrow> json option" where
  "unmarshal_any json_of t = map_option go_value (json_of t)"

definition smart_value :: "(string \<Rightarrow> json option) \<Rightarrow> string \<Rightarrow> json" where
  "smart_value json_of v =
     (let t = trim_space v in
      if t = [] then JStr v
      else if hd t \<in> set ''{[tfn-0123456789'' then (case unmarshal_any json_of t of None \<Rightarrow> JStr v | Some j \<Rightarrow> j)
      else JStr v)"

fun add_args :: "(string \<Rightarrow> json option) \<Rightarrow> string list \<Rightarrow> (string \<times> json) list \<Rightarrow> cli_error + (string \<times> json) list" where
  "add_args json_of [] m = Inr m"
| "add_args json_of (p # ps) m =
     (case cut CHR ''='' p of
        None \<Rightarrow> Inl (NotKeyValue p)
      | Some (k, v) \<Rightarrow> add_args json_of ps (AList.update k (smart_value json_of v) m))"

definition build_args :: "(string \<Rightarrow> json option) \<Rightarrow> string \<Rightarrow> string list \<Rightarrow> cli_error + json" where
  "build_args json_of json_args pairs =
     (if json_args \<noteq> [] then
        (case unmarshal_any json_of json_args of
           Some (JObj m) \<Rightarrow> Inr (JObj m)
         | Some JNull \<Rightarrow> Inr JNull
         | _ \<Rightarrow> Inl NotJsonObject)
      else map_sum id JObj (add_args json_of pairs []))"

section \<open>The call\<close>

type_synonym text_transport = "http_request \<Rightarrow> error + int \<times> string"

datatype printed =
    PrintedVersion
  | PrintedJson json
  | PrintedText string
  | PrintedTools "(json option \<times> json option) list"

text \<open>The first \<^verbatim>\<open>data:\<close> line that holds a JSON-RPC object.\<close>

fun sse_frames :: "(string \<Rightarrow> json option) \<Rightarrow> string list \<Rightarrow> cli_error + (string \<times> json) list" where
  "sse_frames json_of [] = Inl NoJsonRpcFrame"
| "sse_frames json_of (l # ls) =
     (let line = trim_right_char CHR 0x0D l in
      if \<not> has_prefix line ''data:'' then sse_frames json_of ls
      else case unmarshal_any json_of (trim_space (drop 5 line)) of
             Some (JObj m) \<Rightarrow> if map_of m ''jsonrpc'' \<noteq> None then Inr m else sse_frames json_of ls
           | _ \<Rightarrow> sse_frames json_of ls)"

definition parse_sse :: "(string \<Rightarrow> json option) \<Rightarrow> string \<Rightarrow> cli_error + (string \<times> json) list" where
  "parse_sse json_of body = sse_frames json_of (split_on CHR 0x0A body)"

fun tool_lines :: "json list \<Rightarrow> (json option \<times> json option) list" where
  "tool_lines [] = []"
| "tool_lines (JObj m # ts) = (map_of m ''name'', map_of m ''description'') # tool_lines ts"
| "tool_lines (_ # ts) = tool_lines ts"

definition first_text :: "json \<Rightarrow> string" where
  "first_text j = (case j of JObj m \<Rightarrow> (case map_of m ''text'' of Some (JStr s) \<Rightarrow> s | _ \<Rightarrow> []) | _ \<Rightarrow> [])"

definition print_result :: "(string \<Rightarrow> json option) \<Rightarrow> (string \<times> json) list option \<Rightarrow> bool \<Rightarrow> cli_error + printed" where
  "print_result json_of result raw =
     (case result of
        None \<Rightarrow> Inl EmptyResult
      | Some m \<Rightarrow>
          if map_of m ''isError'' = Some (JBool True) then Inl (ToolReported (map_of m ''content''))
          else case map_of m ''tools'' of
            Some (JArr tools) \<Rightarrow> Inr (PrintedTools (tool_lines tools))
          | _ \<Rightarrow>
              (case (case map_of m ''content'' of Some (JArr cs) \<Rightarrow> cs | _ \<Rightarrow> []) of
                 [] \<Rightarrow> Inr (PrintedJson (JObj m))
               | c # _ \<Rightarrow>
                   (let t = first_text c in
                    if raw then Inr (PrintedText t)
                    else case unmarshal_any json_of t of None \<Rightarrow> Inr (PrintedText t) | Some inner \<Rightarrow> Inr (PrintedJson inner))))"

definition rpc_request :: "cli_flags \<Rightarrow> string \<Rightarrow> json \<Rightarrow> http_request" where
  "rpc_request f verb params =
     \<lparr>hq_method = ''POST'', hq_base = trim_right_char CHR ''/'' (fl_url f), hq_path = [''mcp''], hq_query = [],
      hq_headers = [(''Content-Type'', ''application/json''), (''Accept'', ''application/json, text/event-stream'')]
        @ (if fl_principal f \<noteq> [] then [(principal_header, fl_principal f)] else [])
        @ (if fl_token f \<noteq> [] then [(''Authorization'', ''Bearer '' @ fl_token f)] else []),
      hq_body = Some (JObj [(''jsonrpc'', JStr ''2.0''), (''id'', JNum 1), (''method'', JStr verb), (''params'', params)])\<rparr>"

definition rpc :: "text_transport \<Rightarrow> (string \<Rightarrow> json option) \<Rightarrow> cli_flags \<Rightarrow> string \<Rightarrow> json \<Rightarrow> cli_error + printed" where
  "rpc http json_of f verb params =
     (case http (rpc_request f verb params) of
        Inl e \<Rightarrow> Inl (TransportFailed e)
      | Inr (status, body) \<Rightarrow>
          if status = 401 then Inl Unauthorized
          else case parse_sse json_of body of
            Inl e \<Rightarrow> Inl e
          | Inr payload \<Rightarrow>
              (case map_of payload ''error'' of
                 Some e \<Rightarrow> Inl (RpcError e)
               | None \<Rightarrow> print_result json_of
                   (case map_of payload ''result'' of Some (JObj m) \<Rightarrow> Some m | _ \<Rightarrow> None) (fl_raw f)))"

definition cli_run :: "text_transport \<Rightarrow> (string \<Rightarrow> json option) \<Rightarrow> environment \<Rightarrow> string list \<Rightarrow> cli_error + printed" where
  "cli_run http json_of env argv =
     (case split_tool_and_flags argv of
        (tool, rest) \<Rightarrow>
          (case parse_flags rest (default_flags env) of
             Inl e \<Rightarrow> Inl e
           | Inr f \<Rightarrow>
               if fl_list_tools f then rpc http json_of f ''tools/list'' (JObj [])
               else if tool = [] then Inl ToolRequired
               else case build_args json_of (fl_json f) (fl_args f) of
                 Inl e \<Rightarrow> Inl e
               | Inr arguments \<Rightarrow>
                   rpc http json_of f ''tools/call'' (JObj [(''name'', JStr tool), (''arguments'', arguments)])))"

text \<open>\<^verbatim>\<open>main\<close>: the exit status, and what is printed on success.\<close>

definition cli_main :: "text_transport \<Rightarrow> (string \<Rightarrow> json option) \<Rightarrow> environment \<Rightarrow> string list \<Rightarrow> nat \<times> printed option" where
  "cli_main http json_of env argv =
     (if argv = [''--version''] \<or> argv = [''-version''] then (0, Some PrintedVersion)
      else case cli_run http json_of env argv of Inl e \<Rightarrow> (1, None) | Inr out \<Rightarrow> (0, Some out))"

section \<open>The tool may stand anywhere\<close>

text \<open>A flag as it is written: alone, with its value after an equals sign, or followed by its value.\<close>

definition flag_group :: "string list \<Rightarrow> bool" where
  "flag_group g \<longleftrightarrow>
     (\<exists>f. g = [f] \<and> has_prefix f ''-'' \<and> \<not> (f \<in> set value_flags \<and> CHR ''='' \<notin> set f)) \<or>
     (\<exists>f v. g = [f, v] \<and> f \<in> set value_flags)"

definition tool_word :: "string \<Rightarrow> bool" where
  "tool_word t \<longleftrightarrow> t \<noteq> [] \<and> \<not> has_prefix t ''-''"

lemma value_flag_shape: "f \<in> set value_flags \<Longrightarrow> has_prefix f ''-'' \<and> CHR ''='' \<notin> set f"
  by (auto simp: value_flags_def has_prefix_def)

lemma split_group:
  assumes "flag_group g"
  shows "split_step False tool rest (g @ argv) = split_step False tool (rest @ g) argv"
  using assms value_flag_shape by (auto simp: flag_group_def)

lemma split_groups:
  assumes "\<forall>g \<in> set gs. flag_group g"
  shows "split_step False tool rest (concat gs @ argv) = split_step False tool (rest @ concat gs) argv"
  using assms by (induction gs arbitrary: rest) (simp_all add: split_group)

lemma split_around_tool:
  assumes "\<forall>g \<in> set (before @ after). flag_group g" and "tool_word t"
  shows "split_tool_and_flags (concat before @ t # concat after) = (t, concat before @ concat after)"
proof -
  have "split_tool_and_flags (concat before @ t # concat after) = split_step False [] (concat before) (t # concat after)"
    using split_groups[of before "[]" "[]"] assms(1) by (simp add: split_tool_and_flags_def)
  also have "\<dots> = split_step False t (concat before) (concat after @ [])"
    using assms(2) by (simp add: tool_word_def)
  also have "\<dots> = (t, concat before @ concat after)"
    using split_groups[of after t "concat before" "[]"] assms(1) by simp
  finally show ?thesis .
qed

text \<open>
  The tool may stand anywhere among the flags: wherever it is put, the split gives that tool and all the
  flags in their order, and the command does the same.
\<close>

lemma cli_tool_anywhere:
  assumes "\<forall>g \<in> set (before @ after). flag_group g" and "tool_word t"
  shows "split_tool_and_flags (concat before @ t # concat after) = (t, concat before @ concat after) \<and>
    cli_run http json_of env (concat before @ t # concat after) = cli_run http json_of env (t # concat (before @ after))"
  using split_around_tool[OF assms] split_around_tool[of "[]" "before @ after" t] assms
  by (simp add: cli_run_def)

lemma cli_tool_anywhere_applied:
  "split_tool_and_flags [''--principal'', ''you'', ''review_promotion'', ''--raw'', ''--arg'', ''action=approve''] =
     (''review_promotion'', [''--principal'', ''you'', ''--raw'', ''--arg'', ''action=approve''])"
proof -
  have "\<forall>g \<in> set ([[''--principal'', ''you'']] @ [[''--raw''], [''--arg'', ''action=approve'']]). flag_group g"
    by (simp add: flag_group_def value_flags_def has_prefix_def)
  moreover have "tool_word ''review_promotion''" by (simp add: tool_word_def has_prefix_def)
  ultimately show ?thesis
    using cli_tool_anywhere[of "[[''--principal'', ''you'']]" "[[''--raw''], [''--arg'', ''action=approve'']]" "''review_promotion''"]
    by simp
qed

end
