(* ===== verification/Interleaving.thy ===== *)
theory Interleaving
  imports Sql
begin

text \<open>
  Transactions that run at the same time, statement by statement, under PostgreSQL's default isolation
  \<^verbatim>\<open>READ COMMITTED\<close>. A transaction is a tree: a statement and, for each answer of the server, the program
  that goes on. A connection holds the rest of its program, the writes it has not committed, the locks
  it took, and whether the server has aborted it. A statement sees the committed store under the writes
  of its own connection, and waits while another connection holds a lock it needs; a commit publishes
  the writes. \<open>alone\<close> runs the same tree as one program of \<open>Sql\<close>, so that what is proved of the services'
  programs can be carried over: the locale \<open>row_locks\<close> states what locks must guarantee for every commit
  to be a run of its program alone on the store it commits to.
\<close>

section \<open>Transactions as trees of statements\<close>

text \<open>A statement: the locks it takes, its answer with the writes it makes, and how the program goes on
  when the server refuses it.\<close>

datatype ('db, 'l, 'w, 'a) txn =
    Done "error + 'a"
  | Issue "'db \<Rightarrow> 'l set" "'db \<Rightarrow> error + ('db, 'l, 'w, 'a) txn \<times> 'w list" "error \<Rightarrow> ('db, 'l, 'w, 'a) txn"

definition return_txn :: "'a \<Rightarrow> ('db, 'l, 'w, 'a) txn" where
  "return_txn a = Done (Inr a)"

definition fail_txn :: "error \<Rightarrow> ('db, 'l, 'w, 'a) txn" where
  "fail_txn e = Done (Inl e)"

definition stmt_txn :: "('db \<Rightarrow> 'l set) \<Rightarrow> ('db \<Rightarrow> error + 'a \<times> 'w list) \<Rightarrow> ('db, 'l, 'w, 'a) txn" where
  "stmt_txn l g = Issue l (\<lambda>d. map_sum id (map_prod return_txn id) (g d)) fail_txn"

primrec bind_txn :: "('db, 'l, 'w, 'a) txn \<Rightarrow> ('a \<Rightarrow> ('db, 'l, 'w, 'b) txn) \<Rightarrow> ('db, 'l, 'w, 'b) txn" where
  "bind_txn (Done r) k = (case r of Inl e \<Rightarrow> Done (Inl e) | Inr a \<Rightarrow> k a)"
| "bind_txn (Issue l f h) k =
     Issue l (\<lambda>d. map_sum id (map_prod (\<lambda>p. bind_txn p k) id) (f d)) (\<lambda>e. bind_txn (h e) k)"

primrec attempt_txn :: "('db, 'l, 'w, 'a) txn \<Rightarrow> ('db, 'l, 'w, error + 'a) txn" where
  "attempt_txn (Done r) = Done (Inr r)"
| "attempt_txn (Issue l f h) =
     Issue l (\<lambda>d. map_sum id (map_prod attempt_txn id) (f d)) (\<lambda>e. attempt_txn (h e))"

definition apply_all :: "('w \<Rightarrow> 'db \<Rightarrow> 'db) \<Rightarrow> 'w list \<Rightarrow> 'db \<Rightarrow> 'db" where
  "apply_all eff ws d = fold eff ws d"

text \<open>The tree as one program: each statement runs, fails or is refused as \<open>stmt\<close> says.\<close>

primrec alone :: "('w \<Rightarrow> 'db \<Rightarrow> 'db) \<Rightarrow> ('db, 'l, 'w, 'a) txn \<Rightarrow> ('db, 'a) sql" where
  "alone eff (Done r) = (\<lambda>s. (r, s))"
| "alone eff (Issue l f h) = (\<lambda>s.
     if aborted s then alone eff (h ErrTxAborted) s
     else case pop_fault (faults s) of
       (True, fs) \<Rightarrow> alone eff (h ErrDriver) (s\<lparr>aborted := True, faults := fs\<rparr>)
     | (False, fs) \<Rightarrow>
         (case map_sum id (map_prod (alone eff) id) (f (store s)) of
            Inl e \<Rightarrow> alone eff (h e) (s\<lparr>aborted := True, faults := fs\<rparr>)
          | Inr (q, ws) \<Rightarrow> q (s\<lparr>store := apply_all eff ws (store s), faults := fs\<rparr>)))"

lemma txn_induct [case_names Done Issue]:
  assumes "\<And>r. P (Done r)"
    and "\<And>l f h. (\<And>d q ws. f d = Inr (q, ws) \<Longrightarrow> P q) \<Longrightarrow> (\<And>e. P (h e)) \<Longrightarrow> P (Issue l f h)"
  shows "P p"
proof (induction p)
  case (Issue l f h)
  have "P q" if "f d = Inr (q, ws)" for d q ws
    by (rule Issue.IH(1)[of "Inr (q, ws)" "(q, ws)"]) (use that in \<open>auto simp: setr.simps fsts.simps intro: range_eqI[of _ _ d]\<close>)
  then show ?case using Issue.IH(2) by (blast intro: assms(2))
qed (rule assms(1))

lemma apply_all_simps [simp]:
  "apply_all eff [] d = d" "apply_all eff (w # ws) d = apply_all eff ws (eff w d)"
  "apply_all eff (ws @ us) d = apply_all eff us (apply_all eff ws d)"
  by (simp_all add: apply_all_def)

lemma alone_Issue:
  "alone eff (Issue l f h) s =
     (if aborted s then alone eff (h ErrTxAborted) s
      else case pop_fault (faults s) of
        (True, fs) \<Rightarrow> alone eff (h ErrDriver) (s\<lparr>aborted := True, faults := fs\<rparr>)
      | (False, fs) \<Rightarrow>
          (case f (store s) of
             Inl e \<Rightarrow> alone eff (h e) (s\<lparr>aborted := True, faults := fs\<rparr>)
           | Inr (q, ws) \<Rightarrow> alone eff q (s\<lparr>store := apply_all eff ws (store s), faults := fs\<rparr>)))"
  by (cases "f (store s)") (auto split: prod.split bool.split)

declare alone.simps(2) [simp del]

lemma alone_return [simp]: "alone eff (return_txn a) = return_sql a"
  by (simp add: fun_eq_iff return_txn_def return_sql_def)

lemma alone_fail [simp]: "alone eff (fail_txn e) = fail_sql e"
  by (simp add: fun_eq_iff fail_txn_def fail_sql_def)

lemma alone_stmt:
  "alone eff (stmt_txn l g) =
     stmt (\<lambda>d. case g d of Inl e \<Rightarrow> Inl e | Inr (a, ws) \<Rightarrow> Inr (a, apply_all eff ws d))"
proof
  fix s :: "'a session"
  show "alone eff (stmt_txn l g) s =
      stmt (\<lambda>d. case g d of Inl e \<Rightarrow> Inl e | Inr (a, ws) \<Rightarrow> Inr (a, apply_all eff ws d)) s"
    unfolding stmt_txn_def alone_Issue stmt_def
    by (cases "g (store s)") (auto simp: fail_sql_def return_sql_def split: prod.split bool.split)
qed

lemma alone_bind: "alone eff (bind_txn p k) = bind_sql (alone eff p) (\<lambda>a. alone eff (k a))"
proof (induction p rule: txn_induct)
  case (Done r)
  then show ?case by (simp add: fun_eq_iff bind_sql_def split: sum.split)
next
  case (Issue l f h)
  show ?case
  proof
    fix s
    show "alone eff (bind_txn (Issue l f h) k) s = bind_sql (alone eff (Issue l f h)) (\<lambda>a. alone eff (k a)) s"
      unfolding bind_txn.simps alone_Issue bind_sql_def
      by (cases "f (store s)") (auto simp: Issue.IH bind_sql_def split: prod.split bool.split)
  qed
qed

lemma alone_attempt: "alone eff (attempt_txn p) = attempt (alone eff p)"
proof (induction p rule: txn_induct)
  case (Done r)
  then show ?case by (simp add: fun_eq_iff attempt_def)
next
  case (Issue l f h)
  show ?case
  proof
    fix s
    show "alone eff (attempt_txn (Issue l f h)) s = attempt (alone eff (Issue l f h)) s"
      unfolding attempt_txn.simps alone_Issue attempt_def
      by (cases "f (store s)") (auto simp: Issue.IH attempt_def split: prod.split bool.split)
  qed
qed

lemma bind_return_txn [simp]: "bind_txn (return_txn a) k = k a"
  by (simp add: return_txn_def)

lemma bind_fail_txn [simp]: "bind_txn (fail_txn e) k = fail_txn e"
  by (simp add: fail_txn_def)

lemma bind_txn_assoc: "bind_txn (bind_txn p k) k' = bind_txn p (\<lambda>a. bind_txn (k a) k')"
proof (induction p rule: txn_induct)
  case (Done r)
  then show ?case by (cases r) simp_all
next
  case (Issue l f h)
  have "map_sum id (map_prod (\<lambda>p. bind_txn p k') id) (map_sum id (map_prod (\<lambda>p. bind_txn p k) id) (f d)) =
      map_sum id (map_prod (\<lambda>p. bind_txn p (\<lambda>a. bind_txn (k a) k')) id) (f d)" for d
    by (cases "f d") (auto simp: Issue.IH)
  then show ?case by (simp add: Issue.IH)
qed

section \<open>Connections to one store\<close>

record ('db, 'l, 'w, 'o, 'a) connection =
  c_op :: 'o
  c_rest :: "('db, 'l, 'w, 'a) txn"
  c_writes :: "'w list"
  c_locks :: "'l set"
  c_doomed :: bool

text \<open>What the database has committed, in the order of the commits: a transaction with its answer, or a
  change by a statement outside any transaction.\<close>

datatype ('o, 'a, 'x) mark = Committed 'o 'a | Direct 'x

record ('db, 'l, 'w, 'o, 'a, 'x) database =
  shared :: 'db
  conns :: "nat \<Rightarrow> ('db, 'l, 'w, 'o, 'a) connection option"
  past :: "('o, 'a, 'x) mark list"

definition others_locks :: "(nat \<Rightarrow> ('db, 'l, 'w, 'o, 'a) connection option) \<Rightarrow> nat \<Rightarrow> 'l set" where
  "others_locks cs k = \<Union> {c_locks c |c j. j \<noteq> k \<and> cs j = Some c}"

definition opened :: "'o \<Rightarrow> ('db, 'l, 'w, 'a) txn \<Rightarrow> ('db, 'l, 'w, 'o, 'a) connection" where
  "opened x p = \<lparr>c_op = x, c_rest = p, c_writes = [], c_locks = {}, c_doomed = False\<rparr>"

text \<open>
  A step of the database. \<open>start d x p\<close>: with \<open>d\<close> committed, the operation \<open>x\<close> may begin with the program
  \<open>p\<close>. Any statement may be refused (a constraint, a broken connection, the victim of a deadlock), which
  dooms the transaction; any connection may go away. \<open>outside\<close> relates the stores a statement that
  commits by itself goes between, and \<open>agree L\<close> two stores that are the same to whoever holds \<open>L\<close>.
\<close>

inductive db_step for eff :: "'w \<Rightarrow> 'db \<Rightarrow> 'db" and start :: "'db \<Rightarrow> 'o \<Rightarrow> ('db, 'l, 'w, 'a) txn \<Rightarrow> bool"
    and agree :: "'l set \<Rightarrow> 'db \<Rightarrow> 'db \<Rightarrow> bool" and outside :: "'db \<Rightarrow> 'x \<Rightarrow> 'db \<Rightarrow> bool" where
  begins: "conns s k = None \<Longrightarrow> start (shared s) x p \<Longrightarrow>
    db_step eff start agree outside s (s\<lparr>conns := (conns s)(k \<mapsto> opened x p)\<rparr>)"
| runs: "conns s k = Some c \<Longrightarrow> \<not> c_doomed c \<Longrightarrow> c_rest c = Issue l f h \<Longrightarrow>
    v = apply_all eff (c_writes c) (shared s) \<Longrightarrow> l v \<inter> others_locks (conns s) k = {} \<Longrightarrow> f v = Inr (q, ws) \<Longrightarrow>
    db_step eff start agree outside s
      (s\<lparr>conns := (conns s)(k \<mapsto> c\<lparr>c_rest := q, c_writes := c_writes c @ ws, c_locks := c_locks c \<union> l v\<rparr>)\<rparr>)"
| fails: "conns s k = Some c \<Longrightarrow> c_rest c = Issue l f h \<Longrightarrow>
    db_step eff start agree outside s (s\<lparr>conns := (conns s)(k \<mapsto> c\<lparr>c_rest := h e, c_doomed := True\<rparr>)\<rparr>)"
| commits: "conns s k = Some c \<Longrightarrow> \<not> c_doomed c \<Longrightarrow> c_rest c = Done (Inr a) \<Longrightarrow>
    db_step eff start agree outside s
      (s\<lparr>shared := apply_all eff (c_writes c) (shared s), conns := (conns s)(k := None),
         past := past s @ [Committed (c_op c) a]\<rparr>)"
| rolls_back: "conns s k = Some c \<Longrightarrow> db_step eff start agree outside s (s\<lparr>conns := (conns s)(k := None)\<rparr>)"
| statement: "outside (shared s) x d \<Longrightarrow> (\<And>k c. conns s k = Some c \<Longrightarrow> agree (c_locks c) (shared s) d) \<Longrightarrow>
    db_step eff start agree outside s (s\<lparr>shared := d, past := past s @ [Direct x]\<rparr>)"

inductive db_reach for eff start agree outside d0 where
  fresh: "db_reach eff start agree outside d0 \<lparr>shared = d0, conns = Map.empty, past = []\<rparr>"
| later: "db_reach eff start agree outside d0 s \<Longrightarrow> db_step eff start agree outside s s' \<Longrightarrow>
    db_reach eff start agree outside d0 s'"

text \<open>
  The same history one after the other: each operation runs alone, from its first statement to its
  commit, on the store its predecessors left. \<open>still d x\<close> is what remains true, when \<open>x\<close> commits, of what it
  was told when it began.
\<close>

inductive one_by_one for eff prog still outside d0 where
  none: "one_by_one eff prog still outside d0 [] d0"
| alone_next: "one_by_one eff prog still outside d0 h d \<Longrightarrow> still d x \<Longrightarrow> exec (alone eff (prog x)) d a d' \<Longrightarrow>
    one_by_one eff prog still outside d0 (h @ [Committed x a]) d'"
| direct: "one_by_one eff prog still outside d0 h d \<Longrightarrow> outside d x d' \<Longrightarrow>
    one_by_one eff prog still outside d0 (h @ [Direct x]) d'"

section \<open>Replaying a connection\<close>

text \<open>\<open>replays eff d p q ws L\<close>: run alone from \<open>d\<close>, \<open>p\<close> gets to \<open>q\<close> with the writes \<open>ws\<close> and the locks \<open>L\<close>.\<close>

inductive replays for eff d p where
  start: "replays eff d p p [] {}"
| step: "replays eff d p (Issue l f h) ws L \<Longrightarrow> f (apply_all eff ws d) = Inr (q, us) \<Longrightarrow>
    replays eff d p q (ws @ us) (L \<union> l (apply_all eff ws d))"

lemma replays_alone:
  "replays eff d p q ws L \<Longrightarrow>
   alone eff p \<lparr>store = d, aborted = False, faults = []\<rparr> =
     alone eff q \<lparr>store = apply_all eff ws d, aborted = False, faults = []\<rparr>"
  by (induction rule: replays.induct) (simp_all add: alone_Issue)

lemma replays_exec: "replays eff d p (Done (Inr a)) ws L \<Longrightarrow> exec (alone eff p) d a (apply_all eff ws d)"
  by (drule replays_alone) (simp add: exec_def)

section \<open>Running to the commit\<close>

text \<open>
  Conversely a connection that no other keeps waiting can run its program to the end: what the program
  does alone on the committed store is one of the things the database can do.
\<close>

lemma alone_aborted: "aborted s \<Longrightarrow> aborted (snd (alone eff p s))"
proof (induction p arbitrary: s rule: txn_induct)
  case (Issue l f h)
  then show ?case by (simp add: alone_Issue)
qed simp

lemma others_locks_upd: "others_locks (cs(k := x)) k = others_locks cs k"
  unfolding others_locks_def by (rule arg_cong[of _ _ Union]) auto

lemma alone_commits:
  assumes "conns s k = Some c" and "\<not> c_doomed c" and "others_locks (conns s) k = {}"
    and "alone eff (c_rest c) \<lparr>store = apply_all eff (c_writes c) (shared s), aborted = False, faults = []\<rparr> =
      (Inr a, \<lparr>store = d', aborted = False, faults = []\<rparr>)"
  shows "(db_step eff start agree outside)\<^sup>*\<^sup>* s
    (s\<lparr>shared := d', conns := (conns s)(k := None), past := past s @ [Committed (c_op c) a]\<rparr>)"
proof -
  have "(db_step eff start agree outside)\<^sup>*\<^sup>* s
      (s\<lparr>shared := d', conns := (conns s)(k := None), past := past s @ [Committed (c_op c) a]\<rparr>)"
    if "p = c_rest c" for p
    using that assms
  proof (induction p arbitrary: s c rule: txn_induct)
    case (Done r)
    from Done(5)[unfolded Done(1)[symmetric]] Done(1)[symmetric]
    have r: "c_rest c = Done (Inr a)" "d' = apply_all eff (c_writes c) (shared s)" by auto
    show ?case
      unfolding r(2) by (rule r_into_rtranclp, rule db_step.commits[OF Done(2,3) r(1)])
  next
    case (Issue l f h)
    let ?v = "apply_all eff (c_writes c) (shared s)"
    have rest: "c_rest c = Issue l f h" using Issue(3) by simp
    show ?case
    proof (cases "f ?v")
      case (Inl e)
      then show ?thesis
        using Issue(7) alone_aborted[of "\<lparr>store = ?v, aborted = True, faults = []\<rparr>" eff "h e"] rest
        by (simp add: alone_Issue)
    next
      case (Inr qw)
      obtain q ws where qw: "f ?v = Inr (q, ws)" using Inr by (cases qw) auto
      let ?c = "c\<lparr>c_rest := q, c_writes := c_writes c @ ws, c_locks := c_locks c \<union> l ?v\<rparr>"
      let ?s = "s\<lparr>conns := (conns s)(k \<mapsto> ?c)\<rparr>"
      have step: "db_step eff start agree outside s ?s"
        by (rule db_step.runs[OF Issue(4,5) rest refl _ qw]) (simp add: Issue(6))
      have free: "others_locks (conns ?s) k = {}" using Issue(6) by (simp add: others_locks_upd)
      have go: "alone eff (c_rest ?c) \<lparr>store = apply_all eff (c_writes ?c) (shared ?s), aborted = False, faults = []\<rparr> =
          (Inr a, \<lparr>store = d', aborted = False, faults = []\<rparr>)"
        using Issue(7) rest qw by (simp add: alone_Issue)
      have "(db_step eff start agree outside)\<^sup>*\<^sup>* ?s
          (?s\<lparr>shared := d', conns := (conns ?s)(k := None), past := past ?s @ [Committed (c_op ?c) a]\<rparr>)"
        by (intro Issue(1)[OF qw _ _ _ free go]) (use Issue(5) in simp_all)
      then have "(db_step eff start agree outside)\<^sup>*\<^sup>* ?s
          (s\<lparr>shared := d', conns := (conns s)(k := None), past := past s @ [Committed (c_op c) a]\<rparr>)"
        by (simp add: fun_upd_def cong: if_cong)
      with step show ?thesis by (rule converse_rtranclp_into_rtranclp)
    qed
  qed
  then show ?thesis by blast
qed

lemma reach_steps:
  "(db_step eff start agree outside)\<^sup>*\<^sup>* s s' \<Longrightarrow> db_reach eff start agree outside d0 s \<Longrightarrow>
   db_reach eff start agree outside d0 s'"
  by (induction rule: rtranclp_induct) (auto intro: db_reach.later)

text \<open>A program that cannot commit any more, whatever the server answers.\<close>

inductive hopeless :: "('db, 'l, 'w, 'a) txn \<Rightarrow> bool" where
  "hopeless (Done (Inl e))"
| "(\<And>d q ws. f d = Inr (q, ws) \<Longrightarrow> hopeless q) \<Longrightarrow> hopeless (Issue l f h)"

inductive_simps hopeless_simps [simp]: "hopeless (Done r)" "hopeless (Issue l f h)"

lemma hopeless_fail [simp]: "hopeless (fail_txn e)"
  by (simp add: fail_txn_def)

lemma hopeless_bind_left: "hopeless p \<Longrightarrow> hopeless (bind_txn p k)"
proof (induction p rule: txn_induct)
  case (Issue l f h)
  show ?case
    unfolding bind_txn.simps
  proof (rule hopeless.intros)
    fix d q' ws
    assume "map_sum id (map_prod (\<lambda>p. bind_txn p k) id) (f d) = Inr (q', ws)"
    then obtain q where "f d = Inr (q, ws)" "q' = bind_txn q k" by (cases "f d") auto
    then show "hopeless q'" using Issue by simp metis
  qed
qed (auto split: sum.split)

lemma hopeless_bind_right: "(\<And>a. hopeless (k a)) \<Longrightarrow> hopeless (bind_txn p k)"
proof (induction p rule: txn_induct)
  case (Issue l f h)
  show ?case
    unfolding bind_txn.simps
  proof (rule hopeless.intros)
    fix d q' ws
    assume "map_sum id (map_prod (\<lambda>p. bind_txn p k) id) (f d) = Inr (q', ws)"
    then obtain q where "f d = Inr (q, ws)" "q' = bind_txn q k" by (cases "f d") auto
    then show "hopeless q'" using Issue by metis
  qed
qed (auto split: sum.split)

section \<open>What locks must guarantee\<close>

text \<open>Every write of a list is the owner's, on the store its predecessors left.\<close>

primrec owned :: "('w \<Rightarrow> 'db \<Rightarrow> 'db) \<Rightarrow> ('l set \<Rightarrow> 'db \<Rightarrow> 'w \<Rightarrow> bool) \<Rightarrow> 'l set \<Rightarrow> 'db \<Rightarrow> 'w list \<Rightarrow> bool" where
  "owned eff own L d [] = True"
| "owned eff own L d (w # ws) = (own L d w \<and> owned eff own L (eff w d) ws)"

lemma owned_append [simp]:
  "owned eff own L d (ws @ us) = (owned eff own L d ws \<and> owned eff own L (apply_all eff ws d) us)"
  by (induction ws arbitrary: d) auto

text \<open>
  A statement is steady when the locks held after it own its writes and pin its answer: it answers the
  same on every store that agrees under them. A disciplined program issues steady statements on every
  path that can still commit, or with \<open>b\<close> false on every path; \<open>Q\<close> is what holds of its locks and its
  result at the end.
\<close>

definition steady where
  "steady eff agree own good L l f v ws \<longleftrightarrow>
     owned eff own (L \<union> l v) v ws \<and> good (apply_all eff ws v) \<and>
     (\<forall>v'. good v' \<longrightarrow> agree (L \<union> l v) v v' \<longrightarrow> l v' = l v \<and> f v' = f v)"

inductive disciplined for eff agree own good b Q where
  finished: "Q L r \<Longrightarrow> disciplined eff agree own good b Q L (Done r)"
| issued: "(\<And>v q ws. good v \<Longrightarrow> f v = Inr (q, ws) \<Longrightarrow>
      b \<and> hopeless q \<or> steady eff agree own good L l f v ws \<and> disciplined eff agree own good b Q (L \<union> l v) q) \<Longrightarrow>
    disciplined eff agree own good b Q L (Issue l f h)"

inductive_cases disciplined_IssueE: "disciplined eff agree own good b Q L (Issue l f h)"

lemma disciplined_return: "Q L (Inr a) \<Longrightarrow> disciplined eff agree own good b Q L (return_txn a)"
  unfolding return_txn_def by (rule finished)

lemma disciplined_fail: "Q L (Inl e) \<Longrightarrow> disciplined eff agree own good b Q L (fail_txn e)"
  unfolding fail_txn_def by (rule finished)

lemma disciplined_bind:
  assumes p: "disciplined eff agree own good b R L p"
    and k: "\<And>M a. L \<subseteq> M \<Longrightarrow> R M (Inr a) \<Longrightarrow> disciplined eff agree own good b Q M (k a)"
    and e: "\<And>M e. L \<subseteq> M \<Longrightarrow> R M (Inl e) \<Longrightarrow> Q M (Inl e)"
  shows "disciplined eff agree own good b Q L (bind_txn p k)"
proof -
  have "L \<subseteq> M \<Longrightarrow> disciplined eff agree own good b Q M (bind_txn p k)" if "disciplined eff agree own good b R M p" for M
    using that
  proof (induction rule: disciplined.induct)
    case (finished M r)
    then show ?case using k e by (auto intro: disciplined.finished split: sum.split)
  next
    case (issued f M l h)
    show ?case
      unfolding bind_txn.simps
    proof (rule disciplined.issued)
      fix v q' ws
      assume v: "good v" and q': "map_sum id (map_prod (\<lambda>p. bind_txn p k) id) (f v) = Inr (q', ws)"
      then obtain q where q: "f v = Inr (q, ws)" "q' = bind_txn q k" by (cases "f v") auto
      have "L \<subseteq> M \<union> l v" using issued.prems by blast
      with issued.IH[OF v q(1)] show "b \<and> hopeless q' \<or>
          steady eff agree own good M l (\<lambda>d. map_sum id (map_prod (\<lambda>p. bind_txn p k) id) (f d)) v ws \<and>
          disciplined eff agree own good b Q (M \<union> l v) q'"
        unfolding q(2) by (auto simp: steady_def intro: hopeless_bind_left)
    qed
  qed
  then show ?thesis using p by blast
qed

lemma disciplined_attempt:
  assumes "disciplined eff agree own good False (\<lambda>L r. Q L (Inr r)) L p"
  shows "disciplined eff agree own good b Q L (attempt_txn p)"
  using assms
proof (induction rule: disciplined.induct)
  case (finished L r)
  then show ?case by (auto intro: disciplined.finished)
next
  case (issued f L l h)
  show ?case
    unfolding attempt_txn.simps
  proof (rule disciplined.issued)
    fix v q' ws
    assume v: "good v" and q': "map_sum id (map_prod attempt_txn id) (f v) = Inr (q', ws)"
    then obtain q where q: "f v = Inr (q, ws)" "q' = attempt_txn q" by (cases "f v") auto
    from issued.IH[OF v q(1)] show "b \<and> hopeless q' \<or>
        steady eff agree own good L l (\<lambda>d. map_sum id (map_prod attempt_txn id) (f d)) v ws \<and>
        disciplined eff agree own good b Q (L \<union> l v) q'"
      unfolding q(2) by (auto simp: steady_def)
  qed
qed

text \<open>A statement whose answer \<open>a\<close> either dooms what follows or is steady.\<close>

lemma disciplined_stmt_bind:
  assumes "\<And>v a ws. good v \<Longrightarrow> g v = Inr (a, ws) \<Longrightarrow> b \<and> hopeless (k a) \<or>
      steady eff agree own good L l g v ws \<and> disciplined eff agree own good b Q (L \<union> l v) (k a)"
  shows "disciplined eff agree own good b Q L (bind_txn (stmt_txn l g) k)"
  unfolding stmt_txn_def bind_txn.simps
proof (rule issued)
  fix v q ws
  assume v: "good v" and q: "map_sum id (map_prod (\<lambda>p. bind_txn p k) id) (map_sum id (map_prod return_txn id) (g v)) = Inr (q, ws)"
  then obtain a where a: "g v = Inr (a, ws)" "q = k a" by (cases "g v") auto
  show "b \<and> hopeless q \<or>
       steady eff agree own good L l
         (\<lambda>d. map_sum id (map_prod (\<lambda>p. bind_txn p k) id) (map_sum id (map_prod return_txn id) (g d))) v ws \<and>
       disciplined eff agree own good b Q (L \<union> l v) q"
    using assms[OF v a(1)] unfolding a(2) by (auto simp: steady_def)
qed

lemma disciplined_stmt:
  assumes "\<And>v a ws. good v \<Longrightarrow> g v = Inr (a, ws) \<Longrightarrow> steady eff agree own good L l g v ws \<and> Q (L \<union> l v) (Inr a)"
  shows "disciplined eff agree own good b Q L (stmt_txn l g)"
  unfolding stmt_txn_def
proof (rule issued, goal_cases)
  case (1 v q ws)
  then obtain a where a: "g v = Inr (a, ws)" "q = return_txn a" by (cases "g v") auto
  show "b \<and> hopeless q \<or>
       steady eff agree own good L l (\<lambda>d. map_sum id (map_prod return_txn id) (g d)) v ws \<and>
       disciplined eff agree own good b Q (L \<union> l v) q"
    using assms[OF 1(1) a(1)] unfolding a(2) by (auto simp: steady_def intro: disciplined_return)
qed

lemma disciplined_weaken:
  assumes "disciplined eff agree own good b Q L p" and "\<And>M r. Q M r \<Longrightarrow> R M r"
  shows "disciplined eff agree own good True R L p"
  using assms(1)
  by (induction rule: disciplined.induct) (blast intro: disciplined.intros assms(2))+

section \<open>Serialisation\<close>

locale row_locks =
  fixes eff :: "'w \<Rightarrow> 'db \<Rightarrow> 'db" and agree :: "'l set \<Rightarrow> 'db \<Rightarrow> 'db \<Rightarrow> bool"
    and own :: "'l set \<Rightarrow> 'db \<Rightarrow> 'w \<Rightarrow> bool" and good :: "'db \<Rightarrow> bool"
  assumes agree_refl: "agree L d d"
    and agree_trans: "agree L d d' \<Longrightarrow> agree L d' d'' \<Longrightarrow> agree L d d''"
    and agree_less: "agree M d d' \<Longrightarrow> L \<subseteq> M \<Longrightarrow> agree L d d'"
    and own_more: "own L d w \<Longrightarrow> L \<subseteq> M \<Longrightarrow> own M d w"
    and own_agree: "own L d w \<Longrightarrow> agree L d d' \<Longrightarrow> own L d' w"
    and write_agree: "own L d w \<Longrightarrow> agree L d d' \<Longrightarrow> agree L (eff w d) (eff w d')"
    and write_others: "own L d w \<Longrightarrow> L \<inter> M = {} \<Longrightarrow> agree M d (eff w d)"
begin

lemma owned_more: "owned eff own L d ws \<Longrightarrow> L \<subseteq> M \<Longrightarrow> owned eff own M d ws"
  by (induction ws arbitrary: d) (auto intro: own_more)

lemma owned_agree:
  "owned eff own L d ws \<Longrightarrow> agree L d d' \<Longrightarrow>
   owned eff own L d' ws \<and> agree L (apply_all eff ws d) (apply_all eff ws d')"
  by (induction ws arbitrary: d d') (auto intro: own_agree write_agree)

lemma owned_others: "owned eff own L d ws \<Longrightarrow> L \<inter> M = {} \<Longrightarrow> agree M d (apply_all eff ws d)"
  by (induction ws arbitrary: d) (auto intro: agree_refl agree_trans write_others)

text \<open>What others do under the locks a connection holds does not change how it replays.\<close>

lemma replays_agree:
  assumes "replays eff d p q ws L" and "disciplined eff agree own good b Q {} p"
    and "good d" and "good d'" and "agree L d d'"
  shows "hopeless q \<or> disciplined eff agree own good b Q L q \<and> owned eff own L d ws \<and>
    good (apply_all eff ws d) \<and> good (apply_all eff ws d') \<and> replays eff d' p q ws L"
  using assms(1,5)
proof (induction rule: replays.induct)
  case start
  then show ?case using assms by (auto intro: replays.start)
next
  case (step l f h ws L q us)
  let ?v = "apply_all eff ws d" and ?v' = "apply_all eff ws d'"
  have a: "agree L d d'" using step.prems by (rule agree_less) simp
  from step.IH[OF a] show ?case
  proof (elim disjE conjE)
    assume "hopeless (Issue l f h)"
    then show ?thesis using step.hyps(2) by auto
  next
    assume di: "disciplined eff agree own good b Q L (Issue l f h)" and ow: "owned eff own L d ws"
      and gv: "good ?v" and gv': "good ?v'" and re: "replays eff d' p (Issue l f h) ws L"
    consider "hopeless q" | "steady eff agree own good L l f ?v us" "disciplined eff agree own good b Q (L \<union> l ?v) q"
      using di gv step.hyps(2) by (auto elim!: disciplined_IssueE)
    then show ?thesis
    proof cases
      case 2
      have ow': "owned eff own (L \<union> l ?v) d ws" by (rule owned_more[OF ow]) simp
      then have va: "agree (L \<union> l ?v) ?v ?v'" using step.prems owned_agree by blast
      then have same: "l ?v' = l ?v" "f ?v' = Inr (q, us)" and us: "owned eff own (L \<union> l ?v) ?v us" and
        g: "good (apply_all eff us ?v)"
        using 2(1) gv' step.hyps(2) by (auto simp: steady_def)
      have "b \<and> hopeless q \<or> steady eff agree own good L l f ?v' us \<and> disciplined eff agree own good b Q (L \<union> l ?v') q"
        using di gv' same(2) by (blast elim: disciplined_IssueE)
      then have "hopeless q \<or> good (apply_all eff us ?v')" by (auto simp: steady_def)
      moreover have "replays eff d' p q (ws @ us) (L \<union> l ?v)"
        using replays.step[OF re same(2)] same(1) by simp
      ultimately show ?thesis using 2(2) ow' us g by auto
    qed simp
  qed
qed

text \<open>What a connection has when it is about to commit.\<close>

lemma replays_commit:
  assumes "replays eff d p (Done (Inr a)) ws L" and "disciplined eff agree own good b Q {} p" and "good d"
  shows "exec (alone eff p) d a (apply_all eff ws d) \<and> good (apply_all eff ws d) \<and> owned eff own L d ws"
  using replays_agree[OF assms assms(3) agree_refl] replays_exec[OF assms(1)] by auto

end

text \<open>
  A system whose operations are disciplined programs, with an invariant \<open>sound\<close> of its operations run
  alone. No two connections hold the same lock, and every connection that can still commit replays
  alone from the committed store.
\<close>

definition apart :: "(nat \<Rightarrow> ('db, 'l, 'w, 'o, 'a) connection option) \<Rightarrow> bool" where
  "apart cs \<longleftrightarrow> (\<forall>k k' c c'. cs k = Some c \<longrightarrow> cs k' = Some c' \<longrightarrow> k \<noteq> k' \<longrightarrow> c_locks c \<inter> c_locks c' = {})"

definition replayable where
  "replayable eff prog still d c \<longleftrightarrow> still d (c_op c) \<and>
     (c_doomed c \<or> hopeless (c_rest c) \<or> replays eff d (prog (c_op c)) (c_rest c) (c_writes c) (c_locks c))"

definition consistent where
  "consistent eff prog still outside sound d0 s \<longleftrightarrow> sound (shared s) \<and> apart (conns s) \<and>
     (\<forall>k c. conns s k = Some c \<longrightarrow> replayable eff prog still (shared s) c) \<and>
     one_by_one eff prog still outside d0 (past s) (shared s)"

lemma apart_upd:
  assumes "apart cs" and "cs k = Some c" and "c_locks c' \<subseteq> c_locks c \<union> M" and "M \<inter> others_locks cs k = {}"
  shows "apart (cs(k \<mapsto> c'))"
proof -
  have o: "c_locks c1 \<subseteq> others_locks cs k" "c_locks c \<inter> c_locks c1 = {}" if "cs j = Some c1" "j \<noteq> k" for j c1
    using that assms(1,2) by (auto simp: others_locks_def apart_def)
  have x: "c_locks c' \<inter> c_locks c1 = {}" if "cs j = Some c1" "j \<noteq> k" for j c1
    using o[OF that] assms(3,4) by blast
  then have y: "c_locks c1 \<inter> c_locks c' = {}" if "cs j = Some c1" "j \<noteq> k" for j c1
    using that by (metis Int_commute)
  show ?thesis using assms(1) x y unfolding apart_def by (auto simp del: Int_iff)
qed

lemma apart_less: "apart cs \<Longrightarrow> apart (cs(k := None))"
  by (auto simp: apart_def)

lemma apart_open: "apart cs \<Longrightarrow> apart (cs(k \<mapsto> opened x p))"
  by (auto simp: apart_def opened_def)

locale locked_system = row_locks eff agree own good
  for eff :: "'w \<Rightarrow> 'db \<Rightarrow> 'db" and agree :: "'l set \<Rightarrow> 'db \<Rightarrow> 'db \<Rightarrow> bool"
    and own :: "'l set \<Rightarrow> 'db \<Rightarrow> 'w \<Rightarrow> bool" and good :: "'db \<Rightarrow> bool" +
  fixes prog :: "'o \<Rightarrow> ('db, 'l, 'w, 'a) txn" and start :: "'db \<Rightarrow> 'o \<Rightarrow> ('db, 'l, 'w, 'a) txn \<Rightarrow> bool"
    and outside :: "'db \<Rightarrow> 'x \<Rightarrow> 'db \<Rightarrow> bool" and still :: "'db \<Rightarrow> 'o \<Rightarrow> bool" and sound :: "'db \<Rightarrow> bool"
  assumes start_prog: "start d y p \<Longrightarrow> sound d \<Longrightarrow> p = prog y \<and> still d y"
    and prog_disciplined: "disciplined eff agree own good True (\<lambda>_ _. True) {} (prog y)"
    and sound_good: "sound d \<Longrightarrow> good d"
    and alone_sound: "exec (alone eff (prog y)) d a d' \<Longrightarrow> sound d \<Longrightarrow> still d y \<Longrightarrow>
      sound d' \<and> (\<forall>z. still d z \<longrightarrow> still d' z)"
    and outside_sound: "outside d x d' \<Longrightarrow> sound d \<Longrightarrow> sound d' \<and> (\<forall>z. still d z \<longrightarrow> still d' z)"
begin

lemma replayable_agree:
  assumes "replayable eff prog still d c" and "sound d" and "sound d'" and "agree (c_locks c) d d'"
    and "still d' (c_op c)"
  shows "replayable eff prog still d' c"
  using assms replays_agree[OF _ prog_disciplined sound_good[OF assms(2)] sound_good[OF assms(3)] assms(4)]
  by (auto simp: replayable_def)

lemma replayable_next:
  assumes "replayable eff prog still d c" and "\<not> c_doomed c" and "c_rest c = Issue l f h"
    and "f (apply_all eff (c_writes c) d) = Inr (q, ws)"
  shows "replayable eff prog still d (c\<lparr>c_rest := q, c_writes := c_writes c @ ws,
    c_locks := c_locks c \<union> l (apply_all eff (c_writes c) d)\<rparr>)"
  using assms by (auto simp: replayable_def intro: replays.step)

abbreviation fine :: "'db \<Rightarrow> ('db, 'l, 'w, 'o, 'a, 'x) database \<Rightarrow> bool" where
  "fine \<equiv> consistent eff prog still outside sound"

lemma commit_runs:
  assumes "fine d0 s" and "conns s k = Some c" and "\<not> c_doomed c" and "c_rest c = Done (Inr a)"
  shows "exec (alone eff (prog (c_op c))) (shared s) a (apply_all eff (c_writes c) (shared s))"
    and "owned eff own (c_locks c) (shared s) (c_writes c)" and "still (shared s) (c_op c)"
proof -
  have inv: "sound (shared s)" "replayable eff prog still (shared s) c" using assms(1,2) by (auto simp: consistent_def)
  then have r: "replays eff (shared s) (prog (c_op c)) (Done (Inr a)) (c_writes c) (c_locks c)"
    and "still (shared s) (c_op c)"
    using assms(3,4) by (simp_all add: replayable_def)
  then show "exec (alone eff (prog (c_op c))) (shared s) a (apply_all eff (c_writes c) (shared s))"
    "owned eff own (c_locks c) (shared s) (c_writes c)" "still (shared s) (c_op c)"
    using replays_commit[OF r prog_disciplined sound_good[OF inv(1)]] by auto
qed

lemma consistent_commit:
  assumes "fine d0 s" and "conns s k = Some c" and "\<not> c_doomed c" and "c_rest c = Done (Inr a)"
  shows "fine d0 (s\<lparr>shared := apply_all eff (c_writes c) (shared s), conns := (conns s)(k := None),
         past := past s @ [Committed (c_op c) a]\<rparr>)"
proof -
  let ?d = "apply_all eff (c_writes c) (shared s)"
  have inv: "sound (shared s)" "apart (conns s)" "\<And>j c'. conns s j = Some c' \<Longrightarrow> replayable eff prog still (shared s) c'"
      "one_by_one eff prog still outside d0 (past s) (shared s)"
    using assms(1) by (auto simp: consistent_def)
  note e = commit_runs[OF assms]
  have snd: "sound ?d" "\<And>z. still (shared s) z \<Longrightarrow> still ?d z"
    using alone_sound[OF e(1) inv(1) e(3)] by auto
  have "replayable eff prog still ?d c'" if "conns s j = Some c'" "j \<noteq> k" for j c'
  proof (rule replayable_agree[OF inv(3)[OF that(1)] inv(1) snd(1)])
    have "c_locks c \<inter> c_locks c' = {}" using inv(2) assms(2) that unfolding apart_def by blast
    then show "agree (c_locks c') (shared s) ?d" by (rule owned_others[OF e(2)])
    show "still ?d (c_op c')" using inv(3)[OF that(1)] snd(2) by (simp add: replayable_def)
  qed
  then show ?thesis
    using inv e snd by (auto simp: consistent_def apart_less intro: one_by_one.alone_next)
qed

lemma consistent_step:
  assumes "db_step eff start agree outside s s'" and "fine d0 s"
  shows "fine d0 s'"
  using assms
proof (induction rule: db_step.induct)
  case (begins s k x p)
  have "replayable eff prog still (shared s) (opened x p)"
    using start_prog[OF begins(2)] begins(3) by (auto simp: consistent_def replayable_def opened_def intro: replays.start)
  then show ?case using begins by (auto simp: consistent_def apart_open)
next
  case (runs s k c l f h v q ws)
  let ?c = "c\<lparr>c_rest := q, c_writes := c_writes c @ ws, c_locks := c_locks c \<union> l v\<rparr>"
  have "replayable eff prog still (shared s) ?c"
    using replayable_next[of "shared s" c l f h q ws] runs by (auto simp: consistent_def)
  moreover have "apart ((conns s)(k \<mapsto> ?c))"
    by (rule apart_upd[of _ _ c _ "l v"]) (use runs in \<open>auto simp: consistent_def\<close>)
  ultimately show ?case using runs by (auto simp: consistent_def)
next
  case (fails s k c l f h e)
  let ?c = "c\<lparr>c_rest := h e, c_doomed := True\<rparr>"
  have "apart ((conns s)(k \<mapsto> ?c))"
    by (rule apart_upd[of _ _ c _ "{}"]) (use fails in \<open>auto simp: consistent_def\<close>)
  then show ?case using fails by (auto simp: consistent_def replayable_def)
next
  case (commits s k c a)
  then show ?case using consistent_commit by blast
next
  case (rolls_back s k c)
  then show ?case by (auto simp: consistent_def apart_less)
next
  case (statement s x d)
  then have d: "sound d" "\<And>z. still (shared s) z \<Longrightarrow> still d z"
    using outside_sound[of "shared s" x d] by (auto simp: consistent_def)
  then have "replayable eff prog still d c" if "conns s k = Some c" for k c
    using replayable_agree[of "shared s" c d] statement that by (auto simp: consistent_def replayable_def)
  then show ?case
    using statement d by (auto simp: consistent_def intro: one_by_one.direct)
qed

lemma reach_fine: "db_reach eff start agree outside d0 s \<Longrightarrow> sound d0 \<Longrightarrow> fine d0 s"
proof (induction rule: db_reach.induct)
  case fresh
  then show ?case by (simp add: consistent_def apart_def one_by_one.none)
next
  case (later s s')
  then show ?case using consistent_step by blast
qed

text \<open>Every interleaving commits the stores and the answers of its commits made one by one.\<close>

lemma serialised:
  assumes "db_reach eff start agree outside d0 s" and "sound d0"
  shows "sound (shared s) \<and> one_by_one eff prog still outside d0 (past s) (shared s)"
  using reach_fine[OF assms] by (simp add: consistent_def)

text \<open>A step leaves the committed store as it is, or commits one operation run alone, or is a statement of
  its own.\<close>

lemma step_shared:
  assumes "db_step eff start agree outside s s'" and "db_reach eff start agree outside d0 s" and "sound d0"
  obtains (same) "shared s' = shared s" and "past s' = past s"
    | (commit) x a where "exec (alone eff (prog x)) (shared s) a (shared s')" and "still (shared s) x"
        and "past s' = past s @ [Committed x a]"
    | (direct) x where "outside (shared s) x (shared s')" and "past s' = past s @ [Direct x]"
proof -
  have f: "fine d0 s" by (rule reach_fine[OF assms(2,3)])
  show thesis
    using assms(1)
  proof cases
    case (commits k c a)
    then show ?thesis using commit[of "c_op c" a] commit_runs[OF f] by simp
  qed (use same direct in simp_all)
qed

end

end
