(* ===== verification/Transactions.thy ===== *)
theory Transactions
  imports System Interleaving
begin

text \<open>
  The transactions of the services as trees of statements with the row locks PostgreSQL takes for them:
  an \<^verbatim>\<open>UPDATE\<close> and a \<^verbatim>\<open>SELECT ... FOR UPDATE\<close> lock the rows they name, an insert its new key, and a
  fact that becomes active the entry of its key in the partial unique index \<^verbatim>\<open>facts_active_unique\<close> (a
  second entry waits for the first to commit). A plain \<^verbatim>\<open>SELECT\<close> takes no lock. Each tree is built by the
  code's own functions statement by statement, and \<open>alone\<close> of it is the program the other theories
  reason about.
\<close>

section \<open>Locks and writes\<close>

datatype lock =
    LPromotion uuid
  | LFact uuid
  | LActiveKey uuid string
  | LIdempotency principal_id string

datatype row_write =
    WFact uuid "fact_row \<Rightarrow> fact_row"
  | WPromotion uuid "promotion \<Rightarrow> promotion"
  | WNewFact fact_row
  | WNewPromotion promotion
  | WAudit audit_event

fun write_row :: "row_write \<Rightarrow> db \<Rightarrow> db" where
  "write_row (WFact i u) d = upd_fact i u d"
| "write_row (WPromotion i u) d = upd_promotion i u d"
| "write_row (WNewFact f) d = ins_fact f d"
| "write_row (WNewPromotion p) d = ins_promotion p d"
| "write_row (WAudit a) d = log_event a d"

type_synonym 'a dbtxn = "(db, lock, row_write, 'a) txn"

abbreviation as_sql :: "'a dbtxn \<Rightarrow> (db, 'a) sql" where
  "as_sql \<equiv> alone write_row"

text \<open>The answer of a statement's model, with the writes it makes in place of the store it leaves.\<close>

definition with_writes :: "row_write list \<Rightarrow> error + 'a \<times> db \<Rightarrow> error + 'a \<times> row_write list" where
  "with_writes ws r = (case r of Inl e \<Rightarrow> Inl e | Inr (a, _) \<Rightarrow> Inr (a, ws))"

definition read_t :: "(db \<Rightarrow> 'a) \<Rightarrow> 'a dbtxn" where
  "read_t g = stmt_txn (\<lambda>_. {}) (\<lambda>d. Inr (g d, []))"

definition audit_write_t :: "timestamp \<Rightarrow> event \<Rightarrow> unit dbtxn" where
  "audit_write_t now e = stmt_txn (\<lambda>_. {}) (\<lambda>d. Inr ((), [WAudit (audit_row now e)]))"

section \<open>Statements on facts\<close>

text \<open>The entry of the active index an update of the row adds.\<close>

definition new_entry :: "(fact_row \<Rightarrow> fact_row) \<Rightarrow> fact_row \<Rightarrow> lock set" where
  "new_entry u f = (if f_status (u f) = StatusActive \<and> f_status f \<noteq> StatusActive
     then {LActiveKey (f_namespace_id f) (f_canonical_key f)} else {})"

definition update_locks :: "uuid \<Rightarrow> (fact_row \<Rightarrow> fact_row) \<Rightarrow> db \<Rightarrow> lock set" where
  "update_locks i u d = insert (LFact i) (case fact_at d i of None \<Rightarrow> {} | Some f \<Rightarrow> new_entry u f)"

definition update_fact_t :: "uuid \<Rightarrow> (fact_row \<Rightarrow> fact_row) \<Rightarrow> nat dbtxn" where
  "update_fact_t i u =
     stmt_txn (update_locks i u) (\<lambda>d. with_writes [WFact i u] (update_facts (\<lambda>f. f_id f = i) u d))"

definition affected_t :: "error \<Rightarrow> nat \<Rightarrow> unit dbtxn" where
  "affected_t e n = (if n = 0 then fail_txn e else return_txn ())"

definition get_fact_t :: "uuid \<Rightarrow> fact dbtxn" where
  "get_fact_t i = bind_txn (read_t (\<lambda>d. map_option fact.truncate (fact_at d i)))
     (\<lambda>r. case r of None \<Rightarrow> fail_txn ErrFactNotFound | Some f \<Rightarrow> return_txn f)"

definition insert_fact_t :: "timestamp \<Rightarrow> uuid \<Rightarrow> fact \<Rightarrow> fact dbtxn" where
  "insert_fact_t now new f =
     (let f' = f\<lparr>f_canonical_key := canonical_key (f_subject f), f_id := new, f_version := 1,
                 f_created_at := now, f_updated_at := now\<rparr>
      in bind_txn (stmt_txn (\<lambda>_. {LFact new})
           (\<lambda>d. with_writes [WNewFact (fact_to_row f')] (put_facts (tbl_ins (fact_to_row f') (facts_tbl d)) d)))
         (\<lambda>_. return_txn f'))"

definition set_status_t :: "timestamp \<Rightarrow> uuid \<Rightarrow> status \<Rightarrow> unit dbtxn" where
  "set_status_t now i to = bind_txn (update_fact_t i (row_status now to)) (affected_t ErrFactNotFound)"

definition activate_fact_t :: "timestamp \<Rightarrow> uuid \<Rightarrow> principal_id list \<Rightarrow> unit dbtxn" where
  "activate_fact_t now i approved_by =
     bind_txn (update_fact_t i (row_activate now approved_by)) (affected_t ErrFactNotFound)"

definition activate_auto_t :: "timestamp \<Rightarrow> uuid \<Rightarrow> unit dbtxn" where
  "activate_auto_t now i = bind_txn (update_fact_t i (row_activate_auto now)) (affected_t ErrFactNotFound)"

definition supersede_t :: "timestamp \<Rightarrow> uuid \<Rightarrow> uuid \<Rightarrow> unit dbtxn" where
  "supersede_t now old new =
     bind_txn (update_fact_t old (row_superseded now new))
     (\<lambda>_. bind_txn (update_fact_t new (row_supersedes now old))
     (\<lambda>_. return_txn ()))"

text \<open>\<^verbatim>\<open>UPDATE facts ... WHERE id = $1 AND version = $2 AND status = 'active'\<close> locks the row it matches, if any.\<close>

definition revocable_row :: "uuid \<Rightarrow> int \<Rightarrow> fact_row \<Rightarrow> bool" where
  "revocable_row i expected f \<longleftrightarrow> f_id f = i \<and> f_version f = expected \<and> f_status f = StatusActive"

definition revoke_update_t :: "timestamp \<Rightarrow> uuid \<Rightarrow> int \<Rightarrow> nat dbtxn" where
  "revoke_update_t now i expected =
     stmt_txn (\<lambda>d. if list_ex (revocable_row i expected) (facts_tbl d) then {LFact i} else {})
       (\<lambda>d. with_writes [WFact i (\<lambda>f. if revocable_row i expected f then row_status now StatusRevoked f else f)]
         (if expected < int4_min \<or> int4_max < expected then Inl ErrConstraint
          else update_facts (revocable_row i expected) (row_status now StatusRevoked) d))"

definition revoke_with_version_t :: "timestamp \<Rightarrow> uuid \<Rightarrow> int \<Rightarrow> unit dbtxn" where
  "revoke_with_version_t now i expected =
     bind_txn (revoke_update_t now i expected)
     (\<lambda>n. if n = 0
          then bind_txn (attempt_txn (get_fact_t i))
            (\<lambda>r. case r of
               Inl e \<Rightarrow> fail_txn (if e = ErrFactNotFound then ErrFactNotFound else ErrVersionConflict)
             | Inr f \<Rightarrow> if f_status f \<noteq> StatusActive then fail_txn (ErrCannotRevoke (f_status f))
                       else fail_txn ErrVersionConflict)
          else return_txn ())"

definition revoke_t :: "timestamp \<Rightarrow> uuid \<Rightarrow> int \<Rightarrow> principal_id \<Rightarrow> unit dbtxn" where
  "revoke_t now i expected who =
     bind_txn (revoke_with_version_t now i expected)
     (\<lambda>_. audit_write_t now \<lparr>e_principal = who, e_action = ''fact.revoked'', e_subject_type = ''fact'',
        e_subject_id = i, e_from_state = status_str StatusActive, e_to_state = status_str StatusRevoked,
        e_detail = []\<rparr>)"

section \<open>Statements on promotions\<close>

text \<open>\<^verbatim>\<open>getByID(ctx, tx, id, true)\<close>: the row is locked until the transaction ends.\<close>

definition get_promotion_t :: "uuid \<Rightarrow> promotion dbtxn" where
  "get_promotion_t i =
     bind_txn (stmt_txn (\<lambda>_. {LPromotion i}) (\<lambda>d. Inr (promotion_at d i, [])))
     (\<lambda>r. case r of None \<Rightarrow> fail_txn ErrPromotionNotFound | Some p \<Rightarrow> return_txn p)"

definition insert_promotion_t :: "timestamp \<Rightarrow> uuid \<Rightarrow> promotion \<Rightarrow> promotion dbtxn" where
  "insert_promotion_t now new p =
     (let p' = p\<lparr>p_id := new, p_created_at := now, p_updated_at := now\<rparr>
      in bind_txn (stmt_txn
           (\<lambda>_. insert (LPromotion new)
              (case p_idempotency_key p of None \<Rightarrow> {} | Some k \<Rightarrow> {LIdempotency (p_proposer p) k}))
           (\<lambda>d. with_writes [WNewPromotion p'] (put_promotions (tbl_ins p' (promotions_tbl d)) d)))
         (\<lambda>_. return_txn p'))"

definition update_state_and_reviews_t :: "timestamp \<Rightarrow> uuid \<Rightarrow> promo_state \<Rightarrow> review list \<Rightarrow> unit dbtxn" where
  "update_state_and_reviews_t now i st rs =
     bind_txn (stmt_txn (\<lambda>_. {LPromotion i})
       (\<lambda>d. with_writes [WPromotion i (row_reviewed now st rs)] (update_promotions i (row_reviewed now st rs) d)))
     (affected_t ErrPromotionNotFound)"

section \<open>The workflow\<close>

definition embed_activated_fact_t :: "service \<Rightarrow> uuid \<Rightarrow> fact \<Rightarrow> unit dbtxn" where
  "embed_activated_fact_t sv i f =
     (case sv_embedder sv of
        None \<Rightarrow> return_txn ()
      | Some em \<Rightarrow>
          (case em (embed_text (f_subject f) (f_statement f)) of
             Inl e \<Rightarrow> return_txn ()
           | Inr v \<Rightarrow> bind_txn (attempt_txn (update_fact_t i (row_embed v))) (\<lambda>_. return_txn ())))"

definition embed_stored_fact_t :: "service \<Rightarrow> uuid \<Rightarrow> unit dbtxn" where
  "embed_stored_fact_t sv i =
     bind_txn (attempt_txn (get_fact_t i))
       (\<lambda>r. case r of Inl e \<Rightarrow> return_txn () | Inr f \<Rightarrow> embed_activated_fact_t sv i f)"

definition activate_t :: "service \<Rightarrow> timestamp \<Rightarrow> promotion \<Rightarrow> principal_id \<Rightarrow> unit dbtxn" where
  "activate_t sv now p who =
     bind_txn
       (case p_conflict_with p of
          None \<Rightarrow> return_txn ()
        | Some c \<Rightarrow>
            bind_txn (supersede_t now c (p_fact_id p))
            (\<lambda>_. audit_write_t now (superseded_event who c (p_fact_id p))))
     (\<lambda>_. bind_txn (activate_fact_t now (p_fact_id p) (approvers p))
     (\<lambda>_. bind_txn (embed_stored_fact_t sv (p_fact_id p))
     (\<lambda>_. audit_write_t now (activated_event who (p_fact_id p)))))"

definition approve_t ::
    "service \<Rightarrow> timestamp \<Rightarrow> timestamp \<Rightarrow> uuid \<Rightarrow> principal_id \<Rightarrow> string \<Rightarrow> promotion dbtxn" where
  "approve_t sv now wall i reviewer comment =
     bind_txn (get_promotion_t i)
     (\<lambda>p. if p_state p \<noteq> StateInReview \<and> p_state p \<noteq> StatePending then fail_txn ErrInvalidState
      else if reviewer = p_proposer p then fail_txn ErrSelfApproval
      else
        (let p = add_approval wall reviewer comment p in
         bind_txn
          (if has_enough_approvals p
           then (let p = p\<lparr>p_state := StateApproved\<rparr>
                 in bind_txn (activate_t sv now p reviewer) (\<lambda>_. return_txn p))
           else return_txn (p\<lparr>p_state := StateInReview\<rparr>))
          (\<lambda>p. bind_txn (update_state_and_reviews_t now (p_id p) (p_state p) (p_reviews p))
          (\<lambda>_. bind_txn (audit_write_t now (promotion_event reviewer ''promotion.approved'' (p_id p) (p_state p)
                 [(''approvals'', DInt (approval_count p)), (''required'', DInt (p_required_approvals p))]))
          (\<lambda>_. return_txn p)))))"

definition review_t ::
    "timestamp \<Rightarrow> timestamp \<Rightarrow> uuid \<Rightarrow> principal_id \<Rightarrow> decision \<Rightarrow> string \<Rightarrow> promo_state \<Rightarrow> status \<Rightarrow> string \<Rightarrow> promotion dbtxn" where
  "review_t now wall i reviewer dec comment to fact_to action =
     bind_txn (get_promotion_t i)
     (\<lambda>p. if p_state p \<noteq> StateInReview \<and> p_state p \<noteq> StatePending then fail_txn ErrInvalidState
      else
        (let p = p\<lparr>p_reviews := p_reviews p @ [\<lparr>r_reviewer = reviewer, r_decision = dec, r_comment = comment, r_at = wall\<rparr>],
                   p_state := to\<rparr> in
         bind_txn (update_state_and_reviews_t now (p_id p) (p_state p) (p_reviews p))
         (\<lambda>_. bind_txn (set_status_t now (p_fact_id p) fact_to)
         (\<lambda>_. bind_txn (audit_write_t now (promotion_event reviewer action (p_id p) to []))
         (\<lambda>_. return_txn p)))))"

definition transition_t ::
    "timestamp \<Rightarrow> uuid \<Rightarrow> principal_id \<Rightarrow> (promotion \<Rightarrow> error + promotion) \<Rightarrow> status \<Rightarrow> string \<Rightarrow> promotion dbtxn" where
  "transition_t now i who mutate fact_to action =
     bind_txn (get_promotion_t i)
     (\<lambda>p. case mutate p of
        Inl e \<Rightarrow> fail_txn e
      | Inr p \<Rightarrow>
         bind_txn (update_state_and_reviews_t now (p_id p) (p_state p) (p_reviews p))
         (\<lambda>_. bind_txn (set_status_t now (p_fact_id p) fact_to)
         (\<lambda>_. bind_txn (audit_write_t now (promotion_event who action (p_id p) (p_state p) []))
         (\<lambda>_. return_txn p))))"


text \<open>\<^verbatim>\<open>Propose\<close> once it has read which active fact, if any, its own is in conflict with.\<close>

definition auto_supersede_t :: "timestamp \<Rightarrow> principal_id \<Rightarrow> promotion \<Rightarrow> unit dbtxn" where
  "auto_supersede_t now who p =
     (case p_conflict_with p of
        None \<Rightarrow> return_txn ()
      | Some c \<Rightarrow>
          bind_txn (supersede_t now c (p_fact_id p))
          (\<lambda>_. bind_txn (attempt_txn (audit_write_t now (superseded_event who c (p_fact_id p))))
          (\<lambda>_. return_txn ())))"

definition auto_activate_t ::
    "service \<Rightarrow> timestamp \<Rightarrow> promotion \<Rightarrow> auto_promote \<Rightarrow> verdict \<Rightarrow> promotion dbtxn" where
  "auto_activate_t sv now p ap v =
     bind_txn (attempt_txn (auto_supersede_t now (''engine:'' @ ap_engine ap) p))
     (\<lambda>r. case r of Inl e \<Rightarrow> return_txn p | Inr _ \<Rightarrow>
      bind_txn (attempt_txn (activate_auto_t now (p_fact_id p)))
      (\<lambda>r. case r of Inl e \<Rightarrow> return_txn p | Inr _ \<Rightarrow>
       bind_txn (embed_stored_fact_t sv (p_fact_id p))
       (\<lambda>_. let p' = p\<lparr>p_state := StateApproved\<rparr> in
        bind_txn (attempt_txn (update_state_and_reviews_t now (p_id p') (p_state p') (p_reviews p')))
        (\<lambda>r. case r of Inl e \<Rightarrow> return_txn p' | Inr _ \<Rightarrow>
         bind_txn (attempt_txn (audit_write_t now (auto_promoted_event ap v (p_fact_id p'))))
         (\<lambda>_. return_txn p')))))"

definition maybe_auto_promote_t ::
    "service \<Rightarrow> timestamp \<Rightarrow> promotion \<Rightarrow> auto_promote option \<Rightarrow> propose_input \<Rightarrow> promotion dbtxn" where
  "maybe_auto_promote_t sv now p apo inp =
     (case (sv_engines sv, apo) of
        (Some reg, Some ap) \<Rightarrow>
          if ap_engine ap = [] then return_txn p
          else (case registry_evaluate reg (ap_engine ap) (candidate_of inp) (ap_rules ap) of
                  (v, err) \<Rightarrow>
                    if err \<noteq> None \<or> \<not> v_auto_promote v then return_txn p
                    else auto_activate_t sv now p ap v)
      | _ \<Rightarrow> return_txn p)"

definition propose_rest_t ::
    "service \<Rightarrow> timestamp \<Rightarrow> uuid \<Rightarrow> uuid \<Rightarrow> propose_input \<Rightarrow> int \<Rightarrow> auto_promote option \<Rightarrow> uuid option \<Rightarrow> promotion dbtxn" where
  "propose_rest_t sv now new_fact_id new_promotion_id inp required apo conflict_with =
     bind_txn (insert_fact_t now new_fact_id (draft_fact inp))
     (\<lambda>f. bind_txn (insert_promotion_t now new_promotion_id (draft_promotion inp (f_id f) required conflict_with))
     (\<lambda>p. bind_txn (audit_write_t now (proposed_event inp (canonical_key (in_subject inp)) p))
     (\<lambda>_. maybe_auto_promote_t sv now p apo inp)))"

text \<open>\<^verbatim>\<open>Reap\<close> once it has selected the ids; its last statement only counts for the metric.\<close>

fun reap_loop_t :: "timestamp \<Rightarrow> uuid list \<Rightarrow> unit dbtxn" where
  "reap_loop_t now [] = return_txn ()"
| "reap_loop_t now (i # is) =
     bind_txn (update_fact_t i (row_status now StatusExpired))
     (\<lambda>_. bind_txn (audit_write_t now (expired_event i))
     (\<lambda>_. reap_loop_t now is))"

definition reap_rest_t :: "timestamp \<Rightarrow> uuid list \<Rightarrow> nat dbtxn" where
  "reap_rest_t now ids =
     bind_txn (reap_loop_t now ids) (\<lambda>_. bind_txn (read_t (\<lambda>_. ())) (\<lambda>_. return_txn (length ids)))"

definition reap_rest :: "timestamp \<Rightarrow> uuid list \<Rightarrow> (db, nat) sql" where
  "reap_rest now ids =
     bind_sql (reap_loop now ids) (\<lambda>_. bind_sql (query (\<lambda>_. ())) (\<lambda>_. return_sql (length ids)))"

lemma reap_body_rest:
  "exec (reap_body now plan) d r d' \<longleftrightarrow>
     exec (reap_rest now (map f_id (filter (due now) (plan (facts_tbl d))))) d (rr_expired r) d' \<and>
     rr_expiring_soon r = length (filter (due_soon now) (facts_tbl d'))"
  by (cases r) (auto simp: reap_body_def reap_rest_def sql_exec sql_safe)

section \<open>Operations\<close>

datatype tx =
    TxPropose timestamp uuid uuid propose_input int "auto_promote option" "uuid option"
  | TxApprove timestamp timestamp uuid principal_id string
  | TxReject timestamp timestamp uuid principal_id string
  | TxRequestChanges timestamp timestamp uuid principal_id string
  | TxSubmit timestamp uuid principal_id
  | TxWithdraw timestamp uuid principal_id
  | TxRevoke timestamp uuid int principal_id
  | TxReap timestamp "uuid list"

datatype answer = Answered promotion | Revoked | Expired nat

definition answering :: "('a \<Rightarrow> answer) \<Rightarrow> (db, 'a) sql \<Rightarrow> (db, answer) sql" where
  "answering g m = bind_sql m (\<lambda>a. return_sql (g a))"

definition answering_t :: "('a \<Rightarrow> answer) \<Rightarrow> 'a dbtxn \<Rightarrow> answer dbtxn" where
  "answering_t g p = bind_txn p (\<lambda>a. return_txn (g a))"

text \<open>The transaction of each operation, as the services' program and as its statements.\<close>

fun tx_body :: "service \<Rightarrow> tx \<Rightarrow> (db, answer) sql" where
  "tx_body sv (TxPropose now nf np inp req apo c) = answering Answered (propose_rest sv now nf np inp req apo c)"
| "tx_body sv (TxApprove now wall i who c) = answering Answered (approve_body sv now wall i who c)"
| "tx_body sv (TxReject now wall i who c) =
     answering Answered (review_body now wall i who DecisionReject c StateRejected StatusRejected ''promotion.rejected'')"
| "tx_body sv (TxRequestChanges now wall i who c) =
     answering Answered (review_body now wall i who DecisionRequestChanges c StateChangesRequested StatusProposed
       ''promotion.changes_requested'')"
| "tx_body sv (TxSubmit now i who) =
     answering Answered (transition_body now i who (submit_mutate who) StatusInReview ''promotion.submitted'')"
| "tx_body sv (TxWithdraw now i who) =
     answering Answered (transition_body now i who (withdraw_mutate who) StatusRejected ''promotion.withdrawn'')"
| "tx_body sv (TxRevoke now i v who) = answering (\<lambda>_. Revoked) (revoke_body now i v who)"
| "tx_body sv (TxReap now ids) = answering Expired (reap_rest now ids)"

fun tx_prog :: "service \<Rightarrow> tx \<Rightarrow> answer dbtxn" where
  "tx_prog sv (TxPropose now nf np inp req apo c) = answering_t Answered (propose_rest_t sv now nf np inp req apo c)"
| "tx_prog sv (TxApprove now wall i who c) = answering_t Answered (approve_t sv now wall i who c)"
| "tx_prog sv (TxReject now wall i who c) =
     answering_t Answered (review_t now wall i who DecisionReject c StateRejected StatusRejected ''promotion.rejected'')"
| "tx_prog sv (TxRequestChanges now wall i who c) =
     answering_t Answered (review_t now wall i who DecisionRequestChanges c StateChangesRequested StatusProposed
       ''promotion.changes_requested'')"
| "tx_prog sv (TxSubmit now i who) =
     answering_t Answered (transition_t now i who (submit_mutate who) StatusInReview ''promotion.submitted'')"
| "tx_prog sv (TxWithdraw now i who) =
     answering_t Answered (transition_t now i who (withdraw_mutate who) StatusRejected ''promotion.withdrawn'')"
| "tx_prog sv (TxRevoke now i v who) = answering_t (\<lambda>_. Revoked) (revoke_t now i v who)"
| "tx_prog sv (TxReap now ids) = answering_t Expired (reap_rest_t now ids)"

section \<open>The statements make up the services' programs\<close>

named_theorems as_sql \<comment> \<open>what a tree is as one program\<close>

declare alone_bind [as_sql] alone_attempt [as_sql]

lemma as_sql_if: "as_sql (if b then p else q) = (if b then as_sql p else as_sql q)"
  by simp

lemma as_sql_stmt:
  assumes "\<And>d a d'. f d = Inr (a, d') \<Longrightarrow> d' = apply_all write_row ws d"
  shows "as_sql (stmt_txn l (\<lambda>d. with_writes ws (f d))) = stmt f"
proof -
  have "(case with_writes ws (f d) of Inl e \<Rightarrow> Inl e | Inr (a, us) \<Rightarrow> Inr (a, apply_all write_row us d)) = f d" for d
    using assms[of d] by (auto simp: with_writes_def split: sum.split)
  then show ?thesis by (simp add: alone_stmt)
qed

lemma as_sql_read [as_sql]: "as_sql (read_t g) = query g"
  by (simp add: read_t_def alone_stmt query_def)

lemma as_sql_fetch [as_sql]:
  "as_sql (get_promotion_t i) = get_promotion i" "as_sql (get_fact_t i) = get_fact i"
proof -
  have c: "as_sql (case r of None \<Rightarrow> fail_txn e | Some x \<Rightarrow> return_txn x) =
      (case r of None \<Rightarrow> fail_sql e | Some x \<Rightarrow> return_sql x)" for r :: "'x option" and e
    by (simp split: option.split)
  show "as_sql (get_promotion_t i) = get_promotion i" "as_sql (get_fact_t i) = get_fact i"
    by (simp_all add: get_promotion_t_def get_promotion_def get_fact_t_def get_fact_def fetch_def as_sql c
        alone_stmt query_def)
qed

lemma as_sql_audit [as_sql]: "as_sql (audit_write_t now e) = audit_write now e"
  by (simp add: audit_write_t_def alone_stmt audit_write_def log_event_def)

lemma as_sql_affected [as_sql]: "as_sql (affected_t e n) = affected e n"
  by (simp add: affected_t_def affected_def)

lemma as_sql_update_fact [as_sql]: "as_sql (update_fact_t i u) = stmt (update_facts (\<lambda>f. f_id f = i) u)"
  unfolding update_fact_t_def by (rule as_sql_stmt) (simp add: update_facts_id_Inr)

lemma as_sql_facts [as_sql]:
  "as_sql (set_status_t now i to) = set_status now i to"
  "as_sql (activate_fact_t now i ws) = activate_fact now i ws"
  "as_sql (activate_auto_t now i) = activate_auto now i"
  "as_sql (supersede_t now i j) = supersede now i j"
  by (simp_all add: set_status_t_def set_status_def activate_fact_t_def activate_fact_def activate_auto_t_def
      activate_auto_def supersede_t_def supersede_def as_sql)

lemma as_sql_inserts [as_sql]:
  "as_sql (insert_fact_t now new f) = insert_fact now new f"
  "as_sql (insert_promotion_t now new p) = insert_promotion now new p"
proof -
  have f: "as_sql (stmt_txn l (\<lambda>d. with_writes [WNewFact r] (put_facts (tbl_ins r (facts_tbl d)) d))) =
      stmt (\<lambda>d. put_facts (tbl_ins r (facts_tbl d)) d)" for l r
    by (rule as_sql_stmt) (simp add: put_facts_Inr ins_fact_def)
  have p: "as_sql (stmt_txn l (\<lambda>d. with_writes [WNewPromotion r] (put_promotions (tbl_ins r (promotions_tbl d)) d))) =
      stmt (\<lambda>d. put_promotions (tbl_ins r (promotions_tbl d)) d)" for l r
    by (rule as_sql_stmt) (simp add: put_promotions_Inr ins_promotion_def)
  show "as_sql (insert_fact_t now new f) = insert_fact now new f"
    by (simp add: insert_fact_t_def insert_fact_def Let_def as_sql f)
  show "as_sql (insert_promotion_t now new p) = insert_promotion now new p"
    by (simp add: insert_promotion_t_def insert_promotion_def Let_def as_sql p)
qed

lemma as_sql_update_state [as_sql]:
  "as_sql (update_state_and_reviews_t now i st rs) = update_state_and_reviews now i st rs"
proof -
  have "as_sql (stmt_txn l (\<lambda>d. with_writes [WPromotion i (row_reviewed now st rs)]
      (update_promotions i (row_reviewed now st rs) d))) = stmt (update_promotions i (row_reviewed now st rs))" for l
    by (rule as_sql_stmt) (simp add: update_promotions_Inr)
  then show ?thesis by (simp add: update_state_and_reviews_t_def update_state_and_reviews_def as_sql)
qed

lemma update_facts_revocable:
  assumes "update_facts (revocable_row i v) u d = Inr (n, d')"
  shows "d' = upd_fact i (\<lambda>f. if revocable_row i v f then u f else f) d"
proof -
  have "map (\<lambda>f. if revocable_row i v f then u f else f) t = tbl_upd f_id i (\<lambda>f. if revocable_row i v f then u f else f) t" for t
    by (auto simp: tbl_upd_def revocable_row_def)
  then show ?thesis
    using assms by (auto simp: update_facts_def put_facts_Inr upd_fact_def split: sum.splits)
qed

lemma as_sql_revoke [as_sql]: "as_sql (revoke_t now i v who) = revoke_body now i v who"
proof -
  let ?u = "row_status now StatusRevoked"
  have w: "(\<lambda>f :: fact_row. f_id f = i \<and> f_version f = v \<and> f_status f = StatusActive) = revocable_row i v"
    by (simp add: fun_eq_iff revocable_row_def)
  have u: "as_sql (revoke_update_t now i v) = stmt (\<lambda>d. if v < int4_min \<or> int4_max < v then Inl ErrConstraint
      else update_facts (\<lambda>f. f_id f = i \<and> f_version f = v \<and> f_status f = StatusActive) ?u d)"
    unfolding revoke_update_t_def w
    by (rule as_sql_stmt) (auto split: if_splits dest: update_facts_revocable)
  have k: "as_sql (case r of Inl e \<Rightarrow> fail_txn (x e) | Inr f \<Rightarrow> if b f then fail_txn (y f) else fail_txn z) =
      (case r of Inl e \<Rightarrow> fail_sql (x e) | Inr f \<Rightarrow> if b f then fail_sql (y f) else fail_sql z)"
    for r :: "error + fact" and x y z b
    by (simp split: sum.split)
  have "as_sql (revoke_with_version_t now i v) = revoke_with_version now i v"
    unfolding revoke_with_version_t_def revoke_with_version_def
    by (simp add: as_sql u k as_sql_if cong: if_cong)
  then show ?thesis by (simp add: revoke_t_def revoke_body_def as_sql)
qed

lemma as_sql_embed [as_sql]: "as_sql (embed_stored_fact_t sv i) = embed_stored_fact sv i"
proof -
  have "as_sql (embed_activated_fact_t sv i f) = embed_activated_fact sv i f" for f
    by (simp add: embed_activated_fact_t_def embed_activated_fact_def set_embedding_def as_sql
        split: option.split sum.split)
  then have "as_sql (case r of Inl e \<Rightarrow> return_txn () | Inr f \<Rightarrow> embed_activated_fact_t sv i f) =
      (case r of Inl e \<Rightarrow> return_sql () | Inr f \<Rightarrow> embed_activated_fact sv i f)" for r :: "error + fact"
    by (simp split: sum.split)
  then show ?thesis by (simp add: embed_stored_fact_t_def embed_stored_fact_def as_sql)
qed

lemma as_sql_activate [as_sql]: "as_sql (activate_t sv now p who) = activate sv now p who"
  by (simp add: activate_t_def activate_def supersede_conflict_def as_sql split: option.split)

lemma as_sql_approve [as_sql]: "as_sql (approve_t sv now wall i who c) = approve_body sv now wall i who c"
proof -
  let ?rest = "\<lambda>q. bind_txn (update_state_and_reviews_t now (p_id q) (p_state q) (p_reviews q))
      (\<lambda>_. bind_txn (audit_write_t now (promotion_event who ''promotion.approved'' (p_id q) (p_state q)
         [(''approvals'', DInt (approval_count q)), (''required'', DInt (p_required_approvals q))]))
      (\<lambda>_. return_txn q))"
  show ?thesis
    unfolding approve_t_def approve_body_def alone_bind as_sql_fetch
    by (intro arg_cong[where f = "bind_sql (get_promotion i)"] ext)
      (simp only: as_sql_if alone_fail Let_def alone_bind alone_return as_sql_activate as_sql_update_state as_sql_audit)
qed

lemma as_sql_review [as_sql]:
  "as_sql (review_t now wall i who dec c to fact_to act) = review_body now wall i who dec c to fact_to act"
  unfolding review_t_def review_body_def alone_bind as_sql_fetch
  by (intro arg_cong[where f = "bind_sql (get_promotion i)"] ext)
    (simp only: as_sql_if alone_fail Let_def alone_bind alone_return as_sql_facts as_sql_update_state as_sql_audit)

lemma as_sql_transition [as_sql]:
  "as_sql (transition_t now i who mutate fact_to act) = transition_body now i who mutate fact_to act"
  unfolding transition_t_def transition_body_def alone_bind as_sql_fetch
proof (intro arg_cong[where f = "bind_sql (get_promotion i)"] ext)
  fix p s
  show "as_sql (case mutate p of Inl e \<Rightarrow> fail_txn e
      | Inr p \<Rightarrow> bind_txn (update_state_and_reviews_t now (p_id p) (p_state p) (p_reviews p))
         (\<lambda>_. bind_txn (set_status_t now (p_fact_id p) fact_to)
         (\<lambda>_. bind_txn (audit_write_t now (promotion_event who act (p_id p) (p_state p) []))
         (\<lambda>_. return_txn p)))) s =
    (case mutate p of Inl e \<Rightarrow> fail_sql e
      | Inr p \<Rightarrow> bind_sql (update_state_and_reviews now (p_id p) (p_state p) (p_reviews p))
         (\<lambda>_. bind_sql (set_status now (p_fact_id p) fact_to)
         (\<lambda>_. bind_sql (audit_write now (promotion_event who act (p_id p) (p_state p) []))
         (\<lambda>_. return_sql p)))) s"
    by (cases "mutate p") (simp_all add: as_sql)
qed

lemma as_sql_auto_supersede [as_sql]: "as_sql (auto_supersede_t now who p) = auto_supersede now who p"
  by (simp add: auto_supersede_t_def auto_supersede_def as_sql split: option.split)

lemma as_sql_sum:
  "as_sql (case r of Inl e \<Rightarrow> return_txn a | Inr x \<Rightarrow> k x) = (case r of Inl e \<Rightarrow> return_sql a | Inr x \<Rightarrow> as_sql (k x))"
  by (simp split: sum.split)

lemma as_sql_auto_activate [as_sql]: "as_sql (auto_activate_t sv now p ap v) = auto_activate sv now p ap v"
  unfolding auto_activate_t_def auto_activate_def Let_def
  by (simp only: alone_bind alone_attempt alone_return as_sql_sum as_sql_auto_supersede as_sql_facts as_sql_embed
      as_sql_update_state as_sql_audit)

lemma as_sql_maybe_auto [as_sql]: "as_sql (maybe_auto_promote_t sv now p apo inp) = maybe_auto_promote sv now p apo inp"
  by (simp add: maybe_auto_promote_t_def maybe_auto_promote_def as_sql as_sql_if split: option.split prod.split)

lemma as_sql_propose [as_sql]: "as_sql (propose_rest_t sv now nf np inp req apo c) = propose_rest sv now nf np inp req apo c"
  by (simp add: propose_rest_t_def propose_rest_def as_sql)

lemma as_sql_reap [as_sql]: "as_sql (reap_rest_t now ids) = reap_rest now ids"
proof -
  have "as_sql (reap_loop_t now is) = reap_loop now is" for "is"
    by (induction "is") (simp_all add: as_sql)
  then show ?thesis by (simp add: reap_rest_t_def reap_rest_def as_sql)
qed

lemma as_sql_answering [as_sql]: "as_sql (answering_t g p) = answering g (as_sql p)"
  by (simp add: answering_t_def answering_def as_sql)

lemma as_sql_tx: "as_sql (tx_prog sv x) = tx_body sv x"
  by (cases x) (simp_all add: as_sql)

end
