(* ===== verification/Locking.thy ===== *)
theory Locking
  imports Transactions
begin

text \<open>
  What the row locks guarantee, and that every transaction of the workflow takes the locks it needs:
  \<open>agree L\<close> relates the stores that look the same to whoever holds \<open>L\<close>, \<open>own L\<close> the writes \<open>L\<close> allows, and
  each transaction is disciplined under them, so that \<open>Interleaving\<close> applies.
\<close>

section \<open>Stores under locks\<close>

definition key_holders :: "uuid \<Rightarrow> string \<Rightarrow> db \<Rightarrow> uuid set" where
  "key_holders n k d = {i. \<exists>f. fact_at d i = Some f \<and> f_status f = StatusActive \<and> f_namespace_id f = n \<and> f_canonical_key f = k}"

definition idem_holders :: "principal_id \<Rightarrow> string \<Rightarrow> db \<Rightarrow> uuid set" where
  "idem_holders w k d = {i. \<exists>p. promotion_at d i = Some p \<and> p_proposer p = w \<and> p_idempotency_key p = Some k}"

text \<open>
  Others may have changed what is not locked, and may have given an index entry up, but not taken it. Rows
  and namespaces never go away, and a fact keeps what \<open>fact_fixed\<close> lists.
\<close>

definition agree :: "lock set \<Rightarrow> db \<Rightarrow> db \<Rightarrow> bool" where
  "agree L d d' \<longleftrightarrow>
     (\<forall>i. LPromotion i \<in> L \<longrightarrow> promotion_at d' i = promotion_at d i) \<and>
     (\<forall>i. LFact i \<in> L \<longrightarrow> fact_at d' i = fact_at d i) \<and>
     (\<forall>n k. LActiveKey n k \<in> L \<longrightarrow> key_holders n k d' \<subseteq> key_holders n k d) \<and>
     (\<forall>w k. LIdempotency w k \<in> L \<longrightarrow> idem_holders w k d' \<subseteq> idem_holders w k d) \<and>
     rows_kept fact_fixed f_id (facts_tbl d) (facts_tbl d') \<and>
     nr_id ` set (namespaces_tbl d) \<subseteq> nr_id ` set (namespaces_tbl d')"

fun own :: "lock set \<Rightarrow> db \<Rightarrow> row_write \<Rightarrow> bool" where
  "own L d (WFact i u) \<longleftrightarrow> LFact i \<in> L \<and> (\<forall>f. fact_fixed f (u f)) \<and> (\<forall>f. fact_at d i = Some f \<longrightarrow> new_entry u f \<subseteq> L)"
| "own L d (WPromotion i u) \<longleftrightarrow> LPromotion i \<in> L \<and> promotion_keyed u"
| "own L d (WNewFact f) \<longleftrightarrow> LFact (f_id f) \<in> L \<and> fact_at d (f_id f) = None \<and> f_status f \<noteq> StatusActive"
| "own L d (WNewPromotion p) \<longleftrightarrow> LPromotion (p_id p) \<in> L \<and> promotion_at d (p_id p) = None \<and>
     (\<forall>k. p_idempotency_key p = Some k \<longrightarrow> LIdempotency (p_proposer p) k \<in> L)"
| "own L d (WAudit a) \<longleftrightarrow> True"

lemma agree_locked:
  "agree L d d' \<Longrightarrow> LPromotion i \<in> L \<Longrightarrow> promotion_at d' i = promotion_at d i"
  "agree L d d' \<Longrightarrow> LFact j \<in> L \<Longrightarrow> fact_at d' j = fact_at d j"
  "agree L d d' \<Longrightarrow> LActiveKey n k \<in> L \<Longrightarrow> key_holders n k d' \<subseteq> key_holders n k d"
  "agree L d d' \<Longrightarrow> LIdempotency w k \<in> L \<Longrightarrow> idem_holders w k d' \<subseteq> idem_holders w k d"
  "agree L d d' \<Longrightarrow> rows_kept fact_fixed f_id (facts_tbl d) (facts_tbl d')"
  "agree L d d' \<Longrightarrow> nr_id ` set (namespaces_tbl d) \<subseteq> nr_id ` set (namespaces_tbl d')"
  by (simp_all add: agree_def)

lemma agreeI:
  assumes "\<And>i. LPromotion i \<in> L \<Longrightarrow> promotion_at d' i = promotion_at d i"
    and "\<And>i. LFact i \<in> L \<Longrightarrow> fact_at d' i = fact_at d i"
    and "\<And>n k. LActiveKey n k \<in> L \<Longrightarrow> key_holders n k d' \<subseteq> key_holders n k d"
    and "\<And>w k. LIdempotency w k \<in> L \<Longrightarrow> idem_holders w k d' \<subseteq> idem_holders w k d"
    and "\<And>i f. fact_at d i = Some f \<Longrightarrow> \<exists>g. fact_at d' i = Some g \<and> fact_fixed f g"
    and "nr_id ` set (namespaces_tbl d) \<subseteq> nr_id ` set (namespaces_tbl d')"
  shows "agree L d d'"
  using assms by (auto simp: agree_def rows_kept_def)

lemma agree_reflexive: "agree L d d"
  by (simp add: agree_def rows_kept_refl)

lemma agree_transitive: "agree L d d' \<Longrightarrow> agree L d' d'' \<Longrightarrow> agree L d d''"
proof -
  assume a: "agree L d d'" "agree L d' d''"
  note x = agree_locked[OF a(1)] and y = agree_locked[OF a(2)]
  have "rows_kept fact_fixed f_id (facts_tbl d) (facts_tbl d'')"
    by (rule rows_kept_trans[OF fact_fixed_trans x(5) y(5)])
  then show ?thesis
    unfolding agree_def
  proof (intro conjI allI impI, goal_cases)
    case (1 i) then show ?case using x(1) y(1) by simp
  next
    case (2 i) then show ?case using x(2) y(2) by simp
  next
    case (3 n k) show ?case by (rule subset_trans[OF y(3)[OF 3(2)] x(3)[OF 3(2)]])
  next
    case (4 w k) show ?case by (rule subset_trans[OF y(4)[OF 4(2)] x(4)[OF 4(2)]])
  next
    case 6 show ?case by (rule subset_trans[OF x(6) y(6)])
  qed
qed

lemma agree_fewer: "agree M d d' \<Longrightarrow> L \<subseteq> M \<Longrightarrow> agree L d d'"
  unfolding agree_def by (meson subsetD)

lemma own_more_locks: "own L d w \<Longrightarrow> L \<subseteq> M \<Longrightarrow> own M d w"
  by (cases w) auto

lemma own_agreeing: "own L d w \<Longrightarrow> agree L d d' \<Longrightarrow> own L d' w"
  by (cases w) (auto simp: agree_locked)

lemma fact_fixed_place: "fact_fixed f g \<Longrightarrow> f_id g = f_id f \<and> f_namespace_id g = f_namespace_id f \<and> f_canonical_key g = f_canonical_key f"
  by (simp add: fact_fixed_def)

lemma fact_at_upd_fixed:
  "(\<And>f. fact_fixed f (u f)) \<Longrightarrow>
   fact_at (upd_fact i u d) j = (if j = i then map_option u (fact_at d i) else fact_at d j)"
  using fact_fixed_place by (simp add: tbl_get_upd)

lemma promotion_at_upd_keyed:
  "promotion_keyed u \<Longrightarrow>
   promotion_at (upd_promotion i u d) j = (if j = i then map_option u (promotion_at d i) else promotion_at d j)"
  by (simp add: tbl_get_upd promotion_keyed_def)

lemma key_holders_calm:
  "key_holders n k (upd_promotion i v d) = key_holders n k d" "key_holders n k (ins_promotion p d) = key_holders n k d"
  "key_holders n k (log_event a d) = key_holders n k d" "idem_holders w k (upd_fact i u d) = idem_holders w k d"
  "idem_holders w k (ins_fact f d) = idem_holders w k d" "idem_holders w k (log_event a d) = idem_holders w k d"
  by (simp_all add: key_holders_def idem_holders_def)

lemma key_holders_upd:
  assumes "\<And>f. fact_fixed f (u f)"
  shows "key_holders n k (upd_fact i u d) =
    (key_holders n k d - {i}) \<union> {i |f. fact_at d i = Some f \<and> f_status (u f) = StatusActive \<and> f_namespace_id f = n \<and> f_canonical_key f = k}"
  using assms[THEN fact_fixed_place]
  by (auto simp: key_holders_def fact_at_upd_fixed[OF assms] simp del: upd_fact_sel split: if_splits)

lemma idem_holders_upd:
  "promotion_keyed u \<Longrightarrow> idem_holders w k (upd_promotion i u d) = idem_holders w k d"
  by (auto simp: idem_holders_def promotion_at_upd_keyed promotion_keyed_def simp del: upd_promotion_sel
      split: if_splits)

lemma key_holders_ins:
  "fact_at d (f_id f) = None \<Longrightarrow> f_status f \<noteq> StatusActive \<Longrightarrow> key_holders n k (ins_fact f d) = key_holders n k d"
  by (auto simp: key_holders_def tbl_get_ins split: option.splits)

lemma idem_holders_ins:
  "promotion_at d (p_id p) = None \<Longrightarrow> idem_holders w k (ins_promotion p d) =
     idem_holders w k d \<union> (if p_proposer p = w \<and> p_idempotency_key p = Some k then {p_id p} else {})"
  by (auto simp: idem_holders_def tbl_get_ins split: option.splits if_splits)

lemma write_agreeing:
  assumes "own L d w" and "agree L d d'"
  shows "agree L (write_row w d) (write_row w d')"
proof -
  note a = agree_locked[OF assms(2)]
  have kept: "\<exists>g. fact_at d' j = Some g \<and> fact_fixed f g" if "fact_at d j = Some f" for j f
    using a(5) that by (simp add: rows_kept_def)
  show ?thesis
  proof (cases w)
    case (WFact i u)
    then have u: "\<And>f. fact_fixed f (u f)" and i: "fact_at d' i = fact_at d i" using assms(1) a(2) by simp_all
    show ?thesis
      unfolding WFact write_row.simps
    proof (rule agreeI, goal_cases)
      case (3 n k)
      then show ?case using a(3)[OF 3] by (auto simp: key_holders_upd[OF u] i)
    next
      case (5 j f)
      then show ?case unfolding fact_at_upd_fixed[OF u] i using kept[of j] by (auto split: if_splits)
    next
      case (2 j)
      then show ?case using a(2)[OF 2] i unfolding fact_at_upd_fixed[OF u] by simp
    qed (use a(1,4,6) in \<open>simp_all add: key_holders_calm\<close>)
  next
    case (WPromotion i u)
    then have u: "promotion_keyed u" and i: "promotion_at d' i = promotion_at d i" using assms(1) a(1) by simp_all
    show ?thesis
      unfolding WPromotion write_row.simps
    proof (rule agreeI, goal_cases)
      case (4 w k)
      then show ?case using a(4)[OF 4] by (simp add: idem_holders_upd[OF u])
    next
      case (5 j f)
      then show ?case using kept[of j] by simp
    next
      case (1 j)
      then show ?case using a(1)[OF 1] i unfolding promotion_at_upd_keyed[OF u] by simp
    qed (use a(2,3,6) in \<open>simp_all add: key_holders_calm\<close>)
  next
    case (WNewFact f)
    then have f: "f_status f \<noteq> StatusActive" "fact_at d (f_id f) = None" "fact_at d' (f_id f) = None"
      using assms(1) a(2) by auto
    show ?thesis
      unfolding WNewFact write_row.simps
    proof (rule agreeI, goal_cases)
      case (3 n k)
      then show ?case using a(3)[OF 3] f by (simp add: key_holders_ins)
    next
      case (5 j g)
      then show ?case using kept[of j] f by (auto simp: tbl_get_ins split: option.splits if_splits)
    next
      case (2 j)
      then show ?case using a(2)[OF 2] by (simp add: tbl_get_ins)
    qed (use a(1,4,6) in \<open>simp_all add: key_holders_calm\<close>)
  next
    case (WNewPromotion p)
    then have p: "promotion_at d (p_id p) = None" "promotion_at d' (p_id p) = None"
      using assms(1) a(1) by auto
    show ?thesis
      unfolding WNewPromotion write_row.simps
    proof (rule agreeI, goal_cases)
      case (4 w k)
      then show ?case using a(4)[OF 4] p by (auto simp: idem_holders_ins)
    next
      case (5 j g)
      then show ?case using kept[of j] by simp
    next
      case (1 j)
      then show ?case using a(1)[OF 1] by (simp add: tbl_get_ins)
    qed (use a(2,3,6) in \<open>simp_all add: key_holders_calm\<close>)
  next
    case (WAudit e)
    show ?thesis
      unfolding WAudit write_row.simps
      by (rule agreeI) (use a kept in \<open>auto simp: key_holders_calm\<close>)
  qed
qed

lemma write_apart:
  assumes "own L d w" and "L \<inter> M = {}"
  shows "agree M d (write_row w d)"
proof (cases w)
  case (WFact i u)
  then have u: "\<And>f. fact_fixed f (u f)" and n: "LFact i \<in> L" "\<And>f. fact_at d i = Some f \<Longrightarrow> new_entry u f \<subseteq> L"
    using assms(1) by auto
  show ?thesis
    unfolding WFact write_row.simps
  proof (rule agreeI, goal_cases)
    case (2 j)
    then show ?case using n(1) assms(2) unfolding fact_at_upd_fixed[OF u] by auto
  next
    case (3 n k)
    then have nl: "LActiveKey n k \<notin> L" using assms(2) by blast
    have "f_status f = StatusActive" if "fact_at d i = Some f" "f_status (u f) = StatusActive"
      "f_namespace_id f = n" "f_canonical_key f = k" for f
      using nl n(2)[OF that(1)] that(2-4) by (auto simp: new_entry_def split: if_splits)
    then show ?case unfolding key_holders_upd[OF u] by (auto simp: key_holders_def)
  next
    case (5 j f)
    then show ?case unfolding fact_at_upd_fixed[OF u] using u by auto
  qed (auto simp: key_holders_calm)
next
  case (WPromotion i u)
  then have u: "promotion_keyed u" and n: "LPromotion i \<in> L" using assms(1) by auto
  show ?thesis
    unfolding WPromotion write_row.simps
  proof (rule agreeI, goal_cases)
    case (1 j)
    then show ?case using n assms(2) unfolding promotion_at_upd_keyed[OF u] by auto
  qed (auto simp: key_holders_calm idem_holders_upd[OF u])
next
  case (WNewFact f)
  then have f: "LFact (f_id f) \<in> L" "f_status f \<noteq> StatusActive" "fact_at d (f_id f) = None" using assms(1) by auto
  show ?thesis
    unfolding WNewFact write_row.simps
  proof (rule agreeI, goal_cases)
    case (2 j)
    then have "j \<noteq> f_id f" using f(1) assms(2) by auto
    then show ?case by (auto simp: tbl_get_ins split: option.split)
  qed (simp_all add: key_holders_calm key_holders_ins[OF f(3,2)] tbl_get_ins)
next
  case (WNewPromotion p)
  then have p: "LPromotion (p_id p) \<in> L" "promotion_at d (p_id p) = None"
    "\<And>k. p_idempotency_key p = Some k \<Longrightarrow> LIdempotency (p_proposer p) k \<in> L" using assms(1) by auto
  show ?thesis
    unfolding WNewPromotion write_row.simps
  proof (rule agreeI, goal_cases)
    case (1 j)
    then have "j \<noteq> p_id p" using p(1) assms(2) by auto
    then show ?case by (auto simp: tbl_get_ins split: option.split)
  next
    case (4 w k)
    then have "LIdempotency w k \<notin> L" using assms(2) by blast
    then show ?case using p(3) unfolding idem_holders_ins[OF p(2)] by auto
  qed (auto simp: key_holders_calm)
next
  case (WAudit e)
  show ?thesis
    unfolding WAudit write_row.simps by (rule agreeI) (auto simp: key_holders_calm)
qed

interpretation locks: row_locks write_row agree own schema_ok
  by unfold_locales
    (fact agree_reflexive, erule (1) agree_transitive, erule (1) agree_fewer, erule (1) own_more_locks,
      erule (1) own_agreeing, erule (1) write_agreeing, erule (1) write_apart)

section \<open>Steady statements\<close>

abbreviation disc :: "bool \<Rightarrow> (lock set \<Rightarrow> error + 'a \<Rightarrow> bool) \<Rightarrow> lock set \<Rightarrow> 'a dbtxn \<Rightarrow> bool" where
  "disc \<equiv> disciplined write_row agree own schema_ok"

abbreviation pinned :: "lock set \<Rightarrow> (db \<Rightarrow> lock set) \<Rightarrow> (db \<Rightarrow> error + 'a \<times> row_write list) \<Rightarrow> db \<Rightarrow> row_write list \<Rightarrow> bool" where
  "pinned \<equiv> steady write_row agree own schema_ok"

lemma schema_facts: "schema_ok d \<Longrightarrow> facts_ok d (facts_tbl d)"
  by (simp add: schema_ok_def)

lemma schema_promotions: "schema_ok d \<Longrightarrow> promotions_ok d (promotions_tbl d)"
  by (simp add: schema_ok_def)

lemma ids_kept:
  assumes "rows_kept R f_id (facts_tbl (d :: db)) (facts_tbl (d' :: db))"
  shows "set (map f_id (facts_tbl d)) \<subseteq> set (map f_id (facts_tbl d'))"
proof
  fix i assume "i \<in> set (map f_id (facts_tbl d))"
  then have "fact_at d i \<noteq> None" by (auto simp: tbl_get_None)
  then have "fact_at d' i \<noteq> None" using assms by (auto simp: rows_kept_def)
  then show "i \<in> set (map f_id (facts_tbl d'))" by (auto simp: tbl_get_None)
qed

lemma refers_more: "refers r ids \<Longrightarrow> set ids \<subseteq> set ids' \<Longrightarrow> refers r ids'"
  by (auto simp: refers_def split: option.splits)

lemma count_by_id:
  "distinct (map key t) \<Longrightarrow> length (filter (\<lambda>r. key r = i) t) = (if tbl_get key i t = None then 0 else 1)"
proof (induction t)
  case (Cons a t)
  then have "key a = i \<Longrightarrow> tbl_get key i t = None" by (auto simp: tbl_get_None)
  with Cons show ?case by (auto simp: tbl_get_def)
qed (simp add: tbl_get_def)

text \<open>An update that passed the constraints on one store passes them on every store that agrees.\<close>

lemma facts_ok_upd_agree:
  assumes ok: "schema_ok v" "schema_ok v'" and a: "agree M v v'" and u: "\<And>f. fact_fixed f (u f)"
    and i: "LFact i \<in> M" and e: "\<And>f. fact_at v i = Some f \<Longrightarrow> new_entry u f \<subseteq> M"
    and fits: "facts_ok v (tbl_upd f_id i u (facts_tbl v))"
  shows "facts_ok v' (tbl_upd f_id i u (facts_tbl v'))"
proof (cases "fact_at v i")
  case None
  then have "fact_at v' i = None" using agree_locked(2)[OF a i] by simp
  then have "tbl_upd f_id i u (facts_tbl v') = facts_tbl v'"
    by (auto simp: tbl_upd_def tbl_get_None intro!: map_idI)
  then show ?thesis using schema_facts[OF ok(2)] by simp
next
  case (Some f)
  then have f': "fact_at v' i = Some f" using agree_locked(2)[OF a i] by simp
  have id: "f_id (u r) = f_id r" for r using fact_fixed_place[OF u] by simp
  have ids: "map f_id (tbl_upd f_id i u (facts_tbl v)) = map f_id (facts_tbl v)" by (rule map_key_upd) (rule id)
  have uf: "u f \<in> set (tbl_upd f_id i u (facts_tbl v))" using tbl_get_Some[OF Some] by (auto simp: tbl_upd_def)
  note row = facts_ok_row[OF fits uf, unfolded ids]
  note more = ids_kept[OF agree_locked(5)[OF a]]
  have refs: "refers (f_supersedes_id (u f)) (map f_id (facts_tbl v'))" "refers (f_superseded_by_id (u f)) (map f_id (facts_tbl v'))"
    using row(2,3) more by (auto intro: refers_more simp del: set_map)
  have alone: "f_canonical_key g \<noteq> f_canonical_key (u f)"
    if act: "f_status (u f) = StatusActive" and g: "g \<in> set (facts_tbl v')" "f_status g = StatusActive" "f_id g \<noteq> i"
      "f_namespace_id g = f_namespace_id f" for g
  proof (cases "f_status f = StatusActive")
    case True
    have "f \<in> set (facts_tbl v')" "f_id f = i" using tbl_get_Some[OF f'] by simp_all
    then show ?thesis
      using active_unique[OF facts_ok_active[OF schema_facts[OF ok(2)]] g(1), of f] True g fact_fixed_place[OF u, of f] by auto
  next
    case False
    show ?thesis
    proof
      assume k: "f_canonical_key g = f_canonical_key (u f)"
      let ?n = "f_namespace_id f" and ?k = "f_canonical_key f"
      have k': "f_canonical_key g = ?k" using k fact_fixed_place[OF u, of f] by simp
      have "LActiveKey ?n ?k \<in> M" using e[OF Some] act False by (simp add: new_entry_def)
      then have "key_holders ?n ?k v' \<subseteq> key_holders ?n ?k v" by (rule agree_locked(3)[OF a])
      moreover have "fact_at v' (f_id g) = Some g"
        using tbl_get_in[OF facts_ok_ids[OF schema_facts[OF ok(2)]] g(1)] .
      then have "f_id g \<in> key_holders ?n ?k v'" using g k' by (simp add: key_holders_def)
      ultimately obtain h where h: "fact_at v (f_id g) = Some h" "f_status h = StatusActive"
          "f_namespace_id h = ?n" "f_canonical_key h = ?k"
        by (auto simp: key_holders_def)
      have "h \<in> set (facts_tbl v)" "f_id h = f_id g" using tbl_get_Some[OF h(1)] by simp_all
      then have "h \<in> set (tbl_upd f_id i u (facts_tbl v))" using g(3) by (auto simp: tbl_upd_def intro!: image_eqI[of _ _ h])
      then have "h = u f"
        using active_unique[OF facts_ok_active[OF fits] _ uf] h act fact_fixed_place[OF u, of f] by simp
      then show False using g(3) tbl_get_Some[OF h(1)] tbl_get_Some[OF Some] id by auto
    qed
  qed
  show ?thesis
    by (rule facts_ok_upd[OF schema_facts[OF ok(2)] f' id _ refs])
      (use row(4,5) fact_fixed_place[OF u, of f] alone in auto)
qed

lemma update_facts_agree:
  assumes "schema_ok v" and "schema_ok v'" and "agree M v v'" and "\<And>f. fact_fixed f (u f)" and "LFact i \<in> M"
    and "\<And>f. fact_at v i = Some f \<Longrightarrow> new_entry u f \<subseteq> M" and "update_facts (\<lambda>f. f_id f = i) u v = Inr (n, v1)"
  shows "update_facts (\<lambda>f. f_id f = i) u v' = Inr (n, upd_fact i u v')"
proof -
  have "facts_ok v (tbl_upd f_id i u (facts_tbl v))" "n = length (filter (\<lambda>f. f_id f = i) (facts_tbl v))"
    using assms(7) by (simp_all add: update_facts_id_Inr)
  moreover have "length (filter (\<lambda>f. f_id f = i) (facts_tbl v')) = length (filter (\<lambda>f. f_id f = i) (facts_tbl v))"
    using count_by_id[OF facts_ok_ids[OF schema_facts[OF assms(1)]]]
      count_by_id[OF facts_ok_ids[OF schema_facts[OF assms(2)]]] agree_locked(2)[OF assms(3,5)] by simp
  ultimately show ?thesis
    using facts_ok_upd_agree[OF assms(1-6)] by (simp add: update_facts_id_Inr)
qed

lemma pinned_update_fact:
  assumes v: "schema_ok v" and u: "\<And>f. fact_fixed f (u f)"
    and s: "with_writes [WFact i u] (update_facts (\<lambda>f. f_id f = i) u v) = Inr (n, ws)"
  shows "pinned L (update_locks i u) (\<lambda>d. with_writes [WFact i u] (update_facts (\<lambda>f. f_id f = i) u d)) v ws"
proof -
  obtain v1 where up: "update_facts (\<lambda>f. f_id f = i) u v = Inr (n, v1)" and ws: "ws = [WFact i u]"
    using s by (auto simp: with_writes_def split: sum.splits)
  have fits: "facts_ok v (tbl_upd f_id i u (facts_tbl v))" using up by (simp add: update_facts_id_Inr)
  have i: "LFact i \<in> L \<union> update_locks i u v" by (simp add: update_locks_def)
  have e: "new_entry u f \<subseteq> L \<union> update_locks i u v" if "fact_at v i = Some f" for f
    using that by (auto simp: update_locks_def)
  have "schema_ok (upd_fact i u v)" using evolves_upd_fact[OF fits u] v by (simp add: evolves_def)
  moreover have "update_locks i u v' = update_locks i u v \<and>
      with_writes [WFact i u] (update_facts (\<lambda>f. f_id f = i) u v') = with_writes [WFact i u] (update_facts (\<lambda>f. f_id f = i) u v)"
    if v': "schema_ok v'" and a: "agree (L \<union> update_locks i u v) v v'" for v'
    using update_facts_agree[OF v v' a u i e up] agree_locked(2)[OF a i] up
    by (simp add: update_locks_def with_writes_def)
  ultimately show ?thesis using u i e by (auto simp: steady_def ws)
qed

lemma disc_update_fact:
  assumes "\<And>f. fact_fixed f (u f)" and "\<And>M n. L \<subseteq> M \<Longrightarrow> LFact i \<in> M \<Longrightarrow> Q M (Inr n)"
  shows "disc b Q L (update_fact_t i u)"
  unfolding update_fact_t_def
  by (rule disciplined_stmt, rule conjI, erule (1) pinned_update_fact[OF _ assms(1)], rule assms(2), rule Un_upper1,
      simp add: update_locks_def)

lemma pinned_put:
  assumes "own (L \<union> l v) v w" and "schema_ok v \<Longrightarrow> schema_ok (write_row w v)" and "schema_ok v"
    and "\<And>v'. schema_ok v' \<Longrightarrow> agree (L \<union> l v) v v' \<Longrightarrow> l v' = l v \<and> g v' = g v"
  shows "pinned L l g v [w]"
  using assms by (simp add: steady_def)

lemma disc_read:
  assumes "\<And>v v'. agree L v v' \<Longrightarrow> g v' = g v" and "\<And>a. Q L (Inr a)"
  shows "disc b Q L (read_t g)"
  unfolding read_t_def by (rule disciplined_stmt) (use assms in \<open>auto simp: steady_def\<close>)

named_theorems disc \<comment> \<open>programs that are disciplined whatever locks they start with\<close>

abbreviation (input) any :: "lock set \<Rightarrow> error + 'a \<Rightarrow> bool" where
  "any \<equiv> \<lambda>_ _. True"

lemma disc_return [disc]: "disc b any L (return_txn a)"
  by (rule disciplined_return) simp

lemma disc_fail [disc]: "disc b any L (fail_txn e)"
  by (rule disciplined_fail) simp

lemma disc_bind [disc]:
  "disc b any L p \<Longrightarrow> (\<And>M a. L \<subseteq> M \<Longrightarrow> disc b any M (k a)) \<Longrightarrow> disc b any L (bind_txn p k)"
  by (erule disciplined_bind) simp_all

lemma disc_if [disc]: "disc b any L p \<Longrightarrow> disc b any L q \<Longrightarrow> disc b any L (if c then p else q)"
  by simp

lemma disc_attempt [disc]: "disc False any L p \<Longrightarrow> disc b any L (attempt_txn p)"
  by (rule disciplined_attempt)

lemma disc_audit_write [disc]: "disc b any L (audit_write_t now e)"
  unfolding audit_write_t_def
proof (rule disciplined_stmt, goal_cases)
  case (1 v a ws)
  have "pinned L (\<lambda>_. {}) (\<lambda>d. Inr ((), [WAudit (audit_row now e)])) v [WAudit (audit_row now e)]"
    by (rule pinned_put) (use 1 evolves_log in \<open>auto simp: evolves_def\<close>)
  then show ?case using 1 by simp
qed

lemma disc_update_any [disc]: "(\<And>f. fact_fixed f (u f)) \<Longrightarrow> disc b any L (update_fact_t i u)"
  by (rule disc_update_fact) simp_all

lemma disc_affected [disc]: "disc b any L (affected_t e n)"
  by (simp add: affected_t_def disc)

lemma disc_get_fact: "LFact i \<in> L \<Longrightarrow> disc b any L (get_fact_t i)"
  unfolding get_fact_t_def
  by (rule disciplined_bind[where R = "\<lambda>_ _. True"], rule disc_read)
    (auto simp: agree_locked(2) intro: disc split: option.split)

lemma disc_get_promotion [disc]: "disc b any L (get_promotion_t i)"
  unfolding get_promotion_t_def
proof (rule disciplined_bind[where R = "\<lambda>_ _. True"], rule disciplined_stmt, goal_cases)
  case (1 v a ws)
  then show ?case by (auto simp: steady_def agree_locked(1))
qed (auto intro: disc split: option.split)

lemma update_promotions_agree:
  assumes "schema_ok v" and "schema_ok v'" and "agree M v v'" and "promotion_keyed u" and "LPromotion i \<in> M"
    and "update_promotions i u v = Inr (n, v1)"
  shows "update_promotions i u v' = Inr (n, upd_promotion i u v')"
proof -
  have ids: "distinct (map p_id (promotions_tbl v))" "distinct (map p_id (promotions_tbl v'))"
    using assms(1,2) by (simp_all add: schema_ok_def promotions_ok_def)
  have "n = length (filter (\<lambda>p. p_id p = i) (promotions_tbl v))"
    using assms(6) by (simp add: update_promotions_Inr[OF assms(4)])
  then show ?thesis
    using count_by_id[OF ids(1)] count_by_id[OF ids(2)] agree_locked(1)[OF assms(3,5)] schema_promotions[OF assms(2)]
    by (simp add: update_promotions_Inr[OF assms(4)])
qed

lemma schema_upd_promotion: "promotion_keyed u \<Longrightarrow> schema_ok d \<Longrightarrow> schema_ok (upd_promotion i u d)"
proof -
  assume u: "promotion_keyed u" and d: "schema_ok d"
  have "promotions_ok (upd_promotion i u d) = promotions_ok d" "memberships_ok (upd_promotion i u d) = memberships_ok d"
    "facts_ok (upd_promotion i u d) = facts_ok d"
    by (simp_all add: promotions_ok_def memberships_ok_def facts_ok_def fun_eq_iff)
  then show ?thesis using d by (simp add: schema_ok_def promotions_ok_upd[OF u])
qed

lemma disc_update_state [disc]: "disc b any L (update_state_and_reviews_t now i st rs)"
  unfolding update_state_and_reviews_t_def
proof (rule disc_bind, rule disciplined_stmt, goal_cases)
  case (1 v n ws)
  let ?u = "row_reviewed now st rs"
  obtain v1 where up: "update_promotions i ?u v = Inr (n, v1)" and ws: "ws = [WPromotion i ?u]"
    using 1 by (auto simp: with_writes_def split: sum.splits)
  have "with_writes [WPromotion i ?u] (update_promotions i ?u v') = with_writes [WPromotion i ?u] (update_promotions i ?u v)"
    if "schema_ok v'" "agree (L \<union> {LPromotion i}) v v'" for v'
    using update_promotions_agree[OF 1(1) that promotion_keyed_rows(1) _ up] up by (simp add: with_writes_def)
  then have "pinned L (\<lambda>_. {LPromotion i}) (\<lambda>d. with_writes [WPromotion i ?u] (update_promotions i ?u d)) v ws"
    unfolding ws by (intro pinned_put) (use 1 in \<open>auto intro: schema_upd_promotion\<close>)
  then show ?case by simp
qed (rule disc)

section \<open>Inserts\<close>

lemma facts_ok_ins_agree:
  assumes "schema_ok v'" and a: "agree M v v'" and "LFact (f_id r) \<in> M" and "f_status r \<noteq> StatusActive"
    and fits: "facts_ok v (tbl_ins r (facts_tbl v))"
  shows "facts_ok v' (tbl_ins r (facts_tbl v'))"
proof -
  have "fact_at v (f_id r) = None" using fits by (auto simp: facts_ok_def tbl_ins_def tbl_get_None)
  then have new: "f_id r \<notin> set (map f_id (facts_tbl v'))"
    using agree_locked(2)[OF a assms(3)] tbl_get_None[of f_id "f_id r" "facts_tbl v'"] by simp
  have more: "set (map f_id (tbl_ins r (facts_tbl v))) \<subseteq> set (map f_id (tbl_ins r (facts_tbl v')))"
    using ids_kept[OF agree_locked(5)[OF a]] by (auto simp: tbl_ins_def)
  note row = facts_ok_row[OF fits, of r]
  have r: "r \<in> set (tbl_ins r (facts_tbl v))" by (simp add: tbl_ins_def)
  have refs: "refers (f_supersedes_id r) (map f_id (tbl_ins r (facts_tbl v')))"
    "refers (f_superseded_by_id r) (map f_id (tbl_ins r (facts_tbl v')))"
    using refers_more[OF row(2)[OF r] more] refers_more[OF row(3)[OF r] more] .
  have old: "refers x (map f_id (tbl_ins r (facts_tbl v')))" if "refers x (map f_id (facts_tbl v'))" for x
    by (rule refers_more[OF that]) (auto simp: tbl_ins_def)
  have "f_namespace_id r \<in> nr_id ` set (namespaces_tbl v')"
    using row(1)[OF r] agree_locked(6)[OF a] by auto
  then show ?thesis
    using schema_facts[OF assms(1)] new refs old row(4,5)[OF r] assms(4)
    by (auto simp: facts_ok_def tbl_ins_def active_keys_def list_all_iff split: option.split)
qed

lemma disc_insert_fact [disc]:
  assumes "f_status f \<noteq> StatusActive"
  shows "disc b any L (insert_fact_t now new f)"
  unfolding insert_fact_t_def Let_def
proof (rule disc_bind, rule disciplined_stmt, goal_cases)
  case (1 v n ws)
  let ?r = "fact_to_row (f\<lparr>f_canonical_key := canonical_key (f_subject f), f_id := new, f_version := 1,
                 f_created_at := now, f_updated_at := now\<rparr>)"
  have fits: "facts_ok v (tbl_ins ?r (facts_tbl v))" and ws: "ws = [WNewFact ?r]"
    using 1 by (auto simp: with_writes_def put_facts_def split: sum.splits if_splits)
  have none: "fact_at v new = None"
    using fits by (auto simp: facts_ok_def tbl_ins_def tbl_get_None)
  have "facts_ok v' (tbl_ins ?r (facts_tbl v'))" if "schema_ok v'" "agree (L \<union> {LFact new}) v v'" for v'
    by (rule facts_ok_ins_agree[OF that _ _ fits]) (use assms in simp_all)
  moreover have "schema_ok v \<Longrightarrow> schema_ok (ins_fact ?r v)"
    using evolves_ins_fact[OF fits] by (simp add: evolves_def)
  ultimately show ?case
    unfolding ws using fits 1 none assms
    by (intro conjI pinned_put) (simp_all add: with_writes_def put_facts_def)
qed (rule disc)

lemma promotions_ok_ins_agree:
  assumes "schema_ok v'" and a: "agree M v v'" and "LPromotion (p_id p) \<in> M"
    and i: "\<And>k. p_idempotency_key p = Some k \<Longrightarrow> LIdempotency (p_proposer p) k \<in> M"
    and "distinct (map p_id (promotions_tbl v))" and fits: "promotions_ok v (tbl_ins p (promotions_tbl v))"
  shows "promotions_ok v' (tbl_ins p (promotions_tbl v'))"
proof -
  have "promotion_at v (p_id p) = None" using fits by (auto simp: promotions_ok_def tbl_ins_def tbl_get_None)
  then have new: "p_id p \<notin> set (map p_id (promotions_tbl v'))"
    using agree_locked(1)[OF a assms(3)] tbl_get_None[of p_id "p_id p" "promotions_tbl v'"] by simp
  have p': "promotions_ok v' (promotions_tbl v')" using schema_promotions[OF assms(1)] .
  then have ids': "distinct (map p_id (promotions_tbl v'))" by (simp add: promotions_ok_def)
  have key: "(p_proposer p, k) \<notin> set (idem_keys (promotions_tbl v'))" if k: "p_idempotency_key p = Some k" for k
  proof
    assume "(p_proposer p, k) \<in> set (idem_keys (promotions_tbl v'))"
    then obtain q where q: "q \<in> set (promotions_tbl v')" "p_proposer q = p_proposer p" "p_idempotency_key q = Some k"
      by (auto simp: idem_keys_def)
    then have "p_id q \<in> idem_holders (p_proposer p) k v'"
      using tbl_get_in[OF ids' q(1)] by (auto simp: idem_holders_def)
    then have "p_id q \<in> idem_holders (p_proposer p) k v" using agree_locked(4)[OF a i[OF k]] by blast
    then obtain x where "promotion_at v (p_id q) = Some x" "p_proposer x = p_proposer p" "p_idempotency_key x = Some k"
      by (auto simp: idem_holders_def)
    then have "(p_proposer p, k) \<in> set (idem_keys (promotions_tbl v))"
      by (auto simp: idem_keys_def intro!: image_eqI[of _ _ x] dest: tbl_get_Some)
    then show False using fits k by (auto simp: promotions_ok_def tbl_ins_def idem_keys_def)
  qed
  have more: "set (map f_id (facts_tbl v)) \<subseteq> set (map f_id (facts_tbl v'))"
    by (rule ids_kept[OF agree_locked(5)[OF a]])
  have row: "p_fact_id p \<in> set (map f_id (facts_tbl v))" "p_target_namespace_id p \<in> nr_id ` set (namespaces_tbl v)"
    "refers (p_conflict_with p) (map f_id (facts_tbl v))" "int4_min \<le> p_required_approvals p" "p_required_approvals p \<le> int4_max"
    using fits by (auto simp: promotions_ok_def tbl_ins_def)
  have "p_target_namespace_id p \<in> nr_id ` set (namespaces_tbl v')" using row(2) agree_locked(6)[OF a] by blast
  moreover have "p_fact_id p \<in> set (map f_id (facts_tbl v'))" using row(1) more by blast
  moreover have "refers (p_conflict_with p) (map f_id (facts_tbl v'))" by (rule refers_more[OF row(3) more])
  moreover have "distinct (idem_keys (promotions_tbl v' @ [p]))"
    using p' key by (auto simp: promotions_ok_def idem_keys_def)
  ultimately show ?thesis
    using p' new row(4,5) by (simp add: promotions_ok_def tbl_ins_def)
qed

lemma disc_insert_promotion [disc]: "disc b any L (insert_promotion_t now new p)"
  unfolding insert_promotion_t_def Let_def
proof (rule disc_bind, rule disciplined_stmt, goal_cases)
  case (1 v n ws)
  let ?p = "p\<lparr>p_id := new, p_created_at := now, p_updated_at := now\<rparr>"
  let ?l = "insert (LPromotion new) (case p_idempotency_key p of None \<Rightarrow> {} | Some k \<Rightarrow> {LIdempotency (p_proposer p) k})"
  have fits: "promotions_ok v (tbl_ins ?p (promotions_tbl v))" and ws: "ws = [WNewPromotion ?p]"
    using 1 by (auto simp: with_writes_def put_promotions_def split: sum.splits if_splits)
  have none: "promotion_at v new = None"
    using fits by (auto simp: promotions_ok_def tbl_ins_def tbl_get_None)
  have "promotions_ok v' (tbl_ins ?p (promotions_tbl v'))" if "schema_ok v'" "agree (L \<union> ?l) v v'" for v'
    by (rule promotions_ok_ins_agree[OF that _ _ _ fits])
      (use schema_promotions[OF 1(1)] in \<open>auto simp: promotions_ok_def\<close>)
  moreover have "schema_ok v \<Longrightarrow> schema_ok (ins_promotion ?p v)"
    using evolves_ins_promotion[OF fits] by (simp add: evolves_def)
  ultimately show ?case
    unfolding ws using fits 1 none
    by (intro conjI pinned_put) (simp_all add: with_writes_def put_promotions_def)
qed (rule disc)

section \<open>The transactions are disciplined\<close>

lemma disc_statements [disc]:
  "disc b any L (set_status_t now i to)" "disc b any L (activate_fact_t now i ws)"
  "disc b any L (activate_auto_t now i)" "disc b any L (supersede_t now i j)"
  unfolding set_status_t_def activate_fact_t_def activate_auto_t_def supersede_t_def
  by (intro disc fact_fixed_rows)+

lemma disc_activated:
  "disc b (\<lambda>M _. LFact i \<in> M) L (activate_fact_t now i ws)" "disc b (\<lambda>M _. LFact i \<in> M) L (activate_auto_t now i)"
proof -
  have a: "disc b (\<lambda>M _. LFact i \<in> M) M (affected_t e n)" if "LFact i \<in> M" for M e n
    using that by (auto simp: affected_t_def intro: disciplined_return disciplined_fail)
  show "disc b (\<lambda>M _. LFact i \<in> M) L (activate_fact_t now i ws)"
    unfolding activate_fact_t_def
    by (rule disciplined_bind[OF disc_update_fact[where Q = "\<lambda>M _. LFact i \<in> M"]]) (auto intro: a)
  show "disc b (\<lambda>M _. LFact i \<in> M) L (activate_auto_t now i)"
    unfolding activate_auto_t_def
    by (rule disciplined_bind[OF disc_update_fact[where Q = "\<lambda>M _. LFact i \<in> M"]]) (auto intro: a)
qed

lemma disc_embed: "LFact i \<in> L \<Longrightarrow> disc b any L (embed_stored_fact_t sv i)"
  unfolding embed_stored_fact_t_def embed_activated_fact_t_def
  by (rule disc_bind, rule disc_attempt, erule disc_get_fact) (auto intro!: disc split: sum.split option.split)

lemma disc_activate [disc]: "disc b any L (activate_t sv now p who)"
proof -
  have "disc b any M (bind_txn (activate_fact_t now (p_fact_id p) ws) (\<lambda>_. bind_txn (embed_stored_fact_t sv (p_fact_id p)) (\<lambda>_. audit_write_t now e)))"
    for M ws e
    by (rule disciplined_bind[OF disc_activated(1)]) (auto intro!: disc disc_embed)
  moreover have "disc b any M (case x of None \<Rightarrow> return_txn ()
      | Some c \<Rightarrow> bind_txn (supersede_t now c i) (\<lambda>_. audit_write_t now (e c)))" for M x i e
    by (simp only: option.split, intro conjI allI impI disc)
  ultimately show ?thesis
    unfolding activate_t_def by (rule disc_bind[rotated])
qed

lemma disc_approve [disc]: "disc b any L (approve_t sv now wall i who c)"
  unfolding approve_t_def Let_def
  by (intro disc)

lemma disc_review [disc]: "disc b any L (review_t now wall i who dec c to fact_to act)"
  unfolding review_t_def Let_def
  by (intro disc)

lemma disc_transition [disc]: "disc b any L (transition_t now i who mutate fact_to act)"
  unfolding transition_t_def
  by (rule disc_bind, rule disc) (simp only: sum.split, intro conjI allI impI disc)

lemma disc_auto_supersede [disc]: "disc b any L (auto_supersede_t now who p)"
  unfolding auto_supersede_t_def by (simp only: option.split, intro conjI allI impI disc)

lemma disc_auto_activate [disc]: "disc b any L (auto_activate_t sv now p ap v)"
proof -
  have r: "disc b any M (case r of Inl e \<Rightarrow> return_txn a | Inr x \<Rightarrow> k x)" if "\<And>x. disc b any M (k x)" for M r a k
    using that by (auto intro: disc split: sum.split)
  have at: "disc b (\<lambda>M r. case r of Inl e \<Rightarrow> True | Inr r' \<Rightarrow> LFact (p_fact_id p) \<in> M) M
      (attempt_txn (activate_auto_t now (p_fact_id p)))" for M
    by (rule disciplined_attempt) (simp add: disc_activated)
  show ?thesis
    unfolding auto_activate_t_def Let_def
  proof (rule disc_bind, intro disc, rule r)
    fix M x
    show "disc b any M (bind_txn (attempt_txn (activate_auto_t now (p_fact_id p)))
       (\<lambda>r. case r of Inl e \<Rightarrow> return_txn p
         | Inr x \<Rightarrow> bind_txn (embed_stored_fact_t sv (p_fact_id p))
            (\<lambda>_. bind_txn (attempt_txn (update_state_and_reviews_t now (p_id (p\<lparr>p_state := StateApproved\<rparr>))
                (p_state (p\<lparr>p_state := StateApproved\<rparr>)) (p_reviews (p\<lparr>p_state := StateApproved\<rparr>))))
              (\<lambda>r. case r of Inl e \<Rightarrow> return_txn (p\<lparr>p_state := StateApproved\<rparr>)
                | Inr x \<Rightarrow> bind_txn (attempt_txn (audit_write_t now
                    (auto_promoted_event ap v (p_fact_id (p\<lparr>p_state := StateApproved\<rparr>)))))
                    (\<lambda>_. return_txn (p\<lparr>p_state := StateApproved\<rparr>))))))"
      by (rule disciplined_bind[OF at]) (auto intro!: disc disc_embed split: sum.split)
  qed
qed

lemma disc_maybe_auto [disc]: "disc b any L (maybe_auto_promote_t sv now p apo inp)"
  unfolding maybe_auto_promote_t_def by (auto intro!: disc split: option.split prod.split)

lemma disc_propose [disc]: "disc b any L (propose_rest_t sv now nf np inp req apo c)"
  unfolding propose_rest_t_def by (intro disc) (simp add: draft_fact_def)

lemma disc_reap [disc]: "disc b any L (reap_rest_t now ids)"
proof -
  have "disc b any M (reap_loop_t now is)" for M "is"
    by (induction "is" arbitrary: M) (auto intro!: disc)
  moreover have "disc b any M (read_t (\<lambda>_. ()))" for M by (rule disc_read) simp_all
  ultimately show ?thesis unfolding reap_rest_t_def by (intro disc)
qed

text \<open>The conditional update of \<^verbatim>\<open>RevokeWithVersion\<close> touches at most the row with its id.\<close>

lemma revocable_at:
  assumes "distinct (map f_id t)"
  shows "length (filter (revocable_row i e) t) = (case tbl_get f_id i t of None \<Rightarrow> 0 | Some f \<Rightarrow> if revocable_row i e f then 1 else 0)"
    and "list_ex (revocable_row i e) t \<longleftrightarrow> (\<exists>f. tbl_get f_id i t = Some f \<and> revocable_row i e f)"
proof -
  show "length (filter (revocable_row i e) t) = (case tbl_get f_id i t of None \<Rightarrow> 0 | Some f \<Rightarrow> if revocable_row i e f then 1 else 0)"
    using assms
  proof (induction t)
    case (Cons a t)
    have "tbl_get f_id i t = None" if "f_id a = i" using Cons.prems that by (auto simp: tbl_get_None)
    then show ?case using Cons by (auto simp: tbl_get_def revocable_row_def)
  qed (simp add: tbl_get_def)
  then show "list_ex (revocable_row i e) t \<longleftrightarrow> (\<exists>f. tbl_get f_id i t = Some f \<and> revocable_row i e f)"
    by (auto simp: list_ex_iff filter_empty_conv dest: tbl_get_Some split: option.splits if_splits)
qed

lemma update_revocable:
  "update_facts (revocable_row i e) u d = Inr (n, d') \<longleftrightarrow>
     facts_ok d (tbl_upd f_id i (\<lambda>f. if revocable_row i e f then u f else f) (facts_tbl d)) \<and>
     d' = upd_fact i (\<lambda>f. if revocable_row i e f then u f else f) d \<and>
     n = length (filter (revocable_row i e) (facts_tbl d))"
proof -
  have "map (\<lambda>f. if revocable_row i e f then u f else f) t = tbl_upd f_id i (\<lambda>f. if revocable_row i e f then u f else f) t" for t
    by (auto simp: tbl_upd_def revocable_row_def)
  then show ?thesis by (auto simp: update_facts_def put_facts_def upd_fact_def)
qed

lemma pinned_revoke:
  assumes v: "schema_ok v" and range: "\<not> (e < int4_min \<or> int4_max < e)" and n: "n \<noteq> 0"
    and up: "update_facts (revocable_row i e) (row_status now StatusRevoked) v = Inr (n, v1)"
  shows "pinned L (\<lambda>d. if list_ex (revocable_row i e) (facts_tbl d) then {LFact i} else {})
    (\<lambda>d. with_writes [WFact i (\<lambda>f. if revocable_row i e f then row_status now StatusRevoked f else f)]
       (if e < int4_min \<or> int4_max < e then Inl ErrConstraint
        else update_facts (revocable_row i e) (row_status now StatusRevoked) d)) v
    [WFact i (\<lambda>f. if revocable_row i e f then row_status now StatusRevoked f else f)]"
proof -
  let ?w = "\<lambda>f. if revocable_row i e f then row_status now StatusRevoked f else f"
  have w: "fact_fixed f (?w f)" for f by simp
  have ids: "distinct (map f_id (facts_tbl d))" if "schema_ok d" for d
    using facts_ok_ids[OF schema_facts[OF that]] .
  have fits: "facts_ok v (tbl_upd f_id i ?w (facts_tbl v))" and nv: "n = length (filter (revocable_row i e) (facts_tbl v))"
    using up by (simp_all add: update_revocable)
  then have ex: "list_ex (revocable_row i e) (facts_tbl v)"
    using n by (auto simp: list_ex_iff filter_empty_conv)
  have entry: "new_entry ?w f \<subseteq> M" for f M by (auto simp: new_entry_def)
  have "schema_ok (upd_fact i ?w v)" using evolves_upd_fact[OF fits w] v by (simp add: evolves_def)
  moreover have "list_ex (revocable_row i e) (facts_tbl v') \<and>
      update_facts (revocable_row i e) (row_status now StatusRevoked) v' = Inr (n, upd_fact i ?w v')"
    if v': "schema_ok v'" and a: "agree (L \<union> {LFact i}) v v'" for v'
  proof -
    have same: "fact_at v' i = fact_at v i" using agree_locked(2)[OF a] by simp
    have "facts_ok v' (tbl_upd f_id i ?w (facts_tbl v'))"
      by (rule facts_ok_upd_agree[OF v v' a w _ entry fits]) simp
    then show ?thesis
      using revocable_at[OF ids[OF v], of i e] revocable_at[OF ids[OF v'], of i e] same nv ex
      by (simp add: update_revocable)
  qed
  ultimately show ?thesis using ex range entry up w by (auto simp: steady_def with_writes_def)
qed

text \<open>A revocation that matches no row answers with an error, so it never commits.\<close>

lemma disc_revoke [disc]: "disc True any L (revoke_t now i expected who)"
proof -
  let ?u = "row_status now StatusRevoked"
  let ?w = "\<lambda>f. if revocable_row i expected f then ?u f else f"
  let ?l = "\<lambda>d. if list_ex (revocable_row i expected) (facts_tbl d) then {LFact i} else {}"
  let ?g = "\<lambda>d. with_writes [WFact i ?w] (if expected < int4_min \<or> int4_max < expected then Inl ErrConstraint
      else update_facts (revocable_row i expected) ?u d)"
  define k where "k n = (if n = 0
          then bind_txn (attempt_txn (get_fact_t i))
            (\<lambda>r. case r of
               Inl e \<Rightarrow> fail_txn (if e = ErrFactNotFound then ErrFactNotFound else ErrVersionConflict)
             | Inr f \<Rightarrow> if f_status f \<noteq> StatusActive then fail_txn (ErrCannotRevoke (f_status f))
                       else fail_txn ErrVersionConflict)
          else return_txn ())" for n :: nat
  have k0: "hopeless (bind_txn (k 0) f)" for f :: "unit \<Rightarrow> unit dbtxn"
    unfolding k_def by (simp, intro hopeless_bind_left hopeless_bind_right) (auto split: sum.split)
  show ?thesis
    unfolding revoke_t_def revoke_with_version_t_def revoke_update_t_def bind_txn_assoc k_def[symmetric]
  proof (rule disciplined_stmt_bind, goal_cases)
    case (1 v n ws)
    then obtain v1 where up: "update_facts (revocable_row i expected) ?u v = Inr (n, v1)" and ws: "ws = [WFact i ?w]"
      and range: "\<not> (expected < int4_min \<or> int4_max < expected)"
      by (auto simp: with_writes_def split: sum.splits if_splits)
    show ?case
    proof (cases "n = 0")
      case False
      then show ?thesis using pinned_revoke[OF 1(1) range False up] by (simp add: ws k_def disc)
    qed (simp add: k0)
  qed
qed

end
