(* ===== verification/Concurrency.thy ===== *)
theory Concurrency
  imports Locking Guarantees
begin

text \<open>
  The service with many requests in flight: transactions of different connections interleave statement
  by statement under the row locks of \<open>Transactions\<close>. Every interleaving commits what the same
  transactions commit one after the other, in the order of their commits and with the same answers, and
  the governance invariant holds of every committed store. What was read before the first lock may be
  stale when the transaction commits: the conflict a proposal records and the ids the reaper selected.
\<close>

section \<open>The system\<close>

text \<open>What an operation knows when its transaction has made its first, lock-free read.\<close>

fun opens :: "service \<Rightarrow> db \<Rightarrow> tx \<Rightarrow> answer dbtxn \<Rightarrow> bool" where
  "opens sv d (TxPropose now nf np inp req apo c) p \<longleftrightarrow>
     p = tx_prog sv (TxPropose now nf np inp req apo c) \<and> subject_valid (in_subject inp) \<and> 1 \<le> req \<and> c = conflicting inp d"
| "opens sv d (TxReap now ids) p \<longleftrightarrow>
     p = tx_prog sv (TxReap now ids) \<and> mset ids = mset (map f_id (filter (due now) (facts_tbl d)))"
| "opens sv d x p \<longleftrightarrow> p = tx_prog sv x"

fun pool_op :: "op \<Rightarrow> bool" where
  "pool_op (OpEditStatement now i s) \<longleftrightarrow> True"
| "pool_op (OpEmbed i v) \<longleftrightarrow> True"
| "pool_op (OpCreateNamespace now new ns) \<longleftrightarrow> True"
| "pool_op (OpUpdatePolicy i p) \<longleftrightarrow> True"
| "pool_op (OpGrant who ns role) \<longleftrightarrow> True"
| "pool_op (OpRevokeGrant who ns role) \<longleftrightarrow> True"
| "pool_op _ \<longleftrightarrow> False"

definition pool_step :: "service \<Rightarrow> db \<Rightarrow> op \<Rightarrow> db \<Rightarrow> bool" where
  "pool_step sv d x d' \<longleftrightarrow> pool_op x \<and> sys_step sv d x d'"

type_synonym db_state = "(db, lock, row_write, tx, answer, op) database"

definition serving :: "service \<Rightarrow> db_state \<Rightarrow> db_state \<Rightarrow> bool" where
  "serving sv = db_step write_row (opens sv) agree (pool_step sv)"

definition concurrent :: "service \<Rightarrow> db \<Rightarrow> db_state \<Rightarrow> bool" where
  "concurrent sv d0 = db_reach write_row (opens sv) agree (pool_step sv) d0"

text \<open>What remains of that knowledge whatever commits meanwhile.\<close>

fun still :: "db \<Rightarrow> tx \<Rightarrow> bool" where
  "still d (TxPropose now nf np inp req apo c) \<longleftrightarrow> 1 \<le> req \<and> known_conflict inp c d"
| "still d (TxReap now ids) \<longleftrightarrow> (\<forall>i \<in> set ids. \<exists>f. fact_at d i = Some f \<and> was_active (f_status f))"
| "still d x \<longleftrightarrow> True"

text \<open>The operations one after the other, each by the program of its service.\<close>

inductive serial :: "service \<Rightarrow> db \<Rightarrow> (tx, answer, op) mark list \<Rightarrow> db \<Rightarrow> bool" for sv d0 where
  nothing: "serial sv d0 [] d0"
| transaction: "serial sv d0 h d \<Longrightarrow> still d x \<Longrightarrow> exec (tx_body sv x) d a d' \<Longrightarrow> serial sv d0 (h @ [Committed x a]) d'"
| statement: "serial sv d0 h d \<Longrightarrow> pool_step sv d x d' \<Longrightarrow> serial sv d0 (h @ [Direct x]) d'"

section \<open>What a committed operation keeps\<close>

definition lasting :: "db \<Rightarrow> db \<Rightarrow> bool" where
  "lasting d d' \<longleftrightarrow> evolves d d' \<and>
     (\<forall>i f. fact_at d i = Some f \<longrightarrow> was_active (f_status f) \<longrightarrow> (\<exists>g. fact_at d' i = Some g \<and> was_active (f_status g)))"

lemma lasting_trans: "lasting d d' \<Longrightarrow> lasting d' d'' \<Longrightarrow> lasting d d''"
  unfolding lasting_def by (meson evolves_trans)

lemma code_move_was_active: "code_move s s' \<Longrightarrow> was_active s \<Longrightarrow> was_active s'"
  using life_reach_was_active by (auto simp: code_move_def was_active_def)

lemma progress_lasting: "progress d d' \<Longrightarrow> lasting d d'"
  unfolding progress_def fact_moves_def lasting_def using code_move_was_active by meson

lemma still_lasting:
  assumes "lasting d d'" and "still d x"
  shows "still d' x"
proof (cases x)
  case (TxPropose now nf np inp req apo c)
  have "\<exists>g. fact_at d' i = Some g \<and> was_active (f_status g) \<and> f_namespace_id g = in_target inp \<and>
      f_canonical_key g = canonical_key (in_subject inp)"
    if i: "c = Some i" for i
  proof -
    obtain f where f: "fact_at d i = Some f" "was_active (f_status f)" "f_namespace_id f = in_target inp"
        "f_canonical_key f = canonical_key (in_subject inp)"
      using assms(2) i by (auto simp: TxPropose known_conflict_def)
    then obtain g where g: "fact_at d' i = Some g" "was_active (f_status g)"
      using assms(1) by (auto simp: lasting_def)
    moreover have "fact_fixed f g"
      using assms(1) f(1) g(1) by (fastforce simp: lasting_def evolves_def rows_kept_def)
    ultimately show ?thesis using f by (auto simp: fact_fixed_def)
  qed
  then show ?thesis using assms(2) by (simp add: TxPropose known_conflict_def)
next
  case (TxReap now ids)
  then show ?thesis using assms by (auto simp: lasting_def)
qed simp_all

lemma reap_loop_lasting:
  assumes "exec (reap_loop now ids) d a d'"
  shows "lasting d d'"
  using assms
proof (induction ids arbitrary: d)
  case Nil
  then show ?case by (auto simp: sql_exec lasting_def)
next
  case (Cons i "is")
  then have ok: "facts_ok d (tbl_upd f_id i (row_status now StatusExpired) (facts_tbl d))" and
    rest: "exec (reap_loop now is) (expire_one now i d) a d'"
    by (auto simp: sql_exec sql_safe update_facts_id_Inr expire_one_def)
  have "evolves d (expire_one now i d)"
    unfolding expire_one_def by (rule evolves_trans[OF evolves_upd_fact[OF ok] evolves_log]) simp
  moreover have "\<exists>g. fact_at (expire_one now i d) j = Some g \<and> was_active (f_status g)"
    if "fact_at d j = Some f" "was_active (f_status f)" for j f
    using that by (auto simp: expire_one_def tbl_get_upd was_active_def)
  ultimately have "lasting d (expire_one now i d)" by (auto simp: lasting_def)
  then show ?case using Cons.IH[OF rest] by (rule lasting_trans)
qed

lemma exec_answering [sql_exec]:
  "well_behaved m \<Longrightarrow> exec (answering g m) d x d' \<longleftrightarrow> (\<exists>a. exec m d a d' \<and> x = g a)"
  by (auto simp: answering_def sql_exec sql_safe)

lemma well_behaved_reap_rest [sql_safe]: "well_behaved (reap_rest now ids)"
  unfolding reap_rest_def by (intro sql_safe)

text \<open>One committed transaction keeps the invariant and what the others know.\<close>

lemma commit_keeps:
  assumes e: "exec (tx_body sv x) d a d'" and g: "governed d" and s: "still d x"
  shows "governed d' \<and> lasting d d' \<and> ((\<forall>now ids. x \<noteq> TxReap now ids) \<longrightarrow> progress d d')"
proof (cases x)
  case (TxPropose now nf np inp req apo c)
  then obtain r where r: "exec (propose_rest sv now nf np inp req apo c) d r d'" using e by (auto simp: sql_exec sql_safe)
  show ?thesis
    using governed_propose_rest[OF g r] progress_propose_rest[OF g r] progress_lasting s by (auto simp: TxPropose)
next
  case (TxApprove now wall i who c)
  then obtain r where r: "exec (approve_body sv now wall i who c) d r d'" using e by (auto simp: sql_exec sql_safe)
  show ?thesis using governed_approve_body[OF g r] progress_approve_body[OF g r] progress_lasting by simp
next
  case (TxReject now wall i who c)
  then obtain r where r: "exec (review_body now wall i who DecisionReject c StateRejected StatusRejected
      ''promotion.rejected'') d r d'" using e by (auto simp: sql_exec sql_safe)
  show ?thesis using governed_review_body[OF g r] progress_review_body[OF g r] progress_lasting
    by (simp add: bounce_pair_def)
next
  case (TxRequestChanges now wall i who c)
  then obtain r where r: "exec (review_body now wall i who DecisionRequestChanges c StateChangesRequested StatusProposed
      ''promotion.changes_requested'') d r d'" using e by (auto simp: sql_exec sql_safe)
  show ?thesis using governed_review_body[OF g r] progress_review_body[OF g r] progress_lasting
    by (simp add: bounce_pair_def)
next
  case (TxSubmit now i who)
  then obtain r where r: "exec (transition_body now i who (submit_mutate who) StatusInReview ''promotion.submitted'') d r d'"
    using e by (auto simp: sql_exec sql_safe)
  show ?thesis using governed_submit[OF g r] progress_submit[OF g r] progress_lasting by simp
next
  case (TxWithdraw now i who)
  then obtain r where r: "exec (transition_body now i who (withdraw_mutate who) StatusRejected ''promotion.withdrawn'') d r d'"
    using e by (auto simp: sql_exec sql_safe)
  show ?thesis using governed_withdraw[OF g r] progress_withdraw[OF g r] progress_lasting by simp
next
  case (TxRevoke now i v who)
  then obtain r where r: "exec (revoke_body now i v who) d r d'" using e by (auto simp: sql_exec sql_safe)
  show ?thesis using governed_revoke_body[OF g r] progress_revoke_body[OF r] progress_lasting by simp
next
  case (TxReap now ids)
  then have "exec (reap_loop now ids) d () d'" using e by (auto simp: reap_rest_def sql_exec sql_safe)
  then show ?thesis using governed_reap_loop[of now ids d "()" d'] g s reap_loop_lasting by (auto simp: TxReap)
qed

lemma pool_keeps: "pool_step sv d x d' \<Longrightarrow> governed d \<Longrightarrow> governed d' \<and> lasting d d' \<and> progress d d'"
  unfolding pool_step_def using governed_step progress_step progress_lasting by blast

section \<open>Every interleaving is a serial history\<close>

lemma opens_tx: "opens sv d x p \<Longrightarrow> schema_ok d \<Longrightarrow> p = tx_prog sv x \<and> still d x"
proof (cases x)
  case (TxReap now ids)
  assume o: "opens sv d x p" and ok: "schema_ok d"
  have "\<exists>f. fact_at d i = Some f \<and> was_active (f_status f)" if i: "i \<in> set ids" for i
  proof -
    have "set ids = f_id ` {f \<in> set (facts_tbl d). due now f}"
      using o mset_eq_setD[of ids "map f_id (filter (due now) (facts_tbl d))"] by (simp add: TxReap)
    then obtain f where "f \<in> set (facts_tbl d)" "due now f" "f_id f = i" using i by auto
    then show ?thesis
      using tbl_get_in[OF facts_ok_ids[OF schema_facts[OF ok]], of f] by (auto simp: due_def was_active_def)
  qed
  then show ?thesis using o by (simp add: TxReap)
qed (auto simp: known_conflicting)

lemma disc_tx: "disc True any {} (tx_prog sv x)"
  by (cases x) (auto simp: answering_t_def intro!: disc)

interpretation svc: locked_system write_row agree own schema_ok "tx_prog sv" "opens sv" "pool_step sv" still governed for sv
proof (unfold_locales, goal_cases)
  case (1 d y p)
  then show ?case using opens_tx governed_schema by blast
next
  case (2 y)
  then show ?case by (rule disc_tx)
next
  case (3 d)
  then show ?case by (rule governed_schema)
next
  case (4 y d a d')
  then show ?case using commit_keeps[of sv y d a d'] still_lasting by (auto simp: as_sql_tx)
next
  case (5 d x d')
  then show ?case using pool_keeps still_lasting by blast
qed

lemma one_by_one_serial:
  "one_by_one write_row (tx_prog sv) still (pool_step sv) d0 h d \<Longrightarrow> serial sv d0 h d"
  by (induction rule: one_by_one.induct) (auto simp: as_sql_tx intro: serial.intros)

lemma concurrent_serial: "concurrent sv d0 s \<Longrightarrow> governed d0 \<Longrightarrow> governed (shared s) \<and> serial sv d0 (past s) (shared s)"
  unfolding concurrent_def by (drule (1) svc.serialised) (simp add: one_by_one_serial)

lemma serial_governed: "serial sv d0 h d \<Longrightarrow> governed d0 \<Longrightarrow> governed d \<and> lasting d0 d"
proof (induction rule: serial.induct)
  case nothing
  then show ?case by (auto simp: lasting_def)
next
  case (transaction h d x a d')
  then show ?case using commit_keeps lasting_trans by meson
next
  case (statement h d x d')
  then show ?case using pool_keeps lasting_trans by meson
qed

section \<open>Quorums\<close>

text \<open>A promotion that has the approvals it needs is approved: no operation leaves a quorum undecided.\<close>

definition quorate :: "db \<Rightarrow> bool" where
  "quorate d \<longleftrightarrow> (\<forall>i p. promotion_at d i = Some p \<longrightarrow> p_state p \<noteq> StateApproved \<longrightarrow> \<not> has_enough_approvals p)"

lemma quorate_empty: "quorate empty_db"
  by (simp add: quorate_def empty_db_def tbl_get_def)

lemma quorate_same: "promotions_tbl d' = promotions_tbl d \<Longrightarrow> quorate d \<Longrightarrow> quorate d'"
  by (simp add: quorate_def)

lemma quorate_upd:
  assumes "quorate d" and "promotions_tbl d' = tbl_upd p_id i u (promotions_tbl d)" and "\<And>p. p_id (u p) = p_id p"
    and "\<And>p. promotion_at d i = Some p \<Longrightarrow> p_state (u p) \<noteq> StateApproved \<Longrightarrow> \<not> has_enough_approvals (u p)"
  shows "quorate d'"
  unfolding quorate_def
proof (intro allI impI)
  fix j p assume p: "promotion_at d' j = Some p" "p_state p \<noteq> StateApproved"
  then show "\<not> has_enough_approvals p"
    using assms(1,4) unfolding assms(2) quorate_def by (auto simp: tbl_get_upd assms(3) split: if_splits)
qed

lemma enough_same:
  "distinct_approvers q = distinct_approvers p \<Longrightarrow> p_required_approvals q = p_required_approvals p \<Longrightarrow>
   has_enough_approvals q = has_enough_approvals p"
  by (simp add: has_enough_approvals_def approval_count_def)

lemma row_reviewed_approvers:
  "p_reviews q = rs \<Longrightarrow> p_proposer q = p_proposer p \<Longrightarrow> distinct_approvers (row_reviewed now st rs p) = distinct_approvers q"
  by (simp add: distinct_approvers_def)

lemma quorate_approve:
  assumes "quorate d" and "exec (approve_body sv now wall i who c) d r d'"
  shows "quorate d'"
proof -
  obtain p where p: "promotion_at d i = Some p" "r = decided wall who c p" and
    eff: "d' = reviewed_effect now r (approved_event who r) (activate_effect sv now r who d) \<or>
      d' = reviewed_effect now r (approved_event who r) d"
    using assms(2) unfolding exec_approve_body by (metis (no_types))
  have i: "p_id r = i" using tbl_get_Some[OF p(1)] p(2) by simp
  let ?u = "row_reviewed now (p_state r) (p_reviews r)"
  show ?thesis
  proof (rule quorate_upd[OF assms(1), of _ i ?u])
    show "promotions_tbl d' = tbl_upd p_id i ?u (promotions_tbl d)" using eff i by (auto simp: reviewed_effect_def)
    fix q assume "promotion_at d i = Some q" "p_state (?u q) \<noteq> StateApproved"
    then have q: "q = p" "p_state r \<noteq> StateApproved" using p(1) by simp_all
    then have "\<not> has_enough_approvals r" using decided_state[of wall who c p] p(2) by (auto split: if_splits)
    moreover have "has_enough_approvals (?u p) = has_enough_approvals r"
      by (rule enough_same) (simp_all add: row_reviewed_approvers[of r] p(2))
    ultimately show "\<not> has_enough_approvals (?u q)" using q by simp
  qed simp
qed

lemma quorate_bounced:
  assumes "quorate d" and "promotion_at d i = Some p" and "p_id q = i" and "p_state p \<noteq> StateApproved"
    and "distinct_approvers q = distinct_approvers p" and "p_proposer q = p_proposer p"
  shows "quorate (bounced_effect now q fact_to e d)"
proof (rule quorate_upd[OF assms(1), of _ i "row_reviewed now (p_state q) (p_reviews q)"])
  fix p' assume "promotion_at d i = Some p'"
  then have p': "p' = p" using assms(2) by simp
  have "has_enough_approvals (row_reviewed now (p_state q) (p_reviews q) p) = has_enough_approvals p"
    by (rule enough_same) (simp_all add: row_reviewed_approvers[of q] assms(5,6))
  then show "\<not> has_enough_approvals (row_reviewed now (p_state q) (p_reviews q) p')"
    using assms(1,2,4) p' by (simp add: quorate_def)
qed (simp_all add: bounced_effect_def assms(3))


lemma quorate_review:
  assumes "quorate d" and "exec (review_body now wall i who dec c to fact_to act) d r d'" and "dec \<noteq> DecisionApprove"
  shows "quorate d'"
proof -
  obtain p where p: "promotion_at d i = Some p" "reviewable p" "r = with_review wall who dec c to p"
      "d' = bounced_effect now r fact_to (promotion_event who act i to []) d"
    using assms(2) unfolding exec_review_body by blast
  show ?thesis
    unfolding p(4) by (rule quorate_bounced[OF assms(1) p(1)])
      (use p(2) tbl_get_Some[OF p(1)] assms(3) in \<open>auto simp: p(3) reviewable_def distinct_approvers_def\<close>)
qed

lemma quorate_transition:
  assumes "quorate d" and "exec (transition_body now i who mutate fact_to act) d r d'"
    and mut: "\<And>p q. mutate p = Inr q \<Longrightarrow> (p_state p = StatePending \<or> p_state p = StateChangesRequested) \<and> q = p\<lparr>p_state := to\<rparr>"
  shows "quorate d'"
proof -
  have m: "\<And>p q. mutate p = Inr q \<Longrightarrow> p_id q = p_id p" using mut by force
  obtain p where p: "promotion_at d i = Some p" "mutate p = Inr r"
      "d' = bounced_effect now r fact_to (promotion_event who act i (p_state r) []) d"
    using assms(2) exec_transition_body[OF m] by blast
  show ?thesis
    unfolding p(3) by (rule quorate_bounced[OF assms(1) p(1)])
      (use mut[OF p(2)] tbl_get_Some[OF p(1)] in \<open>auto simp: approver_congs\<close>)
qed

lemma quorate_propose:
  assumes "quorate d" and e: "exec (propose_rest sv now nf np inp req apo c) d r d'" and "1 \<le> req"
  shows "quorate d'"
proof -
  let ?q = "pending_with now nf np inp req c" and ?d = "propose_effect_with now nf np inp req c d"
  have f: "propose_fits_with now nf np inp req c d" using e by (simp add: exec_propose_rest)
  note ids = propose_fresh_ids[OF f]
  have "\<not> has_enough_approvals ?q"
    using assms(3) by (simp add: has_enough_approvals_def approval_count_def distinct_approvers_def)
  then have one: "quorate ?d"
    using assms(1) ids(2) by (auto simp: quorate_def tbl_get_ins split: option.splits if_splits)
  show ?thesis
  proof (cases "auto_decision sv apo inp")
    case None
    then show ?thesis using e one by (simp add: exec_propose_rest Let_def)
  next
    case (Some av)
    obtain ap v where "av = (ap, v)" by fastforce
    then have d': "d' = auto_effect sv now ?q ap v ?d" using e Some by (simp add: exec_propose_rest Let_def)
    show ?thesis
      by (rule quorate_upd[OF one, of _ np "row_reviewed now StateApproved []"]) (simp_all add: d' auto_effect_def)
  qed
qed

lemma reap_loop_promotions: "exec (reap_loop now ids) d a d' \<Longrightarrow> promotions_tbl d' = promotions_tbl d"
proof (induction ids arbitrary: d)
  case (Cons i "is")
  then have "exec (reap_loop now is) (expire_one now i d) a d'"
    by (auto simp: sql_exec sql_safe update_facts_id_Inr expire_one_def)
  then show ?case using Cons.IH by (fastforce simp: expire_one_def)
qed (simp add: sql_exec)

lemma quorate_tx:
  assumes q: "quorate d" and e: "exec (tx_body sv x) d a d'" and s: "still d x"
  shows "quorate d'"
proof (cases x)
  case (TxPropose now nf np inp req apo c)
  then obtain r where "exec (propose_rest sv now nf np inp req apo c) d r d'" using e by (auto simp: sql_exec sql_safe)
  then show ?thesis using quorate_propose[OF q] s by (simp add: TxPropose)
next
  case (TxApprove now wall i who c)
  then obtain r where "exec (approve_body sv now wall i who c) d r d'" using e by (auto simp: sql_exec sql_safe)
  then show ?thesis by (rule quorate_approve[OF q])
next
  case (TxReject now wall i who c)
  then obtain r where "exec (review_body now wall i who DecisionReject c StateRejected StatusRejected
      ''promotion.rejected'') d r d'" using e by (auto simp: sql_exec sql_safe)
  then show ?thesis by (rule quorate_review[OF q]) simp
next
  case (TxRequestChanges now wall i who c)
  then obtain r where "exec (review_body now wall i who DecisionRequestChanges c StateChangesRequested StatusProposed
      ''promotion.changes_requested'') d r d'" using e by (auto simp: sql_exec sql_safe)
  then show ?thesis by (rule quorate_review[OF q]) simp
next
  case (TxSubmit now i who)
  then obtain r where "exec (transition_body now i who (submit_mutate who) StatusInReview ''promotion.submitted'') d r d'"
    using e by (auto simp: sql_exec sql_safe)
  then show ?thesis by (rule quorate_transition[OF q, where to = StateInReview]) (auto simp: mutate_Inr)
next
  case (TxWithdraw now i who)
  then obtain r where "exec (transition_body now i who (withdraw_mutate who) StatusRejected ''promotion.withdrawn'') d r d'"
    using e by (auto simp: sql_exec sql_safe)
  then show ?thesis by (rule quorate_transition[OF q, where to = StateRejected]) (auto simp: mutate_Inr)
next
  case (TxRevoke now i v who)
  then obtain r where "exec (revoke_body now i v who) d r d'" using e by (auto simp: sql_exec sql_safe)
  then show ?thesis by (intro quorate_same[OF _ q]) (auto simp: exec_revoke_body)
next
  case (TxReap now ids)
  then have "exec (reap_loop now ids) d () d'" using e by (auto simp: reap_rest_def sql_exec sql_safe)
  then show ?thesis by (intro quorate_same[OF _ q]) (rule reap_loop_promotions)
qed

lemma quorate_pool:
  assumes q: "quorate d" and st: "pool_step sv d x d'"
  shows "quorate d'"
proof -
  obtain fs where d': "d' = op_run sv x fs d" and x: "pool_op x"
    using st by (auto simp: pool_step_def elim: sys_stepE)
  show ?thesis
  proof (cases x)
    case (OpEditStatement now i s)
    have "promotions_tbl d' = promotions_tbl d \<or> promotions_tbl d' = tbl_upd p_id i (row_statement now s) (promotions_tbl d)"
      using on_pool_stmt_snd[of "update_promotions i (row_statement now s)" fs d]
      by (auto simp: d' OpEditStatement update_statement_def update_promotions_Inr)
    then show ?thesis
    proof
      assume t: "promotions_tbl d' = tbl_upd p_id i (row_statement now s) (promotions_tbl d)"
      have "has_enough_approvals (row_statement now s p) = has_enough_approvals p" for p
        by (rule enough_same) (simp_all add: distinct_approvers_def)
      then show ?thesis by (intro quorate_upd[OF q t]) (use q in \<open>auto simp: quorate_def\<close>)
    qed (rule quorate_same[OF _ q])
  next
    case (OpEmbed i v)
    have "promotions_tbl d' = promotions_tbl d"
      using on_pool_stmt_snd[of "update_facts (\<lambda>f. f_id f = i) (row_embed v)" fs d]
      by (auto simp: d' OpEmbed set_embedding_def update_facts_id_Inr)
    then show ?thesis by (rule quorate_same[OF _ q])
  next
    case (OpCreateNamespace now new ns)
    then show ?thesis using quorate_same[OF _ q] namespace_step d' by blast
  next
    case (OpUpdatePolicy i p)
    then show ?thesis using quorate_same[OF _ q] namespace_step d' by blast
  next
    case (OpGrant who ns role)
    then show ?thesis using quorate_same[OF _ q] membership_step d' by blast
  next
    case (OpRevokeGrant who ns role)
    then show ?thesis using quorate_same[OF _ q] membership_step d' by blast
  qed (use x in simp_all)
qed

lemma serial_quorate: "serial sv d0 h d \<Longrightarrow> quorate d0 \<Longrightarrow> quorate d"
  by (induction rule: serial.induct) (auto intro: quorate_tx quorate_pool)

section \<open>Committed approvals\<close>

text \<open>The reviewers whose approval of the promotion has committed.\<close>

definition committed_approvers :: "(tx, answer, op) mark list \<Rightarrow> uuid \<Rightarrow> principal_id set" where
  "committed_approvers h i = {who. \<exists>now wall c a. Committed (TxApprove now wall i who c) a \<in> set h}"

lemma approvers_kept:
  assumes "evolves d d'" and "promotion_at d i = Some p" and "promotion_at d' i = Some q"
  shows "distinct_approvers p \<subseteq> distinct_approvers q \<and> p_required_approvals q = p_required_approvals p"
proof -
  have "promotion_fixed p q" using assms by (fastforce simp: evolves_def rows_kept_def)
  then show ?thesis
    using set_mono_prefix by (fastforce simp: promotion_fixed_def distinct_approvers_def)
qed

lemma promotion_stays: "evolves d d' \<Longrightarrow> promotion_at d i = Some p \<Longrightarrow> \<exists>q. promotion_at d' i = Some q"
  by (fastforce simp: evolves_def rows_kept_def)

lemma approve_recorded:
  assumes "exec (approve_body sv now wall i who c) d r d'"
  shows "\<exists>q. promotion_at d' i = Some q \<and> who \<in> distinct_approvers q"
proof -
  obtain p where p: "promotion_at d i = Some p" "who \<noteq> p_proposer p" "r = decided wall who c p" and
    eff: "d' = reviewed_effect now r (approved_event who r) (activate_effect sv now r who d) \<or>
      d' = reviewed_effect now r (approved_event who r) d"
    using assms unfolding exec_approve_body by (metis (no_types))
  have i: "p_id r = i" using tbl_get_Some[OF p(1)] p(3) by simp
  let ?u = "row_reviewed now (p_state r) (p_reviews r)"
  have "promotions_tbl d' = tbl_upd p_id i ?u (promotions_tbl d)" using eff i by (auto simp: reviewed_effect_def)
  then have "promotion_at d' i = Some (?u p)" using p(1) by (simp add: tbl_get_upd)
  moreover have "distinct_approvers (?u p) = distinct_approvers r"
    by (rule row_reviewed_approvers) (simp_all add: p(3))
  ultimately show ?thesis using decided_approvers[OF p(2), of wall c] p(3) by simp
qed

lemma serial_approvers:
  assumes "serial sv d0 h d" and "governed d0" and "who \<in> committed_approvers h i"
  shows "\<exists>p. promotion_at d i = Some p \<and> who \<in> distinct_approvers p"
  using assms
proof (induction rule: serial.induct)
  case nothing
  then show ?case by (simp add: committed_approvers_def)
next
  case (transaction h d x a d')
  have ev: "evolves d d'"
    using commit_keeps[OF transaction(3) _ transaction(2)] serial_governed[OF transaction(1,5)] by (simp add: lasting_def)
  show ?case
  proof (cases "who \<in> committed_approvers h i")
    case True
    then obtain p where "promotion_at d i = Some p" "who \<in> distinct_approvers p" using transaction by blast
    then show ?thesis using promotion_stays[OF ev] approvers_kept[OF ev] by blast
  next
    case False
    then obtain now wall c where x: "x = TxApprove now wall i who c"
      using transaction(6) by (auto simp: committed_approvers_def)
    then obtain r where "exec (approve_body sv now wall i who c) d r d'"
      using transaction(3) by (auto simp: sql_exec sql_safe)
    then show ?thesis by (rule approve_recorded)
  qed
next
  case (statement h d x d')
  have ev: "evolves d d'"
    using pool_keeps[OF statement(2)] serial_governed[OF statement(1,4)] by (simp add: lasting_def)
  have "who \<in> committed_approvers h i" using statement(5) by (auto simp: committed_approvers_def)
  then obtain p where "promotion_at d i = Some p" "who \<in> distinct_approvers p" using statement by blast
  then show ?case using promotion_stays[OF ev] approvers_kept[OF ev] by blast
qed

end
