(* ===== verification/Concurrent_Runs.thy ===== *)
theory Concurrent_Runs
  imports Concurrency
begin

text \<open>
  The properties of the service under concurrency, with the runs they are applied to: two reviewers who
  approve one promotion at the same time, and a reap pass that races with a revocation.
\<close>

section \<open>Two reviewers at once\<close>

text \<open>A proposal that needs two approvals, and the reviewers' transactions, both open before either commits.\<close>

definition db_two :: db where
  "db_two = propose_effect 2 10 20 (proposal ''use go'') 2 db_ns"

definition approving :: "timestamp \<Rightarrow> principal_id \<Rightarrow> tx" where
  "approving t who = TxApprove t t 20 who []"

definition review_by :: "principal_id \<Rightarrow> timestamp \<Rightarrow> review" where
  "review_by who t = \<lparr>r_reviewer = who, r_decision = DecisionApprove, r_comment = [], r_at = t\<rparr>"

lemma propose_two: "propose_fits 2 10 20 (proposal ''use go'') 2 db_ns"
  by (simp add: fits_eval db_ns_ids)

lemma governed_two: "governed db_two"
  unfolding db_two_def
  by (rule governed_propose_effect[OF reachable_governed[OF db_ns_reachable] propose_two
        known_conflicting[OF governed_schema[OF reachable_governed[OF db_ns_reachable]]]]) simp

definition promo_two :: promotion where
  "promo_two = pending_row 2 10 20 (proposal ''use go'') 2 db_ns"

lemma promo_two_sel [simp]:
  "p_id promo_two = 20" "p_fact_id promo_two = 10" "p_state promo_two = StatePending" "p_reviews promo_two = []"
  "p_proposer promo_two = ''ann''" "p_required_approvals promo_two = 2" "p_conflict_with promo_two = None"
  "p_target_namespace_id promo_two = 1" "p_idempotency_key promo_two = None"
  by (simp_all add: promo_two_def conflicting_def active_by_key_def)

lemma db_two_sel [simp]:
  "facts_tbl db_two = [row_a]" "promotions_tbl db_two = [promo_two]" "namespaces_tbl db_two = namespaces_tbl db_ns"
  by (simp_all add: db_two_def tbl_ins_def row_a_def promo_two_def)

lemma quorate_two: "quorate db_two"
  by (simp add: quorate_def tbl_get_def has_enough_approvals_def approval_count_def distinct_approvers_def)

definition half_two :: promotion where
  "half_two = row_reviewed 3 StateInReview [review_by ''bob'' 3] promo_two"

lemma first_approval:
  "\<exists>r d. exec (approve_body plain_service 3 3 20 ''bob'' []) db_two r d \<and> facts_tbl d = [row_a] \<and>
     promotions_tbl d = [half_two] \<and> namespaces_tbl d = namespaces_tbl db_ns"
proof -
  let ?r = "promo_two\<lparr>p_reviews := [review_by ''bob'' 3], p_state := StateInReview\<rparr>"
  have a: "add_approval 3 ''bob'' [] promo_two = promo_two\<lparr>p_reviews := [review_by ''bob'' 3]\<rparr>"
    by (simp add: add_approval_def already_approved_by_def review_by_def)
  have n: "\<not> has_enough_approvals (promo_two\<lparr>p_reviews := [review_by ''bob'' 3]\<rparr>)"
    by (simp add: has_enough_approvals_def approval_count_def distinct_approvers_def review_by_def)
  then have r: "decided 3 ''bob'' [] promo_two = ?r" "\<not> has_enough_approvals ?r"
    by (simp_all add: decided_def Let_def a approver_congs)
  have "promotions_ok db_two (promotions_tbl db_two)" by (simp add: fits_eval db_ns_ids)
  then have "exec (approve_body plain_service 3 3 20 ''bob'' []) db_two ?r
      (reviewed_effect 3 ?r (approved_event ''bob'' ?r) db_two)"
    unfolding exec_approve_body using r by (auto simp: tbl_get_def reviewable_def)
  then show ?thesis
    by (rule_tac exI, rule_tac exI, rule_tac conjI, assumption) (simp add: reviewed_effect_def tbl_upd_def half_two_def)
qed

lemma second_approval:
  assumes "facts_tbl d = [row_a]" and "promotions_tbl d = [half_two]" and "namespaces_tbl d = namespaces_tbl db_ns"
  shows "\<exists>r d'. exec (approve_body plain_service 4 4 20 ''carl'' []) d r d' \<and>
     promotion_at d' 20 = Some (row_reviewed 4 StateApproved [review_by ''bob'' 3, review_by ''carl'' 4] half_two)"
proof -
  let ?rs = "[review_by ''bob'' 3, review_by ''carl'' 4]"
  let ?r = "half_two\<lparr>p_reviews := ?rs, p_state := StateApproved\<rparr>"
  have a: "add_approval 4 ''carl'' [] half_two = half_two\<lparr>p_reviews := ?rs\<rparr>"
    by (simp add: add_approval_def already_approved_by_def review_by_def half_two_def)
  have n: "has_enough_approvals (half_two\<lparr>p_reviews := ?rs\<rparr>)"
    by (simp add: has_enough_approvals_def approval_count_def distinct_approvers_def review_by_def half_two_def)
  then have r: "decided 4 ''carl'' [] half_two = ?r" "has_enough_approvals ?r"
    by (simp_all add: decided_def Let_def a approver_congs)
  have sel: "p_id half_two = 20" "p_fact_id half_two = 10" "p_proposer half_two = ''ann''" "p_conflict_with half_two = None"
    "p_state half_two = StateInReview" "p_target_namespace_id half_two = 1" "p_required_approvals half_two = 2"
    "p_idempotency_key half_two = None"
    by (simp_all add: half_two_def)
  have at: "promotion_at d 20 = Some half_two" "reviewable half_two"
    by (simp_all add: tbl_get_def reviewable_def assms sel)
  have ns: "nr_id ` set (namespaces_tbl d) = {1}" using assms(3) db_ns_ids by simp
  have "activate_fits plain_service 4 ?r ''carl'' d"
    by (simp add: activation_eval fits_eval assms(1,2) ns db_ns_ids assms(3) sel)
  moreover have "promotions_ok (activate_effect plain_service 4 ?r ''carl'' d) (promotions_tbl d)"
    by (simp add: activation_eval fits_eval assms ns db_ns_ids sel)
  ultimately have "exec (approve_body plain_service 4 4 20 ''carl'' []) d ?r
      (reviewed_effect 4 ?r (approved_event ''carl'' ?r) (activate_effect plain_service 4 ?r ''carl'' d))"
    unfolding exec_approve_body using r at sel(3) by auto
  moreover have "promotion_at (reviewed_effect 4 ?r (approved_event ''carl'' ?r) (activate_effect plain_service 4 ?r ''carl'' d)) 20 =
      Some (row_reviewed 4 StateApproved ?rs half_two)"
    using at by (simp add: reviewed_effect_def tbl_get_upd sel)
  ultimately show ?thesis by blast
qed

lemma concurrent_begins:
  "concurrent sv d0 s \<Longrightarrow> conns s k = None \<Longrightarrow> opens sv (shared s) x p \<Longrightarrow>
   concurrent sv d0 (s\<lparr>conns := (conns s)(k \<mapsto> opened x p)\<rparr>)"
  unfolding concurrent_def by (erule db_reach.later) (rule db_step.begins)

lemma serving_commits:
  assumes "conns s k = Some (opened x (tx_prog sv x))" and "others_locks (conns s) k = {}"
    and "exec (tx_body sv x) (shared s) a d'"
  shows "(serving sv)\<^sup>*\<^sup>* s (s\<lparr>shared := d', conns := (conns s)(k := None), past := past s @ [Committed x a]\<rparr>)"
  using alone_commits[OF assms(1) _ assms(2), of write_row a d'] assms(3)
  by (simp add: opened_def as_sql_tx exec_def serving_def)

lemma concurrent_steps: "(serving sv)\<^sup>*\<^sup>* s s' \<Longrightarrow> concurrent sv d0 s \<Longrightarrow> concurrent sv d0 s'"
  unfolding concurrent_def serving_def by (rule reach_steps)

lemma idle_locks: "(\<And>j c. cs j = Some c \<Longrightarrow> c_locks c = {}) \<Longrightarrow> others_locks cs k = {}"
  by (auto simp: others_locks_def)

lemma opened_sel [simp]: "c_locks (opened x p) = {}"
  by (simp add: opened_def)

lemma two_approve:
  "\<exists>s p a b. concurrent plain_service db_two s \<and> past s = [Committed (approving 3 ''bob'') a, Committed (approving 4 ''carl'') b] \<and>
     promotion_at (shared s) 20 = Some p \<and> p_required_approvals p = 2"
proof -
  let ?b = "approving 3 ''bob''" and ?c = "approving 4 ''carl''"
  let ?p = "tx_prog plain_service"
  let ?s0 = "\<lparr>shared = db_two, conns = Map.empty, past = []\<rparr> :: db_state"
  let ?s1 = "?s0\<lparr>conns := (conns ?s0)(0 \<mapsto> opened ?b (?p ?b))\<rparr>"
  let ?s2 = "?s1\<lparr>conns := (conns ?s1)(1 \<mapsto> opened ?c (?p ?c))\<rparr>"
  obtain r d where d: "exec (approve_body plain_service 3 3 20 ''bob'' []) db_two r d" "facts_tbl d = [row_a]"
      "promotions_tbl d = [half_two]" "namespaces_tbl d = namespaces_tbl db_ns"
    using first_approval by blast
  obtain r' d' where d': "exec (approve_body plain_service 4 4 20 ''carl'' []) d r' d'"
      "promotion_at d' 20 = Some (row_reviewed 4 StateApproved [review_by ''bob'' 3, review_by ''carl'' 4] half_two)"
    using second_approval[OF d(2-4)] by blast
  have "concurrent plain_service db_two ?s0" unfolding concurrent_def by (rule db_reach.fresh)
  then have "concurrent plain_service db_two ?s1" by (rule concurrent_begins) (simp_all add: approving_def)
  then have s2: "concurrent plain_service db_two ?s2" by (rule concurrent_begins) (simp_all add: approving_def)
  let ?s3 = "?s2\<lparr>shared := d, conns := (conns ?s2)(0 := None), past := past ?s2 @ [Committed ?b (Answered r)]\<rparr>"
  have s3: "concurrent plain_service db_two ?s3"
    by (rule concurrent_steps[OF serving_commits s2]) (use d(1) in \<open>auto simp: approving_def sql_exec sql_safe split: if_splits intro!: idle_locks\<close>)
  let ?s4 = "?s3\<lparr>shared := d', conns := (conns ?s3)(1 := None), past := past ?s3 @ [Committed ?c (Answered r')]\<rparr>"
  have "concurrent plain_service db_two ?s4"
    by (rule concurrent_steps[OF serving_commits s3]) (use d'(1) in \<open>auto simp: approving_def sql_exec sql_safe split: if_splits intro!: idle_locks\<close>)
  moreover have "past ?s4 = [Committed ?b (Answered r), Committed ?c (Answered r')]" by simp
  moreover have "promotion_at (shared ?s4) 20 = Some (row_reviewed 4 StateApproved [review_by ''bob'' 3, review_by ''carl'' 4] half_two)"
    using d'(2) by simp
  ultimately show ?thesis by (intro exI conjI) (assumption+, simp add: half_two_def)
qed


text \<open>
  A proposal looks its idempotency key up before its transaction. If a request with the same key commits
  in between, the unique index refuses the insert: the caller gets an error, not the replay.
\<close>

lemma idempotency_race:
  assumes "in_idempotency_key inp \<noteq> []" and "idem_match (in_proposer inp) (in_idempotency_key inp) d = Some q"
  shows "\<exists>e. run (in_tx (propose_rest sv now nf np inp req apo c)) fs d = (Inl e, d)"
proof -
  have "q \<in> set (promotions_tbl d)" "p_proposer q = in_proposer inp" "p_idempotency_key q = Some (in_idempotency_key inp)"
    using assms(2) by (auto simp: idem_match_def dest: find_SomeD)
  then have "(in_proposer inp, in_idempotency_key inp) \<in> set (idem_keys (promotions_tbl d))"
    by (auto simp: idem_keys_def intro!: image_eqI[of _ _ q])
  then have no: "\<not> propose_fits_with now nf np inp req c d"
    using assms(1) by (auto simp: propose_fits_with_def promotions_ok_def tbl_ins_def idem_keys_def)
  obtain r d' where run: "run (in_tx (propose_rest sv now nf np inp req apo c)) fs d = (r, d')" by fastforce
  then show ?thesis
    by (rule run_in_tx_cases[OF well_behaved_propose_rest]) (use no run in \<open>auto simp: exec_propose_rest\<close>)
qed

section \<open>The properties\<close>

text \<open>
  C7. However the transactions of the workflow interleave, statement by statement under their row locks,
  and whichever of them fail or are rolled back, what the database has committed is what the committed
  operations do one after the other, each alone and in the order of the commits, with the same answers.
\<close>

theorem interleaving_serial:
  assumes "governed d0" and "concurrent sv d0 s"
  shows "serial sv d0 (past s) (shared s)"
  using concurrent_serial[OF assms(2,1)] by simp

theorem interleaving_serial_witness:
  "\<exists>a b d. serial plain_service db_two [Committed (approving 3 ''bob'') a, Committed (approving 4 ''carl'') b] d"
proof -
  obtain s a b where "concurrent plain_service db_two s"
      "past s = [Committed (approving 3 ''bob'') a, Committed (approving 4 ''carl'') b]"
    using two_approve by blast
  then show ?thesis using interleaving_serial[OF governed_two, of plain_service s] by auto
qed

text \<open>
  C9. The store stays well formed under concurrency. Every step of the database, from any state an
  interleaving can reach, leaves a committed store that satisfies the schema and the pairing of promotions
  and facts, with the audit trail and the reviews only extended and every row's identity kept, and a fact that
  has been active is not a candidate again. Unless the step is the commit of a reap pass, decided promotions
  stay as they are, and the status of a fact moves along the lifecycle, with the one exception that a revoked
  or expired fact can become superseded (by the approval of a promotion that had recorded it as its conflict).
\<close>

theorem concurrent_step_governed:
  assumes "governed d0" and "concurrent sv d0 s" and "serving sv s s'"
  shows "schema_ok (shared s') \<and> governed (shared s') \<and> evolves (shared s) (shared s') \<and>
    (\<forall>i f. fact_at (shared s) i = Some f \<longrightarrow> was_active (f_status f) \<longrightarrow>
       (\<exists>g. fact_at (shared s') i = Some g \<and> was_active (f_status g))) \<and>
    ((\<forall>now ids a. past s' \<noteq> past s @ [Committed (TxReap now ids) a]) \<longrightarrow>
       rows_kept final p_id (promotions_tbl (shared s)) (promotions_tbl (shared s')) \<and>
       (\<forall>i f. fact_at (shared s) i = Some f \<longrightarrow> (\<exists>g. fact_at (shared s') i = Some g \<and>
          (life_reach (f_status f) (f_status g) \<or>
           f_status f \<in> {StatusRevoked, StatusExpired} \<and> f_status g = StatusSuperseded))))"
proof -
  have g: "governed (shared s)" using concurrent_serial[OF assms(2,1)] by simp
  have "governed (shared s') \<and> lasting (shared s) (shared s') \<and>
    ((\<forall>now ids a. past s' \<noteq> past s @ [Committed (TxReap now ids) a]) \<longrightarrow> progress (shared s) (shared s'))"
    using assms(3)[unfolded serving_def] assms(2)[unfolded concurrent_def] assms(1)
  proof (cases rule: svc.step_shared)
    case same
    then show ?thesis using g by (simp add: progress_lasting)
  next
    case (commit x a)
    then show ?thesis using commit_keeps[of sv x "shared s" a "shared s'"] g by (auto simp: as_sql_tx)
  next
    case (direct x)
    then show ?thesis using pool_keeps[of sv "shared s" x "shared s'"] g by auto
  qed
  then show ?thesis
    using governed_schema unfolding lasting_def progress_def fact_moves_def code_move_def by blast
qed

lemma last_step: "r\<^sup>*\<^sup>* x y \<Longrightarrow> past x \<noteq> past y \<Longrightarrow> \<exists>z. r\<^sup>*\<^sup>* x z \<and> r z y"
  by (erule rtranclp.cases) auto

text \<open>One of two approvals has committed while the other's transaction is open.\<close>

lemma commit_beside_open:
  "\<exists>s s' a. concurrent plain_service db_two s \<and> serving plain_service s s' \<and> conns s' 1 \<noteq> None \<and>
     past s' = [Committed (approving 3 ''bob'') a] \<and> promotions_tbl (shared s') = [half_two]"
proof -
  let ?b = "approving 3 ''bob''" and ?c = "approving 4 ''carl''"
  let ?p = "tx_prog plain_service"
  let ?s0 = "\<lparr>shared = db_two, conns = Map.empty, past = []\<rparr> :: db_state"
  let ?s1 = "?s0\<lparr>conns := (conns ?s0)(0 \<mapsto> opened ?b (?p ?b))\<rparr>"
  let ?s2 = "?s1\<lparr>conns := (conns ?s1)(1 \<mapsto> opened ?c (?p ?c))\<rparr>"
  obtain r d where d: "exec (approve_body plain_service 3 3 20 ''bob'' []) db_two r d" "promotions_tbl d = [half_two]"
    using first_approval by blast
  let ?s3 = "?s2\<lparr>shared := d, conns := (conns ?s2)(0 := None), past := past ?s2 @ [Committed ?b (Answered r)]\<rparr>"
  have "concurrent plain_service db_two ?s0" unfolding concurrent_def by (rule db_reach.fresh)
  then have "concurrent plain_service db_two ?s1" by (rule concurrent_begins) (simp_all add: approving_def)
  then have s2: "concurrent plain_service db_two ?s2" by (rule concurrent_begins) (simp_all add: approving_def)
  have "(serving plain_service)\<^sup>*\<^sup>* ?s2 ?s3"
    by (rule serving_commits) (use d(1) in \<open>auto simp: approving_def sql_exec sql_safe split: if_splits intro!: idle_locks\<close>)
  from last_step[OF this] obtain s where s: "(serving plain_service)\<^sup>*\<^sup>* ?s2 s" "serving plain_service s ?s3"
    by auto
  show ?thesis
    by (intro exI[of _ s] exI[of _ ?s3] exI[of _ "Answered r"] conjI concurrent_steps[OF s(1) s2] s(2)) (simp_all add: d(2))
qed

theorem concurrent_step_governed_witness:
  "\<exists>s s' a. conns s' 1 \<noteq> None \<and> past s' = [Committed (approving 3 ''bob'') a] \<and> promotions_tbl (shared s') = [half_two] \<and>
     serving plain_service s s' \<and> schema_ok (shared s') \<and> governed (shared s') \<and> evolves (shared s) (shared s') \<and>
     rows_kept final p_id (promotions_tbl (shared s)) (promotions_tbl (shared s'))"
proof -
  obtain s s' a where s: "concurrent plain_service db_two s" "serving plain_service s s'" "conns s' 1 \<noteq> None"
      "past s' = [Committed (approving 3 ''bob'') a]" "promotions_tbl (shared s') = [half_two]"
    using commit_beside_open by blast
  then have "\<forall>now ids b. past s' \<noteq> past s @ [Committed (TxReap now ids) b]" by (simp add: approving_def)
  note c = this and k = concurrent_step_governed[OF governed_two s(1,2)]
  have "schema_ok (shared s')" "governed (shared s')" "evolves (shared s) (shared s')"
    "rows_kept final p_id (promotions_tbl (shared s)) (promotions_tbl (shared s'))"
    using k c by simp_all
  then show ?thesis using s(2-5) by (intro exI[of _ s] exI[of _ s'] exI[of _ a] conjI)
qed

text \<open>
  C8. No approval is lost between reviewers who approve at the same time: each committed approval is
  counted by the promotion, and once the committed approvals reach the number the policy requires, the
  promotion is approved.
\<close>

theorem quorum_not_lost:
  assumes "governed d0" and "quorate d0" and "concurrent sv d0 s" and "promotion_at (shared s) i = Some p"
  shows "committed_approvers (past s) i \<subseteq> distinct_approvers p \<and>
    (p_required_approvals p \<le> int (card (committed_approvers (past s) i)) \<longrightarrow> p_state p = StateApproved)"
proof -
  have h: "serial sv d0 (past s) (shared s)" using concurrent_serial[OF assms(3,1)] by simp
  have sub: "committed_approvers (past s) i \<subseteq> distinct_approvers p"
    using serial_approvers[OF h assms(1)] assms(4) by fastforce
  have "finite (distinct_approvers p)" by (simp add: distinct_approvers_def)
  then have "card (committed_approvers (past s) i) \<le> card (distinct_approvers p)" using sub by (intro card_mono)
  moreover have "p_state p \<noteq> StateApproved \<Longrightarrow> \<not> p_required_approvals p \<le> int (card (distinct_approvers p))"
    using serial_quorate[OF h assms(2)] assms(4)
    by (simp add: quorate_def has_enough_approvals_def approval_count_def)
  ultimately show ?thesis using sub by linarith
qed

theorem quorum_not_lost_witness:
  "\<exists>s p. concurrent plain_service db_two s \<and> promotion_at (shared s) 20 = Some p \<and>
     {''bob'', ''carl''} \<subseteq> distinct_approvers p \<and> p_state p = StateApproved"
proof -
  obtain s p a b where s: "concurrent plain_service db_two s"
      "past s = [Committed (approving 3 ''bob'') a, Committed (approving 4 ''carl'') b]"
      "promotion_at (shared s) 20 = Some p" "p_required_approvals p = 2"
    using two_approve by blast
  have "committed_approvers (past s) 20 = {''bob'', ''carl''}"
    unfolding s(2) committed_approvers_def approving_def by auto
  then show ?thesis
    using quorum_not_lost[OF governed_two quorate_two s(1,3)] s by auto
qed


section \<open>The reaper's race\<close>

text \<open>The active fact of the sample history, due at 10, while a reap pass and a revocation are both open.\<close>

definition due_a :: fact_row where
  "due_a = active_a\<lparr>f_valid_to := Some 9\<rparr>"

definition db_due :: db where
  "db_due = db_active\<lparr>facts_tbl := [due_a]\<rparr>"

lemma due_a_sel [simp]:
  "f_id due_a = 10" "f_status due_a = StatusActive" "f_namespace_id due_a = 1" "f_canonical_key due_a = key0"
  "f_version due_a = 2" "f_supersedes_id due_a = None" "f_superseded_by_id due_a = None"
  "f_embedding due_a = None" "f_approved_by due_a = [''bob'']" "f_valid_to due_a = Some 9"
  by (simp_all add: due_a_def)

lemma db_due_sel [simp]:
  "facts_tbl db_due = [due_a]" "promotions_tbl db_due = [final_a]" "namespaces_tbl db_due = namespaces_tbl db_ns"
  by (simp_all add: db_due_def)

lemma governed_due: "governed db_due"
proof -
  have g: "governed db_active" by (rule reachable_governed[OF db_active_reachable])
  have keep: "memberships_tbl db_due = memberships_tbl db_active" "promotions_tbl db_due = promotions_tbl db_active"
    "namespaces_tbl db_due = namespaces_tbl db_active" by (simp_all add: db_due_def)
  have "schema_ok db_due"
    using governed_schema[OF g] keep
    by (simp add: schema_ok_def facts_ok_def promotions_ok_def memberships_ok_def active_keys_def refers_def)
  moreover have "keys_derived db_due" using g by (simp add: governed_def keys_derived_def due_a_def)
  moreover have "paired db_due p" if p: "promotion_at db_due i = Some p" for i p
  proof -
    have "paired db_active p" using g p keep by (simp add: governed_def)
    then show ?thesis using p
      by (auto simp: paired_def tbl_get_def conflict_ok_def state_matches_def approved_by_people_def
          approved_by_engine_def split: if_splits)
  qed
  ultimately show ?thesis using g by (simp add: governed_def)
qed


text \<open>A reap pass over any facts of a well-formed store, whatever their status by now.\<close>

lemma facts_ok_ended:
  assumes ok: "facts_ok d (facts_tbl d)" and v: "\<And>f. fact_at d i = Some f \<Longrightarrow> f_version f < int4_max" and "st \<noteq> StatusActive"
  shows "facts_ok d (tbl_upd f_id i (row_status now st) (facts_tbl d))"
proof (cases "fact_at d i")
  case None
  then have "tbl_upd f_id i (row_status now st) (facts_tbl d) = facts_tbl d"
    by (auto simp: tbl_upd_def tbl_get_None intro!: map_idI)
  with ok show ?thesis by simp
next
  case (Some f)
  note row = facts_ok_row[OF ok conjunct1[OF tbl_get_Some[OF Some]]]
  show ?thesis by (rule facts_ok_upd[OF ok Some]) (use v[OF Some] row assms(3) in simp_all)
qed

lemma fact_at_expire_one:
  "fact_at (expire_one now i d) j = (if j = i then map_option (row_status now StatusExpired) (fact_at d j) else fact_at d j)"
  by (simp add: expire_one_def tbl_get_upd)

lemma reap_commits:
  assumes "distinct ids" and "facts_ok d (facts_tbl d)"
    and "\<And>i f. i \<in> set ids \<Longrightarrow> fact_at d i = Some f \<Longrightarrow> f_version f < int4_max"
  shows "exec (tx_body sv (TxReap now ids)) d (Expired (length ids)) (fold (expire_one now) ids d)"
proof -
  have "exec (reap_loop now ids) d () (fold (expire_one now) ids d)"
    using assms
  proof (induction ids arbitrary: d)
    case Nil
    then show ?case by (simp add: sql_exec)
  next
    case (Cons i "is")
    have ok: "facts_ok d (tbl_upd f_id i (row_status now StatusExpired) (facts_tbl d))"
      by (rule facts_ok_ended) (use Cons.prems in auto)
    then have "facts_ok (expire_one now i d) (facts_tbl (expire_one now i d))"
      using facts_ok_cong[of "expire_one now i d" d] by (simp add: expire_one_def)
    then have "exec (reap_loop now is) (expire_one now i d) () (fold (expire_one now) is (expire_one now i d))"
      by (intro Cons.IH) (use Cons.prems in \<open>auto simp: fact_at_expire_one split: if_splits\<close>)
    then show ?case using ok by (auto simp: sql_exec sql_safe update_facts_id_Inr expire_one_def[of now i d])
  qed
  then show ?thesis by (auto simp: reap_rest_def sql_exec sql_safe)
qed

lemma expired_at:
  "fact_at d i = Some f \<Longrightarrow> i \<in> set ids \<or> f_status f = StatusExpired \<Longrightarrow>
     \<exists>g. fact_at (fold (expire_one now) ids d) i = Some g \<and> f_status g = StatusExpired"
proof (induction ids arbitrary: d f)
  case (Cons j "is")
  let ?g = "if i = j then row_status now StatusExpired f else f"
  have "fact_at (expire_one now j d) i = Some ?g" using Cons.prems(1) by (auto simp: fact_at_expire_one)
  moreover have "i \<in> set is \<or> f_status ?g = StatusExpired" using Cons.prems(2) by auto
  ultimately show ?case using Cons.IH by simp
qed simp

text \<open>Whatever it finds when it commits, a reap pass expires each fact it had selected.\<close>

lemma reap_expires_selected:
  assumes "governed d0" and "concurrent sv d0 s" and "serving sv s s'"
    and "past s' = past s @ [Committed (TxReap now ids) a]" and "i \<in> set ids"
  shows "\<exists>g. fact_at (shared s') i = Some g \<and> f_status g = StatusExpired"
  using assms(3)[unfolded serving_def] assms(2)[unfolded concurrent_def] assms(1)
proof (cases rule: svc.step_shared)
  case (commit x b)
  then have x: "x = TxReap now ids" using assms(4) by simp
  have "exec (tx_body sv x) (shared s) b (shared s')" using commit(1) by (simp add: as_sql_tx)
  then have e: "exec (reap_loop now ids) (shared s) () (shared s')"
    by (auto simp: x reap_rest_def sql_exec sql_safe)
  obtain f where f: "fact_at (shared s) i = Some f" using commit(2) x assms(5) by auto
  then show ?thesis using expired_at[OF f, of ids now] assms(5) reap_loop_exec[OF e] by simp
qed (use assms(4) in simp_all)

lemma revoke_commits:
  assumes "facts_ok d (facts_tbl d)" and "fact_at d i = Some f" and "f_status f = StatusActive"
    and "int4_min \<le> f_version f" and "f_version f < int4_max"
  shows "\<exists>e. exec (tx_body sv (TxRevoke at i (f_version f) who)) d Revoked (log_event e (upd_fact i (row_status at StatusRevoked) d))"
proof -
  have "revocable d i (f_version f)" using assms(2,3) by (simp add: revocable_def)
  moreover have "facts_ok d (tbl_upd f_id i (row_status at StatusRevoked) (facts_tbl d))"
    by (rule facts_ok_ended[OF assms(1)]) (use assms(2,5) in simp_all)
  ultimately show ?thesis using assms(4,5) by (auto simp: exec_revoke_body sql_exec sql_safe)
qed

lemma serving_begins:
  "conns s k = None \<Longrightarrow> opens sv (shared s) x (tx_prog sv x) \<Longrightarrow> serving sv s (s\<lparr>conns := (conns s)(k \<mapsto> opened x (tx_prog sv x))\<rparr>)"
  unfolding serving_def by (rule db_step.begins)

text \<open>
  The race from any state with no transaction open: a reap pass begins and selects, a revocation begins and
  commits, the reap pass commits.
\<close>

lemma revoked_then_expired:
  assumes "conns s = Map.empty" and ok: "facts_ok (shared s) (facts_tbl (shared s))"
    and f: "fact_at (shared s) i = Some f" "due now f" and v: "int4_min \<le> f_version f" "f_version f + 1 < int4_max"
    and vs: "\<And>g. g \<in> set (facts_tbl (shared s)) \<Longrightarrow> due now g \<Longrightarrow> f_version g < int4_max"
  defines "ids \<equiv> map f_id (filter (due now) (facts_tbl (shared s)))"
  shows "\<exists>s1 s2 g h. (serving sv)\<^sup>*\<^sup>* s s1 \<and> (serving sv)\<^sup>*\<^sup>* s1 s2 \<and>
    past s1 = past s @ [Committed (TxRevoke at i (f_version f) who) Revoked] \<and>
    past s2 = past s1 @ [Committed (TxReap now ids) (Expired (length ids))] \<and>
    fact_at (shared s1) i = Some g \<and> f_status g = StatusRevoked \<and>
    fact_at (shared s2) i = Some h \<and> f_status h = StatusExpired \<and>
    audit_tbl (shared s2) = audit_tbl (shared s1) @ map (\<lambda>j. audit_row now (expired_event j)) ids"
proof -
  let ?reap = "TxReap now ids" and ?rev = "TxRevoke at i (f_version f) who"
  let ?s1 = "s\<lparr>conns := (conns s)(0 \<mapsto> opened ?reap (tx_prog sv ?reap))\<rparr>"
  let ?s2 = "?s1\<lparr>conns := (conns ?s1)(1 \<mapsto> opened ?rev (tx_prog sv ?rev))\<rparr>"
  have active: "f_status f = StatusActive" using f(2) by (simp add: due_def)
  obtain e where e: "exec (tx_body sv ?rev) (shared s) Revoked (log_event e (upd_fact i (row_status at StatusRevoked) (shared s)))"
    using revoke_commits[OF ok f(1) active] v by force
  let ?d = "log_event e (upd_fact i (row_status at StatusRevoked) (shared s))"
  let ?s3 = "?s2\<lparr>shared := ?d, conns := (conns ?s2)(1 := None), past := past ?s2 @ [Committed ?rev Revoked]\<rparr>"
  have dist: "distinct ids" unfolding ids_def by (rule distinct_map_filter[OF facts_ok_ids[OF ok]])
  have okd: "facts_ok ?d (facts_tbl ?d)"
    using facts_ok_ended[OF ok, of i StatusRevoked at] f(1) v(2) facts_ok_cong[of ?d "shared s"] by simp
  have sel: "i \<in> set ids" using f tbl_get_Some[OF f(1)] by (auto simp: ids_def)
  have r: "exec (tx_body sv ?reap) ?d (Expired (length ids)) (fold (expire_one now) ids ?d)"
  proof (rule reap_commits[OF dist okd])
    fix j g assume j: "j \<in> set ids" "fact_at ?d j = Some g"
    then obtain g0 where "g0 \<in> set (facts_tbl (shared s))" "due now g0" "f_id g0 = j" by (auto simp: ids_def)
    moreover from this have "fact_at (shared s) j = Some g0" using tbl_get_in[OF facts_ok_ids[OF ok]] by blast
    ultimately show "f_version g < int4_max"
      using j(2) f(1) v(2) vs[of g0] by (auto simp: tbl_get_upd split: if_splits)
  qed
  let ?s4 = "?s3\<lparr>shared := fold (expire_one now) ids ?d, conns := (conns ?s3)(0 := None),
    past := past ?s3 @ [Committed ?reap (Expired (length ids))]\<rparr>"
  have "serving sv s ?s1" by (rule serving_begins) (simp_all add: assms(1) ids_def)
  moreover have "serving sv ?s1 ?s2" by (rule serving_begins) (simp_all add: assms(1))
  moreover have "(serving sv)\<^sup>*\<^sup>* ?s2 ?s3"
    by (rule serving_commits) (use e assms(1) in \<open>auto split: if_splits intro!: idle_locks\<close>)
  ultimately have s3: "(serving sv)\<^sup>*\<^sup>* s ?s3" by (meson converse_rtranclp_into_rtranclp)
  have s4: "(serving sv)\<^sup>*\<^sup>* ?s3 ?s4"
    by (rule serving_commits) (use r assms(1) in \<open>auto split: if_splits intro!: idle_locks\<close>)
  have g: "fact_at ?d i = Some (row_status at StatusRevoked f)" using f(1) by (simp add: tbl_get_upd)
  obtain h where "fact_at (fold (expire_one now) ids ?d) i = Some h" "f_status h = StatusExpired"
    using expired_at[OF g, of ids now] sel by blast
  then show ?thesis
    using s3 s4 g expire_all_tbl(2)[OF dist, of now ?d]
    by (intro exI[of _ ?s3] exI[of _ ?s4] exI[of _ "row_status at StatusRevoked f"] exI[of _ h]) simp
qed

text \<open>
  C10. The reaper can overwrite a revocation, in every store. It selects the ids to expire without locking the
  rows and expires them without looking at their status again: whatever else has happened, a reap pass that
  commits leaves every fact it had selected expired. So from every state an interleaving can reach with no
  transaction open, in which an active fact is past its validity (and no version is at the end of its
  range), the service can go on to commit a revocation of that fact and then a reap pass that turns it from
  revoked, a terminal status, into expired, which no lifecycle allows, and adds an event that claims the
  fact was active.
\<close>

theorem reaper_overwrites_revocation:
  assumes "governed d0" and "concurrent sv d0 s" and "conns s = Map.empty"
    and "fact_at (shared s) i = Some f" and "f_status f = StatusActive" and "f_valid_to f = Some t" and "t \<le> now"
    and "int4_min \<le> f_version f" and "f_version f + 1 < int4_max"
    and "\<And>g. g \<in> set (facts_tbl (shared s)) \<Longrightarrow> due now g \<Longrightarrow> f_version g < int4_max"
  shows "(\<exists>ids s1 s2 g h. i \<in> set ids \<and> (serving sv)\<^sup>*\<^sup>* s s1 \<and> (serving sv)\<^sup>*\<^sup>* s1 s2 \<and>
      past s1 = past s @ [Committed (TxRevoke at i (f_version f) who) Revoked] \<and>
      past s2 = past s1 @ [Committed (TxReap now ids) (Expired (length ids))] \<and>
      fact_at (shared s1) i = Some g \<and> f_status g = StatusRevoked \<and>
      fact_at (shared s2) i = Some h \<and> f_status h = StatusExpired \<and>
      \<not> life_reach StatusRevoked StatusExpired \<and>
      audit_tbl (shared s2) = audit_tbl (shared s1) @ map (\<lambda>j. audit_row now (expired_event j)) ids) \<and>
    (concurrent sv d0 u \<longrightarrow> serving sv u u' \<longrightarrow> past u' = past u @ [Committed (TxReap now' js) a] \<longrightarrow> j \<in> set js \<longrightarrow>
      (\<exists>g. fact_at (shared u') j = Some g \<and> f_status g = StatusExpired))"
proof
  have due: "due now f" using assms(5-7) by (simp add: due_def)
  have ok: "facts_ok (shared s) (facts_tbl (shared s))"
    using concurrent_serial[OF assms(2,1)] governed_schema schema_facts by blast
  have "i \<in> set (map f_id (filter (due now) (facts_tbl (shared s))))"
    using due tbl_get_Some[OF assms(4)] by auto
  moreover have "\<not> life_reach StatusRevoked StatusExpired"
    using life_reach_terminal[of StatusRevoked StatusExpired] by auto
  ultimately show "\<exists>ids s1 s2 g h. i \<in> set ids \<and> (serving sv)\<^sup>*\<^sup>* s s1 \<and> (serving sv)\<^sup>*\<^sup>* s1 s2 \<and>
      past s1 = past s @ [Committed (TxRevoke at i (f_version f) who) Revoked] \<and>
      past s2 = past s1 @ [Committed (TxReap now ids) (Expired (length ids))] \<and>
      fact_at (shared s1) i = Some g \<and> f_status g = StatusRevoked \<and>
      fact_at (shared s2) i = Some h \<and> f_status h = StatusExpired \<and>
      \<not> life_reach StatusRevoked StatusExpired \<and>
      audit_tbl (shared s2) = audit_tbl (shared s1) @ map (\<lambda>j. audit_row now (expired_event j)) ids"
    using revoked_then_expired[OF assms(3) ok assms(4) due assms(8,9,10)] by metis
qed (use reap_expires_selected[OF assms(1)] in blast)

text \<open>A single due fact, and nothing open.\<close>

theorem reaper_overwrites_revocation_witness:
  "\<exists>ids s g h. concurrent plain_service db_due s \<and> 10 \<in> set ids \<and>
     past s = [Committed (TxRevoke 11 10 2 ''bob'') Revoked, Committed (TxReap 10 ids) (Expired (length ids))] \<and>
     fact_at (shared s) 10 = Some h \<and> f_status h = StatusExpired"
proof -
  let ?s = "\<lparr>shared = db_due, conns = Map.empty, past = []\<rparr> :: db_state"
  have c: "concurrent plain_service db_due ?s" unfolding concurrent_def by (rule db_reach.fresh)
  have f: "fact_at (shared ?s) 10 = Some due_a" by (simp add: tbl_get_def)
  have "\<exists>ids s1 s2 g h. 10 \<in> set ids \<and> (serving plain_service)\<^sup>*\<^sup>* ?s s1 \<and> (serving plain_service)\<^sup>*\<^sup>* s1 s2 \<and>
      past s1 = past ?s @ [Committed (TxRevoke 11 10 (f_version due_a) ''bob'') Revoked] \<and>
      past s2 = past s1 @ [Committed (TxReap 10 ids) (Expired (length ids))] \<and>
      fact_at (shared s1) 10 = Some g \<and> f_status g = StatusRevoked \<and>
      fact_at (shared s2) 10 = Some h \<and> f_status h = StatusExpired \<and>
      \<not> life_reach StatusRevoked StatusExpired \<and>
      audit_tbl (shared s2) = audit_tbl (shared s1) @ map (\<lambda>j. audit_row 10 (expired_event j)) ids"
    by (rule reaper_overwrites_revocation[OF governed_due c _ f, where t = 9, THEN conjunct1]) (simp_all add: int4_min_def int4_max_def)
  then obtain ids s1 s2 h where "10 \<in> set ids" "(serving plain_service)\<^sup>*\<^sup>* ?s s1" "(serving plain_service)\<^sup>*\<^sup>* s1 s2"
      "past s1 = [Committed (TxRevoke 11 10 2 ''bob'') Revoked]"
      "past s2 = past s1 @ [Committed (TxReap 10 ids) (Expired (length ids))]"
      "fact_at (shared s2) 10 = Some h" "f_status h = StatusExpired"
    by auto
  moreover from this have "concurrent plain_service db_due s2" using c concurrent_steps by blast
  ultimately show ?thesis by (intro exI[of _ ids] exI[of _ s2] exI[of _ h]) simp
qed

end
