(* ===== verification/Bounds.thy ===== *)
theory Bounds
  imports Endpoints
begin

text \<open>
  How long an answer can get: the parameter \<^verbatim>\<open>limit\<close> of the listing and of the context, read by
  \<^verbatim>\<open>strconv.Atoi\<close> with its error dropped.
\<close>

section \<open>Lengths\<close>

text \<open>The number of rows of an answer that lists, of facts or of context items.\<close>

fun listed :: "payload \<Rightarrow> nat option" where
  "listed (PFacts fs) = Some (length fs)"
| "listed (PItems its) = Some (length its)"
| "listed _ = None"

text \<open>\<open>most\<close> is what the store can give, where it bounds the answer.\<close>

definition bounded :: "int \<Rightarrow> nat option \<Rightarrow> response \<Rightarrow> bool" where
  "bounded limit most r \<longleftrightarrow> (\<forall>n. listed (rs_body r) = Some n \<longrightarrow> (0 < limit \<longrightarrow> int n \<le> limit) \<and>
     (\<forall>k. most = Some k \<longrightarrow> n \<le> k))"

lemma bounded_error [simp]: "bounded limit most (write_error n msg)"
  by (simp add: bounded_def write_error_def write_json_def)

lemma bounded_json [simp]: "bounded limit most (write_json st b) = (\<forall>n. listed b = Some n \<longrightarrow>
    (0 < limit \<longrightarrow> int n \<le> limit) \<and> (\<forall>k. most = Some k \<longrightarrow> n \<le> k))"
  by (simp add: bounded_def write_json_def)

lemma length_list_facts:
  assumes "run (on_pool (list_facts plan dist q)) [] d = (Inr fs, d')" and "\<And>xs. mset (plan xs) = mset xs"
  shows "(0 < lf_limit q \<longrightarrow> int (length fs) \<le> lf_limit q) \<and> length fs \<le> length (facts_tbl d)"
proof -
  let ?rows = "list_order dist q (filter (list_where q) (plan (facts_tbl d)))"
  have fs: "fs = map fact.truncate (limited (lf_limit q) ?rows)"
    using assms(1) by (auto simp: list_facts_def sql_run Let_def split: if_splits)
  have "length ?rows \<le> length (plan (facts_tbl d))"
    using mset_eq_length[OF mset_list_order] length_filter_le by metis
  also have "\<dots> = length (facts_tbl d)" using assms(2) by (rule mset_eq_length)
  finally have "length fs \<le> length (facts_tbl d)" by (auto simp: fs limited_def)
  then show ?thesis by (auto simp: fs limited_def)
qed

lemma length_apply_limit: "0 < n \<Longrightarrow> int (length (apply_limit xs n)) \<le> n"
  by (simp add: apply_limit_def)

lemma length_context:
  assumes "run (resolve_context plan mem now q) fs d = (Inr items, d')"
  shows "0 < cq_limit q \<longrightarrow> int (length items) \<le> cq_limit q"
  using resolve_context_Inr[OF assms] length_apply_limit
  by (auto simp: maybe_merge_memories_def split: if_splits option.splits sum.splits)

lemma atoi_value_range: "int_min \<le> atoi_value t \<and> atoi_value t \<le> int_max"
  by (simp add: atoi_value_def Let_def int_min_def int_max_def split: option.split)

lemma atoi_value_digits:
  assumes "read_digits 0 t = Some m" and "0 < m"
  shows "0 < atoi_value t \<and> atoi_value t \<le> int m"
proof -
  have "t \<noteq> []" "\<not> has_prefix t ''-''" "\<not> has_prefix t ''+''"
    using assms by (cases t; auto simp: has_prefix_def is_digit_def split: if_splits)+
  then show ?thesis using assms by (simp add: atoi_value_def Let_def int_min_def int_max_def)
qed

lemma bounded_listing:
  assumes "plans_ok w"
  shows "ensures d (\<lambda>r d'. bounded (atoi_value (query_get rq ''limit'')) (Some (length (facts_tbl d))) r)
     (h_list_facts s w rq ctx)"
  unfolding h_list_facts_def Let_def split_def
proof (intro outcome, goal_cases)
  case (4 e ns fs)
  then show ?case using length_list_facts[OF 4(3)] assms by (auto simp: plans_ok_def)
qed (auto simp: entitlements_from_def split: option.splits prod.splits dest!: namespace_filter_Inl)

lemma bounded_context:
  "ensures d (\<lambda>r d'. bounded (atoi_value (query_get rq ''limit'')) None r) (h_get_context s w rq ctx)"
  unfolding h_get_context_def Let_def
proof (intro outcome, goal_cases)
  case (4 e ids items)
  then show ?case using length_context[OF 4(3)] by auto
qed (auto simp: entitlements_from_def split: option.splits prod.splits dest!: narrowed_Inl)

section \<open>Properties\<close>

text \<open>
  C39. A limit is kept: the number read from the parameter is in the 64-bit range whatever its text, an answer
  of the fact listing or of the context never has more rows than a positive limit, a limit written in
  digits bounds the answer even when it exceeds 64 bits, and a listing never has more rows than there are
  facts. (A text that is no number, zero and a negative one are no limit.)
\<close>

theorem answers_bounded:
  assumes "srv_router s routes rq = Inr (ep, ps)" and "ep = EpListFacts \<or> ep = EpGetContext" and "plans_ok w"
    and "run (serve s w rq) fs d = (Inr r, d')" and "listed (rs_body r) = Some n"
  shows "(let limit = atoi_value (query_get rq ''limit'') in
      int_min \<le> limit \<and> limit \<le> int_max \<and> (0 < limit \<longrightarrow> int n \<le> limit)) \<and>
    (\<forall>m. read_digits 0 (query_get rq ''limit'') = Some m \<longrightarrow> 0 < m \<longrightarrow> n \<le> m) \<and>
    (ep = EpListFacts \<longrightarrow> n \<le> length (facts_tbl d))"
proof -
  let ?limit = "atoi_value (query_get rq ''limit'')"
  let ?most = "if ep = EpListFacts then Some (length (facts_tbl d)) else None"
  have np: "\<not> public ep" using assms(2) by (auto simp: public_def)
  have h: "ensures d (\<lambda>r d'. bounded ?limit ?most r) (handle s w rq ps ep ctx)" for ctx
    using assms(2) bounded_listing[OF assms(3)] bounded_context by auto
  have "bounded ?limit ?most r"
  proof (cases "srv_auth s rq")
    case (Inl e)
    then show ?thesis
      using assms(1,4) np by (cases e) (auto simp: serve_def authn_def run_def return_sql_def)
  next
    case (Inr p)
    show ?thesis
    proof (cases rule: run_serve[OF assms(1) np Inr, of w fs d])
      case 1
      then show ?thesis using assms(4) by simp
    next
      case (2 ent fs')
      then show ?thesis using h[of "Some (p, ent)"] assms(4) unfolding ensures_def
        by (metis Inr_inject Pair_inject)
    qed
  qed
  then have b: "0 < ?limit \<longrightarrow> int n \<le> ?limit" "ep = EpListFacts \<longrightarrow> n \<le> length (facts_tbl d)"
    using assms(5) by (auto simp: bounded_def)
  then show ?thesis using atoi_value_range[of "query_get rq ''limit''"] atoi_value_digits by (fastforce simp: Let_def)
qed


section \<open>Evaluated\<close>

definition list_request :: "string \<Rightarrow> request" where
  "list_request limit = \<lparr>rq_method = ''GET'', rq_path = [''v1'', ''facts'', []], rq_query = [(''limit'', limit)],
     rq_headers = [(''X-Baseline-Principal'', ''rev'')], rq_body = RawEmpty\<rparr>"

definition two_facts :: db where
  "two_facts = sample_db [sample_fact 10 1 ''tabs'' StatusActive [] None, sample_fact 11 1 ''go'' StatusProposed [] None] []"

lemma list_request_routed:
  "srv_router sample_server routes (list_request l) = Inr (EpListFacts, Map.empty)"
  "srv_auth sample_server (list_request l) = Inr \<lparr>pr_id = ''rev'', pr_platform_admin = False\<rparr>"
  by (simp_all add: sample_server_def new_server_def new_with_memory_def header_authenticator_def list_request_def
      header_get_def equal_fold_def to_lower_def lower_byte_def trim_eval Let_def routes_def has_prefix_def)

theorem answers_bounded_witness:
  "\<exists>r n. run (serve sample_server sample_world (list_request ''99999999999999999999'')) [] two_facts = (Inr r, two_facts) \<and>
     listed (rs_body r) = Some n \<and> 0 < n \<and> n \<le> 99999999999999999999 \<and> n \<le> 2"
proof -
  let ?rq = "list_request ''99999999999999999999''"
  have rd: "resolve_rows ''rev'' two_facts = [1]"
    by (simp add: resolve_rows_def two_facts_def sample_db_def sample_ns_def ancestors.simps next_rows_def)
  have np: "\<not> public EpListFacts" by (simp add: public_def)
  let ?all = "map fact.truncate (rev (facts_tbl two_facts))"
  have l: "run (on_pool (list_facts (\<lambda>xs. xs) dist \<lparr>lf_namespaces = Some [1], lf_status = None, lf_canonical_key = None,
      lf_tag = None, lf_tags = [], lf_text = None, lf_query_vec = None, lf_limit = int_max\<rparr>)) [] two_facts = (Inr ?all, two_facts)" for dist
    by (simp add: list_facts_def sql_run list_where_def opt_holds_def list_order_def limited_def dims_differ_def two_facts_def int_max_def)
  have q: "query_get ?rq k = (if k = ''limit'' then ''99999999999999999999'' else [])" for k
    by (simp add: list_request_def query_get_def)
  have v: "atoi_value ''99999999999999999999'' = int_max"
    by (simp add: atoi_value_def has_prefix_def is_digit_def int_max_def int_min_def)
  have r: "run (serve sample_server sample_world ?rq) [] two_facts = (Inr (write_json 200 (PFacts ?all)), two_facts)"
    unfolding run_sample[OF list_request_routed(2,1) np] handle.simps h_list_facts_def
    by (simp add: rd guard_sql_def entitlements_from_def namespace_filter_def q v Let_def run_try_return
        search_terms_def readable_namespaces_def sample_world_def nonempty_def parse_csv_def trim_eval l del: One_nat_def)
  have "read_digits 0 (query_get ?rq ''limit'') = Some 99999999999999999999"
    by (simp add: q is_digit_def)
  then show ?thesis
    using answers_bounded[OF list_request_routed(1) _ sample_plans r, of 2] r
    by (simp add: write_json_def two_facts_def)
qed

end
