(* ===== verification/Liveness.thy ===== *)
theory Liveness
  imports Approvals
begin

text \<open>
  That a promotion is never stuck: with a quorum of reviewers, a clear way to the key and nothing failing,
  it is approved and its fact becomes active. The properties of \<open>Approvals\<close> show that the conditions on the
  way are needed: a stale conflict and an embedder of another width each block an activation for ever.
\<close>

section \<open>When an activation is accepted\<close>

text \<open>
  Nothing but the recorded conflict is active under the key, and the versions that will be counted up fit
  their column.
\<close>

definition clear_way :: "db \<Rightarrow> promotion \<Rightarrow> bool" where
  "clear_way d p \<longleftrightarrow>
     (\<forall>f. fact_at d (p_fact_id p) = Some f \<longrightarrow> f_version f < int4_max \<and>
        (\<forall>j g. fact_at d j = Some g \<longrightarrow> f_status g = StatusActive \<longrightarrow> f_namespace_id g = f_namespace_id f \<longrightarrow>
           f_canonical_key g = f_canonical_key f \<longrightarrow> p_conflict_with p = Some j)) \<and>
     (\<forall>c g. p_conflict_with p = Some c \<longrightarrow> fact_at d c = Some g \<longrightarrow> f_version g < int4_max)"

definition fitting_embedder :: "service \<Rightarrow> bool" where
  "fitting_embedder sv \<longleftrightarrow>
     (\<forall>em t v. sv_embedder sv = Some em \<longrightarrow> em t = Inr v \<longrightarrow> length v = embedding_dims)"

lemma refers_at: "fact_at d j = Some f \<Longrightarrow> refers (Some j) (map f_id (facts_tbl d))"
  by (auto simp: refers_def dest!: tbl_get_Some)

lemma facts_ok_upd_quiet:
  assumes "facts_ok d (facts_tbl d)" and "fact_at d i = Some f" and "\<And>r. f_id (u r) = f_id r"
    and "f_namespace_id (u f) = f_namespace_id f" "refers (f_supersedes_id (u f)) (map f_id (facts_tbl d))"
      "refers (f_superseded_by_id (u f)) (map f_id (facts_tbl d))" "f_version (u f) \<le> int4_max"
      "f_embedding (u f) = f_embedding f"
    and "f_status (u f) \<noteq> StatusActive"
  shows "facts_ok d (tbl_upd f_id i u (facts_tbl d))"
  using assms facts_ok_row(5)[OF assms(1)] tbl_get_Some[OF assms(2)] by (intro facts_ok_upd[OF assms(1-4)]) auto

lemma conflict_accepted:
  assumes ok: "facts_ok d (facts_tbl d)" and f: "fact_at d (p_fact_id q) = Some f" and na: "f_status f \<noteq> StatusActive"
    and con: "conflict_ok d q f" and way: "clear_way d q"
  shows "conflict_fits now q d" "facts_ok (conflict_effect now who q d) (facts_tbl (conflict_effect now who q d))"
proof -
  have "conflict_fits now q d \<and> facts_ok (conflict_effect now who q d) (facts_tbl (conflict_effect now who q d))"
  proof (cases "p_conflict_with q")
    case None
    then show ?thesis using ok by (simp add: conflict_fits_def conflict_effect_def)
  next
    case (Some c)
    then obtain g where g: "fact_at d c = Some g" "c \<noteq> p_fact_id q" using con by (auto simp: conflict_ok_def)
    let ?d1 = "upd_fact c (row_superseded now (p_fact_id q)) d"
    have "f_version g < int4_max" using way Some g(1) by (auto simp: clear_way_def)
    then have 1: "facts_ok d (facts_tbl ?d1)"
      unfolding upd_fact_sel
      using facts_ok_row[OF ok] tbl_get_Some[OF g(1)] refers_at[OF f]
      by (intro facts_ok_upd_quiet[OF ok g(1)]) (auto simp: row_superseded_def)
    then have ok1: "facts_ok ?d1 (facts_tbl ?d1)" using facts_ok_cong[of d ?d1] by simp
    have f1: "fact_at ?d1 (p_fact_id q) = Some f" using f g(2) by (simp add: tbl_get_upd)
    have g1: "fact_at ?d1 c = Some (row_superseded now (p_fact_id q) g)" using g by (simp add: tbl_get_upd)
    have 2: "facts_ok ?d1 (tbl_upd f_id (p_fact_id q) (row_supersedes now c) (facts_tbl ?d1))"
      using facts_ok_row[OF ok1] tbl_get_Some[OF f1] refers_at[OF g1] na
      by (intro facts_ok_upd_quiet[OF ok1 f1]) (auto simp: row_supersedes_def)
    have "facts_ok (conflict_effect now who q d) (tbl_upd f_id (p_fact_id q) (row_supersedes now c) (facts_tbl ?d1))"
      using 2 facts_ok_cong[of "conflict_effect now who q d" ?d1] by simp
    then show ?thesis
      using 1 2 by (simp add: conflict_fits_def supersede_fits_def Some conflict_effect_def supersede_effect_def)
  qed
  then show "conflict_fits now q d" "facts_ok (conflict_effect now who q d) (facts_tbl (conflict_effect now who q d))"
    by simp_all
qed


lemma others_after_conflict:
  assumes "fact_at (conflict_effect now who q d) j = Some g" and "j \<noteq> p_fact_id q" and "f_status g = StatusActive"
  shows "p_conflict_with q \<noteq> Some j \<and> fact_at d j = Some g"
proof (cases "p_conflict_with q = Some j")
  case True
  then show ?thesis
    using assms by (cases "fact_at d j") (auto simp: conflict_effect_at supersede_effect_at Let_def)
next
  case False
  then show ?thesis using assms by (auto simp: conflict_effect_at supersede_effect_at Let_def split: option.splits)
qed

lemma embed_accepted:
  assumes ok: "facts_ok d (facts_tbl d)" and fit: "fitting_embedder sv"
  shows "embed_fits sv i d"
proof (cases "fact_at d i")
  case None
  then show ?thesis by (simp add: embed_fits_def)
next
  case (Some f)
  have f: "f \<in> set (facts_tbl d)" "f_id f = i" using tbl_get_Some[OF Some] by simp_all
  have "facts_ok d (tbl_upd f_id i (row_embed v) (facts_tbl d))" if v: "embedding_for sv f = Some v" for v
  proof (rule facts_ok_upd[OF ok Some])
    have "length v = embedding_dims"
      using v fit by (auto simp: embedding_for_def fitting_embedder_def split: option.splits sum.splits)
    then show "\<forall>x. f_embedding (row_embed v f) = Some x \<longrightarrow> length x = embedding_dims" by (simp add: row_embed_def)
    assume a: "f_status (row_embed v f) = StatusActive"
    show "\<forall>g \<in> set (facts_tbl d). f_status g = StatusActive \<longrightarrow> f_id g \<noteq> i \<longrightarrow>
        f_namespace_id g = f_namespace_id f \<longrightarrow> f_canonical_key g \<noteq> f_canonical_key (row_embed v f)"
    proof (intro ballI impI notI)
      fix g assume g: "g \<in> set (facts_tbl d)" "f_status g = StatusActive" "f_id g \<noteq> i"
        "f_namespace_id g = f_namespace_id f" "f_canonical_key g = f_canonical_key (row_embed v f)"
      then have "f = g" using a by (intro active_unique[OF facts_ok_active[OF ok] f(1)]) (simp_all add: row_embed_def)
      then show False using g(3) f(2) by simp
    qed
  qed (use facts_ok_row[OF ok f(1)] in \<open>auto simp: row_embed_def\<close>)
  then show ?thesis by (auto simp: embed_fits_def Some split: option.split)
qed

lemma activation_accepted:
  assumes ok: "facts_ok d (facts_tbl d)" and f: "fact_at d (p_fact_id q) = Some f" and na: "f_status f \<noteq> StatusActive"
    and con: "conflict_ok d q f" and way: "clear_way d q" and fit: "fitting_embedder sv"
  shows "activate_fits sv now q who d"
proof -
  let ?d1 = "conflict_effect now who q d"
  let ?g = "case p_conflict_with q of None \<Rightarrow> f | Some c \<Rightarrow> row_supersedes now c f"
  note c = conflict_accepted(1)[OF ok f na con way, of now] conflict_accepted(2)[OF ok f na con way, of now who]
  have g: "fact_at ?d1 (p_fact_id q) = Some ?g" by (rule conflict_effect_at_new[OF con f])
  have sel: "f_namespace_id ?g = f_namespace_id f" "f_canonical_key ?g = f_canonical_key f" "f_version ?g = f_version f"
    by (simp_all add: row_supersedes_def split: option.split)
  have gs: "?g \<in> set (facts_tbl ?d1)" using tbl_get_Some[OF g] by simp
  have v: "f_version f < int4_max" using way f by (simp add: clear_way_def)
  have 3: "facts_ok ?d1 (tbl_upd f_id (p_fact_id q) (row_activate now (approvers q)) (facts_tbl ?d1))"
  proof (rule facts_ok_upd[OF c(2) g])
    show "\<forall>h \<in> set (facts_tbl ?d1). f_status h = StatusActive \<longrightarrow> f_id h \<noteq> p_fact_id q \<longrightarrow>
        f_namespace_id h = f_namespace_id ?g \<longrightarrow> f_canonical_key h \<noteq> f_canonical_key (row_activate now (approvers q) ?g)"
    proof (intro ballI impI)
      fix h assume h: "h \<in> set (facts_tbl ?d1)" "f_status h = StatusActive" "f_id h \<noteq> p_fact_id q"
        "f_namespace_id h = f_namespace_id ?g"
      have "fact_at ?d1 (f_id h) = Some h" by (rule tbl_get_in[OF facts_ok_ids[OF c(2)] h(1)])
      then have o: "p_conflict_with q \<noteq> Some (f_id h)" "fact_at d (f_id h) = Some h"
        using others_after_conflict h(2,3) by blast+
      then show "f_canonical_key h \<noteq> f_canonical_key (row_activate now (approvers q) ?g)"
        using way f h(2,4) sel(1,2) unfolding clear_way_def by (simp add: row_activate_def) metis
    qed
  qed (use facts_ok_row[OF c(2) gs] v sel(3) in \<open>auto simp: row_activate_def\<close>)
  then have "facts_ok (upd_fact (p_fact_id q) (row_activate now (approvers q)) ?d1)
      (facts_tbl (upd_fact (p_fact_id q) (row_activate now (approvers q)) ?d1))"
    using facts_ok_cong[of "upd_fact (p_fact_id q) (row_activate now (approvers q)) ?d1" ?d1] by simp
  then show ?thesis
    using c(1) g 3 embed_accepted[OF _ fit] by (simp add: activate_fits_def Let_def)
qed

section \<open>Approving in turn\<close>

fun approve_all :: "service \<Rightarrow> uuid \<Rightarrow> (timestamp \<times> principal_id) list \<Rightarrow> db \<Rightarrow> db" where
  "approve_all sv i [] d = d"
| "approve_all sv i ((t, who) # turns) d = approve_all sv i turns (snd (run (approve sv t t i who []) [] d))"

lemma activate_effect_ids: "map f_id (facts_tbl (activate_effect sv now q who d)) = map f_id (facts_tbl d)"
  by (simp add: activate_effect_def embed_effect_def conflict_effect_def supersede_effect_def map_key_upd split: option.split)

lemma approve_accepted:
  assumes gov: "governed d" and p: "promotion_at d i = Some p" and rev: "reviewable p"
    and way: "clear_way d p" and fit: "fitting_embedder sv" and who: "who \<noteq> p_proposer p"
  shows "\<exists>d'. run (approve sv t t i who c) [] d = (Inr (decided t who c p), d') \<and>
     exec (approve_body sv t t i who c) d (decided t who c p) d'"
proof -
  let ?q = "decided t who c p"
  obtain f where f: "fact_at d (p_fact_id p) = Some f" "state_matches p f" "conflict_ok d p f"
    using governed_paired[OF gov p] by (auto simp: paired_def)
  have na: "f_status f \<noteq> StatusActive"
    using not_yet_active[OF f(2)] rev by (auto simp: reviewable_def was_active_def)
  have s: "facts_ok d (facts_tbl d)" "promotions_ok d (promotions_tbl d)"
    using governed_schema[OF gov] by (simp_all add: schema_ok_def)
  have "activate_fits sv t ?q who d"
    using f na way by (intro activation_accepted[OF s(1) _ na _ _ fit]) (simp_all add: conflict_ok_def clear_way_def)
  moreover have "promotions_ok (activate_effect sv t ?q who d) (promotions_tbl d)"
    using s(2) promotions_ok_facts[OF activate_effect_ids, of sv t ?q who d] by simp
  ultimately have "\<exists>d'. exec (approve_body sv t t i who c) d ?q d'"
    unfolding exec_approve_body using p rev who s(2) by auto
  then show ?thesis using run_in_tx_clean unfolding approve_def by fastforce
qed


text \<open>What one more approval leaves: either the fact is active, or one approver more on a promotion in the same position.\<close>

lemma approve_turn:
  assumes gov: "governed d" and p: "promotion_at d i = Some p" and rev: "reviewable p"
    and way: "clear_way d p" and fit: "fitting_embedder sv" and who: "who \<noteq> p_proposer p"
  shows "let d' = snd (run (approve sv t t i who []) [] d) in governed d' \<and>
    (if p_required_approvals p \<le> int (card (insert who (distinct_approvers p)))
     then (\<exists>q f. promotion_at d' i = Some q \<and> p_state q = StateApproved \<and>
        fact_at d' (p_fact_id p) = Some f \<and> f_status f = StatusActive)
     else \<exists>q. promotion_at d' i = Some q \<and> reviewable q \<and> clear_way d' q \<and> p_proposer q = p_proposer p \<and>
        p_required_approvals q = p_required_approvals p \<and> p_fact_id q = p_fact_id p \<and>
        distinct_approvers q = insert who (distinct_approvers p))"
proof -
  let ?q = "decided t who [] p"
  obtain d' where run: "run (approve sv t t i who []) [] d = (Inr ?q, d')"
    and body: "exec (approve_body sv t t i who []) d ?q d'"
    using approve_accepted[OF assms] by blast
  have gov': "governed d'" by (rule governed_approve_body[OF gov body])
  have n: "has_enough_approvals ?q \<longleftrightarrow> p_required_approvals p \<le> int (card (insert who (distinct_approvers p)))"
    using decided_approvers[OF who] by (simp add: has_enough_approvals_def approval_count_def)
  have eff: "if has_enough_approvals ?q
         then activate_fits sv t ?q who d \<and> d' = reviewed_effect t ?q (approved_event who ?q) (activate_effect sv t ?q who d)
         else d' = reviewed_effect t ?q (approved_event who ?q) d"
    using body p unfolding exec_approve_body by (auto split: if_splits)
  have "p_id ?q = i" using tbl_get_Some[OF p] by simp
  then have at: "promotion_at d' i = Some (row_reviewed t (p_state ?q) (p_reviews ?q) p)"
    using eff p by (auto simp: reviewed_effect_def tbl_get_upd split: if_splits)
  show ?thesis
  proof (cases "has_enough_approvals ?q")
    case True
    then obtain f where "fact_at (activate_effect sv t ?q who d) (p_fact_id ?q) = Some f" "f_status f = StatusActive"
      using eff activated_fact by (metis (full_types))
    then have "fact_at d' (p_fact_id p) = Some f" using eff True by simp
    then show ?thesis using run gov' n True at \<open>f_status f = StatusActive\<close> by (simp add: decided_state)
  next
    case False
    let ?r = "row_reviewed t (p_state ?q) (p_reviews ?q) p"
    have "distinct_approvers ?r = distinct_approvers ?q"
      by (simp add: distinct_approvers_def row_reviewed_def)
    moreover have "clear_way d' ?r" using way eff False by (simp add: clear_way_def row_reviewed_def)
    ultimately show ?thesis
      using run gov' n False at decided_approvers[OF who] by (simp add: decided_state reviewable_def row_reviewed_def)
  qed
qed

lemma approve_after:
  assumes "promotion_at d i = Some q" and "p_state q = StateApproved"
  shows "snd (run (approve sv t t i who c) fs d) = d"
proof (cases "run (approve sv t t i who c) fs d")
  case (Pair r d')
  then show ?thesis
  proof (cases rule: approve_cases)
    case (committed a)
    then show ?thesis using assms by (auto simp: exec_approve_body reviewable_def)
  qed (simp add: Pair)
qed

lemma approve_all_after:
  "promotion_at d i = Some q \<Longrightarrow> p_state q = StateApproved \<Longrightarrow> approve_all sv i turns d = d"
  by (induction turns) (auto simp: approve_after)

lemma approve_all_activates:
  assumes "governed d" and "promotion_at d i = Some p" and "reviewable p" and "clear_way d p" and fit: "fitting_embedder sv"
    and "p_proposer p \<notin> snd ` set turns" and "turns \<noteq> []"
    and "p_required_approvals p \<le> int (card (distinct_approvers p \<union> snd ` set turns))"
  shows "\<exists>q f. promotion_at (approve_all sv i turns d) i = Some q \<and> p_state q = StateApproved \<and>
    fact_at (approve_all sv i turns d) (p_fact_id p) = Some f \<and> f_status f = StatusActive"
  using assms
proof (induction turns arbitrary: d p)
  case Nil
  then show ?case by simp
next
  case (Cons turn turns)
  obtain t who where turn: "turn = (t, who)" by fastforce
  let ?d = "snd (run (approve sv t t i who []) [] d)"
  have who: "who \<noteq> p_proposer p" using Cons.prems(6) turn by auto
  note one = approve_turn[OF Cons.prems(1-5) who, of t, unfolded Let_def]
  show ?case
  proof (cases "p_required_approvals p \<le> int (card (insert who (distinct_approvers p)))")
    case True
    then obtain q f where q: "promotion_at ?d i = Some q" "p_state q = StateApproved"
      and f: "fact_at ?d (p_fact_id p) = Some f" "f_status f = StatusActive"
      using one by auto
    have "approve_all sv i (turn # turns) d = ?d" using approve_all_after[OF q] turn by simp
    then show ?thesis using q f by auto
  next
    case False
    then obtain q where q: "governed ?d" "promotion_at ?d i = Some q" "reviewable q" "clear_way ?d q"
      "p_proposer q = p_proposer p" "p_required_approvals q = p_required_approvals p" "p_fact_id q = p_fact_id p"
      "distinct_approvers q = insert who (distinct_approvers p)"
      using one by auto
    have more: "p_required_approvals q \<le> int (card (distinct_approvers q \<union> snd ` set turns))"
      using Cons.prems(8) turn by (simp add: q(6,8))
    then have "turns \<noteq> []" using False q(6,8) by auto
    from Cons.IH[OF q(1-4) fit _ this more] show ?thesis using Cons.prems(6) turn q(5,7) by auto
  qed
qed

section \<open>Properties\<close>

text \<open>
  C22. A promotion under review is never stuck for want of anything but reviewers: when nothing but its recorded
  conflict is active under its key and the embedder, if any, answers in the width of the column, then
  reviewers other than the proposer who, with those who have approved before, make up the required number
  get it approved by approving one after the other, whatever their order and even if some repeat
  themselves, and its fact is active at the end.
\<close>

theorem quorum_suffices:
  assumes "reachable sv d" and "promotion_at d i = Some p" and "reviewable p" and "clear_way d p"
    and "fitting_embedder sv" and "p_proposer p \<notin> snd ` set turns" and "turns \<noteq> []"
    and "p_required_approvals p \<le> int (card (distinct_approvers p \<union> snd ` set turns))"
  shows "\<exists>q f. promotion_at (approve_all sv i turns d) i = Some q \<and> p_state q = StateApproved \<and>
    fact_at (approve_all sv i turns d) (p_fact_id p) = Some f \<and> f_status f = StatusActive"
  using approve_all_activates[OF reachable_governed[OF assms(1)] assms(2-8)] .

theorem quorum_suffices_witness:
  "\<exists>q f. promotion_at (approve_all plain_service 20 [(3, ''bob''), (4, ''bob'')] db_proposed) 20 = Some q \<and>
     p_state q = StateApproved \<and> fact_at (approve_all plain_service 20 [(3, ''bob''), (4, ''bob'')] db_proposed) 10 = Some f \<and>
     f_status f = StatusActive"
proof -
  have p: "promotion_at db_proposed 20 = Some promo_a" by (simp add: tbl_get_def)
  have "clear_way db_proposed promo_a"
    by (auto simp: clear_way_def tbl_get_def row_a_def int4_max_def)
  moreover have "fitting_embedder plain_service" by (simp add: fitting_embedder_def plain_service_def)
  ultimately show ?thesis
    using quorum_suffices[OF db_proposed_reachable p, of "[(3, ''bob''), (4, ''bob'')]"]
    by (simp add: reviewable_def distinct_approvers_def)
qed

end
