(* ===== verification/Audit_Trail.thy ===== *)
theory Audit_Trail
  imports Guarantees
begin

text \<open>
  The audit trail as an account of the store: the last event about a fact or a promotion tells the status or
  state it has. Every operation of the service keeps this, so no state changes without its event.
\<close>

section \<open>What the trail says\<close>

text \<open>The state named by the last event about a subject, if there is an event about it.\<close>

definition recorded :: "string \<Rightarrow> uuid \<Rightarrow> audit_event list \<Rightarrow> string option option" where
  "recorded ty i log =
     map_option a_to_state (find (\<lambda>a. a_subject_type a = ty \<and> a_subject_id a = i) (rev log))"

lemma recorded_simps [simp]:
  "recorded ty i [] = None"
  "recorded ty i (log @ [a]) =
     (if a_subject_type a = ty \<and> a_subject_id a = i then Some (a_to_state a) else recorded ty i log)"
  by (simp_all add: recorded_def)

text \<open>What the trail should say: of a fact, its status once it has been active, and nothing before.\<close>

definition shown_fact :: "db \<Rightarrow> uuid \<Rightarrow> string option option" where
  "shown_fact d i =
     (case fact_at d i of
        None \<Rightarrow> None
      | Some f \<Rightarrow> if was_active (f_status f) then Some (Some (status_str (f_status f))) else None)"

text \<open>An event of an engine that activates the fact.\<close>

definition auto_promoted :: "audit_event list \<Rightarrow> uuid \<Rightarrow> bool" where
  "auto_promoted log i \<longleftrightarrow> (\<exists>a \<in> set log. a_action a = ''fact.auto_promoted'' \<and> has_prefix (a_principal a) ''engine:'' \<and>
     a_subject_type a = ''fact'' \<and> a_subject_id a = i \<and> a_to_state a = Some (status_str StatusActive))"

text \<open>Of a promotion, its state; of one that an engine has approved, its proposal and the engine's event.\<close>

definition shows_promotion :: "db \<Rightarrow> uuid \<Rightarrow> string option option \<Rightarrow> bool" where
  "shows_promotion d i said =
     (case promotion_at d i of
        None \<Rightarrow> said = None
      | Some p \<Rightarrow> said = Some (Some (state_str (p_state p))) \<or>
          p_state p = StateApproved \<and> said = Some (Some (state_str StatePending)) \<and>
          auto_promoted (audit_tbl d) (p_fact_id p))"

definition accounted_facts :: "db \<Rightarrow> bool" where
  "accounted_facts d \<longleftrightarrow> (\<forall>i. recorded ''fact'' i (audit_tbl d) = shown_fact d i)"

definition accounted_promotions :: "db \<Rightarrow> bool" where
  "accounted_promotions d \<longleftrightarrow> (\<forall>i. shows_promotion d i (recorded ''promotion'' i (audit_tbl d)))"

section \<open>Changes of facts\<close>

lemma shown_cong: "facts_tbl d' = facts_tbl d \<Longrightarrow> shown_fact d' = shown_fact d"
  by (rule ext) (simp add: shown_fact_def)

lemma shown_others [simp]:
  "shown_fact (log_event a d) = shown_fact d" "shown_fact (upd_promotion i u d) = shown_fact d"
  "shown_fact (ins_promotion p d) = shown_fact d"
  by (rule shown_cong, simp)+

lemma shown_upd_active:
  assumes "fact_at d i = Some f" and "\<And>f. f_id (u f) = f_id f" and "f_status (u f) = s" and "was_active s"
  shows "shown_fact (upd_fact i u d) = (shown_fact d)(i := Some (Some (status_str s)))"
  using assms by (auto simp: shown_fact_def tbl_get_upd fun_eq_iff)

lemma shown_upd_same:
  assumes "\<And>f. f_id (u f) = f_id f"
    and "\<And>f. fact_at d i = Some f \<Longrightarrow> f_status (u f) = f_status f \<or> \<not> was_active (f_status f) \<and> \<not> was_active (f_status (u f))"
  shows "shown_fact (upd_fact i u d) = shown_fact d"
proof
  show "shown_fact (upd_fact i u d) j = shown_fact d j" for j
    using assms by (cases "fact_at d i") (auto simp: shown_fact_def tbl_get_upd)
qed

lemma shown_embed [simp]: "shown_fact (embed_effect sv i d) = shown_fact d"
  by (auto simp: embed_effect_def intro: shown_upd_same split: option.split)

lemma shown_ins: "fact_at d (f_id f) = None \<Longrightarrow> \<not> was_active (f_status f) \<Longrightarrow> shown_fact (ins_fact f d) = shown_fact d"
  by (rule ext) (auto simp: shown_fact_def tbl_get_ins split: option.split)

lemma accounted_facts_log:
  assumes "accounted_facts d" and "audit_tbl d' = audit_tbl d @ [a]" and "a_subject_type a = ''fact''"
    and "shown_fact d' = (shown_fact d)(a_subject_id a := Some (a_to_state a))"
  shows "accounted_facts d'"
  using assms by (simp add: accounted_facts_def)

lemma accounted_facts_quiet:
  assumes "accounted_facts d" and "\<And>i. recorded ''fact'' i (audit_tbl d') = recorded ''fact'' i (audit_tbl d)"
    and "shown_fact d' = shown_fact d"
  shows "accounted_facts d'"
  using assms by (simp add: accounted_facts_def)

section \<open>Changes of promotions\<close>

lemma auto_promoted_mono: "set log \<subseteq> set log' \<Longrightarrow> auto_promoted log i \<Longrightarrow> auto_promoted log' i"
  by (auto simp: auto_promoted_def)

lemma accounted_promotions_quiet:
  assumes "accounted_promotions d" and "promotions_tbl d' = promotions_tbl d" and "set (audit_tbl d) \<subseteq> set (audit_tbl d')"
    and "\<And>i. recorded ''promotion'' i (audit_tbl d') = recorded ''promotion'' i (audit_tbl d)"
  shows "accounted_promotions d'"
  unfolding accounted_promotions_def
proof
  fix i
  have "shows_promotion d i (recorded ''promotion'' i (audit_tbl d))" using assms(1) by (simp add: accounted_promotions_def)
  then show "shows_promotion d' i (recorded ''promotion'' i (audit_tbl d'))"
    unfolding assms(4) shows_promotion_def assms(2)
    by (cases "promotion_at d i") (auto intro: auto_promoted_mono[OF assms(3)])
qed

lemma accounted_promotions_upd:
  assumes "accounted_promotions d" and "promotion_at d i = Some p" and "\<And>p. p_id (u p) = p_id p"
    and "promotions_tbl d' = tbl_upd p_id i u (promotions_tbl d)" and "set (audit_tbl d) \<subseteq> set (audit_tbl d')"
    and "\<And>j. j \<noteq> i \<Longrightarrow> recorded ''promotion'' j (audit_tbl d') = recorded ''promotion'' j (audit_tbl d)"
    and "shows_promotion d' i (recorded ''promotion'' i (audit_tbl d'))"
  shows "accounted_promotions d'"
  unfolding accounted_promotions_def
proof
  fix j
  show "shows_promotion d' j (recorded ''promotion'' j (audit_tbl d'))"
  proof (cases "j = i")
    case False
    have "shows_promotion d j (recorded ''promotion'' j (audit_tbl d))" using assms(1) by (simp add: accounted_promotions_def)
    then show ?thesis
      using False assms(6)[OF False] unfolding shows_promotion_def assms(4)
      by (cases "promotion_at d j") (auto simp: tbl_get_upd[of p_id u, OF assms(3)] intro: auto_promoted_mono[OF assms(5)])
  qed (simp add: assms(7))
qed

section \<open>The events of the service\<close>

lemma nullable_str [simp]:
  "nullable (status_str s) = Some (status_str s)" "nullable (state_str st) = Some (state_str st)"
  by (cases s; simp add: nullable_def) (cases st; simp add: nullable_def)

lemma event_rows [simp]:
  "a_subject_type (audit_row now e) = e_subject_type e" "a_subject_id (audit_row now e) = e_subject_id e"
  "a_to_state (audit_row now e) = nullable (e_to_state e)" "a_action (audit_row now e) = e_action e"
  by (simp_all add: audit_row_def)

lemma event_fields [simp]:
  "e_subject_type (superseded_event who c i) = ''fact''" "e_subject_id (superseded_event who c i) = c"
  "e_to_state (superseded_event who c i) = status_str StatusSuperseded"
  "e_subject_type (activated_event who i) = ''fact''" "e_subject_id (activated_event who i) = i"
  "e_to_state (activated_event who i) = status_str StatusActive"
  "e_subject_type (auto_promoted_event ap v i) = ''fact''" "e_subject_id (auto_promoted_event ap v i) = i"
  "e_to_state (auto_promoted_event ap v i) = status_str StatusActive"
  "e_action (auto_promoted_event ap v i) = ''fact.auto_promoted''"
  "e_subject_type (promotion_event who act i st det) = ''promotion''" "e_subject_id (promotion_event who act i st det) = i"
  "e_to_state (promotion_event who act i st det) = state_str st"
  "e_subject_type (proposed_event inp key p) = ''promotion''" "e_subject_id (proposed_event inp key p) = p_id p"
  "e_to_state (proposed_event inp key p) = state_str StatePending"
  "e_subject_type (expired_event i) = ''fact''" "e_subject_id (expired_event i) = i"
  "e_to_state (expired_event i) = status_str StatusExpired"
  by (simp_all add: superseded_event_def activated_event_def auto_promoted_event_def promotion_event_def
      proposed_event_def expired_event_def)

lemma engine_event: "has_prefix (a_principal (audit_row now (auto_promoted_event ap v i))) ''engine:''"
  by (simp add: audit_row_def auto_promoted_event_def has_prefix_def)

section \<open>Every operation keeps the account\<close>

definition accounted_for :: "db \<Rightarrow> bool" where
  "accounted_for d \<longleftrightarrow> accounted_facts d \<and> accounted_promotions d"

lemma accounted_conflict:
  assumes "accounted_facts d" and "conflict_ok d p f"
  shows "accounted_facts (conflict_effect now who p d)"
proof (cases "p_conflict_with p")
  case None
  then show ?thesis using assms(1) by (simp add: conflict_effect_def)
next
  case (Some c)
  then obtain g where g: "fact_at d c = Some g" "c \<noteq> p_fact_id p" using assms(2) by (auto simp: conflict_ok_def)
  let ?d1 = "upd_fact c (row_superseded now (p_fact_id p)) d"
  have "shown_fact (upd_fact (p_fact_id p) (row_supersedes now c) ?d1) = shown_fact ?d1"
    by (rule shown_upd_same) simp_all
  also have "\<dots> = (shown_fact d)(c := Some (Some (status_str StatusSuperseded)))"
    by (rule shown_upd_active[OF g(1)]) (simp_all add: was_active_def)
  finally have "shown_fact (conflict_effect now who p d) = (shown_fact d)(c := Some (Some (status_str StatusSuperseded)))"
    using Some by (simp add: conflict_effect_def supersede_effect_def del: status_str.simps)
  then show ?thesis
    using Some
    by (intro accounted_facts_log[OF assms(1), of _ "audit_row now (superseded_event who c (p_fact_id p))"])
      (simp_all add: conflict_effect_def del: status_str.simps)
qed

text \<open>Activating a fact, by people or by an engine, up to the promotion and the last event.\<close>

lemma accounted_activated:
  assumes "accounted_facts d" and "conflict_ok d p f" and "fact_at d (p_fact_id p) \<noteq> None"
    and u: "\<And>f. f_id (u f) = f_id f" "\<And>f. f_status (u f) = StatusActive"
    and a: "a_subject_type a = ''fact''" "a_subject_id a = p_fact_id p" "a_to_state a = Some (status_str StatusActive)"
    and d': "facts_tbl d' = facts_tbl (embed_effect sv (p_fact_id p) (upd_fact (p_fact_id p) u (conflict_effect now who p d)))"
      "audit_tbl d' = audit_tbl (conflict_effect now who p d) @ [a]"
  shows "accounted_facts d'"
proof -
  let ?d1 = "conflict_effect now who p d"
  obtain g where g: "fact_at ?d1 (p_fact_id p) = Some g" using conflict_effect_present[OF assms(3)] by blast
  have "shown_fact d' = shown_fact (upd_fact (p_fact_id p) u ?d1)" using shown_cong[OF d'(1)] by simp
  also have "\<dots> = (shown_fact ?d1)(p_fact_id p := Some (Some (status_str StatusActive)))"
    by (rule shown_upd_active[OF g u(1)]) (simp_all add: u(2) was_active_def)
  finally show ?thesis
    by (intro accounted_facts_log[OF accounted_conflict[OF assms(1,2)] d'(2) a(1)]) (simp add: a(2,3))
qed

lemma recorded_conflict [simp]:
  "recorded ''promotion'' i (audit_tbl (conflict_effect now who p d)) = recorded ''promotion'' i (audit_tbl d)"
  by (simp add: conflict_effect_def split: option.split)

lemma log_conflict: "set (audit_tbl d) \<subseteq> set (audit_tbl (conflict_effect now who p d))"
  by (auto simp: conflict_effect_def split: option.split)

lemma accounted_propose_effect:
  assumes "accounted_for d" and "propose_fits_with now nf np inp req c d"
  shows "accounted_for (propose_effect_with now nf np inp req c d)"
proof -
  let ?d = "propose_effect_with now nf np inp req c d"
  note ids = propose_fresh_ids[OF assms(2)]
  have a: "audit_tbl ?d = audit_tbl d @ [audit_row now (proposed_event inp (canonical_key (in_subject inp)) (pending_with now nf np inp req c))]"
    by (simp add: propose_effect_with_def Let_def)
  have "shown_fact ?d = shown_fact (ins_fact (draft_row now nf inp) d)" by (rule shown_cong) simp
  also have "\<dots> = shown_fact d" using ids(1) by (intro shown_ins) (simp_all add: was_active_def)
  finally have shown: "shown_fact ?d = shown_fact d" .
  have "recorded ''fact'' i (audit_tbl ?d) = recorded ''fact'' i (audit_tbl d)" for i unfolding a by simp
  with assms(1) shown have f: "accounted_facts ?d"
    unfolding accounted_for_def by (intro accounted_facts_quiet[of d ?d]) simp_all
  have other: "recorded ''promotion'' j (audit_tbl ?d) =
      (if j = np then Some (Some (state_str StatePending)) else recorded ''promotion'' j (audit_tbl d))" for j
    unfolding a by (simp del: state_str.simps)
  have "shows_promotion ?d j (recorded ''promotion'' j (audit_tbl ?d))" for j
  proof (cases "j = np")
    case True
    show ?thesis unfolding other True shows_promotion_def ids(4) by simp
  next
    case False
    then have at: "promotion_at ?d j = promotion_at d j" by (simp add: tbl_get_ins split: option.split)
    have log: "recorded ''promotion'' j (audit_tbl ?d) = recorded ''promotion'' j (audit_tbl d)" using False by (simp only: other if_False)
    have "shows_promotion d j (recorded ''promotion'' j (audit_tbl d))"
      using assms(1) by (simp add: accounted_for_def accounted_promotions_def)
    then show ?thesis
      unfolding log shows_promotion_def at
      by (cases "promotion_at d j") (auto simp only: option.case a set_append Un_iff intro: auto_promoted_mono[rotated])
  qed
  with f show ?thesis by (simp add: accounted_for_def accounted_promotions_def)
qed

lemma accounted_auto:
  assumes ac: "accounted_for d" and g: "governed d" and p: "promotion_at d (p_id q) = Some p"
    and q: "p_fact_id q = p_fact_id p" "p_conflict_with q = p_conflict_with p" and st: "p_state p = StatePending"
  shows "accounted_for (auto_effect sv now q ap v d)"
proof -
  let ?d = "auto_effect sv now q ap v d" and ?who = "''engine:'' @ ap_engine ap"
  obtain f where f: "fact_at d (p_fact_id p) = Some f" "conflict_ok d p f"
    using governed_paired[OF g p] by (auto simp: paired_def)
  have cq: "conflict_ok d q f" using f(2) q by (simp add: conflict_ok_def)
  have log: "audit_tbl ?d = audit_tbl (conflict_effect now ?who q d) @ [audit_row now (auto_promoted_event ap v (p_fact_id q))]"
    by (simp add: auto_effect_def)
  have "accounted_facts ?d"
    by (rule accounted_activated[OF _ cq _ _ _ _ _ _ _ log, where u = "row_activate_auto now" and sv = sv])
      (use ac f(1) q in \<open>simp_all add: accounted_for_def auto_effect_def nullable_def\<close>)
  moreover have "accounted_promotions ?d"
  proof (rule accounted_promotions_upd[of d "p_id q" p "row_reviewed now StateApproved (p_reviews q)"])
    show "set (audit_tbl d) \<subseteq> set (audit_tbl ?d)" unfolding log using log_conflict by fastforce
    have r: "recorded ''promotion'' j (audit_tbl ?d) = recorded ''promotion'' j (audit_tbl d)" for j unfolding log by simp
    then show "recorded ''promotion'' j (audit_tbl ?d) = recorded ''promotion'' j (audit_tbl d)" for j .
    have at: "promotion_at ?d (p_id q) = Some (row_reviewed now StateApproved (p_reviews q) p)"
      using p by (simp add: auto_effect_def tbl_get_upd)
    have "shows_promotion d (p_id q) (recorded ''promotion'' (p_id q) (audit_tbl d))"
      using ac by (simp add: accounted_for_def accounted_promotions_def)
    then have said: "recorded ''promotion'' (p_id q) (audit_tbl d) = Some (Some (state_str StatePending))"
      unfolding shows_promotion_def p option.case st by (simp only: promo_state.distinct simp_thms)
    have "auto_promoted (audit_tbl ?d) (p_fact_id p)"
      unfolding log by (simp add: auto_promoted_def q(1) nullable_def engine_event)
    with at said show "shows_promotion ?d (p_id q) (recorded ''promotion'' (p_id q) (audit_tbl ?d))"
      unfolding r shows_promotion_def at option.case by (simp add: row_reviewed_def)
  qed (use ac p in \<open>simp_all add: accounted_for_def auto_effect_def\<close>)
  ultimately show ?thesis by (simp add: accounted_for_def)
qed

lemma accounted_propose_rest:
  assumes ac: "accounted_for d" and g: "governed d" and e: "exec (propose_rest sv now nf np inp req apo c) d r d'"
    and k: "known_conflict inp c d" and "1 \<le> req"
  shows "accounted_for d'"
proof -
  have fits: "propose_fits_with now nf np inp req c d" using e by (simp add: exec_propose_rest)
  note ids = propose_fresh_ids[OF fits]
  note one = accounted_propose_effect[OF ac fits]
  show ?thesis
  proof (cases "auto_decision sv apo inp")
    case None
    then show ?thesis using e one by (simp add: exec_propose_rest Let_def)
  next
    case (Some av)
    have "accounted_for (auto_effect sv now (pending_with now nf np inp req c) (fst av) (snd av)
        (propose_effect_with now nf np inp req c d))"
      by (rule accounted_auto[OF one governed_propose_effect[OF g fits k assms(5)], of _ "pending_with now nf np inp req c"])
        (use ids(4) in simp_all)
    then show ?thesis using e Some by (cases av) (simp add: exec_propose_rest Let_def)
  qed
qed

text \<open>A review or an approval: the promotion's event comes last.\<close>

lemma accounted_reviewed:
  assumes ac: "accounted_promotions d" and p: "promotion_at d (p_id q) = Some p"
    and d': "promotions_tbl d' = tbl_upd p_id (p_id q) (row_reviewed now (p_state q) (p_reviews q)) (promotions_tbl d)"
      "audit_tbl d' = log @ [a]" and log: "set (audit_tbl d) \<subseteq> set log"
      "\<And>j. recorded ''promotion'' j log = recorded ''promotion'' j (audit_tbl d)"
    and a: "a_subject_type a = ''promotion''" "a_subject_id a = p_id q" "a_to_state a = Some (state_str (p_state q))"
  shows "accounted_promotions d'"
proof (rule accounted_promotions_upd[OF ac p _ d'(1)])
  show "set (audit_tbl d) \<subseteq> set (audit_tbl d')" using log(1) by (auto simp: d'(2))
  have r: "recorded ''promotion'' j (audit_tbl d') =
      (if j = p_id q then Some (Some (state_str (p_state q))) else recorded ''promotion'' j (audit_tbl d))" for j
    unfolding d'(2) by (simp add: a log(2))
  then show "recorded ''promotion'' j (audit_tbl d') = recorded ''promotion'' j (audit_tbl d)" if "j \<noteq> p_id q" for j
    using that by simp
  have "promotion_at d' (p_id q) = Some (row_reviewed now (p_state q) (p_reviews q) p)" using p by (simp add: d'(1) tbl_get_upd)
  then show "shows_promotion d' (p_id q) (recorded ''promotion'' (p_id q) (audit_tbl d'))"
    unfolding r by (simp add: shows_promotion_def row_reviewed_def)
qed simp

lemma accounted_approve_body:
  assumes ac: "accounted_for d" and g: "governed d" and e: "exec (approve_body sv now wall i who c) d r d'"
  shows "accounted_for d'"
proof -
  obtain p where p: "promotion_at d i = Some p" "r = decided wall who c p" and
    eff: "(if has_enough_approvals r
         then d' = reviewed_effect now r (approved_event who r) (activate_effect sv now r who d)
         else d' = reviewed_effect now r (approved_event who r) d)"
    using e unfolding exec_approve_body by (auto split: if_splits)
  have at: "promotion_at d (p_id r) = Some p" using p tbl_get_Some[OF p(1)] by simp
  obtain f where f: "fact_at d (p_fact_id r) = Some f" "conflict_ok d p f"
    using governed_paired[OF g p(1)] p(2) by (auto simp: paired_def)
  have cr: "conflict_ok d r f" using f(2) p(2) by (simp add: conflict_ok_def)
  let ?e = "audit_row now (approved_event who r)"
  show ?thesis
  proof (cases "has_enough_approvals r")
    case True
    let ?da = "activate_effect sv now r who d"
    let ?a = "audit_row now (activated_event who (p_fact_id r))"
    have d': "d' = reviewed_effect now r (approved_event who r) ?da" using eff True by simp
    have log: "audit_tbl ?da = audit_tbl (conflict_effect now who r d) @ [?a]" by (simp add: activate_effect_def)
    have "accounted_facts ?da"
      by (rule accounted_activated[OF _ cr _ _ _ _ _ _ _ log, where u = "row_activate now (approvers r)" and sv = sv])
        (use ac f(1) in \<open>simp_all add: accounted_for_def activate_effect_def nullable_def\<close>)
    then have "accounted_facts d'"
      by (rule accounted_facts_quiet) (simp_all add: d' reviewed_effect_def approved_event_def)
    moreover have "accounted_promotions d'"
      by (rule accounted_reviewed[OF _ at, where now = now and log = "audit_tbl ?da" and a = ?e])
        (use ac in \<open>auto simp: d' log reviewed_effect_def approved_event_def accounted_for_def intro: subsetD[OF log_conflict]\<close>)
    ultimately show ?thesis by (simp add: accounted_for_def)
  next
    case False
    then have d': "d' = reviewed_effect now r (approved_event who r) d" using eff by simp
    have "accounted_facts d'"
      using ac unfolding accounted_for_def
      by (elim conjE, intro accounted_facts_quiet[of d d']) (simp_all add: d' reviewed_effect_def approved_event_def)
    moreover have "accounted_promotions d'"
      by (rule accounted_reviewed[OF _ at, where now = now and log = "audit_tbl d" and a = ?e])
        (use ac in \<open>auto simp: d' reviewed_effect_def approved_event_def accounted_for_def\<close>)
    ultimately show ?thesis by (simp add: accounted_for_def)
  qed
qed

lemma accounted_bounced:
  assumes ac: "accounted_for d" and g: "governed d" and p: "promotion_at d (p_id q) = Some p"
    and open': "p_state p \<noteq> StateApproved" "p_state p \<noteq> StateRejected" and q: "p_fact_id q = p_fact_id p"
    and to: "bounce_pair (p_state q) to"
    and ev: "e_subject_type ev = ''promotion''" "e_subject_id ev = p_id q" "e_to_state ev = state_str (p_state q)"
  shows "accounted_for (bounced_effect now q to ev d)"
proof -
  let ?d = "bounced_effect now q to ev d"
  obtain f where f: "fact_at d (p_fact_id p) = Some f" "state_matches p f"
    using governed_paired[OF g p] by (auto simp: paired_def)
  have st: "\<not> was_active (f_status f)"
    using f(2) open' by (cases "p_state p") (auto simp: state_matches_def was_active_def)
  have "shown_fact ?d = shown_fact (upd_promotion (p_id q) (row_reviewed now (p_state q) (p_reviews q)) d)"
    unfolding bounced_effect_def shown_others(1)
    by (rule shown_upd_same) (use f(1) st to q in \<open>auto simp: bounce_pair_def was_active_def\<close>)
  then have "accounted_facts ?d"
    using ac unfolding accounted_for_def
    by (elim conjE, intro accounted_facts_quiet[of d ?d]) (simp_all add: bounced_effect_def ev)
  moreover have "accounted_promotions ?d"
    by (rule accounted_reviewed[OF _ p, where now = now and log = "audit_tbl d" and a = "audit_row now ev"])
      (use ac in \<open>auto simp: bounced_effect_def ev accounted_for_def\<close>)
  ultimately show ?thesis by (simp add: accounted_for_def)
qed

lemma accounted_review_body:
  assumes "accounted_for d" and "governed d" and "exec (review_body now wall i who dec c to fact_to act) d r d'"
    and "bounce_pair to fact_to"
  shows "accounted_for d'"
proof -
  obtain p where p: "promotion_at d i = Some p" "reviewable p" "r = with_review wall who dec c to p"
    "d' = bounced_effect now r fact_to (promotion_event who act i to []) d"
    using assms(3) unfolding exec_review_body by blast
  show ?thesis
    unfolding p(4) by (rule accounted_bounced[OF assms(1,2), of r p])
      (use p tbl_get_Some[OF p(1)] assms(4) in \<open>auto simp: reviewable_def\<close>)
qed

lemma accounted_transition_body:
  assumes "accounted_for d" and "governed d" and "exec (transition_body now i who mutate fact_to act) d r d'"
    and mut: "\<And>p q. mutate p = Inr q \<Longrightarrow> (p_state p = StatePending \<or> p_state p = StateChangesRequested) \<and>
      q = p\<lparr>p_state := to\<rparr>"
    and "bounce_pair to fact_to"
  shows "accounted_for d'"
proof -
  have m: "\<And>p q. mutate p = Inr q \<Longrightarrow> p_id q = p_id p" using mut by force
  obtain p where p: "promotion_at d i = Some p" "mutate p = Inr r"
    "d' = bounced_effect now r fact_to (promotion_event who act i (p_state r) []) d"
    using assms(3) exec_transition_body[OF m] by blast
  show ?thesis
    unfolding p(3) by (rule accounted_bounced[OF assms(1,2), of r p])
      (use mut[OF p(2)] tbl_get_Some[OF p(1)] p(1) assms(5) in auto)
qed

lemma accounted_submit:
  "accounted_for d \<Longrightarrow> governed d \<Longrightarrow> exec (transition_body now i who (submit_mutate who) StatusInReview act) d r d' \<Longrightarrow>
     accounted_for d'"
  by (erule (2) accounted_transition_body[where to = StateInReview]) (auto simp: mutate_Inr bounce_pair_def)

lemma accounted_withdraw:
  "accounted_for d \<Longrightarrow> governed d \<Longrightarrow> exec (transition_body now i who (withdraw_mutate who) StatusRejected act) d r d' \<Longrightarrow>
     accounted_for d'"
  by (erule (2) accounted_transition_body[where to = StateRejected]) (auto simp: mutate_Inr bounce_pair_def)

text \<open>A status set with its event, in one go.\<close>

lemma accounted_set:
  assumes "accounted_for d" and "fact_at d i = Some f" and "was_active s" and "e_subject_type ev = ''fact''"
    and "e_subject_id ev = i" and "e_to_state ev = status_str s"
  shows "accounted_for (log_event (audit_row now ev) (upd_fact i (row_status now' s) d))"
proof -
  let ?d = "log_event (audit_row now ev) (upd_fact i (row_status now' s) d)"
  have "shown_fact ?d = (shown_fact d)(i := Some (Some (status_str s)))"
    using shown_upd_active[OF assms(2), of "row_status now' s" s] assms(3) by simp
  then have "accounted_facts ?d"
    using assms by (intro accounted_facts_log[of d ?d "audit_row now ev"]) (simp_all add: accounted_for_def)
  moreover have "accounted_promotions ?d"
    using assms(1,4) unfolding accounted_for_def
    by (elim conjE, intro accounted_promotions_quiet[of d ?d]) auto
  ultimately show ?thesis by (simp add: accounted_for_def)
qed

lemma accounted_revoke_body: "accounted_for d \<Longrightarrow> exec (revoke_body now i v who) d a d' \<Longrightarrow> accounted_for d'"
  unfolding exec_revoke_body revocable_def
  by (cases "fact_at d i") (auto intro!: accounted_set simp: was_active_def)

lemma accounted_reap_loop:
  "exec (reap_loop now is) d a d' \<Longrightarrow> accounted_for d \<Longrightarrow> (\<And>i. i \<in> set is \<Longrightarrow> fact_at d i \<noteq> None) \<Longrightarrow> accounted_for d'"
proof (induction "is" arbitrary: d)
  case Nil
  then show ?case by (simp add: sql_exec)
next
  case (Cons i "is")
  then have rest: "exec (reap_loop now is) (expire_one now i d) a d'"
    by (auto simp: sql_exec sql_safe update_facts_id_Inr expire_one_def)
  obtain f where "fact_at d i = Some f" using Cons.prems(3)[of i] by auto
  then have "accounted_for (expire_one now i d)"
    unfolding expire_one_def by (intro accounted_set[OF Cons.prems(2)]) (simp_all add: was_active_def)
  moreover have "fact_at (expire_one now i d) j \<noteq> None" if "j \<in> set is" for j
    using Cons.prems(3)[of j] that by (auto simp: expire_one_def tbl_get_upd)
  ultimately show ?case using Cons.IH[OF rest] by simp
qed

lemma accounted_reap_body:
  assumes "accounted_for d" and "exec (reap_body now plan) d r d'" and "mset (plan (facts_tbl d)) = mset (facts_tbl d)"
  shows "accounted_for d'"
proof -
  let ?ids = "map f_id (filter (due now) (plan (facts_tbl d)))"
  have l: "exec (reap_loop now ?ids) d () d'" using assms(2) by (auto simp: reap_body_def sql_exec sql_safe)
  have "fact_at d i \<noteq> None" if "i \<in> set ?ids" for i
    using that mset_eq_setD[OF assms(3)] by (auto simp: tbl_get_None)
  then show ?thesis by (rule accounted_reap_loop[OF l assms(1)])
qed

lemma accounted_same:
  assumes "accounted_for d" and "audit_tbl d' = audit_tbl d" and "facts_tbl d' = facts_tbl d" and "promotions_tbl d' = promotions_tbl d"
  shows "accounted_for d'"
proof -
  have "accounted_facts d'"
    using assms(1) shown_cong[OF assms(3)] by (simp add: accounted_for_def accounted_facts_def assms(2))
  moreover have "accounted_promotions d'"
    using assms(1) by (intro accounted_promotions_quiet[of d d']) (simp_all add: accounted_for_def assms(2,4))
  ultimately show ?thesis by (simp add: accounted_for_def)
qed

lemma accounted_embed:
  assumes "accounted_for d"
  shows "accounted_for (snd (run (on_pool (set_embedding i v)) fs d))"
proof -
  let ?d = "snd (run (on_pool (set_embedding i v)) fs d)"
  consider "?d = d" | "?d = upd_fact i (row_embed v) d"
    using on_pool_stmt_snd[of "update_facts (\<lambda>f. f_id f = i) (row_embed v)" fs d]
    by (auto simp: set_embedding_def update_facts_id_Inr)
  then show ?thesis
  proof cases
    case 2
    have "shown_fact (upd_fact i (row_embed v) d) = shown_fact d" by (rule shown_upd_same) simp_all
    then have "accounted_facts (upd_fact i (row_embed v) d)"
      using assms unfolding accounted_for_def by (elim conjE, intro accounted_facts_quiet[of d "upd_fact i (row_embed v) d"]) simp_all
    moreover have "accounted_promotions (upd_fact i (row_embed v) d)"
      using assms by (intro accounted_promotions_quiet[of d "upd_fact i (row_embed v) d"]) (simp_all add: accounted_for_def)
    ultimately show ?thesis by (simp add: 2 accounted_for_def)
  qed (use assms in simp)
qed

lemma accounted_edit:
  assumes "accounted_for d"
  shows "accounted_for (snd (run (on_pool (update_statement now i s)) fs d))"
proof -
  let ?d = "snd (run (on_pool (update_statement now i s)) fs d)" and ?u = "upd_promotion i (row_statement now s) d"
  consider "?d = d" | "?d = ?u"
    using on_pool_stmt_snd[of "update_promotions i (row_statement now s)" fs d]
    by (auto simp: update_statement_def update_promotions_Inr)
  then show ?thesis
  proof cases
    case 2
    have "shows_promotion ?u j r = shows_promotion d j r" for j r
      by (cases "j = i"; cases "promotion_at d j") (simp_all add: shows_promotion_def tbl_get_upd row_statement_def del: state_str.simps)
    then have "accounted_for ?u"
      using assms by (simp add: accounted_for_def accounted_facts_def accounted_promotions_def)
    then show ?thesis by (simp add: 2)
  qed (use assms in simp)
qed

lemma accounted_step:
  assumes ac: "accounted_for d" and g: "governed d" and st: "sys_step sv d x d'"
  shows "accounted_for d'"
proof -
  obtain fs where d': "d' = op_run sv x fs d" and ok: "op_ok x" and
    plan: "\<And>now plan t. x = OpReap now plan \<Longrightarrow> mset (plan t) = mset t"
    using st by (auto elim: sys_stepE)
  show ?thesis
  proof (cases x)
    case (OpPropose now nf np inp req apo)
    have req: "1 \<le> req" using ok OpPropose by simp
    have "accounted_for d''" if "exec (propose_tx sv now nf np inp req apo) d r d''" for r d''
      by (rule accounted_propose_rest[OF ac g that[unfolded exec_propose_conflict] known_conflicting[OF governed_schema[OF g]] req])
    then show ?thesis
      by - (rule in_tx_snd[of "propose_tx sv now nf np inp req apo" d d' accounted_for fs],
        use ac in \<open>auto simp: d' OpPropose intro: sql_safe\<close>)
  next
    case (OpApprove now wall i who c)
    show ?thesis
      by (rule in_tx_snd[of "approve_body sv now wall i who c" d d' accounted_for fs])
        (use ac accounted_approve_body[OF ac g] in \<open>auto simp: d' OpApprove approve_def intro: sql_safe\<close>)
  next
    case (OpReject now wall i who c)
    show ?thesis
      by (rule in_tx_snd[of "review_body now wall i who DecisionReject c StateRejected StatusRejected ''promotion.rejected''"
            d d' accounted_for fs])
        (use ac accounted_review_body[OF ac g] in \<open>auto simp: d' OpReject reject_def bounce_pair_def intro: sql_safe\<close>)
  next
    case (OpRequestChanges now wall i who c)
    show ?thesis
      by (rule in_tx_snd[of "review_body now wall i who DecisionRequestChanges c StateChangesRequested
            StatusProposed ''promotion.changes_requested''" d d' accounted_for fs])
        (use ac accounted_review_body[OF ac g] in
          \<open>auto simp: d' OpRequestChanges request_changes_no_edit bounce_pair_def intro: sql_safe\<close>)
  next
    case (OpEditStatement now i s)
    then show ?thesis using accounted_edit[OF ac] by (simp add: d')
  next
    case (OpSubmit now i who)
    show ?thesis
      by (rule in_tx_snd[of "transition_body now i who (submit_mutate who) StatusInReview ''promotion.submitted''"
            d d' accounted_for fs])
        (use ac accounted_submit[OF ac g] in \<open>auto simp: d' OpSubmit submit_def intro: sql_safe\<close>)
  next
    case (OpWithdraw now i who)
    show ?thesis
      by (rule in_tx_snd[of "transition_body now i who (withdraw_mutate who) StatusRejected ''promotion.withdrawn''"
            d d' accounted_for fs])
        (use ac accounted_withdraw[OF ac g] in \<open>auto simp: d' OpWithdraw withdraw_def intro: sql_safe\<close>)
  next
    case (OpRevoke now i v who)
    show ?thesis
      by (rule in_tx_snd[of "revoke_body now i v who" d d' accounted_for fs])
        (use ac accounted_revoke_body[OF ac] in \<open>auto simp: d' OpRevoke revoke_fact_def intro: sql_safe\<close>)
  next
    case (OpReap now plan)
    show ?thesis
      by (rule in_tx_snd[of "reap_body now plan" d d' accounted_for fs])
        (use ac plan OpReap in \<open>auto simp: d' reap_def intro: accounted_reap_body sql_safe\<close>)
  next
    case (OpEmbed i v)
    then show ?thesis using accounted_embed[OF ac] by (simp add: d')
  next
    case (OpCreateNamespace now new ns)
    then show ?thesis using accounted_same[OF ac] namespace_step d' by blast
  next
    case (OpUpdatePolicy i p)
    then show ?thesis using accounted_same[OF ac] namespace_step d' by blast
  next
    case (OpGrant who ns role)
    then show ?thesis using accounted_same[OF ac] membership_step d' by blast
  next
    case (OpRevokeGrant who ns role)
    then show ?thesis using accounted_same[OF ac] membership_step d' by blast
  qed
qed

lemma reachable_accounted: "reachable sv d \<Longrightarrow> accounted_for d"
proof (induction rule: reachable.induct)
  case init
  show ?case
    by (simp add: accounted_for_def accounted_facts_def accounted_promotions_def shown_fact_def shows_promotion_def
        empty_db_def tbl_get_def)
next
  case (next_op d x d')
  then show ?case using accounted_step reachable_governed by blast
qed

section \<open>No change without its event\<close>

lemma recorded_new:
  assumes "prefix log log'" and "recorded ty i log' = Some x" and "recorded ty i log \<noteq> Some x"
  shows "\<exists>a \<in> set (drop (length log) log'). a_subject_type a = ty \<and> a_subject_id a = i \<and> a_to_state a = x"
proof -
  obtain new where log': "log' = log @ new" using assms(1) by (auto elim: prefixE)
  have "recorded ty i (log @ new) = Some x \<Longrightarrow>
      \<exists>a \<in> set new. a_subject_type a = ty \<and> a_subject_id a = i \<and> a_to_state a = x"
  proof (induction new rule: rev_induct)
    case (snoc a new)
    then show ?case by (auto simp: append_assoc[symmetric] simp del: append_assoc split: if_splits)
  qed (use assms(3) in simp)
  then show ?thesis using assms(2) by (simp add: log')
qed

lemma str_inject [simp]: "status_str s = status_str t \<longleftrightarrow> s = t" "state_str x = state_str y \<longleftrightarrow> x = y"
  by (cases s; cases t; simp) (cases x; cases y; simp)

text \<open>An accounted state that was not there before has its event among the new ones.\<close>

lemma fact_change_recorded:
  assumes "accounted_for d" and "accounted_for d'" and "prefix (audit_tbl d) (audit_tbl d')"
    and "fact_at d' i = Some f" and "was_active (f_status f)" and "map_option f_status (fact_at d i) \<noteq> Some (f_status f)"
  shows "\<exists>a \<in> set (drop (length (audit_tbl d)) (audit_tbl d')).
    a_subject_type a = ''fact'' \<and> a_subject_id a = i \<and> a_to_state a = Some (status_str (f_status f))"
proof (rule recorded_new[OF assms(3)])
  show "recorded ''fact'' i (audit_tbl d') = Some (Some (status_str (f_status f)))"
    using assms(2,4,5) by (simp add: accounted_for_def accounted_facts_def shown_fact_def)
  show "recorded ''fact'' i (audit_tbl d) \<noteq> Some (Some (status_str (f_status f)))"
    using assms(1,6) by (cases "fact_at d i") (simp_all add: accounted_for_def accounted_facts_def shown_fact_def)
qed

lemma promotion_unrecorded:
  assumes "accounted_for d" and "progress d d'" and "promotion_at d' i = Some q"
    and "map_option p_state (promotion_at d i) \<noteq> Some (p_state q)"
  shows "recorded ''promotion'' i (audit_tbl d) \<noteq> Some (Some (state_str (p_state q)))"
proof -
  have p: "shows_promotion d i (recorded ''promotion'' i (audit_tbl d))"
    using assms(1) by (simp add: accounted_for_def accounted_promotions_def)
  show ?thesis
  proof (cases "promotion_at d i")
    case None
    then show ?thesis using p by (simp add: shows_promotion_def)
  next
    case (Some q0)
    have "final q0 q" using assms(2,3) Some unfolding progress_def rows_kept_def by fastforce
    then have "p_state q0 \<noteq> StateApproved" using assms(4) Some by (auto simp: final_def)
    then show ?thesis using p assms(4) Some by (auto simp: shows_promotion_def simp del: state_str.simps)
  qed
qed

lemma promotion_change_recorded:
  assumes "accounted_for d" and "accounted_for d'" and "progress d d'" and "prefix (audit_tbl d) (audit_tbl d')"
    and "promotion_at d' i = Some q" and "map_option p_state (promotion_at d i) \<noteq> Some (p_state q)"
  shows "(\<exists>a \<in> set (drop (length (audit_tbl d)) (audit_tbl d')).
      a_subject_type a = ''promotion'' \<and> a_subject_id a = i \<and> a_to_state a = Some (state_str (p_state q))) \<or>
    p_state q = StateApproved \<and> auto_promoted (audit_tbl d') (p_fact_id q)"
proof (cases "recorded ''promotion'' i (audit_tbl d') = Some (Some (state_str (p_state q)))")
  case True
  from recorded_new[OF assms(4) this promotion_unrecorded[OF assms(1,3,5,6)]] show ?thesis by blast
next
  case False
  have "shows_promotion d' i (recorded ''promotion'' i (audit_tbl d'))"
    using assms(2) by (simp add: accounted_for_def accounted_promotions_def)
  then show ?thesis using False assms(5) by (simp add: shows_promotion_def del: state_str.simps)
qed

lemma recorded_none: "recorded ty i log = None \<longleftrightarrow> (\<forall>a \<in> set log. \<not> (a_subject_type a = ty \<and> a_subject_id a = i))"
  by (auto simp: recorded_def find_None_iff)

text \<open>The fact of a promotion that has still to be decided has no event: it has never been active.\<close>

lemma undecided_fact_unrecorded:
  assumes "accounted_for d" and g: "governed d" "governed d'" and pr: "progress d d'"
    and q: "promotion_at d' i = Some q" "map_option p_state (promotion_at d i) \<noteq> Some (p_state q)"
  shows "recorded ''fact'' (p_fact_id q) (audit_tbl d) = None"
proof -
  have "shown_fact d (p_fact_id q) = None"
  proof (cases "fact_at d (p_fact_id q)")
    case (Some f)
    then have "p_fact_id q \<in> set (map p_fact_id (promotions_tbl d))"
      using g(1) tbl_get_Some[OF Some] by (force simp: governed_def)
    then obtain p where p: "p \<in> set (promotions_tbl d)" "p_fact_id p = p_fact_id q" by auto
    have at: "promotion_at d (p_id p) = Some p"
      by (rule tbl_get_in[OF _ p(1)]) (use governed_schema[OF g(1)] in \<open>simp add: schema_ok_def promotions_ok_def\<close>)
    have "rows_kept promotion_fixed p_id (promotions_tbl d) (promotions_tbl d')"
      "rows_kept final p_id (promotions_tbl d) (promotions_tbl d')"
      using pr by (simp_all add: progress_def evolves_def)
    then obtain q' where q': "promotion_at d' (p_id p) = Some q'" "promotion_fixed p q'" "final p q'"
      using at unfolding rows_kept_def by (metis option.inject)
    have "distinct (map p_fact_id (promotions_tbl d'))" using g(2) by (simp add: governed_def)
    moreover have "p_fact_id q' = p_fact_id q" using q'(2) p(2) by (simp add: promotion_fixed_def)
    ultimately have "q' = q"
      using tbl_get_Some[OF q'(1)] tbl_get_Some[OF q(1)] distinct_map_inj[of p_fact_id "promotions_tbl d'" q' q] by simp
    then have i: "p_id p = i" using tbl_get_Some[OF q'(1)] tbl_get_Some[OF q(1)] by simp
    then have "p_state p \<noteq> StateApproved" using q(2) at q'(3) \<open>q' = q\<close> by (auto simp: final_def)
    moreover have "paired d p" using g(1) at by (simp add: governed_def)
    ultimately have "\<not> was_active (f_status f)"
      using Some p(2) by (cases "p_state p") (auto simp: paired_def state_matches_def was_active_def)
    then show ?thesis using Some by (simp add: shown_fact_def)
  qed (simp add: shown_fact_def)
  then show ?thesis using assms(1) by (simp add: accounted_for_def accounted_facts_def)
qed

lemma engine_event_new:
  assumes "prefix log log'" and "recorded ''fact'' i log = None" and "auto_promoted log' i"
  shows "auto_promoted (drop (length log) log') i"
proof -
  obtain new where log': "log' = log @ new" using assms(1) by (auto elim: prefixE)
  then show ?thesis using assms(2,3) by (auto simp: recorded_none auto_promoted_def)
qed

text \<open>
  C25. The audit trail accounts for every state. In every reachable store the last event about a fact names the
  status the fact has, once it has been active, and there is no event about a fact before; the last event
  about a promotion names its state, with one exception: that of a promotion an engine approved still says
  pending, and the trail has the engine's event about its fact instead. So along any number of steps no fact
  enters a status beyond its review without an event in between that says so, and no promotion changes its
  state without an event in between, its own or, if an engine approved it, the engine's about its fact.
\<close>

theorem every_change_audited:
  assumes "reachable sv d" and "later sv d d'"
  shows "(\<forall>i. recorded ''fact'' i (audit_tbl d') = shown_fact d' i) \<and>
    (\<forall>i. shows_promotion d' i (recorded ''promotion'' i (audit_tbl d'))) \<and>
    (\<forall>i f. fact_at d' i = Some f \<longrightarrow> was_active (f_status f) \<longrightarrow> map_option f_status (fact_at d i) \<noteq> Some (f_status f) \<longrightarrow>
       (\<exists>a \<in> set (drop (length (audit_tbl d)) (audit_tbl d')).
          a_subject_type a = ''fact'' \<and> a_subject_id a = i \<and> a_to_state a = Some (status_str (f_status f)))) \<and>
    (\<forall>i p. promotion_at d' i = Some p \<longrightarrow> map_option p_state (promotion_at d i) \<noteq> Some (p_state p) \<longrightarrow>
       (\<exists>a \<in> set (drop (length (audit_tbl d)) (audit_tbl d')).
          a_subject_type a = ''promotion'' \<and> a_subject_id a = i \<and> a_to_state a = Some (state_str (p_state p))) \<or>
       p_state p = StateApproved \<and> auto_promoted (drop (length (audit_tbl d)) (audit_tbl d')) (p_fact_id p))"
proof -
  have acc: "accounted_for d" "accounted_for d'"
    using reachable_accounted assms(1) reachable_later[OF assms(2,1)] by blast+
  then have now: "recorded ''fact'' i (audit_tbl d') = shown_fact d' i"
    "shows_promotion d' i (recorded ''promotion'' i (audit_tbl d'))" for i
    by (simp_all add: accounted_for_def accounted_facts_def accounted_promotions_def)
  have gov: "governed d" "governed d'"
    using reachable_governed assms(1) reachable_later[OF assms(2,1)] by blast+
  have pr: "progress d d'" by (rule later_progress[OF assms(2) gov(1)])
  then have log: "prefix (audit_tbl d) (audit_tbl d')" by (simp add: progress_def evolves_def)
  show ?thesis
    using now fact_change_recorded[OF acc log] promotion_change_recorded[OF acc pr log]
      engine_event_new[OF log undecided_fact_unrecorded[OF acc(1) gov pr]] by blast
qed

text \<open>The step of the sample history that replaces a revoked fact by the one proposed against it.\<close>

theorem every_change_audited_witness:
  "(\<exists>a \<in> set (drop (length (audit_tbl db_revoked)) (audit_tbl db_replaced)).
       a_subject_type a = ''fact'' \<and> a_subject_id a = 10 \<and> a_to_state a = Some (status_str StatusSuperseded)) \<and>
   (\<exists>a \<in> set (drop (length (audit_tbl db_revoked)) (audit_tbl db_replaced)).
       a_subject_type a = ''fact'' \<and> a_subject_id a = 11 \<and> a_to_state a = Some (status_str StatusActive))"
proof -
  have at: "fact_at db_replaced 10 = Some (row_superseded 6 11 revoked_a)"
    "fact_at db_replaced 11 = Some (row_activate 6 [''bob''] (row_supersedes 6 10 row_b))"
    by (simp_all add: tbl_get_def db_replaced_facts)
  note changed = every_change_audited[OF db_revoked_reachable later_one[OF step_replaced], THEN conjunct2, THEN conjunct2,
    THEN conjunct1, rule_format]
  from changed[OF at(1)] changed[OF at(2)] show ?thesis by (simp add: tbl_get_def was_active_def del: status_str.simps)
qed

end
