(* ===== verification/Process.thy ===== *)
theory Process
  imports Sql
begin

text \<open>
  A process around the store: it runs programs, opens and closes resources, and ends by returning from
  \<^verbatim>\<open>main\<close> or by \<^verbatim>\<open>os.Exit\<close>, which skips the deferred calls. What it does besides the store is a trace of
  happenings. \<open>replay\<close> follows the resources a trace opens and closes, as a stack.
\<close>

section \<open>Processes\<close>

datatype 'a ending = Returned 'a | Exited nat

datatype ('r, 'e) happening = Opened 'r | Closed 'r | Happened 'e

type_synonym ('db, 'r, 'e, 'a) proc = "('db, 'a ending \<times> ('r, 'e) happening list) sql"

definition return_p :: "'a \<Rightarrow> ('db, 'r, 'e, 'a) proc" where
  "return_p a = return_sql (Returned a, [])"

definition exit_p :: "nat \<Rightarrow> ('db, 'r, 'e, 'a) proc" where
  "exit_p n = return_sql (Exited n, [])"

definition emit :: "('r, 'e) happening \<Rightarrow> ('db, 'r, 'e, unit) proc" where
  "emit h = return_sql (Returned (), [h])"

definition bind_p ::
    "('db, 'r, 'e, 'a) proc \<Rightarrow> ('a \<Rightarrow> ('db, 'r, 'e, 'b) proc) \<Rightarrow> ('db, 'r, 'e, 'b) proc" where
  "bind_p m k = bind_sql m (\<lambda>(r, hs). case r of
       Exited n \<Rightarrow> return_sql (Exited n, hs)
     | Returned a \<Rightarrow> bind_sql (k a) (\<lambda>(r', hs'). return_sql (r', hs @ hs')))"

text \<open>A program on the store, its error a value.\<close>

definition lift_p :: "('db, 'a) sql \<Rightarrow> ('db, 'r, 'e, error + 'a) proc" where
  "lift_p m = bind_sql (attempt m) (\<lambda>r. return_sql (Returned r, []))"

text \<open>\<^verbatim>\<open>defer r.Close()\<close> in the function that goes on with \<open>m\<close>.\<close>

definition deferring :: "'r \<Rightarrow> ('db, 'r, 'e, 'a) proc \<Rightarrow> ('db, 'r, 'e, 'a) proc" where
  "deferring r m = bind_sql m (\<lambda>(e, hs). return_sql (e, hs @
     (case e of Returned _ \<Rightarrow> [Closed r] | Exited _ \<Rightarrow> [])))"

text \<open>The laws of sequencing.\<close>

lemma bind_p_return: "bind_p (return_p a) k = k a"
  by (rule ext) (simp add: bind_p_def bind_sql_def return_p_def return_sql_def split: prod.split sum.split)

lemma bind_p_exit: "bind_p (exit_p n) k = exit_p n"
  by (rule ext) (simp add: bind_p_def bind_sql_def exit_p_def return_sql_def)

lemma bind_p_assoc: "bind_p (bind_p m k) l = bind_p m (\<lambda>a. bind_p (k a) l)"
  by (rule ext) (simp add: bind_p_def bind_sql_def return_sql_def split: prod.split sum.split ending.split)

lemma bind_p_sum: "bind_p (case r of Inl e \<Rightarrow> f e | Inr a \<Rightarrow> g a) k = (case r of Inl e \<Rightarrow> bind_p (f e) k | Inr a \<Rightarrow> bind_p (g a) k)"
  by (cases r) simp_all

section \<open>Resources\<close>

fun replay :: "'r list \<Rightarrow> ('r, 'e) happening list \<Rightarrow> 'r list option" where
  "replay st [] = Some st"
| "replay st (Opened r # hs) = replay (r # st) hs"
| "replay st (Closed r # hs) =
     (case st of [] \<Rightarrow> None | r' # st' \<Rightarrow> if r' = r then replay st' hs else None)"
| "replay st (Happened e # hs) = replay st hs"

lemma replay_append: "replay st (hs @ hs') = (case replay st hs of None \<Rightarrow> None | Some st' \<Rightarrow> replay st' hs')"
  by (induction st hs rule: replay.induct) (auto split: list.split option.split)

text \<open>
  \<open>uses rs m rest\<close>: called while the resources \<open>rs\<close> are its own, \<open>m\<close> comes to an end whatever fails; when it
  returns, what it leaves open is \<open>rest\<close> of its value; when it exits, it may have left anything open but has
  closed nothing twice. What was open before \<open>rs\<close> is never touched.
\<close>

definition accounted :: "'r list \<Rightarrow> ('a \<Rightarrow> 'r list) \<Rightarrow> 'a ending \<Rightarrow> ('r, 'e) happening list \<Rightarrow> bool" where
  "accounted rs rest e hs \<longleftrightarrow> (case e of
     Returned a \<Rightarrow> (\<forall>st. replay (rs @ st) hs = Some (rest a @ st))
   | Exited _ \<Rightarrow> (\<exists>st'. \<forall>st. replay (rs @ st) hs = Some (st' @ st)))"

definition uses :: "'r list \<Rightarrow> ('db, 'r, 'e, 'a) proc \<Rightarrow> ('a \<Rightarrow> 'r list) \<Rightarrow> bool" where
  "uses rs m rest \<longleftrightarrow> (\<forall>s. \<exists>e hs s'. m s = (Inr (e, hs), s') \<and> accounted rs rest e hs)"

named_theorems resources
  \<comment> \<open>rules that account for the resources of a process by the shape of its code\<close>

lemma uses_return [resources]: "rest a = rs \<Longrightarrow> uses rs (return_p a) rest"
  by (simp add: uses_def return_p_def return_sql_def accounted_def)

lemma uses_exit [resources]: "uses rs (exit_p n) rest"
  by (simp add: uses_def exit_p_def return_sql_def accounted_def)

lemma uses_emit [resources]:
  "uses rs (emit (Happened e)) (\<lambda>_. rs)"
  "uses rs (emit (Opened r)) (\<lambda>_. r # rs)"
  "uses (r # rs) (emit (Closed r)) (\<lambda>_. rs)"
  by (simp_all add: uses_def emit_def return_sql_def accounted_def)

lemma uses_lift [resources]: "uses rs (lift_p m) (\<lambda>_. rs)"
  by (auto simp: uses_def lift_p_def bind_sql_def attempt_def return_sql_def accounted_def split: prod.split)

lemma accounted_append:
  assumes "accounted rs mid (Returned a) hs" and "accounted (mid a) rest e hs'"
  shows "accounted rs rest e (hs @ hs')"
  using assms by (cases e) (simp_all add: accounted_def replay_append)

lemma uses_bind [resources]:
  assumes "uses rs m mid" and "\<And>a. uses (mid a) (k a) rest"
  shows "uses rs (bind_p m k) rest"
  unfolding uses_def
proof
  fix s
  obtain e hs s1 where m: "m s = (Inr (e, hs), s1)" "accounted rs mid e hs" using assms(1) unfolding uses_def by blast
  show "\<exists>e hs s'. bind_p m k s = (Inr (e, hs), s') \<and> accounted rs rest e hs"
  proof (cases e)
    case (Exited n)
    then show ?thesis using m by (simp add: bind_p_def bind_sql_def return_sql_def accounted_def)
  next
    case (Returned a)
    obtain e' hs' s' where k: "k a s1 = (Inr (e', hs'), s')" "accounted (mid a) rest e' hs'"
      using assms(2) unfolding uses_def by blast
    then show ?thesis
      using m Returned accounted_append[OF m(2)[unfolded Returned] k(2)]
      by (simp add: bind_p_def bind_sql_def return_sql_def)
  qed
qed

lemma uses_deferring [resources]:
  assumes "uses rs m (\<lambda>a. r # rest a)"
  shows "uses rs (deferring r m) rest"
  unfolding uses_def
proof
  fix s
  obtain e hs s' where m: "m s = (Inr (e, hs), s')" "accounted rs (\<lambda>a. r # rest a) e hs"
    using assms unfolding uses_def by blast
  then have "accounted rs rest e (hs @ (case e of Returned _ \<Rightarrow> [Closed r] | Exited _ \<Rightarrow> []))"
    by (cases e) (simp_all add: accounted_def replay_append)
  then show "\<exists>e hs s'. deferring r m s = (Inr (e, hs), s') \<and> accounted rs rest e hs"
    using m by (simp add: deferring_def bind_sql_def return_sql_def)
qed

lemma uses_if [resources]:
  "(b \<Longrightarrow> uses rs m rest) \<Longrightarrow> (\<not> b \<Longrightarrow> uses rs m' rest) \<Longrightarrow> uses rs (if b then m else m') rest"
  by simp

lemma uses_sum [resources]:
  "(\<And>e. r = Inl e \<Longrightarrow> uses rs (f e) rest) \<Longrightarrow> (\<And>a. r = Inr a \<Longrightarrow> uses rs (g a) rest) \<Longrightarrow>
     uses rs (case r of Inl e \<Rightarrow> f e | Inr a \<Rightarrow> g a) rest"
  by (cases r) simp_all

lemma uses_option [resources]:
  "(r = None \<Longrightarrow> uses rs m rest) \<Longrightarrow> (\<And>a. r = Some a \<Longrightarrow> uses rs (g a) rest) \<Longrightarrow>
     uses rs (case r of None \<Rightarrow> m | Some a \<Rightarrow> g a) rest"
  by (cases r) simp_all

lemma uses_run:
  assumes "uses [] m (\<lambda>_. [])"
  shows "\<exists>e hs d'. run m fs d = (Inr (e, hs), d') \<and> (\<exists>st. replay [] hs = Some st) \<and>
     (\<forall>a. e = Returned a \<longrightarrow> replay [] hs = Some [])"
proof -
  obtain e hs s' where m: "m \<lparr>store = d, aborted = False, faults = fs\<rparr> = (Inr (e, hs), s')" "accounted [] (\<lambda>_. []) e hs"
    using assms unfolding uses_def by blast
  have "(\<exists>st. replay [] hs = Some st) \<and> (\<forall>a. e = Returned a \<longrightarrow> replay [] hs = Some [])"
  proof (cases e)
    case (Returned a)
    then have "replay ([] @ []) hs = Some ([] @ [])" using m(2) unfolding accounted_def by (simp only: ending.case)
    then show ?thesis by simp
  next
    case (Exited n)
    then obtain st' where "replay ([] @ []) hs = Some (st' @ [])" using m(2) unfolding accounted_def by (simp only: ending.case) blast
    then show ?thesis using Exited by simp
  qed
  then show ?thesis using m(1) by (simp add: run_def)
qed

section \<open>Running\<close>

text \<open>The trace of a process run from a store under faults, for each way a process is put together.\<close>

lemma run_return_p [simp]: "run (return_p a) fs d = (Inr (Returned a, []), d)"
  by (simp add: return_p_def run_def return_sql_def)

lemma run_exit_p [simp]: "run (exit_p n) fs d = (Inr (Exited n, []), d)"
  by (simp add: exit_p_def run_def return_sql_def)

lemma run_emit_bind [simp]:
  "run (bind_p (emit h) k) fs d =
     (case run (k ()) fs d of (r, d') \<Rightarrow> (map_sum id (\<lambda>(e, hs). (e, h # hs)) r, d'))"
  by (simp add: run_def bind_p_def bind_sql_def emit_def return_sql_def split: prod.split sum.split)

lemma run_return_bind [simp]: "run (bind_p (return_p a) k) fs d = run (k a) fs d"
  by (simp add: run_def bind_p_def bind_sql_def return_p_def return_sql_def split: prod.split sum.split)

lemma run_deferring [simp]:
  "run (deferring r m) fs d = (case run m fs d of (x, d') \<Rightarrow>
     (map_sum id (\<lambda>(e, hs). (e, hs @ (case e of Returned _ \<Rightarrow> [Closed r] | Exited _ \<Rightarrow> []))) x, d'))"
  by (simp add: run_def deferring_def bind_sql_def return_sql_def split: prod.split sum.split)

text \<open>A process that uses the store once and then only decides how to end.\<close>

lemma run_lift_bind:
  assumes "\<And>r. k r = return_p (a r) \<or> k r = exit_p (n r)"
  shows "run (bind_p (lift_p m) k) fs d = (case run m fs d of (r, d') \<Rightarrow> run (k r) [] d')"
proof -
  have "k r s = (Inr (if k r = return_p (a r) then Returned (a r) else Exited (n r), []), s)" for r s
    using assms[of r] by (auto simp: return_p_def exit_p_def return_sql_def)
  then show ?thesis
    by (simp add: run_def bind_p_def bind_sql_def lift_p_def attempt_def return_sql_def split: prod.split)
qed

end
