(* ===== verification/Store.thy ===== *)
theory Store
  imports Process Prelude
begin

text \<open>
  The connection pool and the migration runner (\<^verbatim>\<open>internal/store\<close>), as processes that open and close
  resources. Which calls of the driver and of goose fail is the argument \<open>fails\<close>; the tables a migration
  creates are those of \<open>Schema\<close>. \<open>LErr\<close> stands for the text of an error.
\<close>

section \<open>What the processes of the repository hold and reach\<close>

datatype resource =
    SignalContext
  | MigrationConn string
  | ConnPool string
  | MeterProvider
  | TestContainer
  | TestDatabase string
  | TestConn
  | TestTx
  | TestServer
  | ResponseBody

datatype outside_call =
    SetDialect
  | OpenMigrations string
  | MigrateUp string
  | NewPool string
  | PingPool string
  | CreateInstrument string
  | RegisterCallback
  | RunStdio
  | ListenOn string
  | RunContainer
  | ConnectionString
  | AcquireConn
  | BeginTx
  | CreateDatabase string
  | NewRequest
  | SendRequest

datatype log_stream = Stdout | Stderr

datatype log_value = LText string | LNat nat | LBool bool | LErr

record log_line =
  ll_stream :: log_stream
  ll_level :: int
  ll_msg :: string
  ll_attrs :: "(string \<times> log_value) list"

datatype 's milestone =
    Migrated string
  | Logged log_line
  | Printed log_stream string
  | ServingStdio principal_id 's
  | ServingHttp string bool 's
  | ShuttingDown

type_synonym ('db, 's, 'a) job = "('db, resource, 's milestone, 'a) proc"

datatype store_error = DialectError | OpenForMigrateError | MigrateUpError | NewPoolError | PingError

section \<open>Open, Close, Migrate\<close>

definition open_store :: "(outside_call \<Rightarrow> bool) \<Rightarrow> string \<Rightarrow> ('db, 's, store_error + unit) job" where
  "open_store fails url =
     (if fails (NewPool url) then return_p (Inl NewPoolError)
      else bind_p (emit (Opened (ConnPool url))) (\<lambda>_.
        if fails (PingPool url)
        then bind_p (emit (Closed (ConnPool url))) (\<lambda>_. return_p (Inl PingError))
        else return_p (Inr ())))"

definition close_store :: "string \<Rightarrow> ('db, 's, unit) job" where
  "close_store url = emit (Closed (ConnPool url))"

definition migrate :: "(outside_call \<Rightarrow> bool) \<Rightarrow> string \<Rightarrow> ('db, 's, store_error + unit) job" where
  "migrate fails url =
     (if fails SetDialect then return_p (Inl DialectError)
      else if fails (OpenMigrations url) then return_p (Inl OpenForMigrateError)
      else bind_p (emit (Opened (MigrationConn url))) (\<lambda>_. deferring (MigrationConn url)
        (if fails (MigrateUp url) then return_p (Inl MigrateUpError)
         else bind_p (emit (Happened (Migrated url))) (\<lambda>_. return_p (Inr ())))))"

section \<open>What they leave open\<close>

text \<open>A store is open exactly when \<^verbatim>\<open>Open\<close> has succeeded; a migration leaves no connection.\<close>

lemma uses_open_store [resources]:
  "uses rs (open_store fails url) (\<lambda>r. case r of Inl _ \<Rightarrow> rs | Inr _ \<Rightarrow> ConnPool url # rs)"
  unfolding open_store_def by (rule resources | simp)+

lemma uses_close_store [resources]: "uses (ConnPool url # rs) (close_store url) (\<lambda>_. rs)"
  unfolding close_store_def by (intro resources)

lemma uses_migrate [resources]: "uses rs (migrate fails url) (\<lambda>_. rs)"
  unfolding migrate_def by (rule resources | simp)+

text \<open>How they end: without an error only when no call failed, and then the schema is up to date.\<close>

lemma run_migrate:
  "run (migrate fails url) fs d = (Inr (if fails SetDialect then (Returned (Inl DialectError), [])
     else if fails (OpenMigrations url) then (Returned (Inl OpenForMigrateError), [])
     else if fails (MigrateUp url)
       then (Returned (Inl MigrateUpError), [Opened (MigrationConn url), Closed (MigrationConn url)])
     else (Returned (Inr ()), [Opened (MigrationConn url), Happened (Migrated url), Closed (MigrationConn url)])), d)"
  by (simp add: migrate_def)

lemma run_open_store:
  "run (open_store fails url) fs d = (Inr (if fails (NewPool url) then (Returned (Inl NewPoolError), [])
     else if fails (PingPool url)
       then (Returned (Inl PingError), [Opened (ConnPool url), Closed (ConnPool url)])
     else (Returned (Inr ()), [Opened (ConnPool url)])), d)"
  by (simp add: open_store_def)

end
