(* ===== verification/Logging.thy ===== *)
theory Logging
  imports Store
begin

text \<open>
  The structured log of the service process (\<^verbatim>\<open>internal/platform/log.go\<close>): a logger with its output stream and
  lowest level, and what a process writes with it. A line keeps its level, message and attributes; its JSON
  encoding, the time it carries and the text of an error are left out.
\<close>

section \<open>Loggers\<close>

text \<open>The levels of \<^verbatim>\<open>slog\<close> are numbers, higher for what is worse.\<close>

definition level_info :: int where "level_info = 0"
definition level_error :: int where "level_error = 8"

record logger =
  lg_stream :: log_stream
  lg_level :: int

definition new_logger :: logger where
  "new_logger = \<lparr>lg_stream = Stderr, lg_level = level_info\<rparr>"

definition log_at :: "logger \<Rightarrow> int \<Rightarrow> string \<Rightarrow> (string \<times> log_value) list \<Rightarrow> ('db, 's, unit) job" where
  "log_at lg level msg attrs =
     (if level < lg_level lg then return_p ()
      else emit (Happened (Logged \<lparr>ll_stream = lg_stream lg, ll_level = level, ll_msg = msg, ll_attrs = attrs\<rparr>)))"

definition log_info :: "string \<Rightarrow> (string \<times> log_value) list \<Rightarrow> ('db, 's, unit) job" where
  "log_info = log_at new_logger level_info"

definition log_error :: "string \<Rightarrow> (string \<times> log_value) list \<Rightarrow> ('db, 's, unit) job" where
  "log_error = log_at new_logger level_error"

text \<open>\<^verbatim>\<open>log.Error(msg, "err", err); os.Exit(1)\<close>.\<close>

definition die :: "string \<Rightarrow> log_value \<Rightarrow> ('db, 's, 'a) job" where
  "die msg why = bind_p (log_error msg [(''err'', why)]) (\<lambda>_. exit_p 1)"

abbreviation error_line :: "string \<Rightarrow> log_value \<Rightarrow> log_line" where
  "error_line msg why \<equiv> \<lparr>ll_stream = Stderr, ll_level = level_error, ll_msg = msg, ll_attrs = [(''err'', why)]\<rparr>"

abbreviation info_line :: "string \<Rightarrow> (string \<times> log_value) list \<Rightarrow> log_line" where
  "info_line msg attrs \<equiv> \<lparr>ll_stream = Stderr, ll_level = level_info, ll_msg = msg, ll_attrs = attrs\<rparr>"

text \<open>Nothing the service logs is below the level of its logger.\<close>

lemma log_emits:
  "log_info msg attrs = emit (Happened (Logged (info_line msg attrs)))"
  "log_error msg attrs = emit (Happened (Logged \<lparr>ll_stream = Stderr, ll_level = level_error, ll_msg = msg, ll_attrs = attrs\<rparr>))"
  by (simp_all add: log_info_def log_error_def log_at_def new_logger_def level_info_def level_error_def)

lemma die_emits: "die msg why = bind_p (emit (Happened (Logged (error_line msg why)))) (\<lambda>_. exit_p 1)"
  by (simp add: die_def log_emits)

lemma run_emit [simp]: "run (emit h) fs d = (Inr (Returned (), [h]), d)"
  by (simp add: run_def emit_def return_sql_def)

lemma run_die [simp]: "run (die msg why) fs d = (Inr (Exited 1, [Happened (Logged (error_line msg why))]), d)"
  by (simp add: die_emits)

lemma uses_log [resources]: "uses rs (log_info msg attrs) (\<lambda>_. rs)" "uses rs (log_error msg attrs) (\<lambda>_. rs)"
  unfolding log_emits by (rule resources)+

lemma uses_last [resources]:
  "rest () = rs \<Longrightarrow> uses rs (emit (Happened x)) rest" "rest () = rs \<Longrightarrow> uses rs (log_info msg attrs) rest"
  by (simp_all add: log_emits uses_def emit_def return_sql_def accounted_def)

lemma uses_die [resources]: "uses rs (die msg why) rest"
  unfolding die_def by (rule resources)+

section \<open>No silent exit, and a clean standard output\<close>

text \<open>
  A trace explains its end when everything logged went to the standard error, so that the standard output
  carries only what the mode itself puts there, and an exit comes right after a line of level error.
\<close>

definition explained :: "'a ending \<Rightarrow> (resource, 's milestone) happening list \<Rightarrow> bool" where
  "explained e hs \<longleftrightarrow> (\<forall>l. Happened (Logged l) \<in> set hs \<longrightarrow> ll_stream l = Stderr) \<and>
     (case e of Returned _ \<Rightarrow> True
      | Exited n \<Rightarrow> n = 1 \<and> (\<exists>before l. hs = before @ [Happened (Logged l)] \<and> ll_level l = level_error))"

definition explains :: "('db, 's, 'a) job \<Rightarrow> bool" where
  "explains m \<longleftrightarrow> (\<forall>s e hs s'. m s = (Inr (e, hs), s') \<longrightarrow> explained e hs)"

lemma explainsD: "explains m \<Longrightarrow> m s = (Inr (e, hs), s') \<Longrightarrow> explained e hs"
  unfolding explains_def by blast

named_theorems explaining
  \<comment> \<open>rules by which a process explains its end, by the shape of its code\<close>

lemma explains_return [explaining]: "explains (return_p a)"
  by (simp add: explains_def return_p_def return_sql_def explained_def)

lemma explains_emit [explaining]:
  "explains (emit (Opened r))" "explains (emit (Closed r))" "(\<And>l. x \<noteq> Logged l) \<Longrightarrow> explains (emit (Happened x))"
  by (simp_all add: explains_def emit_def return_sql_def explained_def) metis

lemma explains_log [explaining]: "explains (log_info msg attrs)" "explains (log_error msg attrs)"
  by (simp_all add: log_emits explains_def emit_def return_sql_def explained_def)

lemma explains_die [explaining]: "explains (die msg why)"
  by (simp add: die_emits explains_def emit_def exit_p_def bind_p_def bind_sql_def return_sql_def explained_def)

lemma explains_lift [explaining]: "explains (lift_p m)"
  by (auto simp: explains_def lift_p_def bind_sql_def attempt_def return_sql_def explained_def split: prod.splits)

lemma explained_append: "explained (Returned a) hs \<Longrightarrow> explained e hs' \<Longrightarrow> explained e (hs @ hs')"
  by (cases e) (auto simp: explained_def)

lemma explains_bind [explaining]:
  assumes m: "explains m" and k: "\<And>a. explains (k a)"
  shows "explains (bind_p m k)"
  unfolding explains_def
proof (intro allI impI)
  fix s e hs s' assume b: "bind_p m k s = (Inr (e, hs), s')"
  obtain r s1 where r: "m s = (r, s1)" by (cases "m s")
  with b obtain e1 hs1 where r1: "r = Inr (e1, hs1)" by (cases r) (auto simp: bind_p_def bind_sql_def)
  have x: "explained e1 hs1" by (rule explainsD[OF m r[unfolded r1]])
  show "explained e hs"
  proof (cases e1)
    case (Exited n)
    then show ?thesis using b r r1 x by (auto simp: bind_p_def bind_sql_def return_sql_def explained_def)
  next
    case (Returned a)
    then obtain hs2 where "k a s1 = (Inr (e, hs2), s')" "hs = hs1 @ hs2"
      using b r r1 by (auto simp: bind_p_def bind_sql_def return_sql_def split: prod.splits sum.splits)
    then show ?thesis using explained_append[OF x[unfolded Returned] explainsD[OF k]] by simp
  qed
qed

lemma explains_deferring [explaining]:
  assumes "explains m"
  shows "explains (deferring r m)"
  unfolding explains_def
proof (intro allI impI)
  fix s e hs s' assume b: "deferring r m s = (Inr (e, hs), s')"
  then obtain hs1 where "m s = (Inr (e, hs1), s')" "hs = hs1 @ (case e of Returned _ \<Rightarrow> [Closed r] | Exited _ \<Rightarrow> [])"
    by (auto simp: deferring_def bind_sql_def return_sql_def split: prod.splits sum.splits)
  then show "explained e hs" using explainsD[OF assms, of s e hs1 s'] by (cases e) (auto simp: explained_def)
qed

lemma explains_cases [explaining]:
  "(b \<Longrightarrow> explains m) \<Longrightarrow> (\<not> b \<Longrightarrow> explains m') \<Longrightarrow> explains (if b then m else m')"
  "(\<And>e. explains (f e)) \<Longrightarrow> (\<And>a. explains (g a)) \<Longrightarrow> explains (case r of Inl e \<Rightarrow> f e | Inr a \<Rightarrow> g a)"
  "explains j \<Longrightarrow> (\<And>a. explains (h a)) \<Longrightarrow> explains (case q of None \<Rightarrow> j | Some a \<Rightarrow> h a)"
  by (auto split: sum.split option.split)

end
