(* ===== verification/Startup.thy ===== *)
theory Startup
  imports Config Logging
begin

text \<open>
  The service process (\<^verbatim>\<open>cmd/baseline/main.go\<close>) from its configuration to its end: migrating and opening the
  store, the one-off modes (reap, embedding backfill), telemetry (\<^verbatim>\<open>internal/platform/otel.go\<close>) and the two
  ways of serving, with what is deferred and what \<^verbatim>\<open>os.Exit\<close> skips. Which outside calls fail is the argument
  \<open>fails\<close>. The store \<open>main_program\<close> runs on is the one the migrations leave. A release build replaces
  \<open>service_version\<close>.
\<close>

section \<open>Telemetry\<close>

definition setup_otel :: "('db, 's, unit) job" where
  "setup_otel = emit (Opened MeterProvider)"

text \<open>\<^verbatim>\<open>Shutdown\<close> of a handle that may be missing.\<close>

definition shutdown_otel :: "bool \<Rightarrow> ('db, 's, unit) job" where
  "shutdown_otel present = (if present then emit (Closed MeterProvider) else return_p ())"

text \<open>A handler with the spans it ends; the middleware wraps each request in one.\<close>

type_synonym handler = "request \<Rightarrow> (db, response \<times> string list) sql"

definition span_name :: "request \<Rightarrow> string" where
  "span_name rq = rq_method rq @ '' '' @ concat (map (\<lambda>seg. CHR ''/'' # seg) (rq_path rq))"

definition span_middleware :: "handler \<Rightarrow> handler" where
  "span_middleware nxt rq = bind_sql (nxt rq) (\<lambda>(r, spans). return_sql (r, spans @ [span_name rq]))"

text \<open>The router inside the registered middleware, the first registered outermost.\<close>

definition rest_handler :: "server \<Rightarrow> world \<Rightarrow> (handler \<Rightarrow> handler) list \<Rightarrow> handler" where
  "rest_handler s w mws =
     foldr (\<lambda>mw h. mw h) mws (\<lambda>rq. bind_sql (serve s w rq) (\<lambda>r. return_sql (r, [])))"

text \<open>The top-level mux: \<^verbatim>\<open>/mcp\<close> and what is below it, when enabled, and the REST API.\<close>

definition top_handler :: "bool \<Rightarrow> handler \<Rightarrow> handler \<Rightarrow> handler" where
  "top_handler mcp_http mcp rest rq =
     (if mcp_http \<and> rq_path rq \<noteq> [] \<and> hd (rq_path rq) = ''mcp'' then mcp rq else rest rq)"

section \<open>Main\<close>

definition service_version :: string where
  "service_version = ''dev''"

text \<open>The result of a program on the store is logged; its error ends the process.\<close>

definition log_result ::
    "string \<Rightarrow> string \<Rightarrow> ('a \<Rightarrow> (string \<times> log_value) list) \<Rightarrow> ('db, 'a) sql \<Rightarrow> ('db, 's, unit) job" where
  "log_result failure success attrs m =
     bind_p (lift_p m) (\<lambda>r. case r of Inl e \<Rightarrow> die failure LErr | Inr a \<Rightarrow> log_info success (attrs a))"

text \<open>One reap pass, and one pass over the facts without an embedding.\<close>

definition reap_mode :: "timestamp \<Rightarrow> (fact_row list \<Rightarrow> fact_row list) \<Rightarrow> (db, 's, unit) job" where
  "reap_mode now plan =
     log_result ''reap'' ''reap complete''
       (\<lambda>res. [(''expired'', LNat (rr_expired res)), (''expiring_24h'', LNat (rr_expiring_soon res))]) (reap now plan)"

definition backfill_mode :: "embed_client option \<Rightarrow> (fact_row list \<Rightarrow> fact_row list) \<Rightarrow> (db, 's, unit) job" where
  "backfill_mode emb plan =
     (case emb of
        None \<Rightarrow> die ''embed backfill'' (LText ''EMBEDDER_URL not configured'')
      | Some c \<Rightarrow> log_result ''embed backfill'' ''embed backfill complete''
          (\<lambda>res. [(''scanned'', LNat (scanned res)), (''embedded'', LNat (embedded res)), (''failed'', LNat (failed res))])
          (backfill_embeddings plan (embed c)))"

text \<open>The two ways of serving the application, until the server ends.\<close>

definition serve_stdio :: "(outside_call \<Rightarrow> bool) \<Rightarrow> environment \<Rightarrow> server \<Rightarrow> (db, server, unit) job" where
  "serve_stdio fails env app =
     (let principal = env ''BASELINE_MCP_PRINCIPAL'' in
      bind_p (log_info ''serving MCP over stdio'' [(''principal'', LText principal)])
      (\<lambda>_. bind_p (emit (Happened (ServingStdio principal app)))
      (\<lambda>_. if fails RunStdio then die ''mcp serve'' LErr else return_p ())))"

definition serve_http :: "(outside_call \<Rightarrow> bool) \<Rightarrow> environment \<Rightarrow> config \<Rightarrow> server \<Rightarrow> (db, server, unit) job" where
  "serve_http fails env cfg app =
     (let mcp_http = env ''BASELINE_MCP_HTTP'' = ''true'' in
      bind_p (log_info ''listening'' [(''version'', LText service_version), (''addr'', LText (cf_addr cfg)),
         (''memory_source'', LText (cf_memory_source cfg)), (''mcp_http'', LBool mcp_http)])
      (\<lambda>_. bind_p (emit (Happened (ServingHttp (cf_addr cfg) mcp_http app)))
      (\<lambda>_. if fails (ListenOn (cf_addr cfg)) then die ''serve'' LErr
           else bind_p (log_info ''shutting down'' []) (\<lambda>_. emit (Happened ShuttingDown)))))"

text \<open>After telemetry is set up: the metrics, then one of the two servers.\<close>

definition serve_modes ::
    "outside \<Rightarrow> (outside_call \<Rightarrow> bool) \<Rightarrow> environment \<Rightarrow> config \<Rightarrow> (db, server, unit) job" where
  "serve_modes out fails env cfg =
     (case new_metrics (\<lambda>n. fails (CreateInstrument n)) (fails RegisterCallback) True of
        Inl e \<Rightarrow> die ''metrics'' LErr
      | Inr mx \<Rightarrow>
          (let app = build_app out cfg in
           if env ''BASELINE_MCP_STDIO'' = ''true'' then serve_stdio fails env app
           else serve_http fails env cfg app))"

text \<open>What runs once the store is open.\<close>

definition chosen_mode ::
    "outside \<Rightarrow> (outside_call \<Rightarrow> bool) \<Rightarrow> environment \<Rightarrow> timestamp \<Rightarrow> (fact_row list \<Rightarrow> fact_row list) \<Rightarrow> config
      \<Rightarrow> (db, server, unit) job" where
  "chosen_mode out fails env now plan cfg =
     (if env ''BASELINE_REAP'' = ''true'' then reap_mode now plan
      else if env ''BASELINE_EMBED_BACKFILL'' = ''true'' then backfill_mode (build_embedder out cfg) plan
      else bind_p setup_otel (\<lambda>_. deferring MeterProvider (serve_modes out fails env cfg)))"

definition main_program ::
    "outside \<Rightarrow> (outside_call \<Rightarrow> bool) \<Rightarrow> environment \<Rightarrow> timestamp \<Rightarrow> (fact_row list \<Rightarrow> fact_row list)
      \<Rightarrow> (db, server, unit) job" where
  "main_program out fails env now plan =
     (case load_config env of
        Inl e \<Rightarrow> die ''config'' LErr
      | Inr cfg \<Rightarrow>
          bind_p (emit (Opened SignalContext)) (\<lambda>_. deferring SignalContext
          (bind_p (migrate fails (cf_database_url cfg)) (\<lambda>r. case r of Inl e \<Rightarrow> die ''migrate'' LErr | Inr _ \<Rightarrow>
           bind_p (open_store fails (cf_database_url cfg)) (\<lambda>r. case r of Inl e \<Rightarrow> die ''store open'' LErr | Inr _ \<Rightarrow>
           deferring (ConnPool (cf_database_url cfg))
           (chosen_mode out fails env now plan cfg))))))"

section \<open>Resources and traces\<close>

lemma uses_log_result [resources]: "rest () = rs \<Longrightarrow> uses rs (log_result failure success attrs m) rest"
  unfolding log_result_def log_emits die_emits by (rule resources | simp)+

lemma uses_modes [resources]:
  "rest () = rs \<Longrightarrow> uses rs (reap_mode now plan) rest"
  "rest () = rs \<Longrightarrow> uses rs (backfill_mode emb plan) rest"
  "rest () = rs \<Longrightarrow> uses rs (serve_stdio fails env app) rest"
  "rest () = rs \<Longrightarrow> uses rs (serve_http fails env cfg app) rest"
  unfolding reap_mode_def backfill_mode_def serve_stdio_def serve_http_def Let_def log_emits die_emits
  by (rule resources | simp)+

lemma uses_serve_modes [resources]: "rest () = rs \<Longrightarrow> uses rs (serve_modes out fails env cfg) rest"
  unfolding serve_modes_def Let_def by (rule resources | simp)+

lemma uses_chosen_mode [resources]: "rest () = rs \<Longrightarrow> uses rs (chosen_mode out fails env now plan cfg) rest"
  unfolding chosen_mode_def setup_otel_def by (rule resources | simp)+

lemma uses_main: "uses [] (main_program out fails env now plan) (\<lambda>_. [])"
  unfolding main_program_def by (rule resources | simp)+

lemma explains_main: "explains (main_program out fails env now plan)"
  unfolding main_program_def chosen_mode_def reap_mode_def backfill_mode_def log_result_def serve_modes_def serve_stdio_def
    serve_http_def setup_otel_def migrate_def open_store_def Let_def
  by (intro explaining) simp_all

fun served :: "server milestone \<Rightarrow> server option" where
  "served (ServingStdio _ app) = Some app"
| "served (ServingHttp _ _ app) = Some app"
| "served _ = None"

definition serves :: "(resource, server milestone) happening list \<Rightarrow> bool" where
  "serves hs \<longleftrightarrow> (\<exists>sv. Happened sv \<in> set hs \<and> served sv \<noteq> None)"

lemma serves_simps [simp]:
  "serves [] = False" "serves (Opened r # hs) = serves hs" "serves (Closed r # hs) = serves hs"
  "serves (Happened sv # hs) \<longleftrightarrow> served sv \<noteq> None \<or> serves hs" "serves (hs @ hs') \<longleftrightarrow> serves hs \<or> serves hs'"
  by (auto simp: serves_def)

text \<open>The trace of a start that has come as far as an open store.\<close>

definition ready :: "string \<Rightarrow> (resource, server milestone) happening list" where
  "ready url = [Opened SignalContext, Opened (MigrationConn url), Happened (Migrated url),
     Closed (MigrationConn url), Opened (ConnPool url)]"

lemma ready_simps [simp]:
  "\<not> serves (ready url)" "replay [] (ready url) = Some [ConnPool url, SignalContext]"
  "Happened (Migrated url) \<in> set (ready url)"
  by (simp_all add: ready_def)

definition db_reached :: "(outside_call \<Rightarrow> bool) \<Rightarrow> string \<Rightarrow> bool" where
  "db_reached fails url \<longleftrightarrow> \<not> fails SetDialect \<and> \<not> fails (OpenMigrations url) \<and> \<not> fails (MigrateUp url) \<and>
     \<not> fails (NewPool url) \<and> \<not> fails (PingPool url)"

lemma run_bind_settled:
  assumes "m = return_sql (e, hs)"
  shows "run (bind_p m k) fs d = (case e of
     Exited n \<Rightarrow> (Inr (Exited n, hs), d)
   | Returned a \<Rightarrow> (case run (k a) fs d of (r, d') \<Rightarrow> (map_sum id (\<lambda>(e, hs'). (e, hs @ hs')) r, d')))"
  unfolding assms by (simp add: run_def bind_p_def bind_sql_def return_sql_def split: ending.split prod.split sum.split)

lemmas settled = migrate_def open_store_def emit_def return_p_def exit_p_def deferring_def bind_p_def bind_sql_def return_sql_def

lemma migrate_settled:
  "\<not> fails SetDialect \<Longrightarrow> \<not> fails (OpenMigrations url) \<Longrightarrow> \<not> fails (MigrateUp url) \<Longrightarrow>
     migrate fails url = return_sql (Returned (Inr ()), [Opened (MigrationConn url), Happened (Migrated url), Closed (MigrationConn url)])"
  by (rule ext) (simp add: settled)

lemma open_store_settled:
  "\<not> fails (NewPool url) \<Longrightarrow> \<not> fails (PingPool url) \<Longrightarrow>
     open_store fails url = return_sql (Returned (Inr ()), [Opened (ConnPool url)])"
  by (rule ext) (simp add: settled)

text \<open>A start that does not reach the store exits with 1; one that does runs the chosen mode and then its deferred calls.\<close>

lemma run_main_early:
  assumes "case load_config env of Inl e \<Rightarrow> True | Inr cfg \<Rightarrow> \<not> db_reached fails (cf_database_url cfg)"
  shows "\<exists>hs. run (main_program out fails env now plan) fs d = (Inr (Exited 1, hs), d) \<and> \<not> serves hs"
proof (cases "load_config env")
  case (Inl e)
  then show ?thesis by (simp add: main_program_def)
next
  case (Inr cfg)
  then show ?thesis
    using assms
    by (auto simp: db_reached_def main_program_def run_def settled die_emits)
qed

lemma run_main_mode:
  assumes "load_config env = Inr cfg" and "db_reached fails (cf_database_url cfg)"
  shows "run (main_program out fails env now plan) fs d =
    (case run (chosen_mode out fails env now plan cfg) fs d of (r, d') \<Rightarrow>
       (map_sum id (\<lambda>(e, hs). (e, ready (cf_database_url cfg) @ hs @
          (case e of Returned _ \<Rightarrow> [Closed (ConnPool (cf_database_url cfg)), Closed SignalContext] | Exited _ \<Rightarrow> []))) r, d'))"
proof -
  have m: "migrate fails (cf_database_url cfg) = return_sql (Returned (Inr ()),
      [Opened (MigrationConn (cf_database_url cfg)), Happened (Migrated (cf_database_url cfg)), Closed (MigrationConn (cf_database_url cfg))])"
    and o: "open_store fails (cf_database_url cfg) = return_sql (Returned (Inr ()), [Opened (ConnPool (cf_database_url cfg))])"
    using assms(2) by (simp_all add: db_reached_def migrate_settled open_store_settled)
  show ?thesis
    unfolding main_program_def assms(1) sum.case
    by (cases "run (chosen_mode out fails env now plan cfg) fs d"; cases "fst (run (chosen_mode out fails env now plan cfg) fs d)")
      (auto simp: run_bind_settled[OF m] run_bind_settled[OF o] ready_def split: ending.split)
qed


text \<open>The modes that do one piece of work and end.\<close>

definition one_off :: "environment \<Rightarrow> bool" where
  "one_off env \<longleftrightarrow> env ''BASELINE_REAP'' = ''true'' \<or> env ''BASELINE_EMBED_BACKFILL'' = ''true''"

lemma run_log_result:
  "run (log_result failure success attrs m) fs d = (case run m fs d of (r, d') \<Rightarrow>
     (Inr (case r of
        Inl e \<Rightarrow> (Exited 1, [Happened (Logged (error_line failure LErr))])
      | Inr a \<Rightarrow> (Returned (), [Happened (Logged (info_line success (attrs a)))])), d'))"
  by (simp add: log_result_def die_emits log_emits lift_p_def bind_p_def bind_sql_def attempt_def return_sql_def emit_def
      exit_p_def run_def split: prod.split sum.split)

lemma run_one_off:
  assumes "one_off env"
  shows "\<exists>e hs d'. run (chosen_mode out fails env now plan cfg) fs d = (Inr (e, hs), d') \<and>
    (e = Returned () \<or> e = Exited 1) \<and> \<not> serves hs"
proof -
  have w: "\<exists>e hs d'. run (log_result failure success attrs m) fs d = (Inr (e, hs), d') \<and>
      (e = Returned () \<or> e = Exited 1) \<and> \<not> serves hs" for failure success attrs and m :: "(db, 'a) sql"
    by (cases "run m fs d"; cases "fst (run m fs d)") (simp_all add: run_log_result)
  have x: "\<exists>e hs d'. run (die msg why) fs d = (Inr (e, hs), d') \<and> (e = Returned () \<or> e = Exited 1) \<and> \<not> serves hs"
    for msg why by simp
  show ?thesis
  proof (cases "env ''BASELINE_REAP'' = ''true''")
    case True
    then show ?thesis by (simp only: chosen_mode_def reap_mode_def refl if_True w)
  next
    case False
    then have b: "env ''BASELINE_EMBED_BACKFILL'' = ''true''" using assms by (simp add: one_off_def)
    show ?thesis
      by (cases "build_embedder out cfg")
        (simp_all only: chosen_mode_def backfill_mode_def False b refl if_True if_False option.case w x)
  qed
qed

definition instrumented :: "(outside_call \<Rightarrow> bool) \<Rightarrow> bool" where
  "instrumented fails \<longleftrightarrow> (\<exists>mx. new_metrics (\<lambda>n. fails (CreateInstrument n)) (fails RegisterCallback) True = Inr mx)"

definition server_of :: "outside \<Rightarrow> environment \<Rightarrow> config \<Rightarrow> server milestone" where
  "server_of out env cfg =
     (if env ''BASELINE_MCP_STDIO'' = ''true'' then ServingStdio (env ''BASELINE_MCP_PRINCIPAL'') (build_app out cfg)
      else ServingHttp (cf_addr cfg) (env ''BASELINE_MCP_HTTP'' = ''true'') (build_app out cfg))"

lemma served_server_of [simp]: "served (server_of out env cfg) = Some (build_app out cfg)"
  by (simp add: server_of_def)

lemma run_serving:
  assumes "\<not> one_off env"
  shows "\<exists>e l hs'. run (chosen_mode out fails env now plan cfg) fs d =
      (Inr (e, [Opened MeterProvider, Happened (Logged l)] @
         (if instrumented fails then Happened (server_of out env cfg) # hs' else [])), d) \<and>
      (e = Returned () \<or> e = Exited 1) \<and> (instrumented fails \<or> e = Exited 1) \<and> \<not> serves hs'"
proof (cases "new_metrics (\<lambda>n. fails (CreateInstrument n)) (fails RegisterCallback) True")
  case (Inl e)
  then show ?thesis
    using assms by (simp add: chosen_mode_def one_off_def setup_otel_def serve_modes_def instrumented_def exI[of _ "[]"])
next
  case (Inr mx)
  then have "instrumented fails" by (simp add: instrumented_def)
  then show ?thesis
    using assms Inr
    by (simp add: chosen_mode_def one_off_def setup_otel_def serve_modes_def serve_stdio_def serve_http_def log_emits
        server_of_def Let_def)
qed

text \<open>The trace up to the server of a run that serves.\<close>

abbreviation started_up :: "string \<Rightarrow> log_line \<Rightarrow> (resource, server milestone) happening list" where
  "started_up url l \<equiv> ready url @ [Opened MeterProvider, Happened (Logged l)]"

lemma ready_open:
  assumes "started_up url l @ Happened sv # hs' = before @ Happened sv' # after"
    and "served sv' \<noteq> None" and "\<not> serves hs'"
  shows "before = started_up url l \<and> sv' = sv"
proof -
  have n: "\<not> serves (started_up url l)" by simp
  have "Happened sv' \<notin> set hs'" "Happened sv' \<notin> set (started_up url l)"
    using n assms(2,3) unfolding serves_def by blast+
  then show ?thesis using assms(1) by (auto simp: append_eq_append_conv2 append_eq_Cons_conv Cons_eq_append_conv)
qed

text \<open>How a run serves, if it does: the last clauses of the life cycle, one trace at a time.\<close>

definition served_rightly ::
    "outside \<Rightarrow> (outside_call \<Rightarrow> bool) \<Rightarrow> environment \<Rightarrow> db \<Rightarrow> (resource, server milestone) happening list \<Rightarrow> db \<Rightarrow> bool" where
  "served_rightly out fails env d hs d' \<longleftrightarrow>
     (\<forall>before sv after. hs = before @ Happened sv # after \<longrightarrow> served sv \<noteq> None \<longrightarrow>
      (\<exists>cfg. load_config env = Inr cfg \<and> sv = server_of out env cfg \<and> \<not> one_off env \<and> d' = d \<and> instrumented fails \<and>
        Happened (Migrated (cf_database_url cfg)) \<in> set before \<and>
        replay [] before = Some [MeterProvider, ConnPool (cf_database_url cfg), SignalContext]))"

lemma served_rightly_silent: "\<not> serves hs \<Longrightarrow> served_rightly out fails env d hs d'"
  by (auto simp: served_rightly_def serves_def)

lemma served_rightly_ready:
  assumes "load_config env = Inr cfg" and "\<not> one_off env" and "instrumented fails" and "\<not> serves hs"
  shows "served_rightly out fails env d (started_up (cf_database_url cfg) l @ Happened (server_of out env cfg) # hs) d"
  unfolding served_rightly_def
proof (intro allI impI)
  fix before sv after
  assume "started_up (cf_database_url cfg) l @ Happened (server_of out env cfg) # hs = before @ Happened sv # after"
    and "served sv \<noteq> None"
  from ready_open[OF this assms(4)]
  have "before = started_up (cf_database_url cfg) l" "sv = server_of out env cfg" by simp_all
  then show "\<exists>cfg. load_config env = Inr cfg \<and> sv = server_of out env cfg \<and> \<not> one_off env \<and> d = d \<and> instrumented fails \<and>
      Happened (Migrated (cf_database_url cfg)) \<in> set before \<and>
      replay [] before = Some [MeterProvider, ConnPool (cf_database_url cfg), SignalContext]"
    using assms(1-3) by (simp add: replay_append)
qed

text \<open>A run past an open store, in each of its modes; then any run.\<close>

lemma run_main_served:
  assumes cfg: "load_config env = Inr cfg" "db_reached fails (cf_database_url cfg)"
    and r: "run (main_program out fails env now plan) fs d = (Inr (e, hs), d')"
  shows "(e = Returned () \<or> e = Exited 1) \<and> served_rightly out fails env d hs d'"
proof -
  let ?url = "cf_database_url cfg"
  let ?close = "\<lambda>e::unit ending. (case e of Returned _ \<Rightarrow> [Closed (ConnPool ?url), Closed SignalContext] | Exited _ \<Rightarrow> [])"
  have cl: "\<not> serves (?close e)" by (cases e) simp_all
  note main = run_main_mode[OF cfg, of out now plan fs d]
  show ?thesis
  proof (cases "one_off env")
    case True
    from run_one_off[OF this, of out fails now plan cfg fs d]
    have "e = Returned () \<or> e = Exited 1" "\<not> serves hs" using main r by (auto split: ending.split)
    then show ?thesis by (simp add: served_rightly_silent)
  next
    case False
    from run_serving[OF this, of out fails now plan cfg fs d] obtain l hs' where
      e: "e = Returned () \<or> e = Exited 1" and d: "d' = d" and n: "\<not> serves (hs' @ ?close e)" and
      hs: "hs = started_up ?url l @ (if instrumented fails then Happened (server_of out env cfg) # hs' else []) @ ?close e"
      using main r cl by auto
    have "served_rightly out fails env d hs d'"
    proof (cases "instrumented fails")
      case True
      then show ?thesis using served_rightly_ready[OF cfg(1) False True n] hs d by simp
    next
      case ni: False
      then show ?thesis using hs cl by (simp add: served_rightly_silent)
    qed
    with e show ?thesis by blast
  qed
qed

lemma run_main_rightly:
  assumes r: "run (main_program out fails env now plan) fs d = (Inr (e, hs), d')"
  shows "(e = Returned () \<or> e = Exited 1) \<and> served_rightly out fails env d hs d'"
proof (cases "\<exists>cfg. load_config env = Inr cfg \<and> db_reached fails (cf_database_url cfg)")
  case True
  then show ?thesis using run_main_served[OF _ _ r] by blast
next
  case False
  then have "case load_config env of Inl e \<Rightarrow> True | Inr cfg \<Rightarrow> \<not> db_reached fails (cf_database_url cfg)"
    by (simp split: sum.split)
  from run_main_early[OF this, of out now plan fs d] have "e = Exited 1" "\<not> serves hs" using r by auto
  then show ?thesis by (simp add: served_rightly_silent)
qed


section \<open>Properties\<close>

lemma refused_config: "isl (load_config env) \<longleftrightarrow> \<not> acceptable env"
  by (auto simp: load_config_def acceptable_def Let_def split: option.split if_splits)

lemma built_embedder_dims:
  assumes "srv_embedder (build_app out cfg) = Some em" and "em text = Inr v"
  shows "int (length v) = cf_embedder_dims cfg"
  using assms embed_dims by (fastforce simp: build_app_fields build_embedder_def new_embed_client_def split: if_splits)

lemma app_wired:
  assumes "load_config env = Inr cfg"
  shows "\<exists>dims. atoi (env_or env ''EMBEDDER_DIMS'' ''768'') = Some dims \<and> 0 < dims \<and>
      srv_embedder (build_app out cfg) =
        (if env ''EMBEDDER_URL'' = [] then None
         else Some (embed (new_embed_client (out_http out) (out_float32 out) (env ''EMBEDDER_URL'')
                (env_or env ''EMBEDDER_MODEL'' ''nomic-embed-text'') dims))) \<and>
      (\<forall>em text v. srv_embedder (build_app out cfg) = Some em \<longrightarrow> em text = Inr v \<longrightarrow> int (length v) = dims \<and> v \<noteq> [])"
    (is ?embedder)
    and "if to_lower (env_or env ''MEMORY_SOURCE'' ''mem0'') = ''mem0''
      then (let m = new_mem0 (out_http out) (out_time out) (env ''MEM0_URL'') (env ''MEM0_API_KEY'')
            in srv_mem (build_app out cfg) = mem0_source m \<and> srv_writer (build_app out cfg) = Some (mem0_add m))
      else srv_mem (build_app out cfg) = null_source \<and> srv_writer (build_app out cfg) = None" (is ?memory)
proof -
  note cfg = loaded_config[OF assms]
  have "v \<noteq> []" if "srv_embedder (build_app out cfg) = Some em" "em s = Inr v" for em s v
    using built_embedder_dims[OF that] cfg(7) by auto
  then show ?embedder
    using built_embedder_dims cfg(6,7) by (intro exI[of _ "cf_embedder_dims cfg"]) (simp add: build_app_fields(2) build_embedder_def cfg)
  show ?memory by (simp add: build_app_fields memory_source_of_def cfg Let_def)
qed

text \<open>
  C38. Configuration is checked before anything runs: it is accepted exactly when the embedding dimension is a
  positive number, a database is named and the memory source is known, with its URL if it is Mem0; a refused
  one ends the process with an error in its log and the store untouched. An accepted one gives a server whose
  authenticator is the header one, which reads and writes memories with the Mem0 adapter of the configured URL
  and key if that is the source, and otherwise reads none and can write none; and which has the embedder of the
  configured URL and model, unless the URL is empty, and it yields only vectors of the configured dimension.
\<close>

theorem config_wired:
  "(isl (load_config env) \<longleftrightarrow> \<not> acceptable env) \<and>
   (case load_config env of
      Inl e \<Rightarrow> run (main_program out fails env now plan) fs d =
        (Inr (Exited 1, [Happened (Logged (error_line ''config'' LErr))]), d)
    | Inr cfg \<Rightarrow>
        (\<exists>dims. atoi (env_or env ''EMBEDDER_DIMS'' ''768'') = Some dims \<and> 0 < dims \<and>
           srv_embedder (build_app out cfg) =
             (if env ''EMBEDDER_URL'' = [] then None
              else Some (embed (new_embed_client (out_http out) (out_float32 out) (env ''EMBEDDER_URL'')
                     (env_or env ''EMBEDDER_MODEL'' ''nomic-embed-text'') dims))) \<and>
           (\<forall>em text v. srv_embedder (build_app out cfg) = Some em \<longrightarrow> em text = Inr v \<longrightarrow> int (length v) = dims \<and> v \<noteq> [])) \<and>
        srv_auth (build_app out cfg) = header_authenticator \<and>
        (if to_lower (env_or env ''MEMORY_SOURCE'' ''mem0'') = ''mem0''
         then (let m = new_mem0 (out_http out) (out_time out) (env ''MEM0_URL'') (env ''MEM0_API_KEY'')
               in srv_mem (build_app out cfg) = mem0_source m \<and> srv_writer (build_app out cfg) = Some (mem0_add m))
         else srv_mem (build_app out cfg) = null_source \<and> srv_writer (build_app out cfg) = None))"
  using refused_config[of env] app_wired[of env]
  by (cases "load_config env") (simp_all add: main_program_def build_app_fields(1))

definition mem0_env :: environment where
  "mem0_env k = (case map_of [(''DATABASE_URL'', ''postgres:''), (''MEM0_URL'', ''http://m''), (''MEMORY_SOURCE'', ''mem0'')] k of
     None \<Rightarrow> [] | Some v \<Rightarrow> v)"

lemma mem0_env_ok: "acceptable mem0_env"
  by (simp add: acceptable_def mem0_env_def env_or_def to_lower_def lower_byte_def atoi_def has_prefix_def is_digit_def
      int_min_def int_max_def)

theorem config_wired_witness:
  "\<exists>cfg. load_config mem0_env = Inr cfg \<and> (\<forall>out. srv_auth (build_app out cfg) = header_authenticator \<and>
     srv_embedder (build_app out cfg) = None \<and>
     srv_mem (build_app out cfg) = mem0_source (new_mem0 (out_http out) (out_time out) ''http://m'' []))"
proof -
  obtain cfg where c: "load_config mem0_env = Inr cfg"
    using config_wired[of mem0_env, THEN conjunct1] mem0_env_ok by (cases "load_config mem0_env") auto
  have e: "mem0_env ''EMBEDDER_URL'' = []" "mem0_env ''MEM0_URL'' = ''http://m''" "mem0_env ''MEM0_API_KEY'' = []"
    "to_lower (env_or mem0_env ''MEMORY_SOURCE'' ''mem0'') = ''mem0''"
    by (simp_all add: mem0_env_def env_or_def to_lower_def lower_byte_def)
  show ?thesis
    using c config_wired[of mem0_env, THEN conjunct2] by (auto simp: c e Let_def)
qed

text \<open>
  C40. The process comes to an end whatever fails, with its resources accounted for: when it returns, every
  resource it opened (signals, migration connection, pool, meter provider) has been closed, last opened
  first; otherwise it exits with 1, having closed nothing twice. It serves only what the configuration
  gives, in a mode that is no one-off, with the schema migrated, the pool open and every instrument
  registered; and a run that serves has not touched the store before or after. Whatever it logs goes to the
  standard error, which leaves the standard output to the frames of the MCP mode, and it exits only right
  after a line of level error.
\<close>

theorem process_lifecycle:
  "\<exists>e hs d'. run (main_program out fails env now plan) fs d = (Inr (e, hs), d') \<and>
     (e = Returned () \<and> replay [] hs = Some [] \<or> e = Exited 1 \<and> replay [] hs \<noteq> None) \<and>
     (\<forall>l. Happened (Logged l) \<in> set hs \<longrightarrow> ll_stream l = Stderr) \<and>
     (e = Exited 1 \<longrightarrow> (\<exists>before l. hs = before @ [Happened (Logged l)] \<and> ll_level l = level_error)) \<and>
     (\<forall>before sv after. hs = before @ Happened sv # after \<longrightarrow> served sv \<noteq> None \<longrightarrow>
        (\<exists>cfg. load_config env = Inr cfg \<and> sv = server_of out env cfg \<and> \<not> one_off env \<and> d' = d \<and> instrumented fails \<and>
           Happened (Migrated (cf_database_url cfg)) \<in> set before \<and>
           replay [] before = Some [MeterProvider, ConnPool (cf_database_url cfg), SignalContext]))"
proof -
  obtain e hs d' where r: "run (main_program out fails env now plan) fs d = (Inr (e, hs), d')"
    and o: "\<exists>st. replay [] hs = Some st" and c: "\<forall>a. e = Returned a \<longrightarrow> replay [] hs = Some []"
    using uses_run[OF uses_main] by blast
  have "explained e hs" using explainsD[OF explains_main] r by (auto simp: run_def split: prod.splits)
  then have x: "\<forall>l. Happened (Logged l) \<in> set hs \<longrightarrow> ll_stream l = Stderr"
    "e = Exited 1 \<longrightarrow> (\<exists>before l. hs = before @ [Happened (Logged l)] \<and> ll_level l = level_error)"
    by (auto simp: explained_def)
  show ?thesis
    using run_main_rightly[OF r, unfolded served_rightly_def] r o c x
    by (intro exI[of _ e] exI[of _ hs] exI[of _ d']) auto
qed

text \<open>Started with nothing failing, the process of the sample environment serves, and ends clean.\<close>

lemma mem0_env_serves:
  "\<exists>before sv after d'. run (main_program out (\<lambda>_. False) mem0_env 0 rev) [] d =
     (Inr (Returned (), before @ Happened sv # after), d') \<and> served sv \<noteq> None"
proof -
  obtain cfg where c: "load_config mem0_env = Inr cfg"
    using mem0_env_ok refused_config[of mem0_env] by (cases "load_config mem0_env") simp_all
  have o: "\<not> one_off mem0_env" by (simp add: one_off_def mem0_env_def)
  have m: "mem0_env ''BASELINE_MCP_STDIO'' = []" by (simp add: mem0_env_def)
  have r: "db_reached (\<lambda>_. False) url" for url by (simp add: db_reached_def)
  have "run (chosen_mode out (\<lambda>_. False) mem0_env 0 rev cfg) [] d =
      (Inr (Returned (), [Opened MeterProvider, Happened (Logged (info_line ''listening''
           [(''version'', LText service_version), (''addr'', LText (cf_addr cfg)),
            (''memory_source'', LText (cf_memory_source cfg)), (''mcp_http'', LBool (mem0_env ''BASELINE_MCP_HTTP'' = ''true''))])),
         Happened (server_of out mem0_env cfg), Happened (Logged (info_line ''shutting down'' [])), Happened ShuttingDown,
         Closed MeterProvider]), d)"
    using o by (simp add: chosen_mode_def one_off_def setup_otel_def serve_modes_def serve_http_def log_emits server_of_def
        new_metrics_def instrument_def Let_def m)
  with run_main_mode[OF c r, of out 0 rev "[]" d] show ?thesis
    by (intro exI[of _ "started_up (cf_database_url cfg) (info_line ''listening''
           [(''version'', LText service_version), (''addr'', LText (cf_addr cfg)),
            (''memory_source'', LText (cf_memory_source cfg)), (''mcp_http'', LBool (mem0_env ''BASELINE_MCP_HTTP'' = ''true''))])"]
        exI[of _ "server_of out mem0_env cfg"]
        exI[of _ "[Happened (Logged (info_line ''shutting down'' [])), Happened ShuttingDown, Closed MeterProvider,
           Closed (ConnPool (cf_database_url cfg)), Closed SignalContext]"]
        exI[of _ d]) simp
qed

theorem process_lifecycle_witness:
  "\<forall>out d. \<exists>cfg before sv after. run (main_program out (\<lambda>_. False) mem0_env 0 rev) [] d =
     (Inr (Returned (), before @ Happened sv # after), d) \<and> replay [] (before @ Happened sv # after) = Some [] \<and>
     sv = server_of out mem0_env cfg \<and> replay [] before = Some [MeterProvider, ConnPool (cf_database_url cfg), SignalContext]"
proof (intro allI)
  fix out d
  obtain before sv after d' where r: "run (main_program out (\<lambda>_. False) mem0_env 0 rev) [] d =
     (Inr (Returned (), before @ Happened sv # after), d')" and s: "served sv \<noteq> None"
    using mem0_env_serves by blast
  from process_lifecycle[of out "\<lambda>_. False" mem0_env 0 rev "[]" d] r obtain e hs where
    "e = Returned ()" "hs = before @ Happened sv # after" "replay [] hs = Some []" and
    l: "\<forall>before sv after. hs = before @ Happened sv # after \<longrightarrow> served sv \<noteq> None \<longrightarrow>
        (\<exists>cfg. load_config mem0_env = Inr cfg \<and> sv = server_of out mem0_env cfg \<and> \<not> one_off mem0_env \<and> d' = d \<and>
           instrumented (\<lambda>_. False) \<and> Happened (Migrated (cf_database_url cfg)) \<in> set before \<and>
           replay [] before = Some [MeterProvider, ConnPool (cf_database_url cfg), SignalContext])"
    by auto
  with s r show "\<exists>cfg before sv after. run (main_program out (\<lambda>_. False) mem0_env 0 rev) [] d =
     (Inr (Returned (), before @ Happened sv # after), d) \<and> replay [] (before @ Happened sv # after) = Some [] \<and>
     sv = server_of out mem0_env cfg \<and> replay [] before = Some [MeterProvider, ConnPool (cf_database_url cfg), SignalContext]"
    by blast
qed

section \<open>Middleware\<close>

text \<open>The span middleware changes no answer and no effect: it adds one span to each request.\<close>

lemma spans_transparent:
  "run (rest_handler s w [span_middleware] rq) fs d =
     (case run (serve s w rq) fs d of (r, d') \<Rightarrow> (map_sum id (\<lambda>a. (a, [span_name rq])) r, d'))"
  by (simp add: rest_handler_def span_middleware_def run_def bind_sql_def return_sql_def split: prod.split sum.split)

lemma shutdown_once: "uses (MeterProvider # rs) (shutdown_otel True) (\<lambda>_. rs)"
  unfolding shutdown_otel_def if_True by (rule resources)

end
