(* ===== verification/Deployment.thy ===== *)
theory Deployment
  imports Startup Guarantees
begin

text \<open>
  The program as a whole against its abstract transition system. Whatever enters the service, a request to
  the HTTP layer, a call of a tool, or a run of the process in any of its modes, reaches the store by steps
  of \<open>System\<close> only, under any faults. So every store of a deployment is reachable, and the guarantees over
  reachable stores are guarantees of the deployed program.
\<close>

section \<open>Programs that act by steps\<close>

definition live :: "('db, 'a) sql \<Rightarrow> bool" where
  "live m \<longleftrightarrow> (\<forall>s. \<not> aborted s \<longrightarrow> \<not> aborted (snd (m s)))"

definition acts :: "service \<Rightarrow> (db, 'a) sql \<Rightarrow> bool" where
  "acts sv m \<longleftrightarrow> live m \<and> (\<forall>s. \<not> aborted s \<longrightarrow> later sv (store s) (store (snd (m s))))"

named_theorems acting
  \<comment> \<open>rules that show by the shape of a program that it acts by steps\<close>

lemma live_bind: "live m \<Longrightarrow> (\<And>a. live (k a)) \<Longrightarrow> live (bind_sql m k)"
  by (auto simp: live_def bind_sql_def split: prod.split sum.split)

lemma live_return: "live (return_sql a)" "live (fail_sql e)"
  by (simp_all add: live_def return_sql_def fail_sql_def)

lemma live_on_pool: "live (on_pool m)"
  by (simp add: live_def on_pool_def split: prod.split)

lemma live_unit: "all_or_nothing m \<Longrightarrow> live m"
  by (simp add: live_def all_or_nothing_def)

lemma later_refl [simp]: "later sv d d"
  by (rule now_store)

lemma acts_return [acting]: "acts sv (return_sql a)" "acts sv (fail_sql e)"
  by (simp_all add: acts_def live_return) (simp_all add: return_sql_def fail_sql_def)

lemma acts_bind [acting]:
  assumes "acts sv m" and "\<And>a. acts sv (k a)"
  shows "acts sv (bind_sql m k)"
  unfolding acts_def
proof (intro conjI allI impI)
  show "live (bind_sql m k)" using assms by (intro live_bind) (simp_all add: acts_def)
  fix s :: "db session" assume s: "\<not> aborted s"
  obtain r s1 where m: "m s = (r, s1)" by fastforce
  then have 1: "later sv (store s) (store s1)" "\<not> aborted s1"
    using assms(1) s unfolding acts_def live_def by (metis snd_conv)+
  show "later sv (store s) (store (snd (bind_sql m k s)))"
  proof (cases r)
    case (Inl e)
    then show ?thesis using m 1(1) by (simp add: bind_sql_def)
  next
    case (Inr a)
    have "later sv (store s1) (store (snd (k a s1)))" using assms(2) 1(2) by (simp add: acts_def)
    then show ?thesis using m Inr later_later[OF _ 1(1)] by (simp add: bind_sql_def)
  qed
qed

lemma snd_attempt: "snd (attempt m s) = snd (m s)" "snd (absent_on e m s) = snd (m s)"
  by (simp_all add: attempt_def absent_on_def split: prod.split sum.split)

lemma acts_attempt [acting]: "acts sv m \<Longrightarrow> acts sv (attempt m)" "acts sv m \<Longrightarrow> acts sv (absent_on e m)"
  by (simp_all add: acts_def live_def snd_attempt)

lemma acts_read: "all_or_nothing m \<Longrightarrow> read_only m \<Longrightarrow> acts sv m"
  by (simp add: acts_def live_unit read_only_def)

lemma acts_query [acting]: "acts sv (on_pool (query f))"
  by (intro acts_read sql_safe)

lemma acts_unit:
  assumes "live m" and "\<And>fs d. later sv d (snd (run m fs d))"
  shows "acts sv m"
  unfolding acts_def
proof (intro conjI allI impI assms(1))
  fix s :: "db session" assume "\<not> aborted s"
  then have "s = \<lparr>store = store s, aborted = False, faults = faults s\<rparr>" by simp
  then have "snd (run m (faults s) (store s)) = store (snd (m s))" by (simp add: run_def split: prod.split)
  then show "later sv (store s) (store (snd (m s)))" using assms(2) by metis
qed

lemma acts_run: "acts sv m \<Longrightarrow> later sv d (snd (run m fs d))"
  by (simp add: acts_def run_def split: prod.split)
    (metis session.select_convs(1) session.select_convs(2) snd_conv)

lemma acts_try [acting]: "acts sv m \<Longrightarrow> (\<And>a. acts sv (k a)) \<Longrightarrow> acts sv (try_sql m on_error k)"
  unfolding try_sql_def by (intro acting) (auto intro: acts_return split: sum.split)

lemma acts_guard [acting]: "(\<And>a. acts sv (k a)) \<Longrightarrow> acts sv (guard_sql g k)"
  by (auto simp: guard_sql_def intro: acts_return split: sum.split)

section \<open>The operations\<close>

lemma op_later: "op_ok x \<Longrightarrow> (\<And>now plan t. x = OpReap now plan \<Longrightarrow> mset (plan t) = mset t) \<Longrightarrow> later sv d (op_run sv x fs d)"
  by (rule later_one, rule sys_step.step)


lemma acts_in_tx:
  assumes "well_behaved m" and "\<And>fs d. later sv d (snd (run (in_tx m) fs d))"
  shows "acts sv (in_tx m)"
  by (rule acts_unit[OF live_unit[OF all_or_nothing_in_tx[OF assms(1)]] assms(2)])

lemma acts_promotions [acting]:
  "acts sv (approve sv now wall i who c)" "acts sv (reject now wall i who c)" "acts sv (submit now i who)"
  "acts sv (withdraw now i who)" "acts sv (revoke_fact now i v who)"
proof -
  note op = op_later[of "OpApprove now wall i who c" sv] op_later[of "OpReject now wall i who c" sv]
    op_later[of "OpSubmit now i who" sv] op_later[of "OpWithdraw now i who" sv] op_later[of "OpRevoke now i v who" sv]
  show "acts sv (approve sv now wall i who c)"
    unfolding approve_def by (rule acts_in_tx[OF well_behaved_approve_body]) (use op(1) in \<open>simp add: approve_def\<close>)
  show "acts sv (reject now wall i who c)"
    unfolding reject_def by (rule acts_in_tx[OF well_behaved_review_body]) (use op(2) in \<open>simp add: reject_def\<close>)
  show "acts sv (submit now i who)"
    unfolding submit_def by (rule acts_in_tx[OF well_behaved_transition_body]) (use op(3) in \<open>simp add: submit_def\<close>)
  show "acts sv (withdraw now i who)"
    unfolding withdraw_def by (rule acts_in_tx[OF well_behaved_transition_body]) (use op(4) in \<open>simp add: withdraw_def\<close>)
  show "acts sv (revoke_fact now i v who)"
    unfolding revoke_fact_def by (rule acts_in_tx[OF well_behaved_revoke_body]) (use op(5) in \<open>simp add: revoke_fact_def\<close>)
qed

lemma acts_reap:
  assumes "\<And>t. mset (plan t) = mset t"
  shows "acts sv (reap now plan)"
  unfolding reap_def
  by (rule acts_in_tx[OF well_behaved_reap_body]) (use op_later[of "OpReap now plan" sv] assms in \<open>simp add: reap_def\<close>)

lemma acts_request_changes [acting]: "acts sv (request_changes now wall i who c suggested)"
proof -
  have "acts sv (in_tx (review_body now wall i who DecisionRequestChanges c StateChangesRequested
      StatusProposed ''promotion.changes_requested''))" (is "acts sv (in_tx ?m)")
  proof (rule acts_in_tx[OF well_behaved_review_body])
    fix fs d
    have "snd (run (request_changes now wall i who c []) fs d) = snd (run (in_tx ?m) fs d)"
      unfolding request_changes_def by (rule bind_return_snd) (simp add: return_sql_def)
    then show "later sv d (snd (run (in_tx ?m) fs d))"
      using op_later[of "OpRequestChanges now wall i who c" sv d fs] by simp
  qed
  moreover have "acts sv (on_pool (update_statement now i suggested))"
    by (rule acts_unit[OF live_on_pool]) (use op_later[of "OpEditStatement now i suggested" sv] in simp)
  ultimately show ?thesis
    unfolding request_changes_def by (intro acts_bind) (auto intro: acting)
qed

lemma acts_propose [acting]: "acts sv (propose sv now nf np inp)"
proof (cases "subject_valid (in_subject inp)")
  case False
  then show ?thesis by (simp add: propose_def acts_return)
next
  case True
  have "acts sv (in_tx (propose_tx sv now nf np inp (clamp_required r) apo))" for r apo
    by (rule acts_in_tx[OF well_behaved_propose_tx])
      (use op_later[of "OpPropose now nf np inp (clamp_required r) apo" sv] True in \<open>simp add: clamp_required_def\<close>)
  then have fresh: "acts sv (propose_fresh sv now nf np inp)"
    unfolding propose_fresh_def by (intro acts_bind acts_read[OF handler_reads(5,6)])
  have "acts sv (on_pool (find_by_idempotency_key who key))" for who key
    by (rule acts_read) (simp_all add: find_by_idempotency_key_def, (intro sql_safe)+)
  then show ?thesis
    unfolding propose_def using True fresh
    by (auto intro!: acts_bind acting split: option.split)
qed

lemma acts_registry [acting]:
  "acts sv (create_namespace now new ns)" "acts sv (update_policy i p)" "acts sv (grant who i role)"
  "acts sv (revoke_grant who i role)" "acts sv (on_pool (set_embedding i v))"
proof -
  show "acts sv (create_namespace now new ns)"
    by (rule acts_unit) (use op_later[of "OpCreateNamespace now new ns" sv] in
      \<open>auto simp: create_namespace_def Let_def intro!: live_bind live_on_pool live_return split: sum.split\<close>)
  show "acts sv (update_policy i p)"
    by (rule acts_unit) (use op_later[of "OpUpdatePolicy i p" sv] in
      \<open>auto simp: update_policy_def intro!: live_bind live_on_pool live_return split: sum.split\<close>)
  show "acts sv (grant who i role)"
    by (rule acts_unit) (use op_later[of "OpGrant who i role" sv] in
      \<open>auto simp: grant_def intro!: live_on_pool live_return\<close>)
  show "acts sv (revoke_grant who i role)"
    by (rule acts_unit) (use op_later[of "OpRevokeGrant who i role" sv] in \<open>auto simp: revoke_grant_def intro!: live_on_pool\<close>)
  show "acts sv (on_pool (set_embedding i v))"
    by (rule acts_unit[OF live_on_pool]) (use op_later[of "OpEmbed i v" sv] in simp)
qed

lemma acts_backfill: "acts sv (backfill_embeddings plan em)"
proof -
  have "acts sv (backfill_loop em work res)" for work res
    by (induction em work res rule: backfill_loop.induct) (auto intro!: acting split: sum.split)
  then show ?thesis unfolding backfill_embeddings_def by (intro acting)
qed


section \<open>The entries of the service\<close>

lemmas acts_reads = acts_read[OF handler_reads(1,2)] acts_read[OF handler_reads(3,4)] acts_read[OF handler_reads(5,6)]
  acts_read[OF handler_reads(7,8)] acts_read[OF handler_reads(9,10)] acts_read[OF handler_reads(11,12)]
  acts_read[OF handler_reads(13,14)] acts_read[OF handler_reads(15,16)] acts_read[OF handler_reads(17,18)]
  acts_read[OF handler_reads(19,20)] acts_read[OF handler_reads(21,22)]

lemma acts_option [acting]:
  "acts sv m \<Longrightarrow> (\<And>a. acts sv (g a)) \<Longrightarrow> acts sv (case r of None \<Rightarrow> m | Some a \<Rightarrow> g a)"
  by (cases r) simp_all

lemma acts_if [acting]: "acts sv m \<Longrightarrow> acts sv m' \<Longrightarrow> acts sv (if b then m else m')"
  by simp

lemma acts_sum [acting]: "(\<And>e. acts sv (f e)) \<Longrightarrow> (\<And>a. acts sv (g a)) \<Longrightarrow> acts sv (case r of Inl e \<Rightarrow> f e | Inr a \<Rightarrow> g a)"
  by (cases r) simp_all

lemma acts_run_action [acting]: "acts (promos s) (run_action s w a i who body)"
  unfolding run_action_def by (intro acting)

lemma acts_handle: "acts (promos s) (handle s w rq ps ep ctx)"
  by (cases ep)
    (simp_all only: handle.simps h_list_namespaces_def h_create_namespace_def h_get_namespace_def
      h_patch_namespace_policy_def h_list_members_def h_add_member_def h_remove_member_def h_create_promotion_def
      h_list_promotions_def h_get_promotion_def h_promotion_action_def h_list_facts_def h_get_fact_def
      h_get_fact_history_def h_revoke_fact_def h_get_context_def h_add_memory_def with_fact_def Let_def split_def,
     (intro acting acts_reads)+)

lemma acts_serve: "acts (promos s) (serve s w rq)"
proof (cases "srv_router s routes rq")
  case (Inl r)
  then show ?thesis by (simp add: serve_def acts_return)
next
  case (Inr x)
  have "acts (promos s) (authn s rq (handle s w rq (snd x) (fst x)))"
    unfolding authn_def by (cases "srv_auth s rq") (auto intro!: acting acts_reads acts_handle split: auth_error.split)
  then show ?thesis
    using Inr by (cases x) (auto simp: serve_def intro: acts_handle)
qed

lemma acts_call_tool: "acts (promos s) (call_tool (serve s w) who t)"
  unfolding call_tool_def bridge_call_def by (intro acting acts_serve)

text \<open>Jobs of a process act by the programs they lift.\<close>

lemma acts_job [acting]:
  "acts sv (return_p a)" "acts sv (exit_p n)" "acts sv (emit h)" "acts sv m \<Longrightarrow> acts sv (lift_p m)"
  "acts sv j \<Longrightarrow> (\<And>a. acts sv (k a)) \<Longrightarrow> acts sv (bind_p j k)" "acts sv j \<Longrightarrow> acts sv (deferring r j)"
  unfolding return_p_def exit_p_def emit_def lift_p_def bind_p_def deferring_def split_def
  by (auto intro!: acts_bind acts_return acts_attempt split: ending.split)

lemma acts_log [acting]: "acts sv (log_info msg attrs)" "acts sv (log_error msg attrs)" "acts sv (die msg why)"
  unfolding die_emits log_emits by (intro acting)+

lemma acts_main:
  assumes "\<And>t. mset (plan t) = mset t"
  shows "acts sv (main_program out fails env now plan)"
  unfolding main_program_def chosen_mode_def reap_mode_def backfill_mode_def log_result_def serve_modes_def serve_stdio_def
    serve_http_def setup_otel_def migrate_def open_store_def Let_def
  by (intro acting acts_reap[OF assms] acts_backfill)

section \<open>Deployments\<close>

text \<open>
  The stores a deployment of the server \<open>app\<close> goes through: requests in any order, calls of tools by any
  principal, and runs of the process (serving, reaping, backfilling, or failing to start) in between, each
  under any faults.
\<close>

inductive deployed :: "server \<Rightarrow> db \<Rightarrow> bool" for app where
  created: "deployed app empty_db"
| requested: "deployed app d \<Longrightarrow> deployed app (snd (run (serve app w rq) fs d))"
| called: "deployed app d \<Longrightarrow> deployed app (snd (run (call_tool (serve app w) who t) fs d))"
| started: "deployed app d \<Longrightarrow> (\<And>t. mset (plan t) = mset t) \<Longrightarrow>
    deployed app (snd (run (main_program out fails env now plan) fs d))"

lemma deployed_later: "deployed app d \<Longrightarrow> later (promos app) empty_db d"
proof (induction rule: deployed.induct)
  case created
  show ?case by simp
next
  case (requested d w rq fs)
  show ?case by (rule later_later[OF acts_run[OF acts_serve] requested.IH])
next
  case (called d w who t fs)
  show ?case by (rule later_later[OF acts_run[OF acts_call_tool] called.IH])
next
  case (started d plan out fails env now fs)
  show ?case by (rule later_later[OF acts_run[OF acts_main[OF started.hyps(2)]] started.IH])
qed

section \<open>Properties\<close>

text \<open>
  C6. The program refines its transition system: every store of a deployment, whatever requests, tool calls and
  process runs have come in and whatever has failed, is reachable by the operations of the workflow, and
  each further entry moves it by such operations only. So it satisfies the schema and pairs promotions with
  facts, and what holds along the operations (the lifecycle, the append-only history) holds along requests.
\<close>

theorem deployment_refines:
  assumes "deployed app d"
  shows "reachable (promos app) d \<and> governed d \<and> later (promos app) d (snd (run (serve app w rq) fs d)) \<and>
    later (promos app) d (snd (run (call_tool (serve app w) who t) fs d)) \<and>
    ((\<forall>t. mset (plan t) = mset t) \<longrightarrow> later (promos app) d (snd (run (main_program out fails env now plan) fs d)))"
proof (intro conjI impI)
  show "reachable (promos app) d" by (rule reachable_later[OF deployed_later[OF assms] reachable.init])
  then show "governed d" by (rule reachable_governed)
  show "later (promos app) d (snd (run (serve app w rq) fs d))" by (rule acts_run[OF acts_serve])
  show "later (promos app) d (snd (run (call_tool (serve app w) who t) fs d))" by (rule acts_run[OF acts_call_tool])
  assume "\<forall>t. mset (plan t) = mset t"
  then show "later (promos app) d (snd (run (main_program out fails env now plan) fs d))"
    by (intro acts_run[OF acts_main]) simp
qed


text \<open>Two requests to a new deployment, and one that comes after them.\<close>

theorem deployment_refines_witness:
  "let ask = (\<lambda>who d. snd (run (serve sample_server sample_world (fact_request ''PATCH'' who)) [False, True] d)) in
     reachable (promos sample_server) (ask ''rev'' (ask ''eve'' empty_db)) \<and>
     later (promos sample_server) (ask ''eve'' empty_db) (ask ''rev'' (ask ''eve'' empty_db))"
proof -
  let ?ask = "\<lambda>who d. snd (run (serve sample_server sample_world (fact_request ''PATCH'' who)) [False, True] d)"
  have e: "deployed sample_server (?ask ''eve'' empty_db)" by (rule deployed.requested[OF deployed.created])
  then have "deployed sample_server (?ask ''rev'' (?ask ''eve'' empty_db))" by (rule deployed.requested)
  from deployment_refines[OF this] deployment_refines[OF e, of sample_world "fact_request ''PATCH'' ''rev''" "[False, True]"]
  show ?thesis by simp
qed

end
