(* ===== verification/Test_Support.thy ===== *)
theory Test_Support
  imports Store Memory
begin

text \<open>
  The test harness of the repository (\<^verbatim>\<open>internal/storetest\<close>): a database container for each test package,
  transactions and cloned databases for each test. A test is a job; \<^verbatim>\<open>t.Fatalf\<close> ends it with an error, and what
  \<^verbatim>\<open>t.Cleanup\<close> registers runs at its end.
\<close>

section \<open>The harness\<close>

datatype harness_error =
    StartContainerError
  | ConnectionStringError
  | MigrateTemplateError store_error
  | AdminPoolError
  | NoHarness

record harness =
  hs_base_dsn :: string
  hs_counter :: nat

text \<open>\<open>dsn\<close> is the connection string of the container that has started.\<close>

definition new_harness ::
    "(outside_call \<Rightarrow> bool) \<Rightarrow> string \<Rightarrow> ('db, 's, harness_error + harness) job" where
  "new_harness fails dsn =
     (if fails RunContainer then return_p (Inl StartContainerError)
      else bind_p (emit (Opened TestContainer)) (\<lambda>_.
        if fails ConnectionString
        then bind_p (emit (Closed TestContainer)) (\<lambda>_. return_p (Inl ConnectionStringError))
        else bind_p (migrate fails dsn) (\<lambda>r. case r of
            Inl e \<Rightarrow> bind_p (emit (Closed TestContainer)) (\<lambda>_. return_p (Inl (MigrateTemplateError e)))
          | Inr _ \<Rightarrow>
              if fails (NewPool dsn)
              then bind_p (emit (Closed TestContainer)) (\<lambda>_. return_p (Inl AdminPoolError))
              else bind_p (emit (Opened (ConnPool dsn))) (\<lambda>_.
                return_p (Inr \<lparr>hs_base_dsn = dsn, hs_counter = 0\<rparr>)))))"

definition close_harness :: "harness option \<Rightarrow> ('db, 's, unit) job" where
  "close_harness h = (case h of
       None \<Rightarrow> return_p ()
     | Some h \<Rightarrow> bind_p (emit (Closed (ConnPool (hs_base_dsn h)))) (\<lambda>_. emit (Closed TestContainer)))"

text \<open>What is printed before the text of the error.\<close>

definition cannot_start :: string where
  "cannot_start = ''storetest: cannot start harness (is Docker running?): ''"

text \<open>The main of a test package: \<open>tests\<close> runs them and gives the exit code.\<close>

definition main_tests ::
    "(outside_call \<Rightarrow> bool) \<Rightarrow> string \<Rightarrow> bool \<Rightarrow> (harness option \<Rightarrow> ('db, 's, nat) job) \<Rightarrow> ('db, 's, unit) job" where
  "main_tests fails dsn short tests =
     (if short then bind_p (tests None) exit_p
      else bind_p (new_harness fails dsn) (\<lambda>r. case r of
          Inl e \<Rightarrow> bind_p (emit (Happened (Printed Stderr cannot_start))) (\<lambda>_. exit_p 1)
        | Inr h \<Rightarrow> bind_p (tests (Some h)) (\<lambda>code. bind_p (close_harness (Some h)) (\<lambda>_. exit_p code))))"

text \<open>A test in a transaction of its own, rolled back at its end.\<close>

definition in_test_tx :: "(outside_call \<Rightarrow> bool) \<Rightarrow> ('db, 's, 'a) job \<Rightarrow> ('db, 's, outside_call + 'a) job" where
  "in_test_tx fails test =
     (if fails AcquireConn then return_p (Inl AcquireConn)
      else bind_p (emit (Opened TestConn)) (\<lambda>_.
        if fails BeginTx then bind_p (emit (Closed TestConn)) (\<lambda>_. return_p (Inl BeginTx))
        else bind_p (emit (Opened TestTx)) (\<lambda>_.
          bind_p test (\<lambda>a.
          bind_p (emit (Closed TestTx)) (\<lambda>_.
          bind_p (emit (Closed TestConn)) (\<lambda>_. return_p (Inr a)))))))"

text \<open>The pool to the template, and the harness of the package, which only \<open>main_tests\<close> sets.\<close>

definition harness_pool :: "harness \<Rightarrow> resource" where
  "harness_pool h = ConnPool (hs_base_dsn h)"

definition shared_harness :: "harness option \<Rightarrow> harness_error + harness" where
  "shared_harness shared = (case shared of None \<Rightarrow> Inl NoHarness | Some h \<Rightarrow> Inr h)"

definition next_name :: "int \<Rightarrow> harness \<Rightarrow> string \<times> harness" where
  "next_name nanos h =
     (let n = Suc (hs_counter h)
      in (''test_'' @ show_int nanos @ ''_'' @ show_nat n, h\<lparr>hs_counter := n\<rparr>))"

section \<open>The name of a database in a connection string\<close>

definition index_of :: "char \<Rightarrow> string \<Rightarrow> nat option" where
  "index_of c s = (if c \<in> set s then Some (length (takeWhile (\<lambda>x. x \<noteq> c) s)) else None)"

definition last_index :: "char \<Rightarrow> string \<Rightarrow> nat option" where
  "last_index c s = map_option (\<lambda>i. length s - Suc i) (index_of c (rev s))"

text \<open>\<open>None\<close> is the panic of slicing at a negative index.\<close>

definition swap_db_name :: "string \<Rightarrow> string \<Rightarrow> string option" where
  "swap_db_name dsn new_name =
     (case last_index CHR ''@'' dsn of
        None \<Rightarrow> None
      | Some i \<Rightarrow>
          (let rest = drop i dsn;
               head = (case index_of CHR ''/'' rest of None \<Rightarrow> [] | Some slash \<Rightarrow> take (Suc slash) rest)
           in case index_of CHR ''?'' rest of
                None \<Rightarrow> Some (take i dsn @ head @ new_name)
              | Some q \<Rightarrow> Some (take i dsn @ head @ new_name @ drop q rest)))"

text \<open>
  A database of its own for a test, cloned from the template and dropped at the test's end; \<open>name\<close> is made by
  \<open>next_name\<close> of the time in nanoseconds and the counter of the harness. A panic ends the process with 2.
\<close>

definition fresh_db ::
    "(outside_call \<Rightarrow> bool) \<Rightarrow> harness \<Rightarrow> string \<Rightarrow> ('db, 's, 'a) job \<Rightarrow> ('db, 's, outside_call + 'a) job" where
  "fresh_db fails h name test =
     (if fails (CreateDatabase name) then return_p (Inl (CreateDatabase name))
      else bind_p (emit (Opened (TestDatabase name))) (\<lambda>_.
        case swap_db_name (hs_base_dsn h) name of
          None \<Rightarrow> exit_p 2
        | Some dsn \<Rightarrow>
            if fails (NewPool dsn) then return_p (Inl (NewPool dsn))
            else bind_p (emit (Opened (ConnPool dsn))) (\<lambda>_.
              bind_p test (\<lambda>a.
              bind_p (emit (Closed (ConnPool dsn))) (\<lambda>_.
              bind_p (emit (Closed (TestDatabase name))) (\<lambda>_. return_p (Inr a)))))))"

section \<open>No container is leaked\<close>

lemma uses_new_harness [resources]:
  "uses rs (new_harness fails dsn) (\<lambda>r. case r of Inl _ \<Rightarrow> rs | Inr h \<Rightarrow> ConnPool (hs_base_dsn h) # TestContainer # rs)"
  unfolding new_harness_def by (rule resources | simp)+

lemma uses_close_harness [resources]:
  "uses (ConnPool (hs_base_dsn h) # TestContainer # rs) (close_harness (Some h)) (\<lambda>_. rs)"
  unfolding close_harness_def option.case by (rule resources)+

lemma uses_in_test_tx [resources]:
  assumes "\<And>rs. uses rs test (\<lambda>_. rs)"
  shows "uses rs (in_test_tx fails test) (\<lambda>_. rs)"
  unfolding in_test_tx_def by (rule resources assms | simp)+

text \<open>Only a refused pool leaves the cloned database behind.\<close>

lemma uses_fresh_db:
  assumes "\<And>rs. uses rs test (\<lambda>_. rs)"
  shows "uses rs (fresh_db fails h name test)
    (\<lambda>r. case r of Inl (NewPool _) \<Rightarrow> TestDatabase name # rs | _ \<Rightarrow> rs)"
  unfolding fresh_db_def by (rule resources assms | simp)+

text \<open>A package's tests exit only when everything is closed: the job before the exit leaves nothing open.\<close>

definition tested ::
    "(outside_call \<Rightarrow> bool) \<Rightarrow> string \<Rightarrow> bool \<Rightarrow> (harness option \<Rightarrow> ('db, 's, nat) job) \<Rightarrow> ('db, 's, nat) job" where
  "tested fails dsn short tests =
     (if short then tests None
      else bind_p (new_harness fails dsn) (\<lambda>r. case r of
          Inl e \<Rightarrow> bind_p (emit (Happened (Printed Stderr cannot_start))) (\<lambda>_. return_p 1)
        | Inr h \<Rightarrow> bind_p (tests (Some h)) (\<lambda>code. bind_p (close_harness (Some h)) (\<lambda>_. return_p code))))"

lemma main_tests_exit: "main_tests fails dsn short tests = bind_p (tested fails dsn short tests) exit_p"
  by (simp add: main_tests_def tested_def bind_p_assoc bind_p_sum bind_p_return cong del: sum.case_cong_weak)

lemma uses_tested:
  assumes "\<And>h rs. uses rs (tests h) (\<lambda>_. rs)"
  shows "uses rs (tested fails dsn short tests) (\<lambda>_. rs)"
proof -
  have "uses (ConnPool (hs_base_dsn h) # TestContainer # rs)
      (bind_p (tests (Some h)) (\<lambda>code. bind_p (close_harness (Some h)) (\<lambda>_. return_p code))) (\<lambda>_. rs)" for h
    by (rule resources assms | simp)+
  moreover have "uses rs (bind_p (emit (Happened (Printed Stderr cannot_start))) (\<lambda>_. return_p 1)) (\<lambda>_. rs)"
    by (rule resources | simp)+
  ultimately show ?thesis
    unfolding tested_def using assms
    by (auto intro!: uses_bind[OF uses_new_harness] simp del: One_nat_def split: sum.split)
qed

section \<open>Names never clash\<close>

text \<open>The names a harness gives at the times \<open>ts\<close>.\<close>

fun names_given :: "int list \<Rightarrow> harness \<Rightarrow> string list" where
  "names_given [] h = []"
| "names_given (t # ts) h = (case next_name t h of (name, h') \<Rightarrow> name # names_given ts h')"

lemma digits_no_underscore: "CHR ''_'' \<notin> set (show_nat n)"
proof
  assume "CHR ''_'' \<in> set (show_nat n)"
  then have "is_digit CHR ''_''" by (rule show_nat_digits)
  then show False by (simp add: is_digit_def)
qed

lemma show_nat_inject: "show_nat m = show_nat n \<Longrightarrow> m = n"
  using arg_cong[of "show_nat m" "show_nat n" "read_digits 0"] unfolding read_show_nat option.inject .

lemma after_underscore: "takeWhile (\<lambda>c. c \<noteq> CHR ''_'') (rev (x @ CHR ''_'' # show_nat n)) = rev (show_nat n)"
proof -
  have "c \<noteq> CHR ''_''" if "c \<in> set (rev (show_nat n))" for c
  proof
    assume "c = CHR ''_''"
    then have "CHR ''_'' \<in> set (show_nat n)" using that unfolding set_rev by (simp only:)
    with digits_no_underscore show False by (rule notE)
  qed
  then have "takeWhile (\<lambda>c. c \<noteq> CHR ''_'') (rev (show_nat n) @ CHR ''_'' # rev x) =
      rev (show_nat n) @ takeWhile (\<lambda>c. c \<noteq> CHR ''_'') (CHR ''_'' # rev x)"
    by (rule takeWhile_append2)
  then show ?thesis by (simp only: rev_append rev.simps append_assoc append_Cons append_Nil takeWhile.simps simp_thms if_False append_Nil2)
qed

lemma name_counter: "x @ CHR ''_'' # show_nat m = y @ CHR ''_'' # show_nat n \<Longrightarrow> m = n"
  using after_underscore[of x m] after_underscore[of y n] show_nat_inject by (metis rev_rev_ident)

lemma names_given_Cons:
  "names_given (t # ts) h =
     ((''test_'' @ show_int t) @ CHR ''_'' # show_nat (Suc (hs_counter h)))
       # names_given ts (h\<lparr>hs_counter := Suc (hs_counter h)\<rparr>)"
  by (simp add: next_name_def Let_def)

lemma names_given_later:
  "name \<in> set (names_given ts h) \<Longrightarrow> \<exists>x n. name = x @ CHR ''_'' # show_nat n \<and> hs_counter h < n"
proof (induction ts arbitrary: h)
  case (Cons t ts)
  let ?h = "h\<lparr>hs_counter := Suc (hs_counter h)\<rparr>"
  consider "name = (''test_'' @ show_int t) @ CHR ''_'' # show_nat (Suc (hs_counter h))" | "name \<in> set (names_given ts ?h)"
    using Cons.prems unfolding names_given_Cons set_simps insert_iff by argo
  then show ?case
  proof cases
    case 1
    show ?thesis by (rule exI, rule exI, rule conjI[OF 1]) simp
  next
    case 2
    from Cons.IH[OF 2] obtain x n where n: "name = x @ CHR ''_'' # show_nat n" "hs_counter ?h < n" by (elim exE conjE)
    show ?thesis by (rule exI, rule exI, rule conjI[OF n(1)]) (use n(2) in simp)
  qed
qed simp

text \<open>However the clock behaves, no two tests of a package are given the same database.\<close>

lemma names_distinct: "distinct (names_given ts h)"
proof (induction ts arbitrary: h)
  case (Cons t ts)
  let ?h = "h\<lparr>hs_counter := Suc (hs_counter h)\<rparr>"
  let ?name = "(''test_'' @ show_int t) @ CHR ''_'' # show_nat (Suc (hs_counter h))"
  have "?name \<notin> set (names_given ts ?h)"
  proof
    assume "?name \<in> set (names_given ts ?h)"
    from names_given_later[OF this] obtain x n where n: "?name = x @ CHR ''_'' # show_nat n" "hs_counter ?h < n"
      by (elim exE conjE)
    from name_counter[OF n(1)] n(2) show False by simp
  qed
  then show ?case unfolding names_given_Cons distinct.simps by (intro conjI Cons.IH)
qed simp

section \<open>Swapping the name\<close>

lemma index_of_append: "c \<notin> set a \<Longrightarrow> index_of c (a @ c # b) = Some (length a)"
  by (induction a) (auto simp: index_of_def)

lemma last_index_append: "c \<notin> set b \<Longrightarrow> last_index c (a @ c # b) = Some (length a)"
  using index_of_append[of c "rev b" "rev a"] by (simp add: last_index_def)

text \<open>
  In a well-formed connection string only the name of the database is replaced; the credentials may hold
  any character, an at sign too.
\<close>

lemma swap_db_name_spec:
  assumes "CHR ''@'' \<notin> set (host @ name @ qs)" and "CHR ''/'' \<notin> set host"
    and "CHR ''?'' \<notin> set (host @ name)" and "qs = [] \<or> hd qs = CHR ''?''"
  shows "swap_db_name (cred @ CHR ''@'' # host @ CHR ''/'' # name @ qs) new_name =
    Some (cred @ CHR ''@'' # host @ CHR ''/'' # new_name @ qs)"
proof -
  let ?rest = "CHR ''@'' # host @ CHR ''/'' # name @ qs"
  have at: "last_index CHR ''@'' (cred @ ?rest) = Some (length cred)" using assms(1) by (intro last_index_append) simp
  have slash: "index_of CHR ''/'' ?rest = Some (Suc (length host))"
    using index_of_append[of "CHR ''/''" "CHR ''@'' # host" "name @ qs"] assms(2) by simp
  have "index_of CHR ''?'' ?rest = None \<and> qs = [] \<or>
      (\<exists>q. qs = CHR ''?'' # q \<and> index_of CHR ''?'' ?rest = Some (length (CHR ''@'' # host @ CHR ''/'' # name)))"
  proof (cases qs)
    case Nil
    then show ?thesis using assms(3) by (simp add: index_of_def)
  next
    case (Cons c q)
    then show ?thesis
      using assms(3,4) index_of_append[of "CHR ''?''" "CHR ''@'' # host @ CHR ''/'' # name" q] by simp
  qed
  then show ?thesis using at slash by (auto simp: swap_db_name_def Let_def)
qed

lemma swap_db_name_panics: "CHR ''@'' \<notin> set dsn \<Longrightarrow> swap_db_name dsn new_name = None"
  by (simp add: swap_db_name_def last_index_def index_of_def)

end
