(* ===== verification/Api_Test.thy ===== *)
theory Api_Test
  imports Test_Support Handlers
begin

text \<open>
  The HTTP client of the end-to-end tests (\<^verbatim>\<open>internal/storetest/apitest.go\<close>): a test server over a database of
  its own, requests to it, and the decoding of its answers. \<open>marshal\<close> (\<^verbatim>\<open>json.Marshal\<close> of the test's Go value)
  and \<open>target\<close> (the parsing of a path with its query) are arguments, and so is the decoder of an answer. The
  headers of a request come in the order in which the map is walked.
\<close>

section \<open>The client\<close>

type_synonym app_handler = "request \<Rightarrow> (db, response) sql"

record api =
  api_handler :: app_handler

datatype api_error = MarshalBodyError | NewRequestError | SendError | DecodeJsonError

text \<open>The server is closed before its database is dropped: cleanups run last registered first.\<close>

definition new_api ::
    "(outside_call \<Rightarrow> bool) \<Rightarrow> harness \<Rightarrow> string \<Rightarrow> app_handler \<Rightarrow> (api \<Rightarrow> (db, 's, 'a) job)
      \<Rightarrow> (db, 's, outside_call + 'a) job" where
  "new_api fails h name handler test =
     fresh_db fails h name
       (bind_p (emit (Opened TestServer)) (\<lambda>_.
        bind_p (test \<lparr>api_handler = handler\<rparr>) (\<lambda>a.
        bind_p (emit (Closed TestServer)) (\<lambda>_. return_p a))))"

text \<open>\<^verbatim>\<open>http.Header.Set\<close>: the names of headers do not distinguish cases.\<close>

definition header_set :: "string \<Rightarrow> string \<Rightarrow> (string \<times> string) list \<Rightarrow> (string \<times> string) list" where
  "header_set k v hs = filter (\<lambda>(n, _). \<not> equal_fold n k) hs @ [(k, v)]"

definition api_headers :: "json option \<Rightarrow> (string \<times> string) list \<Rightarrow> (string \<times> string) list" where
  "api_headers body headers =
     foldl (\<lambda>hs (k, v). header_set k v hs)
       (if body \<noteq> None then header_set ''Content-Type'' ''application/json'' [] else []) headers"

definition api_request ::
    "string \<Rightarrow> string list \<times> (string \<times> string) list \<Rightarrow> json option \<Rightarrow> (string \<times> string) list \<Rightarrow> request" where
  "api_request verb tgt body headers =
     \<lparr>rq_method = verb, rq_path = fst tgt, rq_query = snd tgt, rq_headers = api_headers body headers,
      rq_body = (case body of None \<Rightarrow> RawEmpty | Some j \<Rightarrow> RawJson j)\<rparr>"

text \<open>An answer comes with a body to close.\<close>

definition api_send :: "(outside_call \<Rightarrow> bool) \<Rightarrow> api \<Rightarrow> request \<Rightarrow> (db, 's, api_error + response) job" where
  "api_send fails a rq =
     (if fails SendRequest then return_p (Inl SendError)
      else bind_p (lift_p (api_handler a rq)) (\<lambda>r. case r of
          Inl e \<Rightarrow> return_p (Inl SendError)
        | Inr resp \<Rightarrow> bind_p (emit (Opened ResponseBody)) (\<lambda>_. return_p (Inr resp))))"

definition api_do ::
    "(outside_call \<Rightarrow> bool) \<Rightarrow> ('v \<Rightarrow> json option) \<Rightarrow> (string \<Rightarrow> (string list \<times> (string \<times> string) list) option)
      \<Rightarrow> api \<Rightarrow> string \<Rightarrow> string \<Rightarrow> 'v option \<Rightarrow> (string \<times> string) list \<Rightarrow> (db, 's, api_error + response) job" where
  "api_do fails marshal target a verb path body headers =
     (case (case body of None \<Rightarrow> Some None | Some v \<Rightarrow> map_option Some (marshal v)) of
        None \<Rightarrow> return_p (Inl MarshalBodyError)
      | Some j \<Rightarrow>
          (case target path of
             None \<Rightarrow> return_p (Inl NewRequestError)
           | Some tgt \<Rightarrow> api_send fails a (api_request verb tgt j headers)))"

definition decode_json :: "(payload \<Rightarrow> 'v option) \<Rightarrow> response \<Rightarrow> (db, 's, api_error + 'v) job" where
  "decode_json decode resp =
     deferring ResponseBody (return_p
       (case decode (rs_body resp) of None \<Rightarrow> Inl DecodeJsonError | Some v \<Rightarrow> Inr v))"

section \<open>Resources\<close>

lemma uses_api_send [resources]:
  "uses rs (api_send fails a rq) (\<lambda>r. case r of Inl _ \<Rightarrow> rs | Inr _ \<Rightarrow> ResponseBody # rs)"
  unfolding api_send_def by (rule resources | simp)+

lemma uses_api_do [resources]:
  "uses rs (api_do fails marshal target a verb path body headers) (\<lambda>r. case r of Inl _ \<Rightarrow> rs | Inr _ \<Rightarrow> ResponseBody # rs)"
  unfolding api_do_def by (rule resources | simp)+

lemma uses_decode_json [resources]: "uses (ResponseBody # rs) (decode_json decode resp) (\<lambda>_. rs)"
  unfolding decode_json_def by (rule resources | simp)+

text \<open>A test that leaves nothing open leaves nothing of its server and database either, unless the pool is refused.\<close>

lemma uses_new_api:
  assumes "\<And>a rs. uses rs (test a) (\<lambda>_. rs)"
  shows "uses rs (new_api fails h name handler test)
    (\<lambda>r. case r of Inl (NewPool _) \<Rightarrow> TestDatabase name # rs | _ \<Rightarrow> rs)"
  unfolding new_api_def by (rule uses_fresh_db) (rule resources assms | simp)+

section \<open>What the client sends and gets\<close>

definition header_of :: "(string \<times> string) list \<Rightarrow> string \<Rightarrow> string" where
  "header_of hs k = (case find (\<lambda>(n, _). equal_fold n k) hs of None \<Rightarrow> [] | Some (_, v) \<Rightarrow> v)"

lemma header_of_set: "header_of (header_set k v hs) k' = (if equal_fold k k' then v else header_of hs k')"
  by (induction hs) (auto simp: header_of_def header_set_def equal_fold_def)

lemma header_of_foldl:
  "(\<forall>x \<in> set xs. \<not> equal_fold (fst x) k) \<Longrightarrow> header_of (foldl (\<lambda>hs (k, v). header_set k v hs) hs xs) k = header_of hs k"
  by (induction xs arbitrary: hs) (auto simp: header_of_set)

text \<open>A header the test sets is the header the server reads, unless a later one replaces it.\<close>

lemma api_header:
  assumes "\<forall>x \<in> set later_headers. \<not> equal_fold (fst x) k"
  shows "header_get (api_request verb tgt body (headers @ (k, v) # later_headers)) k = v"
proof -
  have "header_get (api_request verb tgt body hs) k = header_of (api_headers body hs) k" for hs
    by (simp add: api_request_def header_get_def header_of_def)
  then show ?thesis
    using assms by (simp add: api_headers_def header_of_foldl header_of_set)
qed

text \<open>A test acts as the principal its header names, and as no platform administrator unless it says so.\<close>

lemma api_principal:
  assumes "trim_space who \<noteq> []"
  shows "header_authenticator (api_request verb tgt body [(''X-Baseline-Principal'', who)]) =
    Inr \<lparr>pr_id = trim_space who, pr_platform_admin = False\<rparr>"
  using assms
  by (simp add: header_authenticator_def api_request_def api_headers_def header_set_def header_get_def equal_fold_def
      to_lower_def lower_byte_def Let_def)

text \<open>
  The test drives the same handler as production: when nothing fails on the way, its effect on the store and
  its answer are those of the handler on the request the test has put together.
\<close>

lemma api_transparent:
  assumes "\<not> fails SendRequest" and "target path = Some tgt" and "case body of None \<Rightarrow> j = None | Some v \<Rightarrow> j = marshal v \<and> j \<noteq> None"
  shows "run (api_do fails marshal target a verb path body headers) fs d =
    (case run (api_handler a (api_request verb tgt j headers)) fs d of (r, d') \<Rightarrow>
       (Inr (case r of Inl e \<Rightarrow> (Returned (Inl SendError), []) | Inr resp \<Rightarrow> (Returned (Inr resp), [Opened ResponseBody])), d'))"
  using assms
  by (cases body) (auto simp: api_do_def api_send_def lift_p_def bind_p_def bind_sql_def attempt_def return_sql_def
      return_p_def emit_def run_def split: prod.split sum.split)

text \<open>A body arrives at the handlers as the value the test encoded.\<close>

lemma api_body: "decode_body dec msg (rq_body (api_request verb tgt (Some j) headers)) =
    (case dec j of None \<Rightarrow> Inl (write_error 400 msg) | Some v \<Rightarrow> Inr v)"
  by (simp add: api_request_def decode_body_def)

end
