(* ===== verification/Spec2Isabelle.thy ===== *)
theory Spec2Isabelle
  imports Mcp_Cli Concurrent_Runs Bounds Liveness Audit_Trail Startup Deployment Api_Test
begin

text \<open>
  Verification library of \<^verbatim>\<open>baseline\<close>, a service that curates facts: facts are proposed into namespaces,
  reviewed by people or by an engine, activated, superseded, revoked and expired, and read back as the
  context of an agent.

  \<^bold>\<open>The program.\<close> The state is one PostgreSQL database (\<^verbatim>\<open>internal/store/migrations\<close>): namespaces, memberships,
  facts, promotions and an append-only audit trail. Repositories (\<^verbatim>\<open>facts/repo.go\<close>, \<^verbatim>\<open>promotions/repo.go\<close>,
  \<^verbatim>\<open>namespaces/repo.go\<close>, \<^verbatim>\<open>rbac/repo.go\<close>, \<^verbatim>\<open>audit\<close>) issue one statement each; services (\<^verbatim>\<open>facts/service.go\<close>,
  \<^verbatim>\<open>promotions/service.go\<close>, \<^verbatim>\<open>reaper\<close>, \<^verbatim>\<open>facts/backfill.go\<close>) compose them in transactions. \<^verbatim>\<open>autopromote\<close> decides
  whether a proposal is promoted without review. \<^verbatim>\<open>contextsvc\<close> resolves what an agent is told and merges personal
  memories from a \<^verbatim>\<open>memory\<close> backend. \<^verbatim>\<open>server\<close> is the HTTP layer (authentication, authorization, handlers),
  \<^verbatim>\<open>mcpbridge\<close> turns tool calls into requests to that layer, \<^verbatim>\<open>cmd/baseline-mcp\<close> is a client of the bridge, and
  \<^verbatim>\<open>cmd/baseline\<close> wires everything from \<^verbatim>\<open>platform/config.go\<close>. \<^verbatim>\<open>metrics\<close> counts rows when the gauges are read.

  \<^bold>\<open>How effects are modelled.\<close> \<open>Sql\<close> holds programs over a session (\<open>('db, 'a) sql\<close>): the store, the flag of a
  transaction that the server has aborted, and the list \<open>faults\<close> that says of each statement to come whether it
  fails. \<open>stmt\<close> is one statement, \<open>bind_sql\<close> sequences, \<open>in_tx\<close> is \<^verbatim>\<open>pgx.BeginFunc\<close> (commit or roll back as a
  whole), \<open>on_pool\<close> a statement outside a transaction, \<open>attempt\<close> an error the code inspects or drops, and \<open>run\<close>
  runs a program under a pattern of faults from a store. A Go error is a value of \<open>error\<close> on the left of a sum.
  The schema's checks and unique indexes are conditions on the table a statement leaves (\<open>facts_ok\<close>,
  \<open>promotions_ok\<close>, \<open>schema_ok\<close>), so that a violation is the statement's error.

  \<^bold>\<open>Theories\<close>, in the order of imports, and the code each models:
  \<^item> \<open>Prelude\<close>: types shared by all, the rule collections \<open>sql_run\<close>, \<open>sql_safe\<close>, \<open>row_keep\<close>, \<open>effects\<close>, and the locale
    \<open>keyed_table\<close> (what looking up, inserting and updating by key promise).
  \<^item> \<open>Go_Strings\<close>, \<open>Json\<close>: the parts of \<^verbatim>\<open>strings\<close>, \<^verbatim>\<open>strconv\<close>, \<^verbatim>\<open>fmt\<close> and \<^verbatim>\<open>encoding/json\<close> the source uses, on byte
    strings and decoded values.
  \<^item> \<open>Lifecycle\<close>, \<open>Subject\<close>: \<^verbatim>\<open>facts/fact.go\<close>, \<^verbatim>\<open>statemachine.go\<close>, \<^verbatim>\<open>subject.go\<close>: the statuses and their table, with an
    inductive step relation, and the canonical key (exactly the subject's identity when no part holds a colon
    or an equals sign).
  \<^item> \<open>Schema\<close>: the rows and the constraints; \<open>keyed_table\<close> is interpreted on facts, promotions and namespaces.
  \<^item> \<open>Audit_Log\<close>, \<open>Evolution\<close>: \<^verbatim>\<open>audit.go\<close>, and \<open>evolves\<close>, the preorder of stores every statement respects (the trail
    grows, rows stay, identifying columns are kept).
  \<^item> \<open>Facts\<close>, \<open>Fact_Specs\<close>, \<open>Backfill\<close>: \<^verbatim>\<open>repo.go\<close>, \<^verbatim>\<open>service.go\<close>, \<^verbatim>\<open>backfill.go\<close>; revocation refines a compare-and-set,
    listings are scoped, a query vector only reorders, the backfill counts and converges.
  \<^item> \<open>Namespaces\<close>, \<open>Rbac\<close>: policies and their JSON form; roles, the permission matrix, grants, and resolution,
    whose recursive query is \<open>ancestors\<close>: it is proved to end on any parent links and to compute the closure.
  \<^item> \<open>Autopromote\<close>: the registry and \<^verbatim>\<open>simple/v1\<close>; the locale \<open>auto_engine\<close> is the contract of an engine (fail closed),
    interpreted on \<open>simple_validate\<close> and \<open>simple_evaluate\<close>.
  \<^item> \<open>Promotion\<close>, \<open>Promotions_Service\<close>: \<^verbatim>\<open>promotion.go\<close>, \<^verbatim>\<open>repo.go\<close>, \<^verbatim>\<open>service.go\<close>: propose, submit, approve, reject,
    request changes, withdraw, each with its guards and its transaction.
  \<^item> \<open>Promotion_Effects\<close>: each operation's clean run as one equation between stores; \<open>Approvals\<close> and \<open>Proposals\<close> state
    what each request answers on every branch, and when a quorum activates, is blocked or replays; \<open>Liveness\<close>
    that enough reviewers get a promotion approved.
  \<^item> \<open>Reaper\<close>, \<open>Metrics\<close>: \<^verbatim>\<open>reaper.go\<close> and \<^verbatim>\<open>metrics.go\<close>, with counts that are the numbers of the rows they are named for.
  \<^item> \<open>Governance\<close>, \<open>Preservation\<close>, \<open>System\<close>, \<open>Progress\<close>, \<open>Guarantees\<close>: the invariant that pairs promotions with facts,
    its preservation by every operation, the service as the step relation \<open>sys_step\<close> over interleaved operations
    and faults with \<open>reachable\<close> and \<open>later\<close>, and the guarantees over all reachable stores: every active fact was approved,
    one active fact for a subject, the lifecycle, append-only history.
  \<^item> \<open>Audit_Trail\<close>: in every reachable store the trail accounts for the status of each fact and the state of each
    promotion, so none changes without an event: its own or, for a promotion an engine approves, the event about its fact.
  \<^item> \<open>Interleaving\<close>: transactions as trees of statements (\<open>txn\<close>), each with the row locks it takes and the writes it
    makes, and the step relation \<open>db_step\<close> of a database on which many are open at once; \<open>alone\<close> is such a tree as
    a program of \<open>Sql\<close>. The locale \<open>row_locks\<close> states what a lock protects (a statement's answer depends on the
    committed store only through what it has locked, and writes touch only what is locked); its extension
    \<open>locked_system\<close> proves that the committed store is what the committed transactions do one by one.
  \<^item> \<open>Transactions\<close>, \<open>Locking\<close>: the transactions of \<^verbatim>\<open>promotions/service.go\<close>, \<^verbatim>\<open>facts/service.go\<close> and \<^verbatim>\<open>reaper.go\<close> as
    such trees (\<open>as_sql_tx\<close>: alone they are the programs above), and the interpretation of \<open>row_locks\<close> on them.
  \<^item> \<open>Concurrency\<close>, \<open>Concurrent_Runs\<close>: the interpretation of \<open>locked_system\<close> on the whole service, what concurrency
    keeps (pairing, quorum, append-only history), what it does not (the reaper against a revocation, from any
    reachable state with an overdue fact; the idempotency key), and the runs that show it.
  \<^item> \<open>Memory\<close>: \<^verbatim>\<open>memory.go\<close>, \<^verbatim>\<open>null\<close>, \<^verbatim>\<open>mem0\<close>; the locale \<open>read_port\<close> (a read depends on the backend's answers to read
    requests only) is interpreted on the adapter's three reads, which give back what the documented wire form
    carries and tell the four failures apart.
  \<^item> \<open>Context\<close>: \<^verbatim>\<open>contextsvc.go\<close>; the locale \<open>precedence\<close> proves the loop that keeps the best row of each key from
    two laws of the comparison, which \<open>cand_beats\<close> is shown to obey.
  \<^item> \<open>Http\<close>, \<open>Handlers\<close>, \<open>Endpoints\<close>: \<^verbatim>\<open>internal/server\<close>: request decoding, authentication, authorization, one
    definition for each handler, the route table and \<open>serve\<close>. The lemmas compute a handler's outcome along its
    code (\<open>ensures\<close>, collection \<open>outcome\<close>): always an answer, writes only with permission, reads only what the
    caller may see, no write with an error.
  \<^item> \<open>Codec\<close>: the encoding of structured values in \<^verbatim>\<open>jsonb\<close> columns and the scanning of rows (\<^verbatim>\<open>scanFact\<close>,
    \<^verbatim>\<open>scanRow\<close>). The repositories keep the structured value in the row; the round trip proved here is what
    justifies it.
  \<^item> \<open>Mcp_Bridge\<close>: \<^verbatim>\<open>mcpbridge.go\<close>: the request of each tool, routed by a \<^verbatim>\<open>chi\<close> that does what it documents (\<open>serves_routes\<close>) to the
    endpoint of the tool and answered with its answer; the bridge adds no power and loses no argument.
  \<^item> \<open>Bounds\<close>: the limits of listings and context answers.
  \<^item> \<open>Config\<close>, \<open>Mcp_Cli\<close>: \<^verbatim>\<open>platform/config.go\<close>, \<^verbatim>\<open>embed.go\<close>, the wiring of \<^verbatim>\<open>cmd/baseline\<close>, and \<^verbatim>\<open>cmd/baseline-mcp\<close>.
  \<^item> \<open>Process\<close>, \<open>Store\<close>, \<open>Logging\<close>, \<open>Startup\<close>: processes that open and close resources, with deferred calls and
    \<^verbatim>\<open>os.Exit\<close>; \<open>uses\<close> is a Hoare-style account of the resources and \<open>explains\<close> of the log, proved along the code
    (collections \<open>resources\<close>, \<open>explaining\<close>). On it \<^verbatim>\<open>store.go\<close>, \<^verbatim>\<open>log.go\<close>, \<^verbatim>\<open>otel.go\<close> and \<^verbatim>\<open>cmd/baseline/main.go\<close> from
    its configuration to its end.
  \<^item> \<open>Test_Support\<close>, \<open>Api_Test\<close>: the test harness \<^verbatim>\<open>storetest.go\<close> and its HTTP client \<^verbatim>\<open>apitest.go\<close>: what a test leaves
    open, that no two tests share a database, and that the client drives the production handler unchanged.
  \<^item> \<open>Deployment\<close>: requests, tool calls and process runs are sequences of steps of \<open>System\<close> (collection \<open>acting\<close>), so the
    guarantees over reachable stores are guarantees of every deployment.
  \<^item> \<open>Samples\<close>, \<open>Scenario\<close>: concrete stores and a concrete history on which the properties are applied.

  \<^bold>\<open>Acceptance criteria.\<close> The list of \<^verbatim>\<open>docs/SPEC.md\<close>, section 14, and the theories that prove it: an active fact has an
  approved promotion (1), no two active facts share a key (2), and no proposer approves their own promotion (6):
  \<open>Guarantees\<close>; answers stay within the caller's namespaces (3) and the permission matrix (10): \<open>Endpoints\<close>, \<open>Rbac\<close>; a
  context holds active facts only (4) and obeys precedence (9): \<open>Context\<close>; transitions leave their audit events (5):
  \<open>Audit_Trail\<close>; an approval supersedes the conflict with lineage both ways (7): \<open>Approvals\<close>; a stale version writes
  nothing (8): \<open>Fact_Specs\<close>; auto-promotion fails closed (11), is attributed (12), is a function of its input (13) and
  isolates versions (14): \<open>Autopromote\<close>, \<open>Proposals\<close>; the key is a function of the subject (16) and recomputed on
  every write (17): \<open>Subject\<close>, \<open>Facts\<close>, \<open>Evolution\<close>. A policy with rules its engine refuses is rejected (15) by \<^verbatim>\<open>PATCH\<close>
  only, not when a namespace is created. Under concurrent transactions \<open>Concurrent_Runs\<close> says what remains.

  \<^bold>\<open>Parameters.\<close> The database clock (\<open>now\<close>) and the process clock (\<open>wall\<close>), new uuids, the order in which a query
  without \<^verbatim>\<open>ORDER BY\<close> returns rows (a \<open>plan\<close>, assumed a permutation), the distance of vectors, the embedder, the HTTP
  transports, which calls of pgx, goose, the OpenTelemetry meter and the listener fail (\<open>fails\<close>), \<^verbatim>\<open>uuid.Parse\<close>, \<^verbatim>\<open>time.Parse\<close>, the text syntax of JSON, the conversion of a number to a \<^verbatim>\<open>float32\<close>, and
  the router \<^verbatim>\<open>chi\<close> with the route table as its argument. No fuel is used: every loop of the source is a
  structural recursion or has a termination proof.

  \<^bold>\<open>Bounds.\<close> Versions and counters are unbounded integers; \<^verbatim>\<open>strconv.Atoi\<close> has its 64-bit range, with the saturated
  value a caller that drops the error receives. Vectors are lists of integers, since only their length and their
  distance matter. Strings are bytes; white space is
  what \<^verbatim>\<open>unicode.IsSpace\<close> accepts, case folding is that of ASCII letters, and \<^verbatim>\<open>ORDER BY\<close> a text compares bytes,
  as the C collation does. Of a member that occurs twice in an object the last counts.

  \<^bold>\<open>Interleavings.\<close> Two models of time coexist. In \<open>System\<close> units of work take effect one after another, with any
  faults; in \<open>Concurrency\<close> the transactions of the workflow interleave statement by statement under the row locks of
  PostgreSQL at its default isolation level, each statement reading the committed store and the writes of its own
  transaction. There a statement that would wait for a lock is a step that is not taken yet; any statement may
  fail and any transaction may be rolled back at any time, which covers deadlock victims and refused commits. An
  \<^verbatim>\<open>UPDATE\<close> by id is taken to lock the id even when no row has it. The two reads that choose what a transaction
  works on without locking it (the conflict of \<^verbatim>\<open>Propose\<close>, the ids of \<^verbatim>\<open>Reap\<close>) are made when it begins and may be
  stale; the reads before a transaction (policy, idempotency key) are its arguments, and a statement outside a
  transaction is one step that respects the locks held.

  \<^bold>\<open>Not modelled.\<close> The one warning \<^verbatim>\<open>contextsvc.go\<close> logs when a memory backend fails, the text of errors in log lines,
  attributes and durations of spans, timeouts of contexts, the bytes of an encoded response, the descriptions of the tools, and the approximation
  error of the vector index.
\<close>

end
